(* ===== verification/JWT_Prelude.thy ===== *)
theory JWT_Prelude
  imports Complex_Main "HOL-Library.Word"
begin

text \<open>
  Shared vocabulary of the development: the byte and error types, the functions of Go's
  \<^verbatim>\<open>strings\<close> and \<^verbatim>\<open>bytes\<close> packages the sources call, and generic lemmas on them.

  Go's \<^verbatim>\<open>string\<close> and \<^verbatim>\<open>[]byte\<close> are both sequences of bytes, and HOL's \<^typ>\<open>char\<close> is a byte,
  so both are \<^typ>\<open>string\<close> here and the conversions between them are the identity.
  \<^verbatim>\<open>len\<close> is an integer, as in Go.  An \<^verbatim>\<open>error\<close> is the list of the sentinels its wrap chain
  (\<^verbatim>\<open>fmt.Errorf\<close> with \<^verbatim>\<open>%w\<close>) holds; \<^verbatim>\<open>errors.Is\<close> is membership, and the message text, which
  no code of the repository inspects, is dropped.
\<close>

section \<open>Collections of rules\<close>

named_theorems go_str \<open>evaluation and characterisation of the Go string functions\<close>
named_theorems err_defs \<open>definitions of the error operations\<close>

section \<open>Types\<close>

type_synonym bytes = string

text \<open>
  The sentinels of \<^verbatim>\<open>errors.go\<close>, \<^verbatim>\<open>internal/errors\<close> and of the other source files, and, last,
  those of the standard library and of caller-supplied code that can be wrapped with them.
\<close>

datatype sentinel =
    ErrInvalidSignature | ErrExpired | ErrNotYetValid | ErrIssuerMismatch | ErrAudienceMismatch
  | ErrAlgorithmNotAllowed | ErrNoAllowedAlgorithms | ErrMissingClaim | ErrMalformedToken
  | ErrTypeMismatch | ErrWeakKey | ErrUnsupportedAlgorithm | ErrKeyNotFound | ErrKeyTypeMismatch
  | ErrMalformedKey | ErrOctNotServable | ErrKeyUsage | ErrUnsupportedCritical
  | ErrInvalidClaims | ErrInvalidDestination | ErrInvalidClaim | ErrKeyProvider | ErrVerifierProvider
  | ErrDecryptionFailed | ErrKeyFetch | ErrNoClaimsInContext
  | ErrInvalidRevocationID | ErrInvalidRevocationCapacity | ErrRevocationStoreFull
  | ErrNotObject | ErrNumericDateRange | ErrB64Newline | ErrSSHShort
  | CorruptInputError | JSONError | ContextDeadlineExceeded | ContextCanceled
  | OtherError string

type_synonym go_error = "sentinel list"

type_synonym 'a result = "go_error + 'a"

definition errors_is :: "go_error \<Rightarrow> sentinel \<Rightarrow> bool" where
  "errors_is e s \<longleftrightarrow> s \<in> set e"

definition wrap :: "sentinel \<Rightarrow> go_error \<Rightarrow> go_error" where
  "wrap s e = s # e"

lemma errors_is_wrap [simp]: "errors_is (wrap s e) t \<longleftrightarrow> t = s \<or> errors_is e t"
  by (auto simp: errors_is_def wrap_def)

lemma errors_is_single [simp]: "errors_is [s] t \<longleftrightarrow> t = s"
  by (auto simp: errors_is_def)

declare wrap_def [err_defs] and errors_is_def [err_defs]

section \<open>Lengths and bytes\<close>

definition len :: "'a list \<Rightarrow> int" where
  "len xs = int (length xs)"

lemma len_simps [simp]:
  "len [] = 0" "len (x # xs) = len xs + 1" "len (xs @ ys) = len xs + len ys"
  by (simp_all add: len_def)

lemma len_nonneg [simp]: "0 \<le> len xs" "\<not> len xs < 0"
  by (simp_all add: len_def)

lemma len_eq_0 [simp]: "len xs = 0 \<longleftrightarrow> xs = []" "0 = len xs \<longleftrightarrow> xs = []" "len xs \<le> 0 \<longleftrightarrow> xs = []"
  by (auto simp: len_def)

lemma len_pos [simp]: "0 < len xs \<longleftrightarrow> xs \<noteq> []"
  by (auto simp: len_def)

abbreviation ord :: "char \<Rightarrow> int" where
  "ord c \<equiv> of_char c"

abbreviation chr :: "int \<Rightarrow> char" where
  "chr n \<equiv> char_of n"

lemma ord_nonneg [simp]: "0 \<le> ord c"
  using pos_mod_sign [of "256::int" "ord c"] by (simp del: pos_mod_sign)

lemma ord_less_256 [simp]: "ord c < 256"
  using pos_mod_bound [of "256::int" "ord c"] by (simp del: pos_mod_bound)

lemma ord_chr: "0 \<le> n \<Longrightarrow> n < 256 \<Longrightarrow> ord (chr n) = n"
  by simp

lemma ord_inject [simp]: "ord c = ord d \<longleftrightarrow> c = d"
  by (metis char_of_char)

section \<open>Character classes\<close>

definition isDigit :: "char \<Rightarrow> bool" where
  "isDigit c \<longleftrightarrow> 48 \<le> ord c \<and> ord c \<le> 57"

definition isUpper :: "char \<Rightarrow> bool" where
  "isUpper c \<longleftrightarrow> 65 \<le> ord c \<and> ord c \<le> 90"

definition isLower :: "char \<Rightarrow> bool" where
  "isLower c \<longleftrightarrow> 97 \<le> ord c \<and> ord c \<le> 122"

definition isASCII :: "char \<Rightarrow> bool" where
  "isASCII c \<longleftrightarrow> ord c < 128"

definition ascii_lower :: "char \<Rightarrow> char" where
  "ascii_lower c = (if isUpper c then chr (ord c + 32) else c)"

section \<open>The string functions the sources use\<close>

text \<open>\<^verbatim>\<open>strings.IndexByte\<close>: the index of the first occurrence, or -1.\<close>

fun index_byte :: "string \<Rightarrow> char \<Rightarrow> int" where
  "index_byte [] c = -1"
| "index_byte (x # xs) c =
     (if x = c then 0 else let i = index_byte xs c in if i < 0 then -1 else i + 1)"

lemma index_byte_neg: "index_byte s c < 0 \<longleftrightarrow> c \<notin> set s"
  by (induction s) (auto simp: Let_def)

lemma index_byte_append: "c \<notin> set s \<Longrightarrow> index_byte (s @ c # t) c = len s"
  by (induction s) (auto simp: Let_def not_less)

lemma index_byte_split:
  "0 \<le> index_byte s c \<Longrightarrow>
   s = take (nat (index_byte s c)) s @ c # drop (nat (index_byte s c) + 1) s \<and>
   c \<notin> set (take (nat (index_byte s c)) s)"
  by (induction s) (auto simp: Let_def nat_add_distrib split: if_splits)

text \<open>\<^verbatim>\<open>strings.Split(s, sep)\<close> for a one-byte separator.\<close>

fun split_on :: "char \<Rightarrow> string \<Rightarrow> string list" where
  "split_on c [] = [[]]"
| "split_on c (x # xs) =
     (if x = c then [] # split_on c xs
      else (case split_on c xs of [] \<Rightarrow> [[x]] | p # ps \<Rightarrow> (x # p) # ps))"

fun join_with :: "string \<Rightarrow> string list \<Rightarrow> string" where
  "join_with sep [] = []"
| "join_with sep [s] = s"
| "join_with sep (s # t # ss) = s @ sep @ join_with sep (t # ss)"

lemma split_on_nonempty [simp]: "split_on c s \<noteq> []"
  by (induction s) (auto split: list.splits)

lemma join_split_on: "join_with [c] (split_on c s) = s"
proof (induction s)
  case Nil
  show ?case by simp
next
  case (Cons x xs)
  obtain p ps where ps: "split_on c xs = p # ps"
    using split_on_nonempty [of c xs] by (cases "split_on c xs") auto
  with Cons show ?case by (cases ps) auto
qed

lemma split_on_notin: "p \<in> set (split_on c s) \<Longrightarrow> c \<notin> set p"
proof (induction s arbitrary: p)
  case Nil
  then show ?case by simp
next
  case (Cons x xs)
  obtain q qs where qs: "split_on c xs = q # qs"
    using split_on_nonempty [of c xs] by (cases "split_on c xs") auto
  from Cons.prems show ?case
    by (auto simp: qs Cons.IH split: if_splits)
qed

lemma split_on_no_sep [simp]: "c \<notin> set s \<Longrightarrow> split_on c s = [s]"
  by (induction s) auto

lemma split_on_append_sep: "c \<notin> set s \<Longrightarrow> split_on c (s @ c # t) = s # split_on c t"
  by (induction s) auto

lemma length_split_on: "length (split_on c s) = count_list s c + 1"
proof (induction s)
  case Nil
  show ?case by simp
next
  case (Cons x xs)
  then show ?case
    using split_on_nonempty [of c xs] by (cases "split_on c xs") auto
qed

lemma split_on_join:
  "ps \<noteq> [] \<Longrightarrow> \<forall>p \<in> set ps. c \<notin> set p \<Longrightarrow> split_on c (join_with [c] ps) = ps"
  by (induction "[c]" ps rule: join_with.induct) (auto simp: split_on_append_sep)

text \<open>\<^verbatim>\<open>strings.Cut(s, sep)\<close> for a one-byte separator: before, after, found.\<close>

definition cut :: "char \<Rightarrow> string \<Rightarrow> string \<times> string \<times> bool" where
  "cut c s = (if c \<in> set s
     then (takeWhile (\<lambda>x. x \<noteq> c) s, tl (dropWhile (\<lambda>x. x \<noteq> c) s), True)
     else (s, [], False))"

definition has_prefix :: "string \<Rightarrow> string \<Rightarrow> bool" where
  "has_prefix s p \<longleftrightarrow> take (length p) s = p"

definition has_suffix :: "string \<Rightarrow> string \<Rightarrow> bool" where
  "has_suffix s p \<longleftrightarrow> has_prefix (rev s) (rev p)"

text \<open>\<^verbatim>\<open>TrimLeft\<close> and \<^verbatim>\<open>TrimRight\<close> with an ASCII cutset.\<close>

definition trim_left :: "string \<Rightarrow> string \<Rightarrow> string" where
  "trim_left s cutset = dropWhile (\<lambda>c. c \<in> set cutset) s"

definition trim_right :: "string \<Rightarrow> string \<Rightarrow> string" where
  "trim_right s cutset = rev (dropWhile (\<lambda>c. c \<in> set cutset) (rev s))"

definition trim_suffix :: "string \<Rightarrow> string \<Rightarrow> string" where
  "trim_suffix s p = (if has_suffix s p then take (length s - length p) s else s)"

text \<open>
  \<^verbatim>\<open>TrimSpace\<close> strips the runes of \<^verbatim>\<open>unicode.IsSpace\<close> at both ends; their UTF-8 encodings
  are listed (ASCII, U+0085, U+00A0, U+1680, U+2000--U+200A, U+2028, U+2029, U+202F,
  U+205F, U+3000).
\<close>

definition space_runes :: "string list" where
  "space_runes = [[chr 32], [chr 9], [chr 10], [chr 11], [chr 12], [chr 13],
     [chr 0xC2, chr 0x85], [chr 0xC2, chr 0xA0], [chr 0xE1, chr 0x9A, chr 0x80]]
     @ map (\<lambda>n. [chr 0xE2, chr 0x80, chr n])
         [0x80, 0x81, 0x82, 0x83, 0x84, 0x85, 0x86, 0x87, 0x88, 0x89, 0x8A, 0xA8, 0xA9, 0xAF]
     @ [[chr 0xE2, chr 0x81, chr 0x9F], [chr 0xE3, chr 0x80, chr 0x80]]"

lemma space_runes_nonempty: "p \<in> set space_runes \<Longrightarrow> p \<noteq> []"
  by (auto simp: space_runes_def)

text \<open>Strip any of the given non-empty prefixes as long as one matches; the fuel is the length.\<close>

fun strip_prefixes :: "nat \<Rightarrow> string list \<Rightarrow> string \<Rightarrow> string" where
  "strip_prefixes 0 ps s = s"
| "strip_prefixes (Suc n) ps s =
     (case find (\<lambda>p. has_prefix s p) ps of
        None \<Rightarrow> s
      | Some p \<Rightarrow> strip_prefixes n ps (drop (length p) s))"

definition trim_space :: "string \<Rightarrow> string" where
  "trim_space s =
     (let l = strip_prefixes (length s) space_runes s
      in rev (strip_prefixes (length l) (map rev space_runes) (rev l)))"

text \<open>The fuel suffices: no listed prefix is left at the front.\<close>

lemma strip_prefixes_done:
  assumes "\<And>p. p \<in> set ps \<Longrightarrow> p \<noteq> []" "length s \<le> n" "p \<in> set ps"
  shows "\<not> has_prefix (strip_prefixes n ps s) p"
  using assms(2)
proof (induction n arbitrary: s)
  case 0
  then show ?case using assms(1,3) by (auto simp: has_prefix_def)
next
  case (Suc n)
  show ?case
  proof (cases "find (\<lambda>p. has_prefix s p) ps")
    case None
    then have "\<not> has_prefix s p" using assms(3) by (auto simp: find_None_iff)
    with None show ?thesis by simp
  next
    case (Some q)
    then have "q \<in> set ps" "has_prefix s q" by (auto simp: find_Some_iff)
    then have q: "q \<noteq> []" "take (length q) s = q"
      using assms(1) by (auto simp: has_prefix_def)
    then have "0 < length q" "s \<noteq> []" by auto
    then have "length (drop (length q) s) < length s" by simp
    with Suc have "\<not> has_prefix (strip_prefixes n ps (drop (length q) s)) p" by simp
    with Some show ?thesis by simp
  qed
qed

text \<open>
  \<^verbatim>\<open>strings.EqualFold(s, t)\<close> for a constant ASCII \<open>t\<close>, which is how every caller uses it.
  Beside ASCII case, Unicode simple folding relates U+017F (long s) to \<open>s\<close> and U+212A (the
  Kelvin sign) to \<open>k\<close>; no other non-ASCII rune folds to an ASCII letter.
\<close>

fun equal_fold :: "string \<Rightarrow> string \<Rightarrow> bool" where
  "equal_fold s [] \<longleftrightarrow> s = []"
| "equal_fold [] (c # t) \<longleftrightarrow> False"
| "equal_fold (x # s) (c # t) \<longleftrightarrow>
     (if isASCII x then ascii_lower x = ascii_lower c \<and> equal_fold s t
      else if x = chr 0xC5 \<and> s \<noteq> [] \<and> hd s = chr 0xBF \<and> ascii_lower c = CHR ''s''
        then equal_fold (tl s) t
      else if x = chr 0xE2 \<and> length s \<ge> 2 \<and> s ! 0 = chr 0x84 \<and> s ! 1 = chr 0xAA
              \<and> ascii_lower c = CHR ''k''
        then equal_fold (drop 2 s) t
      else False)"

text \<open>
  \<^verbatim>\<open>strings.ToLower\<close>: on an all-ASCII string a bytewise map; otherwise Unicode's lower-case
  tables, which are the parameter \<open>uni_lower\<close>.
\<close>

definition to_lower :: "(string \<Rightarrow> string) \<Rightarrow> string \<Rightarrow> string" where
  "to_lower uni_lower s = (if list_all isASCII s then map ascii_lower s else uni_lower s)"

text \<open>\<^verbatim>\<open>internal/option.FirstString\<close> and \<^verbatim>\<open>optKID\<close> of \<^verbatim>\<open>internal/alg\<close>.\<close>

definition FirstString :: "string list \<Rightarrow> string" where
  "FirstString values = (case values of [] \<Rightarrow> [] | v # _ \<Rightarrow> v)"

definition optKID :: "string list \<Rightarrow> string" where
  "optKID kid = (if len kid > 0 then kid ! 0 else [])"

lemma optKID_FirstString: "optKID kid = FirstString kid"
  by (cases kid) (auto simp: optKID_def FirstString_def)

text \<open>\<^verbatim>\<open>internal/bytes.LeftPad\<close>.\<close>

definition LeftPad :: "bytes \<Rightarrow> int \<Rightarrow> bytes" where
  "LeftPad b sz = (if len b \<ge> sz then b else replicate (nat (sz - len b)) (chr 0) @ b)"

text \<open>Big-endian integers: \<^verbatim>\<open>big.Int.SetBytes\<close> and \<^verbatim>\<open>big.Int.Bytes\<close>.\<close>

definition be_int :: "bytes \<Rightarrow> int" where
  "be_int bs = foldl (\<lambda>n c. n * 256 + ord c) 0 bs"

function be_bytes :: "int \<Rightarrow> bytes" where
  "be_bytes n = (if n \<le> 0 then [] else be_bytes (n div 256) @ [chr (n mod 256)])"
  by pat_completeness auto
termination by (relation "measure nat") auto

declare be_bytes.simps [simp del]

lemma be_int_Nil [simp]: "be_int [] = 0"
  by (simp add: be_int_def)

lemma be_int_snoc [simp]: "be_int (bs @ [c]) = be_int bs * 256 + ord c"
  by (simp add: be_int_def)

lemma be_int_nonneg [simp]: "0 \<le> be_int bs"
  by (induction bs rule: rev_induct) auto

lemma be_int_be_bytes: "0 \<le> n \<Longrightarrow> be_int (be_bytes n) = n"
proof (induction n rule: be_bytes.induct)
  case (1 n)
  show ?case
  proof (cases "n \<le> 0")
    case True
    with "1.prems" show ?thesis by (simp add: be_bytes.simps)
  next
    case False
    with 1 show ?thesis by (subst be_bytes.simps) simp
  qed
qed

lemma be_int_Cons: "be_int (c # bs) = ord c * 256 ^ length bs + be_int bs"
proof (induction bs rule: rev_induct)
  case Nil
  show ?case by (simp add: be_int_def)
next
  case (snoc b bs)
  have "be_int (c # bs @ [b]) = be_int (c # bs) * 256 + ord b"
    using be_int_snoc [of "c # bs" b] by simp
  with snoc show ?case by (simp add: algebra_simps)
qed

lemma be_int_zeros [simp]: "be_int (replicate n (chr 0) @ bs) = be_int bs"
  by (induction n) (simp_all add: be_int_Cons)

lemma be_bytes_be_int:
  "bs = [] \<or> hd bs \<noteq> chr 0 \<Longrightarrow> be_bytes (be_int bs) = bs"
proof (induction bs rule: rev_induct)
  case Nil
  show ?case by (simp add: be_bytes.simps)
next
  case (snoc b bs)
  have hd: "bs = [] \<or> hd bs \<noteq> chr 0"
    using snoc.prems by (cases bs) auto
  have pos: "0 < be_int (bs @ [b])"
  proof (cases bs)
    case Nil
    with snoc.prems have "ord b \<noteq> 0" by (metis append_Nil char_of_char list.sel(1) not_Cons_self2)
    then have "0 < ord b" using ord_nonneg [of b] by linarith
    with Nil show ?thesis by (simp add: be_int_Cons)
  next
    case (Cons c cs)
    with snoc.prems have "ord c \<noteq> 0" by (metis char_of_char append_Cons list.sel(1) list.discI)
    then have "0 < ord c" using ord_nonneg [of c] by linarith
    then have "0 < ord c * 256 ^ length (cs @ [b])" by simp
    with Cons show ?thesis by (simp add: be_int_Cons add_pos_nonneg del: be_int_snoc)
  qed
  with snoc.IH [OF hd] show ?case
    by (subst be_bytes.simps) simp
qed

lemma LeftPad_be_int: "be_int (LeftPad b sz) = be_int b"
  by (simp add: LeftPad_def)

lemma LeftPad_len: "len (LeftPad b sz) = max (len b) sz"
  by (simp add: LeftPad_def len_def)

text \<open>\<^verbatim>\<open>big.Int.BitLen\<close> of a non-negative integer.\<close>

function bit_len :: "int \<Rightarrow> int" where
  "bit_len n = (if n \<le> 0 then 0 else bit_len (n div 2) + 1)"
  by pat_completeness auto
termination by (relation "measure nat") auto

declare bit_len.simps [simp del]

lemma bit_len_bounds: "0 < n \<Longrightarrow> 0 < bit_len n \<and> 2 ^ nat (bit_len n - 1) \<le> n \<and> n < 2 ^ nat (bit_len n)"
proof (induction n rule: bit_len.induct)
  case (1 n)
  show ?case
  proof (cases "n = 1")
    case True
    then show ?thesis by (simp add: bit_len.simps)
  next
    case False
    with "1.prems" have "0 < n div 2" by simp
    with 1 have IH: "0 < bit_len (n div 2)" "2 ^ nat (bit_len (n div 2) - 1) \<le> n div 2"
        "n div 2 < 2 ^ nat (bit_len (n div 2))" by auto
    from IH(1) have eq: "nat (bit_len (n div 2)) = Suc (nat (bit_len (n div 2) - 1))" by simp
    have bl: "bit_len n = bit_len (n div 2) + 1"
      using "1.prems" by (subst bit_len.simps) simp
    have "2 * 2 ^ nat (bit_len (n div 2) - 1) \<le> n" using IH(2) by simp
    moreover have "n < 2 * 2 ^ nat (bit_len (n div 2))" using IH(3) by simp
    moreover have "nat (bit_len n) = Suc (nat (bit_len (n div 2)))" using IH(1) bl by simp
    ultimately show ?thesis using bl eq IH(1) by simp
  qed
qed

lemma bit_len_nonneg [simp]: "0 \<le> bit_len n"
  by (induction n rule: bit_len.induct) (subst bit_len.simps, simp)

section \<open>Association lists\<close>

text \<open>Replace or append, keeping the order of first insertion.\<close>

fun alist_set :: "'k \<Rightarrow> 'v \<Rightarrow> ('k \<times> 'v) list \<Rightarrow> ('k \<times> 'v) list" where
  "alist_set k v [] = [(k, v)]"
| "alist_set k v ((k', v') # xs) = (if k' = k then (k, v) # xs else (k', v') # alist_set k v xs)"

lemma map_of_alist_set [simp]: "map_of (alist_set k v xs) = (map_of xs)(k \<mapsto> v)"
  by (induction k v xs rule: alist_set.induct) (auto simp: fun_eq_iff)

lemma dom_alist_set: "fst ` set (alist_set k v xs) = insert k (fst ` set xs)"
  by (induction k v xs rule: alist_set.induct) auto

lemma distinct_alist_set: "distinct (map fst xs) \<Longrightarrow> distinct (map fst (alist_set k v xs))"
proof (induction k v xs rule: alist_set.induct)
  case (2 k v k' v' xs)
  then show ?case using dom_alist_set [of k v xs] by auto
qed simp

lemma length_alist_set:
  "length (alist_set k v xs) = (if k \<in> fst ` set xs then length xs else length xs + 1)"
  by (induction k v xs rule: alist_set.induct) auto

definition alist_delete :: "'k \<Rightarrow> ('k \<times> 'v) list \<Rightarrow> ('k \<times> 'v) list" where
  "alist_delete k xs = filter (\<lambda>(k', _). k' \<noteq> k) xs"

lemma map_of_alist_delete [simp]: "map_of (alist_delete k xs) = (map_of xs)(k := None)"
  by (induction xs) (auto simp: alist_delete_def fun_eq_iff)

lemma distinct_alist_delete: "distinct (map fst xs) \<Longrightarrow> distinct (map fst (alist_delete k xs))"
  by (induction xs) (auto simp: alist_delete_def)

section \<open>Canonical codecs\<close>

text \<open>
  The interface of an encoding of which every value has one text and every accepted text one
  value: decoding inverts encoding, and what is accepted is what encoding writes.
\<close>

locale canonical_codec =
  fixes encode :: "'a \<Rightarrow> 'b" and decode :: "'b \<Rightarrow> 'a result"
  assumes decode_encode: "decode (encode x) = Inr x"
    and encode_decode: "decode s = Inr x \<Longrightarrow> encode x = s"
begin

lemma decode_iff: "decode s = Inr x \<longleftrightarrow> s = encode x"
  using decode_encode encode_decode by auto

lemma decode_inj: "decode s = Inr x \<Longrightarrow> decode t = Inr x \<Longrightarrow> s = t"
  using encode_decode by metis

lemma encode_inj: "encode x = encode y \<longleftrightarrow> x = y"
  using decode_encode by (metis sum.inject(2))

end

end
