(* ===== verification/B64.thy ===== *)
theory B64
  imports JWT_Prelude
begin

text \<open>
  \<^verbatim>\<open>internal/b64\<close>: unpadded base64url.  \<^verbatim>\<open>base64.RawURLEncoding\<close> of the standard library is
  modelled quantum by quantum, in its default and in its \<^verbatim>\<open>Strict()\<close> mode, which differ in
  whether non-zero trailing bits are refused.  Shown: the two round trips of the strict
  codec (so that each byte string has exactly one accepted encoding), the alphabet of the
  output, and the exact set of inputs the decoder accepts.
\<close>

section \<open>The alphabet\<close>

definition enc_char :: "int \<Rightarrow> char" where
  "enc_char n = (if n < 26 then chr (n + 65) else if n < 52 then chr (n + 71)
     else if n < 62 then chr (n - 4) else if n = 62 then CHR ''-'' else CHR ''_'')"

definition dec_char :: "char \<Rightarrow> int option" where
  "dec_char c = (if isUpper c then Some (ord c - 65) else if isLower c then Some (ord c - 71)
     else if isDigit c then Some (ord c + 4) else if c = CHR ''-'' then Some 62
     else if c = CHR ''_'' then Some 63 else None)"

definition b64_char :: "char \<Rightarrow> bool" where
  "b64_char c \<longleftrightarrow> dec_char c \<noteq> None"

lemma dec_enc_char [simp]: "0 \<le> n \<Longrightarrow> n < 64 \<Longrightarrow> dec_char (enc_char n) = Some n"
  by (auto simp: dec_char_def enc_char_def isUpper_def isLower_def isDigit_def)

lemma dec_charD: "dec_char c = Some n \<Longrightarrow> enc_char n = c \<and> 0 \<le> n \<and> n < 64"
  by (auto simp: dec_char_def enc_char_def isUpper_def isLower_def isDigit_def split: if_splits)

section \<open>Encoding\<close>

fun b64_encode :: "bytes \<Rightarrow> string" where
  "b64_encode [] = []"
| "b64_encode [a] = [enc_char (ord a div 4), enc_char (ord a mod 4 * 16)]"
| "b64_encode [a, b] =
     [enc_char (ord a div 4), enc_char (ord a mod 4 * 16 + ord b div 16), enc_char (ord b mod 16 * 4)]"
| "b64_encode (a # b # c # r) =
     enc_char (ord a div 4) # enc_char (ord a mod 4 * 16 + ord b div 16) #
     enc_char (ord b mod 16 * 4 + ord c div 64) # enc_char (ord c mod 64) # b64_encode r"

text \<open>
  The decoder of \<^verbatim>\<open>encoding/base64\<close> without padding: quanta of four characters, a last
  quantum of two or three, an error on a single left-over character or one outside the
  alphabet, and, in strict mode, on non-zero trailing bits.
\<close>

fun decode_quanta :: "bool \<Rightarrow> string \<Rightarrow> bytes option" where
  "decode_quanta strict [] = Some []"
| "decode_quanta strict [x] = None"
| "decode_quanta strict [x, y] =
     (case (dec_char x, dec_char y) of
        (Some i, Some j) \<Rightarrow>
          if strict \<and> j mod 16 \<noteq> 0 then None else Some [chr (i * 4 + j div 16)]
      | _ \<Rightarrow> None)"
| "decode_quanta strict [x, y, z] =
     (case (dec_char x, dec_char y, dec_char z) of
        (Some i, Some j, Some k) \<Rightarrow>
          if strict \<and> k mod 4 \<noteq> 0 then None
          else Some [chr (i * 4 + j div 16), chr (j mod 16 * 16 + k div 4)]
      | _ \<Rightarrow> None)"
| "decode_quanta strict (x # y # z # w # r) =
     (case (dec_char x, dec_char y, dec_char z, dec_char w) of
        (Some i, Some j, Some k, Some l) \<Rightarrow>
          map_option (\<lambda>bs. chr (i * 4 + j div 16) # chr (j mod 16 * 16 + k div 4)
                         # chr (k mod 4 * 64 + l) # bs) (decode_quanta strict r)
      | _ \<Rightarrow> None)"

definition is_crlf :: "char \<Rightarrow> bool" where
  "is_crlf c \<longleftrightarrow> c = chr 13 \<or> c = chr 10"

text \<open>\<^verbatim>\<open>DecodeString\<close> skips CR and LF wherever they stand.\<close>

definition base64_decode :: "bool \<Rightarrow> string \<Rightarrow> bytes result" where
  "base64_decode strict s =
     (case decode_quanta strict (filter (\<lambda>c. \<not> is_crlf c) s) of
        None \<Rightarrow> Inl [CorruptInputError]
      | Some b \<Rightarrow> Inr b)"

definition Encode :: "bytes \<Rightarrow> string" where
  "Encode b = b64_encode b"

definition Decode :: "string \<Rightarrow> bytes result" where
  "Decode s = (if list_ex is_crlf s then Inl [ErrB64Newline] else base64_decode True s)"

section \<open>Round trips\<close>

lemma quot_rem:
  fixes q r k :: int
  assumes "0 \<le> r" "r < k"
  shows "(q * k + r) div k = q" "(q * k + r) mod k = r"
  using assms by (simp_all add: div_add1_eq mod_add_eq [symmetric] div_pos_pos_trivial)

lemma quot_split:
  fixes n k m :: int
  assumes "0 \<le> n" "n < k * m" "0 < k"
  shows "0 \<le> n div k" "n div k < m"
proof -
  show "0 \<le> n div k" using assms by (simp add: pos_imp_zdiv_nonneg_iff)
  have "k * (n div k) \<le> n"
    using pos_mod_sign [OF assms(3), of n] mult_div_mod_eq [of k n] by linarith
  with assms have "k * (n div k) < k * m" by linarith
  with assms(3) show "n div k < m" by simp
qed

lemma byte_split_bounds:
  "0 \<le> ord a div 4" "ord a div 4 < 64" "0 \<le> ord a mod 4 * 16" "ord a mod 4 * 16 < 64"
  "0 \<le> ord a mod 4 * 16 + ord b div 16" "ord a mod 4 * 16 + ord b div 16 < 64"
  "0 \<le> ord b mod 16 * 4" "ord b mod 16 * 4 < 64"
  "0 \<le> ord b mod 16 * 4 + ord c div 64" "ord b mod 16 * 4 + ord c div 64 < 64"
proof -
  note q = quot_split [of "ord a" 4 64, simplified] quot_split [of "ord b" 16 16, simplified]
    quot_split [of "ord c" 64 4, simplified]
    pos_mod_bound [of 4 "ord a"] pos_mod_sign [of 4 "ord a"]
    pos_mod_bound [of 16 "ord b"] pos_mod_sign [of 16 "ord b"]
  show "0 \<le> ord a div 4" "ord a div 4 < 64" "0 \<le> ord a mod 4 * 16" "ord a mod 4 * 16 < 64"
    "0 \<le> ord a mod 4 * 16 + ord b div 16" "ord a mod 4 * 16 + ord b div 16 < 64"
    "0 \<le> ord b mod 16 * 4" "ord b mod 16 * 4 < 64"
    "0 \<le> ord b mod 16 * 4 + ord c div 64" "ord b mod 16 * 4 + ord c div 64 < 64"
    using q by linarith+
qed

lemma byte_joins:
  "ord a div 4 * 4 + (ord a mod 4 * 16) div 16 = ord a"
  "ord a div 4 * 4 + (ord a mod 4 * 16 + ord b div 16) div 16 = ord a"
  "(ord a mod 4 * 16 + ord b div 16) mod 16 * 16 + (ord b mod 16 * 4) div 4 = ord b"
  "(ord a mod 4 * 16 + ord b div 16) mod 16 * 16 + (ord b mod 16 * 4 + ord c div 64) div 4 = ord b"
  "(ord b mod 16 * 4 + ord c div 64) mod 4 * 64 + ord c mod 64 = ord c"
  using quot_split [of "ord b" 16 16] quot_split [of "ord c" 64 4]
  by (simp_all add: quot_rem)

lemma chr_byte_joins:
  "chr (ord a div 4 * 4 + (ord a mod 4 * 16) div 16) = a"
  "chr (ord a div 4 * 4 + (ord a mod 4 * 16 + ord b div 16) div 16) = a"
  "chr ((ord a mod 4 * 16 + ord b div 16) mod 16 * 16 + (ord b mod 16 * 4) div 4) = b"
  "chr ((ord a mod 4 * 16 + ord b div 16) mod 16 * 16 + (ord b mod 16 * 4 + ord c div 64) div 4) = b"
  "chr ((ord b mod 16 * 4 + ord c div 64) mod 4 * 64 + ord c mod 64) = c"
  by (simp_all only: byte_joins char_of_char)

lemma decode_encode: "decode_quanta strict (b64_encode b) = Some b"
proof (induction b rule: b64_encode.induct)
  case (2 a)
  have "(ord a mod 4 * 16) mod 16 = (0::int)" by presburger
  then show ?case
    by (simp only: b64_encode.simps decode_quanta.simps dec_enc_char byte_split_bounds prod.case
        option.case chr_byte_joins) simp
next
  case (3 a b)
  have "(ord b mod 16 * 4) mod 4 = (0::int)" by presburger
  then show ?case
    by (simp only: b64_encode.simps decode_quanta.simps dec_enc_char byte_split_bounds prod.case
        option.case chr_byte_joins) simp
next
  case (4 a b c r)
  have "0 \<le> ord c mod 64" "ord c mod 64 < (64::int)" by simp_all
  then show ?case
    by (simp only: b64_encode.simps decode_quanta.simps dec_enc_char byte_split_bounds prod.case
        option.case chr_byte_joins 4 option.map)
qed simp

text \<open>The other direction: what the strict decoder accepts is the encoding of what it returns.\<close>

lemma sextet_joins:
  fixes i j k l :: int
  assumes "0 \<le> i" "i < 64" "0 \<le> j" "j < 64" "0 \<le> k" "k < 64" "0 \<le> l" "l < 64"
  shows "(i * 4 + j div 16) div 4 = i"
    "(i * 4 + j div 16) mod 4 * 16 + (j mod 16 * 16 + k div 4) div 16 = j"
    "(j mod 16 * 16 + k div 4) mod 16 * 4 + (k mod 4 * 64 + l) div 64 = k"
    "(k mod 4 * 64 + l) mod 64 = l"
    "0 \<le> i * 4 + j div 16" "i * 4 + j div 16 < 256"
    "0 \<le> j mod 16 * 16 + k div 4" "j mod 16 * 16 + k div 4 < 256"
    "0 \<le> k mod 4 * 64 + l" "k mod 4 * 64 + l < 256"
    "j mod 16 = 0 \<Longrightarrow> (i * 4 + j div 16) mod 4 * 16 = j"
    "k mod 4 = 0 \<Longrightarrow> (j mod 16 * 16 + k div 4) mod 16 * 4 = k"
proof -
  note q = quot_split [of j 16 4] quot_split [of k 4 16]
    pos_mod_bound [of 16 j] pos_mod_sign [of 16 j] pos_mod_bound [of 4 k] pos_mod_sign [of 4 k]
  show "(i * 4 + j div 16) div 4 = i"
    "(i * 4 + j div 16) mod 4 * 16 + (j mod 16 * 16 + k div 4) div 16 = j"
    "(j mod 16 * 16 + k div 4) mod 16 * 4 + (k mod 4 * 64 + l) div 64 = k"
    "(k mod 4 * 64 + l) mod 64 = l"
    "0 \<le> i * 4 + j div 16" "0 \<le> j mod 16 * 16 + k div 4" "0 \<le> k mod 4 * 64 + l"
    using assms q by (simp_all add: quot_rem)
  show "i * 4 + j div 16 < 256" "j mod 16 * 16 + k div 4 < 256" "k mod 4 * 64 + l < 256"
    using assms q by linarith+
  show "j mod 16 = 0 \<Longrightarrow> (i * 4 + j div 16) mod 4 * 16 = j"
    "k mod 4 = 0 \<Longrightarrow> (j mod 16 * 16 + k div 4) mod 16 * 4 = k"
    using assms q div_mult_mod_eq [of j 16] div_mult_mod_eq [of k 4] by (simp_all add: quot_rem)
qed

lemma encode_decode: "decode_quanta True s = Some b \<Longrightarrow> b64_encode b = s"
proof (induction "True" s arbitrary: b rule: decode_quanta.induct)
  case (3 x y)
  then obtain i j where ij: "dec_char x = Some i" "dec_char y = Some j"
    and tb: "j mod 16 = 0" and b: "b = [chr (i * 4 + j div 16)]"
    by (auto split: option.splits if_splits)
  note x = dec_charD [OF ij(1)] and y = dec_charD [OF ij(2)]
  then have "0 \<le> i" "i < 64" "0 \<le> j" "j < 64" "(0::int) \<le> 0" "(0::int) < 64" "(0::int) \<le> 0" "(0::int) < 64"
    by auto
  note sj = sextet_joins [OF this]
  show ?case using x y by (simp only: b b64_encode.simps ord_chr sj tb)
next
  case (4 x y z)
  then obtain i j k where ij: "dec_char x = Some i" "dec_char y = Some j" "dec_char z = Some k"
    and tb: "k mod 4 = 0" and b: "b = [chr (i * 4 + j div 16), chr (j mod 16 * 16 + k div 4)]"
    by (auto split: option.splits if_splits)
  note x = dec_charD [OF ij(1)] and y = dec_charD [OF ij(2)] and z = dec_charD [OF ij(3)]
  then have "0 \<le> i" "i < 64" "0 \<le> j" "j < 64" "0 \<le> k" "k < 64" "(0::int) \<le> 0" "(0::int) < 64"
    by auto
  note sj = sextet_joins [OF this]
  show ?case using x y z by (simp only: b b64_encode.simps ord_chr sj tb)
next
  case (5 x y z w r)
  then obtain i j k l bs where ij: "dec_char x = Some i" "dec_char y = Some j"
      "dec_char z = Some k" "dec_char w = Some l"
    and bs: "decode_quanta True r = Some bs"
    and b: "b = chr (i * 4 + j div 16) # chr (j mod 16 * 16 + k div 4) # chr (k mod 4 * 64 + l) # bs"
    by (auto split: option.splits if_splits)
  note x = dec_charD [OF ij(1)] and y = dec_charD [OF ij(2)] and z = dec_charD [OF ij(3)]
    and w = dec_charD [OF ij(4)]
  then have "0 \<le> i" "i < 64" "0 \<le> j" "j < 64" "0 \<le> k" "k < 64" "0 \<le> l" "l < 64" by auto
  note sj = sextet_joins [OF this]
  have r: "b64_encode bs = r" using 5 ij bs by simp
  show ?case using x y z w by (simp only: b b64_encode.simps ord_chr sj r)
qed simp_all

section \<open>The alphabet of encodings\<close>

lemma b64_char_enc: "0 \<le> n \<Longrightarrow> n < 64 \<Longrightarrow> b64_char (enc_char n)"
  by (simp add: b64_char_def)

lemma b64_encode_chars: "list_all b64_char (b64_encode b)"
proof (induction b rule: b64_encode.induct)
  case (2 a)
  then show ?case
    by (simp only: b64_encode.simps list.pred_inject b64_char_enc byte_split_bounds simp_thms)
next
  case (3 a b)
  then show ?case
    by (simp only: b64_encode.simps list.pred_inject b64_char_enc byte_split_bounds simp_thms)
next
  case (4 a b c r)
  have "0 \<le> ord c mod 64" "ord c mod 64 < (64::int)" by simp_all
  with 4 show ?case
    by (simp only: b64_encode.simps list.pred_inject b64_char_enc byte_split_bounds simp_thms)
qed simp

lemma b64_char_not_special: "b64_char c \<Longrightarrow> c \<noteq> CHR ''.'' \<and> \<not> is_crlf c"
proof -
  have "\<not> b64_char (CHR ''.'')" "\<not> b64_char (chr 13)" "\<not> b64_char (chr 10)" by code_simp+
  then show "b64_char c \<Longrightarrow> c \<noteq> CHR ''.'' \<and> \<not> is_crlf c" by (auto simp: is_crlf_def)
qed

lemma Encode_no_dot [simp]: "CHR ''.'' \<notin> set (Encode b)"
  using b64_encode_chars [of b] b64_char_not_special by (auto simp: Encode_def list_all_iff)

lemma Encode_no_crlf: "\<not> list_ex is_crlf (Encode b)"
  using b64_encode_chars [of b] b64_char_not_special
  by (auto simp: Encode_def list_all_iff list_ex_iff)

lemma b64_encode_len: "len (b64_encode b) = (len b * 4 + 2) div 3"
  by (induction b rule: b64_encode.induct) auto

lemma Encode_eq_Nil [simp]: "Encode b = [] \<longleftrightarrow> b = []"
  by (cases b rule: b64_encode.cases) (auto simp: Encode_def)

lemma Decode_no_crlf:
  "\<not> list_ex is_crlf s \<Longrightarrow> Decode s =
     (case decode_quanta True s of None \<Rightarrow> Inl [CorruptInputError] | Some b \<Rightarrow> Inr b)"
proof -
  assume "\<not> list_ex is_crlf s"
  moreover from this have "filter (\<lambda>c. \<not> is_crlf c) s = s"
    by (auto simp: list_ex_iff filter_id_conv)
  ultimately show ?thesis by (simp add: Decode_def base64_decode_def)
qed

lemma Decode_Encode [simp]: "Decode (Encode b) = Inr b"
  by (simp add: Decode_no_crlf [OF Encode_no_crlf]) (simp add: decode_encode Encode_def)

lemma Encode_Decode: "Decode s = Inr b \<Longrightarrow> Encode b = s"
proof -
  assume d: "Decode s = Inr b"
  then have n: "\<not> list_ex is_crlf s" by (auto simp: Decode_def split: if_splits)
  with d have "decode_quanta True s = Some b"
    by (auto simp: Decode_no_crlf split: option.splits)
  then show ?thesis by (simp add: Encode_def encode_decode)
qed

interpretation b64: canonical_codec Encode Decode
  by unfold_locales (simp_all add: Encode_Decode)

lemmas Decode_iff = b64.decode_iff
lemmas Decode_inj = b64.decode_inj

section \<open>Property\<close>

text \<open>
  C31: \<^verbatim>\<open>b64.Decode\<close> accepts exactly the texts that \<^verbatim>\<open>b64.Encode\<close> writes, and decodes each to the
  bytes it was written from: no padding, no line breaks, no non-zero trailing bits, so a byte
  string has one accepted encoding.
\<close>

theorem base64url_canonical: "Decode s = Inr b \<longleftrightarrow> s = Encode b"
  by (rule b64.decode_iff)

end
