(* ===== verification/JSON.thy ===== *)
theory JSON
  imports B64
begin

text \<open>
  The JSON functions of the standard library that the sources rely on.  Decoding is
  \<^verbatim>\<open>encoding/json/v2\<close> with its defaults: the RFC 8259 grammar, valid UTF-8 only, no duplicate
  member names at any level, at most 10000 levels of nesting, exact member names, JSON null
  as the zero value.  Each array element and object member keeps its raw text beside its
  value, because the sources decode members again from their raw text
  (\<^verbatim>\<open>jsontext.Value\<close>, \<^verbatim>\<open>json.RawMessage\<close>).  Encoding is \<^verbatim>\<open>encoding/json\<close>, which escapes
  HTML characters, U+2028 and U+2029, and replaces invalid UTF-8.  The flag \<open>strict\<close> of the parser
  tells the two decoders apart: \<^verbatim>\<open>encoding/json\<close> (\<open>json_lax\<close>) takes duplicate names and reads
  invalid UTF-8 and lone surrogates as U+FFFD.

  The recursive-descent parser is structural in a fuel argument; \<open>parse_fuel\<close> shows that any
  fuel above twice the length of the input gives the same result, so the fuel of
  \<open>json_text\<close> never decides the outcome.  \<open>reads_as\<close> relates an emitted text to the value the
  parser reads from it; it is shown for strings, arrays and objects of such texts.
\<close>

section \<open>Values\<close>

datatype json =
    JNull
  | JBool bool
  | JNum string \<comment> \<open>the literal as written\<close>
  | JStr string \<comment> \<open>unescaped\<close>
  | JArr "(string \<times> json) list" \<comment> \<open>raw text and value of each element\<close>
  | JObj "(string \<times> string \<times> json) list" \<comment> \<open>name, raw text and value of each member\<close>

section \<open>UTF-8\<close>

definition cont_byte :: "char \<Rightarrow> bool" where
  "cont_byte c \<longleftrightarrow> 0x80 \<le> ord c \<and> ord c \<le> 0xBF"

definition byte_in :: "int \<Rightarrow> int \<Rightarrow> char \<Rightarrow> bool" where
  "byte_in lo hi c \<longleftrightarrow> lo \<le> ord c \<and> ord c \<le> hi"

text \<open>The length of the well-formed UTF-8 sequence at the front, 0 if there is none.\<close>

fun utf8_len :: "string \<Rightarrow> nat" where
  "utf8_len [] = 0"
| "utf8_len (c # r) =
     (if ord c < 0x80 then 1
      else if ord c < 0xC2 then 0
      else if ord c < 0xE0 then
        (case r of a # _ \<Rightarrow> if cont_byte a then 2 else 0 | _ \<Rightarrow> 0)
      else if ord c < 0xF0 then
        (case r of a # b # _ \<Rightarrow>
           if byte_in (if ord c = 0xE0 then 0xA0 else 0x80) (if ord c = 0xED then 0x9F else 0xBF) a
              \<and> cont_byte b then 3 else 0
         | _ \<Rightarrow> 0)
      else if ord c < 0xF5 then
        (case r of a # b # e # _ \<Rightarrow>
           if byte_in (if ord c = 0xF0 then 0x90 else 0x80) (if ord c = 0xF4 then 0x8F else 0xBF) a
              \<and> cont_byte b \<and> cont_byte e then 4 else 0
         | _ \<Rightarrow> 0)
      else 0)"

definition utf8_encode :: "int \<Rightarrow> string" where
  "utf8_encode n =
     (if n < 0x80 then [chr n]
      else if n < 0x800 then [chr (0xC0 + n div 64), chr (0x80 + n mod 64)]
      else if n < 0x10000 then
        [chr (0xE0 + n div 4096), chr (0x80 + n div 64 mod 64), chr (0x80 + n mod 64)]
      else [chr (0xF0 + n div 262144), chr (0x80 + n div 4096 mod 64),
            chr (0x80 + n div 64 mod 64), chr (0x80 + n mod 64)])"

function valid_utf8 :: "string \<Rightarrow> bool" where
  "valid_utf8 s = (if s = [] then True else if utf8_len s = 0 then False
     else valid_utf8 (drop (utf8_len s) s))"
  by pat_completeness auto
termination by (relation "measure length") (auto simp del: utf8_len.simps)

declare valid_utf8.simps [simp del]

lemma utf8_len_cases:
  assumes "utf8_len s = n" "0 < n"
  obtains (one) c r where "s = c # r" "ord c < 0x80" "n = 1"
    | (two) c a r where "s = c # a # r" "0xC2 \<le> ord c" "ord c < 0xE0" "cont_byte a" "n = 2"
    | (three) c a b r where "s = c # a # b # r" "0xE0 \<le> ord c" "ord c < 0xF0" "cont_byte b" "n = 3"
        "byte_in (if ord c = 0xE0 then 0xA0 else 0x80) (if ord c = 0xED then 0x9F else 0xBF) a"
    | (four) c a b e r where "s = c # a # b # e # r" "0xF0 \<le> ord c" "ord c < 0xF5"
        "cont_byte b" "cont_byte e" "n = 4"
        "byte_in (if ord c = 0xF0 then 0x90 else 0x80) (if ord c = 0xF4 then 0x8F else 0xBF) a"
proof (cases s)
  case Nil
  with assms show ?thesis by simp
next
  case (Cons c r)
  show ?thesis
    using assms unfolding Cons utf8_len.simps
    by (auto split: if_splits list.splits intro: that simp: Cons simp del: utf8_len.simps)
qed

lemma utf8_len_le: "utf8_len s \<le> length s"
proof (cases "utf8_len s = 0")
  case False
  then have "0 < utf8_len s" by simp
  from utf8_len_cases [OF refl this] show ?thesis by cases (auto simp del: utf8_len.simps)
qed simp

lemma utf8_len_prefix: "utf8_len s = n \<Longrightarrow> 0 < n \<Longrightarrow> utf8_len (take n s @ t) = n"
  by (erule utf8_len_cases) auto

lemma utf8_len_ascii: "ord c < 0x80 \<Longrightarrow> utf8_len (c # r) = 1"
  by simp

section \<open>Strings\<close>

definition hex_val :: "char \<Rightarrow> int option" where
  "hex_val c = (if isDigit c then Some (ord c - 48)
     else if 97 \<le> ord c \<and> ord c \<le> 102 then Some (ord c - 87)
     else if 65 \<le> ord c \<and> ord c \<le> 70 then Some (ord c - 55) else None)"

definition hex4 :: "string \<Rightarrow> (int \<times> string) option" where
  "hex4 s = (case s of a # b # c # d # r \<Rightarrow>
       (case (hex_val a, hex_val b, hex_val c, hex_val d) of
          (Some i, Some j, Some k, Some l) \<Rightarrow> Some (((i * 16 + j) * 16 + k) * 16 + l, r)
        | _ \<Rightarrow> None)
     | _ \<Rightarrow> None)"

definition unescape :: "char \<Rightarrow> char option" where
  "unescape e = (if e = CHR 0x22 \<or> e = CHR 0x5C \<or> e = CHR ''/'' then Some e
     else if e = CHR ''b'' then Some (chr 8) else if e = CHR ''f'' then Some (chr 12)
     else if e = CHR ''n'' then Some (chr 10) else if e = CHR ''r'' then Some (chr 13)
     else if e = CHR ''t'' then Some (chr 9) else None)"

text \<open>
  A \<open>\u\<close> escape: a surrogate must be a high one followed by an escaped low one; any other is an
  error in strict mode, and read as U+FFFD by \<^verbatim>\<open>encoding/json\<close>.
\<close>

definition replacement_char :: string where
  "replacement_char = [chr 0xEF, chr 0xBF, chr 0xBD]"

definition lone_surrogate :: "bool \<Rightarrow> string \<Rightarrow> (string \<times> string) option" where
  "lone_surrogate strict r = (if strict then None else Some (replacement_char, r))"

definition u_escape :: "bool \<Rightarrow> string \<Rightarrow> (string \<times> string) option" where
  "u_escape strict r =
     (case hex4 r of
        None \<Rightarrow> None
      | Some (v, r1) \<Rightarrow>
          if 0xD800 \<le> v \<and> v < 0xE000 then
            (if v < 0xDC00 \<and> take 2 r1 = [CHR 0x5C, CHR ''u''] then
               (case hex4 (drop 2 r1) of
                  Some (w, r2) \<Rightarrow>
                    if 0xDC00 \<le> w \<and> w < 0xE000
                    then Some (utf8_encode (0x10000 + (v - 0xD800) * 0x400 + (w - 0xDC00)), r2)
                    else lone_surrogate strict r1
                | None \<Rightarrow> lone_surrogate strict r1)
             else lone_surrogate strict r1)
          else Some (utf8_encode v, r1))"

text \<open>One unit of a string body: the bytes it denotes and the rest of the input.\<close>

definition str_step :: "bool \<Rightarrow> string \<Rightarrow> (string \<times> string) option" where
  "str_step strict s =
     (case s of
        [] \<Rightarrow> None
      | c # r \<Rightarrow>
          if c = CHR 0x5C then
            (case r of
               [] \<Rightarrow> None
             | e # r1 \<Rightarrow>
                 if e = CHR ''u'' then u_escape strict r1
                 else (case unescape e of None \<Rightarrow> None | Some x \<Rightarrow> Some ([x], r1)))
          else if ord c < 0x20 then None
          else if utf8_len s = 0 then (if strict then None else Some (replacement_char, r))
          else Some (take (utf8_len s) s, drop (utf8_len s) s))"

lemma hex4_length: "hex4 s = Some (v, r) \<Longrightarrow> length r < length s"
  by (auto simp: hex4_def split: list.splits option.splits)

lemma u_escape_length:
  assumes "u_escape strict s = Some (x, r)"
  shows "length r < length s"
proof -
  from assms obtain v r1 where h: "hex4 s = Some (v, r1)"
    by (auto simp: u_escape_def split: option.splits)
  note l1 = hex4_length [OF h]
  from assms h show ?thesis
    using l1 by (auto simp: u_escape_def lone_surrogate_def split: if_splits option.splits dest!: hex4_length)
qed

lemma str_step_length: "str_step strict s = Some (x, r) \<Longrightarrow> length r < length s"
  by (auto simp: str_step_def split: list.splits if_splits option.splits
      simp del: utf8_len.simps dest: u_escape_length)

text \<open>A string body up to and including the closing quote.\<close>

function parse_str :: "bool \<Rightarrow> string \<Rightarrow> (string \<times> string) option" where
  "parse_str strict s =
     (case s of
        [] \<Rightarrow> None
      | c # r \<Rightarrow>
          if c = CHR 0x22 then Some ([], r)
          else (case str_step strict s of
                  None \<Rightarrow> None
                | Some (x, r1) \<Rightarrow>
                    (case parse_str strict r1 of
                       None \<Rightarrow> None
                     | Some (y, r2) \<Rightarrow> Some (x @ y, r2))))"
  by pat_completeness auto
termination by (relation "measure (length \<circ> snd)") (auto dest: str_step_length)

declare parse_str.simps [simp del]

lemma parse_str_length: "parse_str strict s = Some (x, r) \<Longrightarrow> length r < length s"
proof (induction strict s arbitrary: x r rule: parse_str.induct)
  case (1 strict s)
  show ?case
  proof (cases s)
    case Nil
    with "1.prems" show ?thesis by (simp add: parse_str.simps)
  next
    case (Cons c t)
    show ?thesis
    proof (cases "c = CHR 0x22")
      case True
      with "1.prems" Cons show ?thesis by (simp add: parse_str.simps)
    next
      case False
      with "1.prems" Cons obtain u r1 y where u: "str_step strict s = Some (u, r1)" "parse_str strict r1 = Some (y, r)"
        by (auto simp: parse_str.simps [of strict "c # t"] split: option.splits)
      from "1.IH" [OF Cons False u(1) refl u(2)] str_step_length [OF u(1)] show ?thesis by simp
    qed
  qed
qed

section \<open>Numbers, literals and white space\<close>

definition is_ws :: "char \<Rightarrow> bool" where
  "is_ws c \<longleftrightarrow> c = chr 32 \<or> c = chr 9 \<or> c = chr 10 \<or> c = chr 13"

definition skip_ws :: "string \<Rightarrow> string" where
  "skip_ws s = dropWhile is_ws s"

lemma skip_ws_length: "length (skip_ws s) \<le> length s"
  by (simp add: skip_ws_def length_dropWhile_le)

definition num_int :: "string \<Rightarrow> (string \<times> string) option" where
  "num_int s = (case s of
      [] \<Rightarrow> None
    | c # r \<Rightarrow> if c = CHR ''0'' then Some ([c], r)
        else if isDigit c then Some (takeWhile isDigit s, dropWhile isDigit s) else None)"

definition num_frac :: "string \<Rightarrow> (string \<times> string) option" where
  "num_frac s = (case s of
      c # d # r \<Rightarrow> if c = CHR ''.''
        then (if isDigit d then Some (c # takeWhile isDigit (d # r), dropWhile isDigit (d # r)) else None)
        else Some ([], s)
    | [c] \<Rightarrow> if c = CHR ''.'' then None else Some ([], s)
    | [] \<Rightarrow> Some ([], s))"

definition num_exp :: "string \<Rightarrow> (string \<times> string) option" where
  "num_exp s = (case s of
      [] \<Rightarrow> Some ([], s)
    | c # r \<Rightarrow> if c = CHR ''e'' \<or> c = CHR ''E''
        then (let sg = (case r of x # _ \<Rightarrow> if x = CHR ''+'' \<or> x = CHR ''-'' then [x] else [] | [] \<Rightarrow> []);
                  t = drop (length sg) r
              in if t \<noteq> [] \<and> isDigit (hd t) then Some (c # sg @ takeWhile isDigit t, dropWhile isDigit t)
                 else None)
        else Some ([], s))"

definition parse_num :: "string \<Rightarrow> (string \<times> string) option" where
  "parse_num s =
     (let sg = (case s of c # _ \<Rightarrow> if c = CHR ''-'' then [c] else [] | [] \<Rightarrow> [])
      in case num_int (drop (length sg) s) of
           None \<Rightarrow> None
         | Some (i, r1) \<Rightarrow>
             (case num_frac r1 of
                None \<Rightarrow> None
              | Some (f, r2) \<Rightarrow>
                  (case num_exp r2 of
                     None \<Rightarrow> None
                   | Some (e, r3) \<Rightarrow> Some (sg @ i @ f @ e, r3))))"

lemma num_int_length: "num_int s = Some (i, r) \<Longrightarrow> length r < length s"
  by (auto simp: num_int_def split: list.splits if_splits intro: le_imp_less_Suc length_dropWhile_le)

lemma num_frac_length: "num_frac s = Some (i, r) \<Longrightarrow> length r \<le> length s"
  by (auto simp: num_frac_def split: list.splits if_splits)
    (use length_dropWhile_le le_SucI in blast)

lemma num_exp_length: "num_exp s = Some (i, r) \<Longrightarrow> length r \<le> length s"
proof (cases s)
  case (Cons c t)
  assume "num_exp s = Some (i, r)"
  then show ?thesis
    using length_dropWhile_le [of isDigit t] length_dropWhile_le [of isDigit "tl t"]
    by (auto simp: num_exp_def Cons Let_def split: list.splits if_splits)
qed (auto simp: num_exp_def)

lemma parse_num_length: "parse_num s = Some (x, r) \<Longrightarrow> length r < length s"
proof -
  let ?sg = "case s of c # _ \<Rightarrow> if c = CHR ''-'' then [c] else [] | [] \<Rightarrow> []"
  assume "parse_num s = Some (x, r)"
  then obtain i r1 f r2 e where
    "num_int (drop (length ?sg) s) = Some (i, r1)" "num_frac r1 = Some (f, r2)" "num_exp r2 = Some (e, r)"
    by (auto simp: parse_num_def Let_def split: option.splits)
  then have "length r1 < length (drop (length ?sg) s)" "length r2 \<le> length r1" "length r \<le> length r2"
    using num_int_length num_frac_length num_exp_length by blast+
  then show ?thesis by simp
qed

definition parse_lit :: "string \<Rightarrow> (json \<times> string) option" where
  "parse_lit s =
     (if has_prefix s ''null'' then Some (JNull, drop 4 s)
      else if has_prefix s ''true'' then Some (JBool True, drop 4 s)
      else if has_prefix s ''false'' then Some (JBool False, drop 5 s)
      else None)"

lemma has_prefix_length: "has_prefix s p \<Longrightarrow> length p \<le> length s"
  unfolding has_prefix_def by (metis length_take min.cobounded1)

lemma parse_lit_length: "parse_lit s = Some (v, r) \<Longrightarrow> length r < length s"
  by (auto simp: parse_lit_def split: if_splits dest!: has_prefix_length)

section \<open>The parser\<close>

fun parse_value :: "bool \<Rightarrow> nat \<Rightarrow> int \<Rightarrow> string \<Rightarrow> (json \<times> string) option"
  and parse_elems :: "bool \<Rightarrow> nat \<Rightarrow> int \<Rightarrow> string \<Rightarrow> ((string \<times> json) list \<times> string) option"
  and parse_members :: "bool \<Rightarrow> nat \<Rightarrow> int \<Rightarrow> string list \<Rightarrow> string \<Rightarrow> ((string \<times> string \<times> json) list \<times> string) option"
where
  "parse_value strict 0 d s = None"
| "parse_value strict (Suc f) d s =
     (case s of
        [] \<Rightarrow> None
      | c # r \<Rightarrow>
          if c = CHR ''{'' then
            (if d \<le> 0 then None
             else if skip_ws r \<noteq> [] \<and> hd (skip_ws r) = CHR ''}'' then Some (JObj [], tl (skip_ws r))
             else (case parse_members strict f (d - 1) [] (skip_ws r) of
                     None \<Rightarrow> None
                   | Some (ms, r1) \<Rightarrow> Some (JObj ms, r1)))
          else if c = CHR ''['' then
            (if d \<le> 0 then None
             else if skip_ws r \<noteq> [] \<and> hd (skip_ws r) = CHR '']'' then Some (JArr [], tl (skip_ws r))
             else (case parse_elems strict f (d - 1) (skip_ws r) of
                     None \<Rightarrow> None
                   | Some (vs, r1) \<Rightarrow> Some (JArr vs, r1)))
          else if c = CHR 0x22 then
            (case parse_str strict r of None \<Rightarrow> None | Some (x, r1) \<Rightarrow> Some (JStr x, r1))
          else if c = CHR ''-'' \<or> isDigit c then
            (case parse_num s of None \<Rightarrow> None | Some (x, r1) \<Rightarrow> Some (JNum x, r1))
          else parse_lit s)"
| "parse_elems strict 0 d s = None"
| "parse_elems strict (Suc f) d s =
     (case parse_value strict f d s of
        None \<Rightarrow> None
      | Some (v, r) \<Rightarrow>
          (case skip_ws r of
             [] \<Rightarrow> None
           | c # r1 \<Rightarrow>
               if c = CHR '']'' then Some ([(take (length s - length r) s, v)], r1)
               else if c = CHR '','' then
                 (case parse_elems strict f d (skip_ws r1) of
                    None \<Rightarrow> None
                  | Some (vs, r2) \<Rightarrow> Some ((take (length s - length r) s, v) # vs, r2))
               else None))"
| "parse_members strict 0 d seen s = None"
| "parse_members strict (Suc f) d seen s =
     (case s of
        [] \<Rightarrow> None
      | q # r \<Rightarrow>
          if q \<noteq> CHR 0x22 then None
          else (case parse_str strict r of
             None \<Rightarrow> None
           | Some (name, r1) \<Rightarrow>
               if strict \<and> name \<in> set seen then None
               else (case skip_ws r1 of
                  [] \<Rightarrow> None
                | c # r2 \<Rightarrow>
                    if c \<noteq> CHR '':'' then None
                    else (case parse_value strict f d (skip_ws r2) of
                       None \<Rightarrow> None
                     | Some (v, r3) \<Rightarrow>
                         (case skip_ws r3 of
                            [] \<Rightarrow> None
                          | c' # r4 \<Rightarrow>
                              if c' = CHR ''}'' then
                                Some ([(name, take (length (skip_ws r2) - length r3) (skip_ws r2), v)], r4)
                              else if c' = CHR '','' then
                                (case parse_members strict f d (name # seen) (skip_ws r4) of
                                   None \<Rightarrow> None
                                 | Some (ms, r5) \<Rightarrow>
                                     Some ((name, take (length (skip_ws r2) - length r3) (skip_ws r2), v) # ms, r5))
                              else None)))))"

declare parse_value.simps [simp del] parse_elems.simps [simp del] parse_members.simps [simp del]

definition max_depth :: int where
  "max_depth = 10000"

definition json_text :: "bool \<Rightarrow> bytes \<Rightarrow> json option" where
  "json_text strict s =
     (case parse_value strict (2 * length s + 2) max_depth (skip_ws s) of
        Some (v, r) \<Rightarrow> if skip_ws r = [] then Some v else None
      | None \<Rightarrow> None)"

text \<open>The texts that \<^verbatim>\<open>encoding/json/v2\<close> and \<^verbatim>\<open>encoding/json\<close> accept.\<close>

abbreviation json_parse :: "bytes \<Rightarrow> json option" where
  "json_parse \<equiv> json_text True"

abbreviation json_lax :: "bytes \<Rightarrow> json option" where
  "json_lax \<equiv> json_text False"

section \<open>The fuel is enough\<close>

lemma skip_ws_Cons_length: "skip_ws r = c # r1 \<Longrightarrow> length r1 < length r"
  using skip_ws_length [of r] by simp

lemma parse_consumes:
  "parse_value strict f d s = Some (v, r) \<Longrightarrow> length r < length s"
  "parse_elems strict f d s = Some (vs, r) \<Longrightarrow> length r < length s"
  "parse_members strict f d seen s = Some (ms, r) \<Longrightarrow> length r < length s"
proof (induction strict f d s and strict f d s and strict f d seen s arbitrary: v r and vs r and ms r
    rule: parse_value_parse_elems_parse_members.induct)
  case (2 strict f d s)
  show ?case
  proof (cases s)
    case Nil
    with "2.prems" show ?thesis by (simp add: parse_value.simps)
  next
    case (Cons c t)
    have *: "length (tl (skip_ws t)) < Suc (length t)" "length (skip_ws t) \<le> length t"
      using skip_ws_length [of t] by auto
    consider (obj) "c = CHR ''{''" | (arr) "c = CHR ''[''" | (other) "c \<noteq> CHR ''{''" "c \<noteq> CHR ''[''" by blast
    then show ?thesis
    proof cases
      case obj
      with "2.prems" * show ?thesis unfolding Cons parse_value.simps
        by (auto split: if_splits option.splits dest!: "2.IH"(1) [OF Cons obj])
    next
      case arr
      then have "c \<noteq> CHR ''{''" by simp
      with "2.prems" * arr show ?thesis unfolding Cons parse_value.simps
        by (auto split: if_splits option.splits dest!: "2.IH"(2) [OF Cons \<open>c \<noteq> CHR ''{''\<close> arr])
    next
      case other
      with "2.prems" show ?thesis unfolding Cons parse_value.simps
        by (auto split: if_splits option.splits
            dest!: parse_str_length parse_num_length parse_lit_length)
    qed
  qed
next
  case (4 strict f d s)
  then obtain v1 r1 c r2 where v1: "parse_value strict f d s = Some (v1, r1)" "skip_ws r1 = c # r2"
    by (auto simp: parse_elems.simps split: option.splits list.splits)
  have l: "length r1 < length s" "length r2 < length r1" "length (skip_ws r2) \<le> length r2"
    using "4.IH"(1) [OF v1(1)] skip_ws_Cons_length [OF v1(2)] skip_ws_length [of r2] by auto
  show ?case
  proof (cases "c = CHR '']''")
    case True
    with "4.prems" v1 l show ?thesis by (simp add: parse_elems.simps)
  next
    case False
    with "4.prems" v1 obtain vs' where e: "c = CHR '',''" "parse_elems strict f d (skip_ws r2) = Some (vs', r)"
      by (auto simp: parse_elems.simps split: if_splits option.splits)
    from "4.IH"(2) [OF v1(1) refl v1(2) False e] l show ?thesis by simp
  qed
next
  case (6 strict f d seen s)
  show ?case
  proof (cases s)
    case Nil
    with "6.prems" show ?thesis by (simp add: parse_members.simps)
  next
    case (Cons q t)
    with "6.prems" obtain name r1 c2 r2 v3 r3 c4 r4 where
      n: "q = CHR 0x22" "parse_str strict t = Some (name, r1)" "\<not> (strict \<and> name \<in> set seen)" "skip_ws r1 = c2 # r2"
         "c2 = CHR '':''" "parse_value strict f d (skip_ws r2) = Some (v3, r3)" "skip_ws r3 = c4 # r4"
      by (auto simp: parse_members.simps split: option.splits list.splits if_splits)
    have l: "length r1 < length t" "length r2 < length r1" "length r3 < length (skip_ws r2)"
        "length (skip_ws r2) \<le> length r2" "length r4 < length r3" "length (skip_ws r4) \<le> length r4"
      using n parse_str_length skip_ws_Cons_length skip_ws_length "6.IH"(1) [OF Cons] by auto
    have nq: "\<not> q \<noteq> CHR 0x22" "\<not> c2 \<noteq> CHR '':''" using n by auto
    show ?thesis
    proof (cases "c4 = CHR ''}''")
      case True
      with "6.prems" Cons n l show ?thesis by (simp add: parse_members.simps)
    next
      case False
      with "6.prems" Cons n obtain ms' where
        e: "c4 = CHR '',''" "parse_members strict f d (name # seen) (skip_ws r4) = Some (ms', r)"
        by (auto simp: parse_members.simps split: if_splits option.splits)
      from "6.IH"(2) [OF Cons nq(1) n(2) refl n(3,4) nq(2) n(6) refl n(7) False e] l Cons
      show ?thesis by simp
    qed
  qed
qed (simp_all add: parse_value.simps parse_elems.simps parse_members.simps)

lemma parse_fuel_Suc:
  "2 * length s < f \<Longrightarrow> parse_value strict (Suc f) d s = parse_value strict f d s"
  "2 * length s + 1 < f \<Longrightarrow> parse_elems strict (Suc f) d s = parse_elems strict f d s"
  "2 * length s + 1 < f \<Longrightarrow> parse_members strict (Suc f) d seen s = parse_members strict f d seen s"
proof (induction strict f d s and strict f d s and strict f d seen s rule: parse_value_parse_elems_parse_members.induct)
  case (2 strict f d s)
  show ?case
  proof (cases s)
    case (Cons c t)
    then have l: "2 * length (skip_ws t) + 1 < f"
      using "2.prems" skip_ws_length [of t] by simp
    consider (obj) "c = CHR ''{''" | (arr) "c = CHR ''[''" | (other) "c \<noteq> CHR ''{''" "c \<noteq> CHR ''[''" by blast
    then show ?thesis
    proof cases
      case obj
      with "2.IH"(1) [OF Cons obj _ _ l] show ?thesis unfolding Cons parse_value.simps by auto
    next
      case arr
      then have "c \<noteq> CHR ''{''" by simp
      with "2.IH"(2) [OF Cons this arr _ _ l] arr show ?thesis unfolding Cons parse_value.simps by auto
    next
      case other
      then show ?thesis unfolding Cons parse_value.simps by simp
    qed
  qed (simp add: parse_value.simps)
next
  case (4 strict f d s)
  have v: "parse_value strict (Suc f) d s = parse_value strict f d s" using 4 by simp
  show ?case
  proof (cases "parse_value strict f d s")
    case (Some p)
    then obtain v1 r1 where p: "parse_value strict f d s = Some (v1, r1)" by (cases p) auto
    show ?thesis
    proof (cases "skip_ws r1")
      case (Cons c r2)
      have "length r1 < length s" "length r2 < length r1" "length (skip_ws r2) \<le> length r2"
        using parse_consumes(1) [OF p] skip_ws_Cons_length [OF Cons] skip_ws_length [of r2] by auto
      then have l: "2 * length (skip_ws r2) + 1 < f" using "4.prems" by linarith
      show ?thesis
      proof (cases "c = CHR '']''")
        case True
        with p Cons show ?thesis by (simp add: parse_elems.simps v)
      next
        case False
        with "4.IH"(2) [OF p refl Cons False _ l] p Cons show ?thesis
          by (auto simp: parse_elems.simps(2) [of strict "Suc f"] parse_elems.simps(2) [of strict f] v)
      qed
    qed (simp add: parse_elems.simps v p)
  qed (simp add: parse_elems.simps v)
next
  case (6 strict f d seen s)
  show ?case
  proof (cases s)
    case (Cons q t)
    note unf = parse_members.simps(2) [of strict "Suc f" d seen "q # t"] parse_members.simps(2) [of strict f d seen "q # t"]
    consider (stop) "q \<noteq> CHR 0x22 \<or> parse_str strict t = None"
      | (seen) name r1 where "parse_str strict t = Some (name, r1)" "(strict \<and> name \<in> set seen) \<or> skip_ws r1 = []"
      | (colon) name r1 c r2 where "parse_str strict t = Some (name, r1)" "skip_ws r1 = c # r2" "c \<noteq> CHR '':''"
      | (go) name r1 c r2 where "q = CHR 0x22" "parse_str strict t = Some (name, r1)" "\<not> (strict \<and> name \<in> set seen)"
          "skip_ws r1 = c # r2" "c = CHR '':''"
      by (metis neq_Nil_conv old.prod.exhaust option.exhaust)
    then show ?thesis
    proof cases
      case stop
      then show ?thesis unfolding Cons unf by auto
    next
      case seen
      then show ?thesis unfolding Cons unf by auto
    next
      case colon
      then show ?thesis unfolding Cons unf by simp
    next
      case n: go
      then have nq: "\<not> q \<noteq> CHR 0x22" "\<not> c \<noteq> CHR '':''" by auto
      have l: "length r1 < length t" "length r2 < length r1" "length (skip_ws r2) \<le> length r2"
        using parse_str_length [OF n(2)] skip_ws_Cons_length [OF n(4)] skip_ws_length [of r2] by auto
      then have "2 * length (skip_ws r2) < f" using "6.prems" Cons by simp
      from "6.IH"(1) [OF Cons nq(1) n(2) refl n(3,4) nq(2) this]
      have v: "parse_value strict (Suc f) d (skip_ws r2) = parse_value strict f d (skip_ws r2)" .
      consider (none) "parse_value strict f d (skip_ws r2) = None"
        | (nil) v3 r3 where "parse_value strict f d (skip_ws r2) = Some (v3, r3)" "skip_ws r3 = []"
        | (stop) v3 r3 c4 r4 where "parse_value strict f d (skip_ws r2) = Some (v3, r3)" "skip_ws r3 = c4 # r4"
            "c4 \<noteq> CHR '',''"
        | (go) v3 r3 r4 where "parse_value strict f d (skip_ws r2) = Some (v3, r3)" "skip_ws r3 = CHR '','' # r4"
        by (metis neq_Nil_conv old.prod.exhaust option.exhaust)
      then show ?thesis
      proof cases
        case m: go
        have "length r3 < length (skip_ws r2)" "length r4 < length r3" "length (skip_ws r4) \<le> length r4"
          using parse_consumes(1) [OF m(1)] skip_ws_Cons_length [OF m(2)] skip_ws_length [of r4] by auto
        then have l4: "2 * length (skip_ws r4) + 1 < f" using l "6.prems" Cons by simp
        have c: "CHR '','' \<noteq> CHR ''}''" by simp
        from "6.IH"(2) [OF Cons nq(1) n(2) refl n(3,4) nq(2) m(1) refl m(2) c refl l4]
        show ?thesis unfolding Cons unf by (simp add: n v m)
      qed (unfold Cons unf, simp_all add: n v)
    qed
  qed (simp add: parse_members.simps)
qed (simp_all add: parse_value.simps)

lemma parse_fuel:
  "2 * length s < f \<Longrightarrow> 2 * length s < f' \<Longrightarrow> parse_value strict f d s = parse_value strict f' d s"
proof (induction f f' rule: linorder_wlog)
  case (le f f')
  then show ?case
  proof (induction "f' - f" arbitrary: f')
    case (Suc n)
    then obtain g where g: "f' = Suc g" "n = g - f" "f \<le> g" by (cases f') auto
    then have "parse_value strict f d s = parse_value strict g d s" using Suc by simp
    moreover have "2 * length s < g" using Suc.prems(2) g(3) by simp
    ultimately show ?case using g parse_fuel_Suc(1) by simp
  qed simp
qed simp

section \<open>Emitting strings, arrays and objects\<close>

definition hex_digit :: "int \<Rightarrow> char" where
  "hex_digit n = (if n < 10 then chr (n + 48) else chr (n + 87))"

definition esc_ascii :: "char \<Rightarrow> string" where
  "esc_ascii c =
     (if c = CHR 0x22 \<or> c = CHR 0x5C then [CHR 0x5C, c]
      else if ord c = 8 then [CHR 0x5C, CHR ''b''] else if ord c = 12 then [CHR 0x5C, CHR ''f'']
      else if ord c = 10 then [CHR 0x5C, CHR ''n''] else if ord c = 13 then [CHR 0x5C, CHR ''r'']
      else if ord c = 9 then [CHR 0x5C, CHR ''t'']
      else if ord c < 0x20 \<or> c = CHR ''<'' \<or> c = CHR ''>'' \<or> c = CHR ''&''
        then [CHR 0x5C, CHR ''u'', CHR ''0'', CHR ''0'', hex_digit (ord c div 16), hex_digit (ord c mod 16)]
      else [c])"

definition esc_rune :: "string \<Rightarrow> string" where
  "esc_rune u =
     (if u = [chr 0xE2, chr 0x80, chr 0xA8] then [CHR 0x5C] @ ''u2028''
      else if u = [chr 0xE2, chr 0x80, chr 0xA9] then [CHR 0x5C] @ ''u2029'' else u)"

function esc_body :: "string \<Rightarrow> string" where
  "esc_body s =
     (case s of
        [] \<Rightarrow> []
      | c # r \<Rightarrow>
          if ord c < 0x80 then esc_ascii c @ esc_body r
          else if utf8_len s = 0 then [CHR 0x5C] @ ''ufffd'' @ esc_body r
          else esc_rune (take (utf8_len s) s) @ esc_body (drop (utf8_len s) s))"
  by pat_completeness auto
termination by (relation "measure length") (auto simp del: utf8_len.simps)

declare esc_body.simps [simp del]

definition enc_str :: "string \<Rightarrow> string" where
  "enc_str s = CHR 0x22 # esc_body s @ [CHR 0x22]"

definition enc_array :: "string list \<Rightarrow> string" where
  "enc_array raws = ''['' @ join_with '','' raws @ '']''"

definition enc_object :: "(string \<times> string) list \<Rightarrow> string" where
  "enc_object ms = ''{'' @ join_with '','' (map (\<lambda>(n, raw). enc_str n @ '':'' @ raw) ms) @ ''}''"

section \<open>Reading back what was emitted\<close>

definition delim :: "string \<Rightarrow> bool" where
  "delim t \<longleftrightarrow> t = [] \<or> hd t = CHR '','' \<or> hd t = CHR '']'' \<or> hd t = CHR ''}''"

definition reads_as :: "int \<Rightarrow> string \<Rightarrow> json \<Rightarrow> bool" where
  "reads_as k raw v \<longleftrightarrow> raw \<noteq> [] \<and> \<not> is_ws (hd raw) \<and>
     (\<forall>strict f d t. k \<le> d \<longrightarrow> 2 * length (raw @ t) < f \<longrightarrow> delim t \<longrightarrow> parse_value strict f d (raw @ t) = Some (v, t))"

lemma skip_ws_nonws: "s = [] \<or> \<not> is_ws (hd s) \<Longrightarrow> skip_ws s = s"
  by (cases s) (auto simp: skip_ws_def)

lemma is_ws_simps [simp]:
  "\<not> is_ws CHR '',''" "\<not> is_ws CHR '']''" "\<not> is_ws CHR ''}''" "\<not> is_ws CHR ''{''" "\<not> is_ws CHR ''[''"
  "\<not> is_ws CHR '':''" "\<not> is_ws CHR 0x22"
  by (code_simp)+

lemma skip_ws_simps [simp]:
  "skip_ws [] = []" "\<not> is_ws c \<Longrightarrow> skip_ws (c # s) = c # s"
  by (auto simp: skip_ws_def)

lemma hex_val_digit: "0 \<le> n \<Longrightarrow> n < 16 \<Longrightarrow> hex_val (hex_digit n) = Some n"
  by (auto simp: hex_val_def hex_digit_def isDigit_def)

lemma u_escape_ascii:
  assumes "ord c < 0x80"
  shows "u_escape strict (CHR ''0'' # CHR ''0'' # hex_digit (ord c div 16) # hex_digit (ord c mod 16) # t) = Some ([c], t)"
proof -
  have b: "0 \<le> ord c div 16" "ord c div 16 < 16"
    using assms quot_split [of "ord c" 16 16] by auto
  have z: "hex_val CHR ''0'' = Some 0" by code_simp
  have "hex4 (CHR ''0'' # CHR ''0'' # hex_digit (ord c div 16) # hex_digit (ord c mod 16) # t) = Some (ord c, t)"
    using b by (simp add: hex4_def hex_val_digit z)
  then show ?thesis using assms by (simp add: u_escape_def utf8_encode_def)
qed

lemma str_step_esc_ascii:
  assumes "ord c < 0x80"
  shows "str_step strict (esc_ascii c @ t) = Some ([c], t)" "hd (esc_ascii c @ t) \<noteq> CHR 0x22" "esc_ascii c \<noteq> []"
proof -
  have c: "chr n = c" if "ord c = n" for n using that by auto
  have e: "unescape CHR 0x22 = Some CHR 0x22" "unescape CHR 0x5C = Some CHR 0x5C"
    "unescape CHR ''b'' = Some (chr 8)" "unescape CHR ''f'' = Some (chr 12)"
    "unescape CHR ''n'' = Some (chr 10)" "unescape CHR ''r'' = Some (chr 13)"
    "unescape CHR ''t'' = Some (chr 9)"
    by code_simp+
  show "str_step strict (esc_ascii c @ t) = Some ([c], t)"
    using assms by (auto simp: esc_ascii_def str_step_def e u_escape_ascii intro: c)
  show "hd (esc_ascii c @ t) \<noteq> CHR 0x22" "esc_ascii c \<noteq> []"
    by (auto simp: esc_ascii_def)
qed

lemma str_step_esc_rune:
  assumes "utf8_len s = n" "0 < n" "s = c # r" "\<not> ord c < 0x80"
  shows "str_step strict (esc_rune (take n s) @ t) = Some (take n s, t)"
    "hd (esc_rune (take n s) @ t) \<noteq> CHR 0x22" "esc_rune (take n s) \<noteq> []"
proof -
  obtain m where n: "n = Suc m" using assms(2) by (cases n) auto
  have c: "c \<noteq> CHR 0x5C" "\<not> ord c < 0x20" "c \<noteq> CHR 0x22" using assms(4) by auto
  have u: "u_escape strict (''2028'' @ t) = Some ([chr 0xE2, chr 0x80, chr 0xA8], t)"
    "u_escape strict (''2029'' @ t) = Some ([chr 0xE2, chr 0x80, chr 0xA9], t)" for t
  proof -
    have h: "hex_val CHR ''2'' = Some 2" "hex_val CHR ''0'' = Some 0" "hex_val CHR ''8'' = Some 8"
      "hex_val CHR ''9'' = Some 9" by code_simp+
    show "u_escape strict (''2028'' @ t) = Some ([chr 0xE2, chr 0x80, chr 0xA8], t)"
      "u_escape strict (''2029'' @ t) = Some ([chr 0xE2, chr 0x80, chr 0xA9], t)"
      by (simp_all add: u_escape_def hex4_def h utf8_encode_def)
  qed
  have p: "utf8_len (take n s @ t) = n" using utf8_len_prefix [OF assms(1,2)] .
  have l: "length (take n s) = n" using assms(1) utf8_len_le [of s] by simp
  have h: "take n s @ t = c # take m r @ t" using n assms(3) by simp
  have "str_step strict (take n s @ t) = Some (take n s, t)"
    using c p l n unfolding h str_step_def list.case
    by (simp add: assms(3) del: utf8_len.simps)
  then show "str_step strict (esc_rune (take n s) @ t) = Some (take n s, t)"
    using u [of t] by (auto simp: esc_rune_def str_step_def)
  show "hd (esc_rune (take n s) @ t) \<noteq> CHR 0x22" "esc_rune (take n s) \<noteq> []"
    using c n assms(3) by (auto simp: esc_rune_def)
qed

lemma parse_str_step:
  "s \<noteq> [] \<Longrightarrow> hd s \<noteq> CHR 0x22 \<Longrightarrow> str_step strict s = Some (x, r) \<Longrightarrow>
   parse_str strict s = (case parse_str strict r of None \<Rightarrow> None | Some (y, r2) \<Rightarrow> Some (x @ y, r2))"
  by (subst parse_str.simps) (auto split: list.split)

lemma parse_str_esc_body: "valid_utf8 s \<Longrightarrow> parse_str strict (esc_body s @ CHR 0x22 # t) = Some (s, t)"
proof (induction s rule: valid_utf8.induct)
  case (1 s)
  show ?case
  proof (cases s)
    case Nil
    then show ?thesis by (simp add: esc_body.simps parse_str.simps)
  next
    case (Cons c r)
    with "1.prems" have u: "0 < utf8_len s" "valid_utf8 (drop (utf8_len s) s)"
      by (auto simp: valid_utf8.simps [of "c # r"] simp del: utf8_len.simps split: if_splits)
    with Cons "1.IH" have IH: "parse_str strict (esc_body (drop (utf8_len s) s) @ CHR 0x22 # t) =
        Some (drop (utf8_len s) s, t)" by simp
    show ?thesis
    proof (cases "ord c < 0x80")
      case True
      then have "utf8_len s = 1" by (simp add: Cons)
      with IH True Cons show ?thesis
        using str_step_esc_ascii [OF True]
        by (subst esc_body.simps) (simp add: parse_str_step del: utf8_len.simps)
    next
      case False
      note st = str_step_esc_rune [OF refl u(1) Cons False]
      have "esc_body s = esc_rune (take (utf8_len s) s) @ esc_body (drop (utf8_len s) s)"
        using False u(1) Cons by (subst esc_body.simps) (simp del: utf8_len.simps)
      then show ?thesis
        using st IH by (simp add: parse_str_step del: utf8_len.simps)
    qed
  qed
qed

lemma reads_as_str: "valid_utf8 s \<Longrightarrow> reads_as 0 (enc_str s) (JStr s)"
  unfolding reads_as_def
proof (intro conjI allI impI)
  fix strict f d t
  assume "2 * length (enc_str s @ t) < f" "valid_utf8 s"
  then show "parse_value strict f d (enc_str s @ t) = Some (JStr s, t)"
    by (cases f) (simp_all add: enc_str_def parse_value.simps parse_str_esc_body)
qed (simp_all add: enc_str_def)

lemma reads_as_mono: "reads_as k raw v \<Longrightarrow> k \<le> k' \<Longrightarrow> reads_as k' raw v"
  by (auto simp: reads_as_def)

lemma reads_asD:
  "reads_as k raw v \<Longrightarrow> k \<le> d \<Longrightarrow> 2 * length (raw @ t) < f \<Longrightarrow> delim t \<Longrightarrow>
   parse_value strict f d (raw @ t) = Some (v, t)"
  "reads_as k raw v \<Longrightarrow> skip_ws (raw @ t) = raw @ t"
  by (auto simp: reads_as_def intro!: skip_ws_nonws)

lemma json_text_reads_as: "reads_as k raw v \<Longrightarrow> k \<le> max_depth \<Longrightarrow> json_text strict raw = Some v"
  using reads_asD(1) [of k raw v max_depth "[]" "2 * length raw + 2"] reads_asD(2) [of k raw v "[]"]
  by (simp add: json_text_def delim_def)

lemma parse_elems_reads_as:
  "raws \<noteq> [] \<Longrightarrow> list_all2 (reads_as k) raws vs \<Longrightarrow> k \<le> d \<Longrightarrow>
   2 * length (join_with '','' raws @ '']'' @ t) + 1 < f \<Longrightarrow>
   parse_elems strict f d (join_with '','' raws @ '']'' @ t) = Some (zip raws vs, t)"
proof (induction raws arbitrary: vs f)
  case Nil
  then show ?case by simp
next
  case (Cons raw raws)
  then obtain v vs' where vs: "vs = v # vs'" "reads_as k raw v" "list_all2 (reads_as k) raws vs'"
    by (cases vs) auto
  obtain g where f: "f = Suc g" using Cons.prems(4) by (cases f) auto
  show ?case
  proof (cases raws)
    case Nil
    with vs have "vs' = []" by simp
    with vs f Nil Cons.prems show ?thesis
      by (simp add: parse_elems.simps reads_asD(1) [OF vs(2) Cons.prems(3)] delim_def)
  next
    case (Cons b bs)
    let ?rest = "join_with '','' raws @ '']'' @ t"
    have e: "join_with '','' (raw # raws) @ '']'' @ t = raw @ '','' @ ?rest"
      by (simp add: Cons)
    have b: "reads_as k b (hd vs')" using vs(3) Cons by (cases vs') auto
    have sk: "skip_ws ?rest = ?rest"
    proof -
      obtain u where "?rest = b @ u" using Cons by (cases bs) auto
      then show ?thesis using reads_asD(2) [OF b] by simp
    qed
    have l: "2 * length (raw @ '','' @ ?rest) + 1 < f" using Cons.prems(4) e by simp
    moreover have "0 < length raw" using vs(2) by (simp add: reads_as_def)
    ultimately have "2 * length ?rest + 1 < g" using f by simp
    then have IH: "parse_elems strict g d ?rest = Some (zip raws vs', t)"
      using Cons.IH [of vs' g] vs(3) Cons.prems(3) Cons by simp
    have "parse_value strict g d (raw @ '','' @ ?rest) = Some (v, '','' @ ?rest)"
      using l f by (intro reads_asD(1) [OF vs(2) Cons.prems(3)]) (auto simp: delim_def)
    then show ?thesis
      unfolding e f parse_elems.simps using IH sk by (simp add: vs)
  qed
qed

lemma reads_as_array:
  assumes "list_all2 (reads_as k) raws vs" "0 \<le> k"
  shows "reads_as (k + 1) (enc_array raws) (JArr (zip raws vs))"
  unfolding reads_as_def
proof (intro conjI allI impI)
  fix strict f d t
  assume d: "k + 1 \<le> d" and f: "2 * length (enc_array raws @ t) < f"
  then obtain g where g: "f = Suc g" by (cases f) auto
  show "parse_value strict f d (enc_array raws @ t) = Some (JArr (zip raws vs), t)"
  proof (cases raws)
    case Nil
    then show ?thesis using g d assms by (simp add: enc_array_def parse_value.simps)
  next
    case (Cons b bs)
    have "reads_as k b (hd vs)" using assms(1) Cons by (cases vs) auto
    then have b: "b \<noteq> []" "\<not> is_ws (hd b)" "hd b \<noteq> CHR '']''"
    proof -
      assume r: "reads_as k b (hd vs)"
      then show "b \<noteq> []" "\<not> is_ws (hd b)" by (auto simp: reads_as_def)
      from r have "parse_value strict (Suc (2 * length b)) (max k 0) (b @ []) = Some (hd vs, [])"
        by (intro reads_asD(1)) (auto simp: delim_def)
      then show "hd b \<noteq> CHR '']''"
        by (cases b) (auto simp: parse_value.simps parse_lit_def has_prefix_def isDigit_def)
    qed
    let ?s = "join_with '','' raws @ '']'' @ t"
    obtain u where u: "?s = b @ u" using Cons by (cases bs) auto
    have s: "skip_ws ?s = ?s" "hd ?s \<noteq> CHR '']''" "?s \<noteq> []"
      unfolding u using b by (auto intro!: skip_ws_nonws)
    have "parse_elems strict g (d - 1) ?s = Some (zip raws vs, t)"
      using f g d Cons by (intro parse_elems_reads_as [OF _ assms(1)]) (auto simp: enc_array_def)
    then show ?thesis
      using g d s assms(2) by (simp add: enc_array_def parse_value.simps)
  qed
qed (simp_all add: enc_array_def)

lemma parse_members_reads_as:
  "ms \<noteq> [] \<Longrightarrow> list_all2 (\<lambda>(n, raw) (n', raw', v). n' = n \<and> raw' = raw \<and> valid_utf8 n \<and> reads_as k raw v) ms vs \<Longrightarrow>
   distinct (map fst ms) \<Longrightarrow> set (map fst ms) \<inter> set seen = {} \<Longrightarrow> k \<le> d \<Longrightarrow>
   2 * length (join_with '','' (map (\<lambda>(n, raw). enc_str n @ '':'' @ raw) ms) @ ''}'' @ t) + 1 < f \<Longrightarrow>
   parse_members strict f d seen (join_with '','' (map (\<lambda>(n, raw). enc_str n @ '':'' @ raw) ms) @ ''}'' @ t) = Some (vs, t)"
proof (induction ms arbitrary: vs f seen)
  case Nil
  then show ?case by simp
next
  case (Cons m ms)
  obtain n raw where m: "m = (n, raw)" by (cases m)
  from Cons.prems(2) m obtain v vs' where vs: "vs = (n, raw, v) # vs'" "valid_utf8 n" "reads_as k raw v"
    "list_all2 (\<lambda>(n, raw) (n', raw', v). n' = n \<and> raw' = raw \<and> valid_utf8 n \<and> reads_as k raw v) ms vs'"
    by (cases vs) auto
  obtain g where f: "f = Suc g" using Cons.prems(6) by (cases f) auto
  let ?J = "\<lambda>ms. join_with '','' (map (\<lambda>(n, raw). enc_str n @ '':'' @ raw) ms) @ ''}'' @ t"
  have ns: "n \<notin> set seen" using Cons.prems(4) m by auto
  let ?tail = "if ms = [] then ''}'' @ t else '','' @ ?J ms"
  have e: "?J (m # ms) = CHR 0x22 # esc_body n @ CHR 0x22 # CHR '':'' # raw @ ?tail"
    by (cases ms) (simp_all add: m enc_str_def)
  have l: "2 * length (raw @ ?tail) < g"
    using Cons.prems(6) unfolding e f by simp
  have sk: "skip_ws (raw @ ?tail) = raw @ ?tail" using reads_asD(2) [OF vs(3)] by simp
  have pv: "parse_value strict g d (raw @ ?tail) = Some (v, ?tail)"
    using l by (intro reads_asD(1) [OF vs(3) Cons.prems(5)]) (auto simp: delim_def)
  show ?case
  proof (cases "ms = []")
    case True
    with vs(4) have "vs' = []" by simp
    with True show ?thesis
      unfolding e f parse_members.simps
      using parse_str_esc_body [OF vs(2)] ns sk pv by (simp add: vs(1))
  next
    case False
    have "2 * length (?J ms) + 1 < g" using l False by simp
    moreover have "set (map fst ms) \<inter> set (n # seen) = {}"
      using Cons.prems(3,4) m by auto
    ultimately have IH: "parse_members strict g d (n # seen) (?J ms) = Some (vs', t)"
      using Cons.IH [OF False vs(4), of "n # seen" g] Cons.prems(3,5) by simp
    have sk2: "skip_ws (?J ms) = ?J ms"
      by (rule skip_ws_nonws) (use False in \<open>cases ms; cases "tl ms"; auto simp: enc_str_def\<close>)
    show ?thesis
      unfolding e f parse_members.simps
      using parse_str_esc_body [OF vs(2)] ns sk pv IH sk2 False by (simp add: vs(1))
  qed
qed

lemma reads_as_object:
  assumes "list_all2 (\<lambda>(n, raw) (n', raw', v). n' = n \<and> raw' = raw \<and> valid_utf8 n \<and> reads_as k raw v) ms vs"
    "distinct (map fst ms)" "0 \<le> k"
  shows "reads_as (k + 1) (enc_object ms) (JObj vs)"
  unfolding reads_as_def
proof (intro conjI allI impI)
  fix strict f d t
  assume d: "k + 1 \<le> d" and f: "2 * length (enc_object ms @ t) < f"
  then obtain g where g: "f = Suc g" by (cases f) auto
  show "parse_value strict f d (enc_object ms @ t) = Some (JObj vs, t)"
  proof (cases "ms = []")
    case True
    then show ?thesis using g d assms by (simp add: enc_object_def parse_value.simps)
  next
    case False
    let ?s = "join_with '','' (map (\<lambda>(n, raw). enc_str n @ '':'' @ raw) ms) @ ''}'' @ t"
    have s: "skip_ws ?s = ?s" "hd ?s \<noteq> CHR ''}''" "?s \<noteq> []"
      using False by (cases ms; cases "tl ms"; auto simp: enc_str_def)+
    have "parse_members strict g (d - 1) [] ?s = Some (vs, t)"
      using f g d False by (intro parse_members_reads_as [OF _ assms(1,2)]) (auto simp: enc_object_def)
    then show ?thesis
      using g d s assms(3) by (simp add: enc_object_def parse_value.simps)
  qed
qed (simp_all add: enc_object_def)

end
