(* ===== verification/StrictJSON.thy ===== *)
theory StrictJSON
  imports JSON
begin

text \<open>
  \<^verbatim>\<open>strictjson.go\<close>: strict decoding of untrusted JSON, and the \<^verbatim>\<open>crit\<close> check.  A typed
  \<^verbatim>\<open>jsonv2.Unmarshal(data, &v)\<close> is \<open>decodeStrict dec data\<close>, where \<open>dec\<close> is the decoder for the
  type of \<open>v\<close>; the decoders for strings, string slices, member maps and structs come first.
  Shown: what \<open>decodeObject\<close> refuses, and that no header with a \<^verbatim>\<open>crit\<close> member passes.
\<close>

section \<open>Typed decoding\<close>

type_synonym members = "(string \<times> string \<times> json) list"

fun dec_string :: "json \<Rightarrow> string result" where
  "dec_string (JStr s) = Inr s"
| "dec_string JNull = Inr []"
| "dec_string _ = Inl [JSONError]"

fun traverse :: "('a \<Rightarrow> 'b result) \<Rightarrow> 'a list \<Rightarrow> 'b list result" where
  "traverse f [] = Inr []"
| "traverse f (x # xs) =
     (case f x of Inl e \<Rightarrow> Inl e
      | Inr y \<Rightarrow> (case traverse f xs of Inl e \<Rightarrow> Inl e | Inr ys \<Rightarrow> Inr (y # ys)))"

text \<open>A \<^verbatim>\<open>[]string\<close>; \<^verbatim>\<open>None\<close> is the nil slice that JSON null gives.\<close>

fun dec_strings :: "json \<Rightarrow> string list option result" where
  "dec_strings JNull = Inr None"
| "dec_strings (JArr vs) =
     (case traverse (\<lambda>(_, v). dec_string v) vs of Inl e \<Rightarrow> Inl e | Inr ss \<Rightarrow> Inr (Some ss))"
| "dec_strings _ = Inl [JSONError]"

text \<open>A \<^verbatim>\<open>map[string]jsontext.Value\<close>.\<close>

fun dec_members :: "json \<Rightarrow> members result" where
  "dec_members (JObj ms) = Inr ms"
| "dec_members JNull = Inr []"
| "dec_members _ = Inl [JSONError]"

text \<open>
  A struct: its members are decoded in the order they stand in, each by the field it names;
  the first failing one ends the decoding.
\<close>

fun dec_fields :: "('s \<Rightarrow> string \<Rightarrow> string \<Rightarrow> json \<Rightarrow> 's result) \<Rightarrow> 's \<Rightarrow> members \<Rightarrow> 's result" where
  "dec_fields field s [] = Inr s"
| "dec_fields field s ((n, raw, v) # ms) =
     (case field s n raw v of Inl e \<Rightarrow> Inl e | Inr s' \<Rightarrow> dec_fields field s' ms)"

fun dec_struct :: "('s \<Rightarrow> string \<Rightarrow> string \<Rightarrow> json \<Rightarrow> 's result) \<Rightarrow> 's \<Rightarrow> json \<Rightarrow> 's result" where
  "dec_struct field zero (JObj ms) = dec_fields field zero ms"
| "dec_struct field zero JNull = Inr zero"
| "dec_struct field zero _ = Inl [JSONError]"

text \<open>A pointer to a type with its own decoder: null is the nil pointer.\<close>

definition dec_pointer :: "(string \<Rightarrow> json \<Rightarrow> 'a result) \<Rightarrow> string \<Rightarrow> json \<Rightarrow> 'a option result" where
  "dec_pointer dec raw v = (if v = JNull then Inr None
     else (case dec raw v of Inl e \<Rightarrow> Inl e | Inr x \<Rightarrow> Inr (Some x)))"

section \<open>decodeStrict and decodeObject\<close>

definition decodeStrict :: "(json \<Rightarrow> 'a result) \<Rightarrow> bytes \<Rightarrow> 'a result" where
  "decodeStrict dec data = (case json_parse data of None \<Rightarrow> Inl [JSONError] | Some v \<Rightarrow> dec v)"

definition decodeObject :: "(json \<Rightarrow> 'a result) \<Rightarrow> bytes \<Rightarrow> 'a result" where
  "decodeObject dec data =
     (let trimmed = trim_left data [chr 32, chr 9, chr 13, chr 10]
      in if len trimmed = 0 \<or> trimmed ! 0 \<noteq> CHR ''{'' then Inl [ErrNotObject]
         else decodeStrict dec data)"

text \<open>\<^verbatim>\<open>decodeFreshObject\<close>: the new value of \<^verbatim>\<open>*dst\<close>, which an error leaves as it was.\<close>

definition decodeFreshObject :: "(json \<Rightarrow> 'c result) \<Rightarrow> bytes \<Rightarrow> 'c option \<Rightarrow> go_error option \<times> 'c option" where
  "decodeFreshObject dec data dst =
     (case dst of
        None \<Rightarrow> (Some [ErrInvalidDestination], None)
      | Some old \<Rightarrow>
          (case decodeObject dec data of
             Inl e \<Rightarrow> (Some e, Some old)
           | Inr fresh \<Rightarrow> (None, Some fresh)))"

section \<open>Header members and crit\<close>

definition registeredHeaderNames :: "string list" where
  "registeredHeaderNames =
     [''alg'', ''jku'', ''jwk'', ''kid'', ''x5u'', ''x5c'', ''x5t'', ''x5t#S256'', ''typ'', ''cty'', ''crit'',
      ''enc'', ''zip'', ''epk'', ''apu'', ''apv'', ''iv'', ''tag'', ''p2s'', ''p2c'', ''ek'', ''psk_id'']"

definition headerMembers :: "bytes \<Rightarrow> members result" where
  "headerMembers headerJSON =
     (case decodeObject dec_members headerJSON of
        Inl e \<Rightarrow> Inl (wrap ErrMalformedToken e)
      | Inr ms \<Rightarrow> Inr ms)"

fun checkCriticalNames :: "members \<Rightarrow> string list \<Rightarrow> go_error" where
  "checkCriticalNames ms [] = [ErrUnsupportedCritical]"
| "checkCriticalNames ms (name # names) =
     (if name \<in> set registeredHeaderNames then [ErrUnsupportedCritical]
      else if map_of ms name = None then [ErrUnsupportedCritical]
      else checkCriticalNames ms names)"

definition checkCritical :: "members \<Rightarrow> go_error option" where
  "checkCritical ms =
     (case map_of ms ''crit'' of
        None \<Rightarrow> None
      | Some (raw, _) \<Rightarrow>
          (case decodeStrict dec_strings raw of
             Inl _ \<Rightarrow> Some [ErrUnsupportedCritical]
           | Inr None \<Rightarrow> Some [ErrUnsupportedCritical]
           | Inr (Some names) \<Rightarrow>
               if len names = 0 then Some [ErrUnsupportedCritical]
               else Some (checkCriticalNames ms names)))"

section \<open>Lemmas\<close>

lemma traverse_length: "traverse f xs = Inr ys \<Longrightarrow> length ys = length xs"
  by (induction xs arbitrary: ys) (auto split: sum.splits)

lemma traverse_nth: "traverse f xs = Inr ys \<Longrightarrow> list_all2 (\<lambda>x y. f x = Inr y) xs ys"
  by (induction xs arbitrary: ys) (auto split: sum.splits)

lemma traverse_Inr: "list_all2 (\<lambda>x y. f x = Inr y) xs ys \<Longrightarrow> traverse f xs = Inr ys"
  by (induction rule: list_all2_induct) auto

lemma dec_fields_append:
  "dec_fields field s (ms @ ns) =
     (case dec_fields field s ms of Inl e \<Rightarrow> Inl e | Inr s' \<Rightarrow> dec_fields field s' ns)"
  by (induction field s ms rule: dec_fields.induct) (auto split: sum.splits)

text \<open>A value whose first non-blank byte is a brace is an object, so the struct case applies.\<close>

lemma decodeObject_Inr_iff:
  "decodeObject dec data = Inr x \<longleftrightarrow>
     (\<exists>v. skip_ws data \<noteq> [] \<and> hd (skip_ws data) = CHR ''{'' \<and> json_parse data = Some v \<and> dec v = Inr x)"
proof -
  have ws: "trim_left data [chr 32, chr 9, chr 13, chr 10] = skip_ws data"
    by (auto simp: trim_left_def skip_ws_def is_ws_def intro!: arg_cong [where f = "\<lambda>p. dropWhile p data"])
  show ?thesis
    unfolding decodeObject_def ws Let_def
    by (auto simp: decodeStrict_def hd_conv_nth split: option.splits)
qed

lemma json_parse_object:
  assumes "skip_ws data \<noteq> []" "hd (skip_ws data) = CHR ''{''" "json_parse data = Some v"
  shows "\<exists>ms. v = JObj ms"
proof -
  obtain c r where c: "skip_ws data = c # r" "c = CHR ''{''"
    using assms(1,2) by (cases "skip_ws data") auto
  from assms(3) obtain w where "parse_value True (Suc (Suc (2 * length data))) max_depth (CHR ''{'' # r) = Some (v, w)"
    by (auto simp: json_text_def c split: option.splits if_splits)
  then show ?thesis
    by (auto simp: parse_value.simps split: if_splits option.splits)
qed

lemma decodeObject_struct:
  assumes "decodeObject (dec_struct field zero) data = Inr x"
  obtains ms where "json_parse data = Some (JObj ms)" "dec_fields field zero ms = Inr x"
  using assms json_parse_object by (fastforce simp: decodeObject_Inr_iff)

lemma decodeObject_members:
  assumes "decodeObject dec_members data = Inr ms"
  shows "json_parse data = Some (JObj ms)"
  using assms json_parse_object by (fastforce simp: decodeObject_Inr_iff)

lemma decodeObject_reads_as:
  assumes "reads_as k data (JObj ms)" "k \<le> max_depth" "hd data = CHR ''{''"
  shows "decodeObject dec data = dec (JObj ms)"
proof -
  have p: "json_parse data = Some (JObj ms)" by (rule json_text_reads_as [OF assms(1,2)])
  have ne: "data \<noteq> []" using assms(1) by (simp add: reads_as_def)
  then obtain r where d: "data = CHR ''{'' # r" using assms(3) by (cases data) auto
  have "trim_left data [chr 32, chr 9, chr 13, chr 10] = data"
  proof -
    have "CHR ''{'' \<notin> set [chr 32, chr 9, chr 13, chr 10]" by code_simp
    then show ?thesis by (simp add: trim_left_def d)
  qed
  then show ?thesis
    using p by (simp add: decodeObject_def decodeStrict_def d)
qed

lemma checkCriticalNames_error [simp]: "checkCriticalNames ms names = [ErrUnsupportedCritical]"
  by (induction ms names rule: checkCriticalNames.induct) auto

lemma checkCritical_eq:
  "checkCritical ms = (if ''crit'' \<in> fst ` set ms then Some [ErrUnsupportedCritical] else None)"
  by (auto simp: checkCritical_def map_of_eq_None_iff split: option.splits sum.splits prod.splits)
    (metis image_eqI map_of_SomeD prod.sel(1) prod.exhaust_sel)+

lemma decodeFreshObject_atomic:
  "decodeFreshObject dec data (Some old) = (Some e, new) \<Longrightarrow> new = Some old"
  by (auto simp: decodeFreshObject_def split: sum.splits)

section \<open>Emitting structs\<close>

text \<open>
  \<^verbatim>\<open>json.Marshal\<close> of a struct: its fields in declaration order, each with its name, whether
  \<^verbatim>\<open>omitempty\<close> leaves it out, and its encoded value.
\<close>

definition enc_struct :: "(string \<times> bool \<times> string) list \<Rightarrow> bytes" where
  "enc_struct fs = enc_object (map (\<lambda>(n, om, raw). (n, raw)) (filter (\<lambda>(n, om, raw). \<not> om) fs))"

fun struct_members :: "(string \<times> bool \<times> string \<times> json) list \<Rightarrow> members" where
  "struct_members [] = []"
| "struct_members ((n, om, raw, v) # fs) = (if om then [] else [(n, raw, v)]) @ struct_members fs"

lemma valid_utf8_ASCII: "list_all isASCII s \<Longrightarrow> valid_utf8 s"
  by (induction s) (auto simp: valid_utf8.simps isASCII_def)

lemma struct_members_names: "fst ` set (struct_members fs) \<subseteq> fst ` set fs"
  by (induction fs rule: struct_members.induct) auto

lemma reads_as_struct:
  assumes "\<And>n om raw v. (n, om, raw, v) \<in> set fs \<Longrightarrow> valid_utf8 n \<and> (\<not> om \<longrightarrow> reads_as k raw v)"
    "distinct (map fst fs)" "0 \<le> k"
  shows "reads_as (k + 1) (enc_struct (map (\<lambda>(n, om, raw, v). (n, om, raw)) fs)) (JObj (struct_members fs))"
proof -
  let ?P = "\<lambda>(n, raw) (n', raw', v). n' = n \<and> raw' = raw \<and> valid_utf8 n \<and> reads_as k raw v"
  let ?ms = "map (\<lambda>(n, om, raw). (n, raw)) (filter (\<lambda>(n, om, raw). \<not> om) (map (\<lambda>(n, om, raw, v). (n, om, raw)) fs))"
  have *: "list_all2 ?P ?ms (struct_members fs)"
    using assms(1) by (induction fs rule: struct_members.induct) auto
  have sub: "fst ` set ?ms \<subseteq> fst ` set fs" by force
  have "distinct (map fst ?ms)"
    using assms(2) by (induction fs rule: struct_members.induct) (auto simp: image_iff)
  from reads_as_object [OF * this assms(3)] show ?thesis
    by (simp add: enc_struct_def)
qed

lemma dec_fields_struct:
  "dec_fields field s (struct_members ((n, om, raw, v) # fs)) =
     (case (if om then Inr s else field s n raw v) of
        Inl e \<Rightarrow> Inl e | Inr s' \<Rightarrow> dec_fields field s' (struct_members fs))"
  by simp

text \<open>String slices and base64url text as emitted values.\<close>

lemma reads_as_strings:
  assumes "\<forall>s \<in> set ss. valid_utf8 s"
  shows "reads_as 1 (enc_array (map enc_str ss)) (JArr (map (\<lambda>s. (enc_str s, JStr s)) ss))"
proof -
  have "list_all2 (reads_as 0) (map enc_str ss) (map JStr ss)"
    using assms by (induction ss) (auto intro: reads_as_str)
  from reads_as_array [OF this] show ?thesis by (simp add: zip_map_map zip_same_conv_map comp_def)
qed

lemma dec_strings_emitted: "dec_strings (JArr (map (\<lambda>s. (enc_str s, JStr s)) ss)) = Inr (Some ss)"
proof -
  have "traverse (\<lambda>(_, v). dec_string v) (map (\<lambda>s. (enc_str s, JStr s)) ss) = Inr ss"
    by (induction ss) auto
  then show ?thesis by simp
qed

lemma b64_char_ASCII: "b64_char c \<Longrightarrow> isASCII c"
  by (auto simp: b64_char_def dec_char_def isASCII_def isUpper_def isLower_def isDigit_def
      split: if_splits)

lemma Encode_ASCII: "list_all isASCII (Encode b)"
  using b64_encode_chars [of b] b64_char_ASCII unfolding Encode_def list_all_iff by blast

lemma valid_utf8_Encode [simp]: "valid_utf8 (Encode b)"
  by (rule valid_utf8_ASCII [OF Encode_ASCII])

lemma enc_struct_hd: "hd (enc_struct fs) = CHR ''{''"
  by (simp add: enc_struct_def enc_object_def)

end
