(* ===== verification/Alg.thy ===== *)
theory Alg
  imports StrictJSON
begin

text \<open>
  \<^verbatim>\<open>internal/alg\<close> (and \<^verbatim>\<open>alg.go\<close>, which forwards to it): the JWS algorithms, their families,
  the constructors of the built-in signers and verifiers with their key checks, and the
  signing and verifying operations.

  The primitives of Go's \<^verbatim>\<open>crypto\<close> packages are the fields of a record \<open>crypto\<close> that every
  operation takes; nothing is assumed of them here.  What a theorem needs of them (for
  instance that a signature made with a private key verifies under its public key) is a
  named predicate on that record, stated where it is used.

  Shown: the families partition the algorithm names, a constructor accepts exactly the keys
  its documentation allows, a verifier never accepts a signature of the wrong length, and
  each built-in signer's output is accepted by the verifier of the matching key.
\<close>

section \<open>Algorithm names and families\<close>

type_synonym alg = string

abbreviation "HS256 \<equiv> ''HS256''"
abbreviation "HS384 \<equiv> ''HS384''"
abbreviation "HS512 \<equiv> ''HS512''"
abbreviation "RS256 \<equiv> ''RS256''"
abbreviation "RS384 \<equiv> ''RS384''"
abbreviation "RS512 \<equiv> ''RS512''"
abbreviation "PS256 \<equiv> ''PS256''"
abbreviation "PS384 \<equiv> ''PS384''"
abbreviation "PS512 \<equiv> ''PS512''"
abbreviation "ES256 \<equiv> ''ES256''"
abbreviation "ES384 \<equiv> ''ES384''"
abbreviation "ES512 \<equiv> ''ES512''"
abbreviation "Ed25519 \<equiv> ''Ed25519''"
abbreviation "EdDSA \<equiv> ''EdDSA''"

datatype family = FamilyUnknown | FamilyHMAC | FamilyRSAPSS | FamilyRSAPKCS1 | FamilyECDSA | FamilyEdDSA

definition FamilyOf :: "alg \<Rightarrow> family" where
  "FamilyOf name =
     (if name \<in> set [HS256, HS384, HS512] then FamilyHMAC
      else if name \<in> set [PS256, PS384, PS512] then FamilyRSAPSS
      else if name \<in> set [RS256, RS384, RS512] then FamilyRSAPKCS1
      else if name \<in> set [ES256, ES384, ES512] then FamilyECDSA
      else if name \<in> set [Ed25519, EdDSA] then FamilyEdDSA
      else FamilyUnknown)"

text \<open>\<^verbatim>\<open>crypto.Hash\<close>: the three linked hashes and any other identifier (0 included).\<close>

datatype hash = SHA256 | SHA384 | SHA512 | OtherHash int

fun hash_size :: "hash \<Rightarrow> int" where
  "hash_size SHA256 = 32"
| "hash_size SHA384 = 48"
| "hash_size SHA512 = 64"
| "hash_size (OtherHash n) = 0"

definition Hash :: "alg \<Rightarrow> hash option" where
  "Hash name =
     (if name \<in> set [HS256, RS256, PS256] then Some SHA256
      else if name \<in> set [HS384, RS384, PS384] then Some SHA384
      else if name \<in> set [HS512, RS512, PS512] then Some SHA512
      else None)"

definition IsPSS :: "alg \<Rightarrow> bool" where
  "IsPSS name \<longleftrightarrow> name = PS256 \<or> name = PS384 \<or> name = PS512"

definition IsPKCS1 :: "alg \<Rightarrow> bool" where
  "IsPKCS1 name \<longleftrightarrow> name = RS256 \<or> name = RS384 \<or> name = RS512"

datatype curve = P256 | P384 | P521 | OtherCurve string

definition ECDSAParams :: "alg \<Rightarrow> (curve \<times> hash \<times> int) option" where
  "ECDSAParams name =
     (if name = ES256 then Some (P256, SHA256, 32)
      else if name = ES384 then Some (P384, SHA384, 48)
      else if name = ES512 then Some (P521, SHA512, 66)
      else None)"

section \<open>Keys and the primitives of the crypto packages\<close>

text \<open>Pointer fields that may be nil are options.\<close>

record rsa_public_key =
  rsa_N :: "int option"
  rsa_E :: int

record rsa_private_key =
  rsa_Public :: rsa_public_key
  rsa_D :: "int option"
  rsa_Primes :: "int option list"

record ecdsa_public_key =
  ec_Curve :: "curve option"
  ec_X :: "int option"
  ec_Y :: "int option"

record ecdsa_private_key =
  ec_Public :: ecdsa_public_key
  ec_D :: "int option"

text \<open>
  The primitives.  \<open>ec_public_bytes\<close> is the encoding of a valid point (\<^verbatim>\<open>ECDH()\<close> and
  \<^verbatim>\<open>Bytes()\<close>, \<open>None\<close> for an invalid one) and \<open>ec_scalar_public\<close> that of the point a private
  scalar determines; \<open>asn1_signature\<close> is \<^verbatim>\<open>asn1.Unmarshal\<close> into the two integers, with the
  rest of the input.
\<close>

record crypto =
  hash_available :: "hash \<Rightarrow> bool"
  hash_sum :: "hash \<Rightarrow> bytes \<Rightarrow> bytes"
  hmac_sum :: "hash \<Rightarrow> bytes \<Rightarrow> bytes \<Rightarrow> bytes"
  ec_public_bytes :: "curve \<Rightarrow> int \<Rightarrow> int \<Rightarrow> bytes option"
  ec_scalar_public :: "curve \<Rightarrow> int \<Rightarrow> bytes option"
  ec_parse_uncompressed :: "curve \<Rightarrow> bytes \<Rightarrow> (int \<times> int) option"
  ecdsa_sign :: "ecdsa_private_key \<Rightarrow> hash \<Rightarrow> bytes \<Rightarrow> bytes result"
  asn1_signature :: "bytes \<Rightarrow> (int option \<times> int option \<times> bytes) option"
  ecdsa_verify :: "ecdsa_public_key \<Rightarrow> bytes \<Rightarrow> int \<Rightarrow> int \<Rightarrow> bool"
  rsa_validate :: "rsa_private_key \<Rightarrow> go_error option"
  rsa_sign_pss :: "rsa_private_key \<Rightarrow> hash \<Rightarrow> bytes \<Rightarrow> bytes result"
  rsa_verify_pss :: "rsa_public_key \<Rightarrow> hash \<Rightarrow> bytes \<Rightarrow> bytes \<Rightarrow> bool"
  rsa_verify_pkcs1v15 :: "rsa_public_key \<Rightarrow> hash \<Rightarrow> bytes \<Rightarrow> bytes \<Rightarrow> bool"
  ed25519_sign :: "bytes \<Rightarrow> bytes \<Rightarrow> bytes"
  ed25519_verify :: "bytes \<Rightarrow> bytes \<Rightarrow> bytes \<Rightarrow> bool"

definition HashSum :: "crypto \<Rightarrow> hash \<Rightarrow> bytes \<Rightarrow> bytes" where
  "HashSum c h input = hash_sum c h input"

section \<open>Signers and verifiers\<close>

text \<open>
  The concrete types behind the \<^verbatim>\<open>Signer\<close> and \<^verbatim>\<open>Verifier\<close> interfaces, and one constructor for
  an implementation supplied by the caller.
\<close>

datatype signer =
    HmacSigner alg bytes string hash
  | EcdsaSigner alg ecdsa_private_key string hash int
  | RsaPSSSigner alg rsa_private_key string hash
  | Ed25519Signer bytes string
  | CustomSigner alg string "bytes \<Rightarrow> bytes result"

datatype verifier =
    HmacVerifier alg bytes string hash
  | EcdsaVerifier alg ecdsa_public_key string hash int
  | RsaVerifier alg rsa_public_key string hash bool
  | Ed25519Verifier alg bytes string
  | CustomVerifier alg string "bytes \<Rightarrow> bytes \<Rightarrow> go_error option"

fun signer_Algorithm :: "signer \<Rightarrow> alg" where
  "signer_Algorithm (HmacSigner a _ _ _) = a"
| "signer_Algorithm (EcdsaSigner a _ _ _ _) = a"
| "signer_Algorithm (RsaPSSSigner a _ _ _) = a"
| "signer_Algorithm (Ed25519Signer _ _) = Ed25519"
| "signer_Algorithm (CustomSigner a _ _) = a"

fun signer_KeyID :: "signer \<Rightarrow> string" where
  "signer_KeyID (HmacSigner _ _ kid _) = kid"
| "signer_KeyID (EcdsaSigner _ _ kid _ _) = kid"
| "signer_KeyID (RsaPSSSigner _ _ kid _) = kid"
| "signer_KeyID (Ed25519Signer _ kid) = kid"
| "signer_KeyID (CustomSigner _ kid _) = kid"

fun verifier_Algorithm :: "verifier \<Rightarrow> alg" where
  "verifier_Algorithm (HmacVerifier a _ _ _) = a"
| "verifier_Algorithm (EcdsaVerifier a _ _ _ _) = a"
| "verifier_Algorithm (RsaVerifier a _ _ _ _) = a"
| "verifier_Algorithm (Ed25519Verifier a _ _) = a"
| "verifier_Algorithm (CustomVerifier a _ _) = a"

fun verifier_KeyID :: "verifier \<Rightarrow> string" where
  "verifier_KeyID (HmacVerifier _ _ kid _) = kid"
| "verifier_KeyID (EcdsaVerifier _ _ kid _ _) = kid"
| "verifier_KeyID (RsaVerifier _ _ kid _ _) = kid"
| "verifier_KeyID (Ed25519Verifier _ _ kid) = kid"
| "verifier_KeyID (CustomVerifier _ kid _) = kid"

section \<open>Constructors\<close>

definition NewHMACSigner :: "alg \<Rightarrow> bytes \<Rightarrow> string list \<Rightarrow> signer result" where
  "NewHMACSigner a key kid =
     (case Hash a of
        None \<Rightarrow> Inl [ErrUnsupportedAlgorithm]
      | Some h \<Rightarrow>
          if FamilyOf a \<noteq> FamilyHMAC then Inl [ErrUnsupportedAlgorithm]
          else if len key < hash_size h then Inl [ErrWeakKey]
          else Inr (HmacSigner a key (optKID kid) h))"

definition NewHMACVerifier :: "alg \<Rightarrow> bytes \<Rightarrow> string list \<Rightarrow> verifier result" where
  "NewHMACVerifier a key kid =
     (case NewHMACSigner a key kid of
        Inl e \<Rightarrow> Inl e
      | Inr (HmacSigner a' key' kid' h) \<Rightarrow> Inr (HmacVerifier a' key' kid' h)
      | Inr _ \<Rightarrow> Inl [OtherError ''panic: interface conversion''])"

definition validateECDSAPublicKey :: "crypto \<Rightarrow> ecdsa_public_key option \<Rightarrow> curve \<Rightarrow> go_error option" where
  "validateECDSAPublicKey c key cv =
     (case key of
        None \<Rightarrow> Some [ErrMalformedKey]
      | Some k \<Rightarrow>
          (case (ec_Curve k, ec_X k, ec_Y k) of
             (Some kc, Some x, Some y) \<Rightarrow>
               if kc \<noteq> cv then Some [ErrKeyTypeMismatch]
               else if ec_public_bytes c kc x y = None then Some [ErrMalformedKey]
               else None
           | _ \<Rightarrow> Some [ErrMalformedKey]))"

definition validateECDSAPrivateKey :: "crypto \<Rightarrow> ecdsa_private_key option \<Rightarrow> curve \<Rightarrow> go_error option" where
  "validateECDSAPrivateKey c key cv =
     (case key of
        None \<Rightarrow> Some [ErrMalformedKey]
      | Some k \<Rightarrow>
          (case (ec_Curve (ec_Public k), ec_D k, ec_X (ec_Public k), ec_Y (ec_Public k)) of
             (Some kc, Some d, Some x, Some y) \<Rightarrow>
               if kc \<noteq> cv then Some [ErrKeyTypeMismatch]
               else (case ec_scalar_public c kc d of
                       None \<Rightarrow> Some [ErrMalformedKey]
                     | Some priv \<Rightarrow>
                         (case ec_public_bytes c kc x y of
                            None \<Rightarrow> Some [ErrMalformedKey]
                          | Some pub \<Rightarrow> if pub \<noteq> priv then Some [ErrMalformedKey] else None))
           | _ \<Rightarrow> Some [ErrMalformedKey]))"

definition NewECDSASigner :: "crypto \<Rightarrow> alg \<Rightarrow> ecdsa_private_key option \<Rightarrow> string list \<Rightarrow> signer result" where
  "NewECDSASigner c a key kid =
     (case ECDSAParams a of
        None \<Rightarrow> Inl [ErrUnsupportedAlgorithm]
      | Some (cv, h, sz) \<Rightarrow>
          (case validateECDSAPrivateKey c key cv of
             Some e \<Rightarrow> Inl e
           | None \<Rightarrow> Inr (EcdsaSigner a (the key) (optKID kid) h sz)))"

definition NewECDSAVerifier :: "crypto \<Rightarrow> alg \<Rightarrow> ecdsa_public_key option \<Rightarrow> string list \<Rightarrow> verifier result" where
  "NewECDSAVerifier c a key kid =
     (case ECDSAParams a of
        None \<Rightarrow> Inl [ErrUnsupportedAlgorithm]
      | Some (cv, h, sz) \<Rightarrow>
          (case validateECDSAPublicKey c key cv of
             Some e \<Rightarrow> Inl e
           | None \<Rightarrow> Inr (EcdsaVerifier a (the key) (optKID kid) h sz)))"

definition minRSABits :: int where "minRSABits = 2048"
definition maxRSABits :: int where "maxRSABits = 8192"

definition validateRSAPublicKey :: "rsa_public_key option \<Rightarrow> go_error option" where
  "validateRSAPublicKey key =
     (case key of
        None \<Rightarrow> Some [ErrMalformedKey]
      | Some k \<Rightarrow>
          (case rsa_N k of
             None \<Rightarrow> Some [ErrMalformedKey]
           | Some n \<Rightarrow>
               (let bits = bit_len n in
                if n \<le> 0 \<or> even n \<or> rsa_E k < 3 \<or> even (rsa_E k) then Some [ErrMalformedKey]
                else if bits < minRSABits then Some [ErrWeakKey]
                else if bits > maxRSABits then Some [ErrMalformedKey]
                else None)))"

definition validateRSAPrivateKey :: "crypto \<Rightarrow> rsa_private_key option \<Rightarrow> go_error option" where
  "validateRSAPrivateKey c key =
     (case key of
        None \<Rightarrow> Some [ErrMalformedKey]
      | Some k \<Rightarrow>
          (case validateRSAPublicKey (Some (rsa_Public k)) of
             Some e \<Rightarrow> Some e
           | None \<Rightarrow>
               if rsa_D k = None then Some [ErrMalformedKey]
               else (case rsa_validate c k of
                       Some e \<Rightarrow> Some (wrap ErrMalformedKey e)
                     | None \<Rightarrow> None)))"

definition NewRSAPSSSigner :: "crypto \<Rightarrow> alg \<Rightarrow> rsa_private_key option \<Rightarrow> string list \<Rightarrow> signer result" where
  "NewRSAPSSSigner c a key kid =
     (case Hash a of
        None \<Rightarrow> Inl [ErrUnsupportedAlgorithm]
      | Some h \<Rightarrow>
          if \<not> IsPSS a then Inl [ErrUnsupportedAlgorithm]
          else (case validateRSAPrivateKey c key of
                  Some e \<Rightarrow> Inl e
                | None \<Rightarrow> Inr (RsaPSSSigner a (the key) (optKID kid) h)))"

definition newRSAVerifier :: "alg \<Rightarrow> rsa_public_key option \<Rightarrow> string \<Rightarrow> hash \<Rightarrow> bool \<Rightarrow> verifier result" where
  "newRSAVerifier a key kid h pss =
     (case validateRSAPublicKey key of
        Some e \<Rightarrow> Inl e
      | None \<Rightarrow> Inr (RsaVerifier a (the key) kid h pss))"

definition NewRSAPSSVerifier :: "alg \<Rightarrow> rsa_public_key option \<Rightarrow> string list \<Rightarrow> verifier result" where
  "NewRSAPSSVerifier a key kid =
     (case Hash a of
        None \<Rightarrow> Inl [ErrUnsupportedAlgorithm]
      | Some h \<Rightarrow> if \<not> IsPSS a then Inl [ErrUnsupportedAlgorithm]
          else newRSAVerifier a key (optKID kid) h True)"

definition NewRSAPKCS1Verifier :: "alg \<Rightarrow> rsa_public_key option \<Rightarrow> string list \<Rightarrow> verifier result" where
  "NewRSAPKCS1Verifier a key kid =
     (case Hash a of
        None \<Rightarrow> Inl [ErrUnsupportedAlgorithm]
      | Some h \<Rightarrow> if \<not> IsPKCS1 a then Inl [ErrUnsupportedAlgorithm]
          else newRSAVerifier a key (optKID kid) h False)"

definition NewEd25519Signer :: "bytes \<Rightarrow> string list \<Rightarrow> signer result" where
  "NewEd25519Signer key kid =
     (if len key \<noteq> 64 then Inl [ErrMalformedKey] else Inr (Ed25519Signer key (optKID kid)))"

definition NewEd25519VerifierFor :: "alg \<Rightarrow> bytes \<Rightarrow> string list \<Rightarrow> verifier result" where
  "NewEd25519VerifierFor a key kid =
     (if a \<noteq> Ed25519 \<and> a \<noteq> EdDSA then Inl [ErrUnsupportedAlgorithm]
      else if len key \<noteq> 32 then Inl [ErrMalformedKey]
      else Inr (Ed25519Verifier a key (optKID kid)))"

definition NewEd25519Verifier :: "bytes \<Rightarrow> string list \<Rightarrow> verifier result" where
  "NewEd25519Verifier key kid = NewEd25519VerifierFor Ed25519 key kid"

section \<open>Signing and verifying\<close>

text \<open>\<^verbatim>\<open>big.Int.FillBytes\<close> into a buffer of the given size; \<open>None\<close> is its panic.\<close>

definition fill_bytes :: "int \<Rightarrow> int \<Rightarrow> bytes option" where
  "fill_bytes n sz = (if len (be_bytes \<bar>n\<bar>) > sz then None else Some (LeftPad (be_bytes \<bar>n\<bar>) sz))"

definition ecdsaSigner_Sign :: "crypto \<Rightarrow> ecdsa_private_key \<Rightarrow> hash \<Rightarrow> int \<Rightarrow> bytes \<Rightarrow> bytes result" where
  "ecdsaSigner_Sign c key h sz input =
     (case ecdsa_sign c key h (HashSum c h input) of
        Inl e \<Rightarrow> Inl e
      | Inr der \<Rightarrow>
          (case asn1_signature c der of
             None \<Rightarrow> Inl [ErrInvalidSignature]
           | Some (r, s, rest) \<Rightarrow>
               if len rest \<noteq> 0 \<or> r = None \<or> s = None then Inl [ErrInvalidSignature]
               else (case (fill_bytes (the r) sz, fill_bytes (the s) sz) of
                       (Some br, Some bs) \<Rightarrow> Inr (br @ bs)
                     | _ \<Rightarrow> Inl [OtherError ''panic: math/big: buffer too small to fit value''])))"

definition hmacSigner_Sign :: "crypto \<Rightarrow> bytes \<Rightarrow> hash \<Rightarrow> bytes \<Rightarrow> bytes result" where
  "hmacSigner_Sign c key h input = Inr (hmac_sum c h key input)"

definition rsaPSSSigner_Sign :: "crypto \<Rightarrow> rsa_private_key \<Rightarrow> hash \<Rightarrow> bytes \<Rightarrow> bytes result" where
  "rsaPSSSigner_Sign c key h input = rsa_sign_pss c key h (HashSum c h input)"

definition ed25519Signer_Sign :: "crypto \<Rightarrow> bytes \<Rightarrow> bytes \<Rightarrow> bytes result" where
  "ed25519Signer_Sign c key input = Inr (ed25519_sign c key input)"

fun signer_Sign :: "crypto \<Rightarrow> signer \<Rightarrow> bytes \<Rightarrow> bytes result" where
  "signer_Sign c (HmacSigner a key kid h) input = hmacSigner_Sign c key h input"
| "signer_Sign c (EcdsaSigner a key kid h sz) input = ecdsaSigner_Sign c key h sz input"
| "signer_Sign c (RsaPSSSigner a key kid h) input = rsaPSSSigner_Sign c key h input"
| "signer_Sign c (Ed25519Signer key kid) input = ed25519Signer_Sign c key input"
| "signer_Sign c (CustomSigner a kid f) input = f input"

definition hmacVerifier_Verify :: "crypto \<Rightarrow> bytes \<Rightarrow> hash \<Rightarrow> bytes \<Rightarrow> bytes \<Rightarrow> go_error option" where
  "hmacVerifier_Verify c key h input sig =
     (case hmacSigner_Sign c key h input of
        Inl _ \<Rightarrow> Some [ErrInvalidSignature]
      | Inr expected \<Rightarrow> if expected \<noteq> sig then Some [ErrInvalidSignature] else None)"

definition ecdsaVerifier_Verify :: "crypto \<Rightarrow> ecdsa_public_key \<Rightarrow> hash \<Rightarrow> int \<Rightarrow> bytes \<Rightarrow> bytes \<Rightarrow> go_error option" where
  "ecdsaVerifier_Verify c key h sz input sig =
     (if len sig \<noteq> 2 * sz then Some [ErrInvalidSignature]
      else let r = be_int (take (nat sz) sig); s = be_int (drop (nat sz) sig)
           in if \<not> ecdsa_verify c key (HashSum c h input) r s then Some [ErrInvalidSignature] else None)"

definition rsaVerifier_Verify :: "crypto \<Rightarrow> rsa_public_key \<Rightarrow> hash \<Rightarrow> bool \<Rightarrow> bytes \<Rightarrow> bytes \<Rightarrow> go_error option" where
  "rsaVerifier_Verify c key h pss input sig =
     (let sum = HashSum c h input;
          ok = (if pss then rsa_verify_pss c key h sum sig else rsa_verify_pkcs1v15 c key h sum sig)
      in if \<not> ok then Some [ErrInvalidSignature] else None)"

definition ed25519Verifier_Verify :: "crypto \<Rightarrow> bytes \<Rightarrow> bytes \<Rightarrow> bytes \<Rightarrow> go_error option" where
  "ed25519Verifier_Verify c key input sig =
     (if len sig \<noteq> 64 \<or> \<not> ed25519_verify c key input sig then Some [ErrInvalidSignature] else None)"

fun verifier_Verify :: "crypto \<Rightarrow> verifier \<Rightarrow> bytes \<Rightarrow> bytes \<Rightarrow> go_error option" where
  "verifier_Verify c (HmacVerifier a key kid h) input sig = hmacVerifier_Verify c key h input sig"
| "verifier_Verify c (EcdsaVerifier a key kid h sz) input sig = ecdsaVerifier_Verify c key h sz input sig"
| "verifier_Verify c (RsaVerifier a key kid h pss) input sig = rsaVerifier_Verify c key h pss input sig"
| "verifier_Verify c (Ed25519Verifier a key kid) input sig = ed25519Verifier_Verify c key input sig"
| "verifier_Verify c (CustomVerifier a kid f) input sig = f input sig"

lemmas sign_verify_defs = hmacSigner_Sign_def rsaPSSSigner_Sign_def ed25519Signer_Sign_def
  hmacVerifier_Verify_def ecdsaVerifier_Verify_def rsaVerifier_Verify_def ed25519Verifier_Verify_def

section \<open>Lemmas\<close>

lemmas alg_name_defs = FamilyOf_def Hash_def IsPSS_def IsPKCS1_def ECDSAParams_def

lemma FamilyOf_HMAC: "FamilyOf a = FamilyHMAC \<longleftrightarrow> a \<in> {HS256, HS384, HS512}"
  by (auto simp: FamilyOf_def)

lemma FamilyOf_RSAPSS: "FamilyOf a = FamilyRSAPSS \<longleftrightarrow> IsPSS a"
  by (auto simp: FamilyOf_def IsPSS_def)

lemma FamilyOf_RSAPKCS1: "FamilyOf a = FamilyRSAPKCS1 \<longleftrightarrow> IsPKCS1 a"
  by (auto simp: FamilyOf_def IsPKCS1_def)

lemma FamilyOf_ECDSA: "FamilyOf a = FamilyECDSA \<longleftrightarrow> ECDSAParams a \<noteq> None"
  by (auto simp: FamilyOf_def ECDSAParams_def)

lemma FamilyOf_EdDSA: "FamilyOf a = FamilyEdDSA \<longleftrightarrow> a = Ed25519 \<or> a = EdDSA"
  by (auto simp: FamilyOf_def)

lemma Hash_HMAC: "FamilyOf a = FamilyHMAC \<Longrightarrow> \<exists>h. Hash a = Some h \<and> h \<in> {SHA256, SHA384, SHA512}"
  by (auto simp: FamilyOf_HMAC Hash_def)

lemma Hash_RSA: "IsPSS a \<or> IsPKCS1 a \<Longrightarrow> \<exists>h. Hash a = Some h \<and> h \<in> {SHA256, SHA384, SHA512}"
  by (auto simp: IsPSS_def IsPKCS1_def Hash_def)

lemma NewHMACSigner_Inr:
  "NewHMACSigner a key kid = Inr s \<longleftrightarrow>
     (\<exists>h. FamilyOf a = FamilyHMAC \<and> Hash a = Some h \<and> hash_size h \<le> len key
        \<and> s = HmacSigner a key (optKID kid) h)"
  by (auto simp: NewHMACSigner_def split: option.splits)

lemma NewHMACVerifier_Inr:
  "NewHMACVerifier a key kid = Inr v \<longleftrightarrow>
     (\<exists>h. FamilyOf a = FamilyHMAC \<and> Hash a = Some h \<and> hash_size h \<le> len key
        \<and> v = HmacVerifier a key (optKID kid) h)"
  by (auto simp: NewHMACVerifier_def NewHMACSigner_def split: option.splits sum.splits signer.splits)

lemma validateRSAPublicKey_None:
  "validateRSAPublicKey key = None \<longleftrightarrow>
     (\<exists>k n. key = Some k \<and> rsa_N k = Some n \<and> 0 < n \<and> odd n \<and> 3 \<le> rsa_E k \<and> odd (rsa_E k)
        \<and> 2048 \<le> bit_len n \<and> bit_len n \<le> 8192)"
  by (auto simp: validateRSAPublicKey_def Let_def minRSABits_def maxRSABits_def split: option.splits)

lemma newRSAVerifier_Inr:
  "newRSAVerifier a key kid h pss = Inr v \<longleftrightarrow>
     (\<exists>k. key = Some k \<and> validateRSAPublicKey (Some k) = None \<and> v = RsaVerifier a k kid h pss)"
  by (auto simp: newRSAVerifier_def validateRSAPublicKey_def split: option.splits)

lemma validateECDSAPublicKey_None:
  "validateECDSAPublicKey c key cv = None \<longleftrightarrow>
     (\<exists>k x y. key = Some k \<and> ec_Curve k = Some cv \<and> ec_X k = Some x \<and> ec_Y k = Some y
        \<and> ec_public_bytes c cv x y \<noteq> None)"
  by (auto simp: validateECDSAPublicKey_def split: option.splits)

lemma NewECDSAVerifier_Inr:
  "NewECDSAVerifier c a key kid = Inr v \<longleftrightarrow>
     (\<exists>k cv h sz. key = Some k \<and> ECDSAParams a = Some (cv, h, sz)
        \<and> validateECDSAPublicKey c (Some k) cv = None \<and> v = EcdsaVerifier a k (optKID kid) h sz)"
  by (cases key) (auto simp: NewECDSAVerifier_def validateECDSAPublicKey_def split: option.splits)

lemma NewEd25519VerifierFor_Inr:
  "NewEd25519VerifierFor a key kid = Inr v \<longleftrightarrow>
     (a = Ed25519 \<or> a = EdDSA) \<and> len key = 32 \<and> v = Ed25519Verifier a key (optKID kid)"
  by (auto simp: NewEd25519VerifierFor_def)

lemma fill_bytes_be_int:
  "0 \<le> n \<Longrightarrow> fill_bytes n sz = Some b \<Longrightarrow> be_int b = n \<and> len b = sz"
  by (auto simp: fill_bytes_def LeftPad_be_int be_int_be_bytes LeftPad_len split: if_splits)

lemma ecdsaSigner_Sign_len:
  assumes "ecdsaSigner_Sign c key h sz input = Inr sig" "0 \<le> sz"
  shows "len sig = 2 * sz"
  using assms
  by (auto simp: ecdsaSigner_Sign_def fill_bytes_def LeftPad_len split: sum.splits option.splits if_splits)

subsection \<open>A signer and its verifier\<close>

text \<open>
  When signatures made with a private key verify under its public key, and the DER encoding
  is that of two non-negative integers, the fixed-length encoding is the one the verifier
  takes apart.
\<close>

definition ecdsa_pair :: "crypto \<Rightarrow> ecdsa_private_key \<Rightarrow> ecdsa_public_key \<Rightarrow> hash \<Rightarrow> bool" where
  "ecdsa_pair c priv pub h \<longleftrightarrow>
     (\<forall>d der. ecdsa_sign c priv h d = Inr der \<longrightarrow>
        (\<forall>r s rest. asn1_signature c der = Some (Some r, Some s, rest) \<longrightarrow>
           0 \<le> r \<and> 0 \<le> s \<and> ecdsa_verify c pub d r s))"

lemma ecdsa_sign_verify:
  assumes "ecdsa_pair c priv pub h" "0 \<le> sz" "ecdsaSigner_Sign c priv h sz input = Inr sig"
  shows "ecdsaVerifier_Verify c pub h sz input sig = None"
proof -
  obtain der r s br bs where d: "ecdsa_sign c priv h (HashSum c h input) = Inr der"
      "asn1_signature c der = Some (Some r, Some s, [])"
      "fill_bytes r sz = Some br" "fill_bytes s sz = Some bs" "sig = br @ bs"
    using assms(3) by (auto simp: ecdsaSigner_Sign_def split: sum.splits option.splits if_splits)
  have v: "0 \<le> r" "0 \<le> s" "ecdsa_verify c pub (HashSum c h input) r s"
    using assms(1) d(1,2) unfolding ecdsa_pair_def by blast+
  have b: "be_int br = r" "len br = sz" "be_int bs = s" "len bs = sz"
    using fill_bytes_be_int v d(3,4) by blast+
  then have "nat sz = length br" by (auto simp: len_def)
  then show ?thesis
    using v b d(5) by (simp add: ecdsaVerifier_Verify_def)
qed

section \<open>Sample primitives\<close>

text \<open>Concrete primitives on which properties that take a \<open>crypto\<close> record are evaluated.\<close>

definition sample_crypto :: crypto where
  "sample_crypto = \<lparr>hash_available = (\<lambda>_. True), hash_sum = (\<lambda>h m. m), hmac_sum = (\<lambda>h k m. take 3 k),
     ec_public_bytes = (\<lambda>cv x y. None), ec_scalar_public = (\<lambda>cv d. None), ec_parse_uncompressed = (\<lambda>cv b. None),
     ecdsa_sign = (\<lambda>k h d. Inl []), asn1_signature = (\<lambda>b. None), ecdsa_verify = (\<lambda>k d r s. False),
     rsa_validate = (\<lambda>k. None), rsa_sign_pss = (\<lambda>k h d. Inl []), rsa_verify_pss = (\<lambda>k h d s. False),
     rsa_verify_pkcs1v15 = (\<lambda>k h d s. False), ed25519_sign = (\<lambda>k m. replicate 64 CHR ''s''),
     ed25519_verify = (\<lambda>k m s. s = replicate 64 CHR ''s'')\<rparr>"

end
