(* ===== verification/Key.thy ===== *)
theory Key
  imports Alg
begin

text \<open>
  \<^verbatim>\<open>key.go\<close>: the JSON Web Key.  Its record, its JSON form in both directions, the canonicity
  check, the constructors from standard library keys, reconstruction of the public key, and
  the choice of a verifier for an algorithm.

  Shown: \<^verbatim>\<open>UnmarshalJSON\<close> inverts \<^verbatim>\<open>MarshalJSON\<close> on every servable canonical key and a
  symmetric key is never serialized; \<^verbatim>\<open>verifierForAlg\<close> only ever builds a verifier of the
  requested algorithm whose family is that of the key type, and only for a key whose own
  usage members permit it; the public keys built into a \<^verbatim>\<open>Key\<close> are the ones \<^verbatim>\<open>PublicKey\<close> gives
  back.
\<close>

section \<open>The key and its JSON form\<close>

abbreviation "KeyTypeRSA \<equiv> ''RSA''"
abbreviation "KeyTypeEC \<equiv> ''EC''"
abbreviation "KeyTypeOKP \<equiv> ''OKP''"
abbreviation "KeyTypeOct \<equiv> ''oct''"

definition MaxRSAKeyBits :: int where "MaxRSAKeyBits = 8192"

record key =
  Kty :: string
  Kid :: string
  Use :: string
  KeyOps :: "string list"
  Alg :: string
  k_n :: bytes
  k_e :: bytes
  k_crv :: string
  k_x :: bytes
  k_y :: bytes
  k_k :: bytes

definition zero_key :: key where
  "zero_key = \<lparr>Kty = [], Kid = [], Use = [], KeyOps = [], Alg = [], k_n = [], k_e = [], k_crv = [],
     k_x = [], k_y = [], k_k = []\<rparr>"

text \<open>\<^verbatim>\<open>slices.Clone\<close> copies a slice; as values, the copy and the original are equal.\<close>

definition slices_Clone :: "'a list \<Rightarrow> 'a list" where
  "slices_Clone xs = map (\<lambda>x. x) xs"

definition Clone :: "key \<Rightarrow> key" where
  "Clone k = k\<lparr>KeyOps := slices_Clone (KeyOps k), k_n := slices_Clone (k_n k), k_e := slices_Clone (k_e k),
     k_x := slices_Clone (k_x k), k_y := slices_Clone (k_y k), k_k := slices_Clone (k_k k)\<rparr>"

record jwkJSON =
  j_Kty :: string
  j_Kid :: string
  j_Use :: string
  j_KeyOps :: "string list"
  j_Alg :: string
  j_N :: string
  j_E :: string
  j_Crv :: string
  j_X :: string
  j_Y :: string
  j_K :: string

definition zero_jwk :: jwkJSON where
  "zero_jwk = \<lparr>j_Kty = [], j_Kid = [], j_Use = [], j_KeyOps = [], j_Alg = [], j_N = [], j_E = [],
     j_Crv = [], j_X = [], j_Y = [], j_K = []\<rparr>"

definition jwk_fields :: "jwkJSON \<Rightarrow> (string \<times> bool \<times> string) list" where
  "jwk_fields j =
     [(''kty'', False, enc_str (j_Kty j)),
      (''kid'', j_Kid j = [], enc_str (j_Kid j)),
      (''use'', j_Use j = [], enc_str (j_Use j)),
      (''key_ops'', j_KeyOps j = [], enc_array (map enc_str (j_KeyOps j))),
      (''alg'', j_Alg j = [], enc_str (j_Alg j)),
      (''n'', j_N j = [], enc_str (j_N j)),
      (''e'', j_E j = [], enc_str (j_E j)),
      (''crv'', j_Crv j = [], enc_str (j_Crv j)),
      (''x'', j_X j = [], enc_str (j_X j)),
      (''y'', j_Y j = [], enc_str (j_Y j)),
      (''k'', j_K j = [], enc_str (j_K j))]"

definition set_str :: "(string \<Rightarrow> 's) \<Rightarrow> json \<Rightarrow> 's result" where
  "set_str upd v = (case dec_string v of Inl e \<Rightarrow> Inl e | Inr s \<Rightarrow> Inr (upd s))"

definition jwk_field :: "jwkJSON \<Rightarrow> string \<Rightarrow> string \<Rightarrow> json \<Rightarrow> jwkJSON result" where
  "jwk_field j n raw v =
     (if n = ''kty'' then set_str (\<lambda>s. j\<lparr>j_Kty := s\<rparr>) v
      else if n = ''kid'' then set_str (\<lambda>s. j\<lparr>j_Kid := s\<rparr>) v
      else if n = ''use'' then set_str (\<lambda>s. j\<lparr>j_Use := s\<rparr>) v
      else if n = ''key_ops'' then
        (case dec_strings v of Inl e \<Rightarrow> Inl e
         | Inr None \<Rightarrow> Inr (j\<lparr>j_KeyOps := []\<rparr>) | Inr (Some ss) \<Rightarrow> Inr (j\<lparr>j_KeyOps := ss\<rparr>))
      else if n = ''alg'' then set_str (\<lambda>s. j\<lparr>j_Alg := s\<rparr>) v
      else if n = ''n'' then set_str (\<lambda>s. j\<lparr>j_N := s\<rparr>) v
      else if n = ''e'' then set_str (\<lambda>s. j\<lparr>j_E := s\<rparr>) v
      else if n = ''crv'' then set_str (\<lambda>s. j\<lparr>j_Crv := s\<rparr>) v
      else if n = ''x'' then set_str (\<lambda>s. j\<lparr>j_X := s\<rparr>) v
      else if n = ''y'' then set_str (\<lambda>s. j\<lparr>j_Y := s\<rparr>) v
      else if n = ''k'' then set_str (\<lambda>s. j\<lparr>j_K := s\<rparr>) v
      else Inr j)"

definition key_to_jwk :: "key \<Rightarrow> jwkJSON" where
  "key_to_jwk k =
     (let j = zero_jwk\<lparr>j_Kty := Kty k, j_Kid := Kid k, j_Use := Use k, j_KeyOps := KeyOps k,
                j_Alg := Alg k, j_Crv := k_crv k\<rparr>;
          j = (if len (k_n k) > 0 then j\<lparr>j_N := Encode (k_n k)\<rparr> else j);
          j = (if len (k_e k) > 0 then j\<lparr>j_E := Encode (k_e k)\<rparr> else j);
          j = (if len (k_x k) > 0 then j\<lparr>j_X := Encode (k_x k)\<rparr> else j)
      in if len (k_y k) > 0 then j\<lparr>j_Y := Encode (k_y k)\<rparr> else j)"

definition MarshalJSON :: "key \<Rightarrow> bytes result" where
  "MarshalJSON k =
     (if Kty k = KeyTypeOct then Inl [ErrOctNotServable]
      else Inr (enc_struct (jwk_fields (key_to_jwk k))))"

section \<open>Curves\<close>

definition curveName :: "curve \<Rightarrow> string" where
  "curveName cv = (case cv of P256 \<Rightarrow> ''P-256'' | P384 \<Rightarrow> ''P-384'' | P521 \<Rightarrow> ''P-521'' | OtherCurve _ \<Rightarrow> [])"

definition curveByName :: "string \<Rightarrow> curve option" where
  "curveByName s = (if s = ''P-256'' then Some P256 else if s = ''P-384'' then Some P384
     else if s = ''P-521'' then Some P521 else None)"

text \<open>\<^verbatim>\<open>Params().BitSize\<close>; only asked of the three named curves.\<close>

fun BitSize :: "curve \<Rightarrow> int" where
  "BitSize P256 = 256"
| "BitSize P384 = 384"
| "BitSize P521 = 521"
| "BitSize (OtherCurve _) = 0"

definition coord_size :: "curve \<Rightarrow> int" where
  "coord_size cv = (BitSize cv + 7) div 8"

section \<open>The canonicity check\<close>

definition sigKeyOps :: "string list" where "sigKeyOps = [''sign'', ''verify'']"
definition encKeyOps :: "string list" where "encKeyOps = [''encrypt'', ''decrypt'', ''wrapKey'', ''unwrapKey'']"
definition deriveKeyOps :: "string list" where "deriveKeyOps = [''deriveKey'', ''deriveBits'']"

unbundle bit_operations_syntax

text \<open>The loop over \<^verbatim>\<open>key_ops\<close>, with the set of values seen and the operation classes (uint8).\<close>

fun checkKeyOps :: "string \<Rightarrow> string list \<Rightarrow> 8 word \<Rightarrow> string list \<Rightarrow> (8 word) result" where
  "checkKeyOps use seen classes [] = Inr classes"
| "checkKeyOps use seen classes (op # ops) =
     (if op \<in> set seen then Inl [ErrMalformedKey]
      else
        let classes' = (if op \<in> set sigKeyOps then classes OR 1
                        else if op \<in> set encKeyOps then classes OR 2
                        else if op \<in> set deriveKeyOps then classes OR 4 else classes)
        in if (use = ''sig'' \<and> op \<notin> set sigKeyOps)
              \<or> (use = ''enc'' \<and> op \<notin> set encKeyOps \<and> op \<notin> set deriveKeyOps)
           then Inl [ErrMalformedKey]
           else checkKeyOps use (op # seen) classes' ops)"

definition first_zero :: "bytes \<Rightarrow> bool" where
  "first_zero b \<longleftrightarrow> len b > 0 \<and> b ! 0 = chr 0"

definition checkMaterial :: "key \<Rightarrow> go_error option" where
  "checkMaterial k =
     (if Kty k = KeyTypeRSA then
        (if first_zero (k_n k) \<or> first_zero (k_e k) then Some [ErrMalformedKey]
         else if bit_len (be_int (k_n k)) > MaxRSAKeyBits then Some [ErrMalformedKey] else None)
      else if Kty k = KeyTypeEC then
        (case curveByName (k_crv k) of
           None \<Rightarrow> None
         | Some cv \<Rightarrow>
             if (len (k_x k) > 0 \<and> len (k_x k) \<noteq> coord_size cv)
                \<or> (len (k_y k) > 0 \<and> len (k_y k) \<noteq> coord_size cv)
             then Some [ErrMalformedKey] else None)
      else if Kty k = KeyTypeOKP then
        (if k_crv k = ''Ed25519'' \<and> len (k_x k) > 0 \<and> len (k_x k) \<noteq> 32 then Some [ErrMalformedKey] else None)
      else None)"

definition checkCanonical :: "key \<Rightarrow> go_error option" where
  "checkCanonical k =
     (case checkKeyOps (Use k) [] 0 (KeyOps k) of
        Inl e \<Rightarrow> Some e
      | Inr classes \<Rightarrow>
          if classes \<noteq> 0 \<and> classes AND (classes - 1) \<noteq> 0 then Some [ErrMalformedKey]
          else checkMaterial k)"

section \<open>UnmarshalJSON\<close>

definition dec_b64 :: "string \<Rightarrow> bytes result" where
  "dec_b64 s = (if s = [] then Inr [] else Decode s)"

text \<open>The error, or the value stored in \<^verbatim>\<open>*k\<close>; on an error \<^verbatim>\<open>*k\<close> keeps its value.\<close>

definition jwk_to_key :: "jwkJSON \<Rightarrow> key result" where
  "jwk_to_key j =
     (case dec_b64 (j_N j) of Inl e \<Rightarrow> Inl e | Inr n \<Rightarrow>
      (case dec_b64 (j_E j) of Inl e \<Rightarrow> Inl e | Inr e \<Rightarrow>
       (case dec_b64 (j_X j) of Inl e \<Rightarrow> Inl e | Inr x \<Rightarrow>
        (case dec_b64 (j_Y j) of Inl e \<Rightarrow> Inl e | Inr y \<Rightarrow>
         (case dec_b64 (j_K j) of Inl e \<Rightarrow> Inl e | Inr kk \<Rightarrow>
          (let parsed = \<lparr>Kty = j_Kty j, Kid = j_Kid j, Use = j_Use j, KeyOps = slices_Clone (j_KeyOps j),
                 Alg = j_Alg j, k_n = n, k_e = e, k_crv = j_Crv j, k_x = x, k_y = y, k_k = kk\<rparr>
           in case checkCanonical parsed of Some err \<Rightarrow> Inl err | None \<Rightarrow> Inr parsed))))))"

definition UnmarshalJSON :: "bytes \<Rightarrow> key result" where
  "UnmarshalJSON b =
     (case decodeObject (dec_struct jwk_field zero_jwk) b of
        Inl e \<Rightarrow> Inl e
      | Inr j \<Rightarrow> jwk_to_key j)"

section \<open>Keys from standard library keys\<close>

definition FromRSAPublicKey :: "rsa_public_key option \<Rightarrow> string list \<Rightarrow> key" where
  "FromRSAPublicKey pub kid =
     (let k = zero_key\<lparr>Kty := KeyTypeRSA, Kid := FirstString kid\<rparr>
      in case pub of
           None \<Rightarrow> k
         | Some p \<Rightarrow>
             (case rsa_N p of
                None \<Rightarrow> k
              | Some n \<Rightarrow> if n \<le> 0 \<or> rsa_E p \<le> 0 then k
                  else k\<lparr>k_n := be_bytes n, k_e := be_bytes (rsa_E p)\<rparr>))"

definition FromECDSAPublicKey :: "crypto \<Rightarrow> ecdsa_public_key option \<Rightarrow> string list \<Rightarrow> key" where
  "FromECDSAPublicKey c pub kid =
     (let k = zero_key\<lparr>Kty := KeyTypeEC, Kid := FirstString kid\<rparr>
      in case pub of
           None \<Rightarrow> k
         | Some p \<Rightarrow>
             (case (ec_Curve p, ec_X p, ec_Y p) of
                (Some cv, Some x, Some y) \<Rightarrow>
                  (let k = k\<lparr>k_crv := curveName cv\<rparr>
                   in if k_crv k = [] then k
                      else let sz = coord_size cv
                           in case ec_public_bytes c cv x y of
                                None \<Rightarrow> k
                              | Some b \<Rightarrow> if len b = 1 + 2 * sz
                                  then k\<lparr>k_x := take (nat sz) (drop 1 b), k_y := drop (nat (1 + sz)) b\<rparr>
                                  else k)
              | _ \<Rightarrow> k))"

definition FromEd25519PublicKey :: "bytes \<Rightarrow> string list \<Rightarrow> key" where
  "FromEd25519PublicKey pub kid =
     zero_key\<lparr>Kty := KeyTypeOKP, Kid := FirstString kid, k_crv := ''Ed25519'', k_x := pub\<rparr>"

definition FromHMACSecret :: "bytes \<Rightarrow> string list \<Rightarrow> key" where
  "FromHMACSecret secret kid = zero_key\<lparr>Kty := KeyTypeOct, Kid := FirstString kid, k_k := secret\<rparr>"

section \<open>Key material\<close>

datatype public_key = RSAPublic rsa_public_key | ECDSAPublic ecdsa_public_key | Ed25519Public bytes

definition rsa_PublicKey :: "key \<Rightarrow> rsa_public_key result" where
  "rsa_PublicKey k =
     (if len (k_n k) = 0 \<or> len (k_e k) = 0 \<or> k_n k ! 0 = chr 0 \<or> k_e k ! 0 = chr 0 then Inl [ErrMalformedKey]
      else
        let n = be_int (k_n k); e = be_int (k_e k)
        in if n \<le> 0 \<or> bit_len n > MaxRSAKeyBits \<or> even n \<or> \<not> e < 2 ^ 63 then Inl [ErrMalformedKey]
           else if e < 3 \<or> e > 2147483647 \<or> even e then Inl [ErrMalformedKey]
           else Inr \<lparr>rsa_N = Some n, rsa_E = e\<rparr>)"

definition ec_PublicKey :: "crypto \<Rightarrow> key \<Rightarrow> ecdsa_public_key result" where
  "ec_PublicKey c k =
     (case curveByName (k_crv k) of
        None \<Rightarrow> Inl [ErrMalformedKey]
      | Some cv \<Rightarrow>
          if len (k_x k) = 0 \<or> len (k_y k) = 0 then Inl [ErrMalformedKey]
          else if len (k_x k) \<noteq> coord_size cv \<or> len (k_y k) \<noteq> coord_size cv then Inl [ErrMalformedKey]
          else (case ec_parse_uncompressed c cv ([chr 4] @ k_x k @ k_y k) of
                  None \<Rightarrow> Inl [ErrMalformedKey]
                | Some (x, y) \<Rightarrow> Inr \<lparr>ec_Curve = Some cv, ec_X = Some x, ec_Y = Some y\<rparr>))"

definition okp_PublicKey :: "key \<Rightarrow> bytes result" where
  "okp_PublicKey k =
     (if k_crv k \<noteq> ''Ed25519'' \<or> len (k_x k) \<noteq> 32 then Inl [ErrMalformedKey] else Inr (k_x k))"

definition PublicKey :: "crypto \<Rightarrow> key \<Rightarrow> public_key result" where
  "PublicKey c k =
     (if Kty k = KeyTypeRSA then map_sum id RSAPublic (rsa_PublicKey k)
      else if Kty k = KeyTypeEC then map_sum id ECDSAPublic (ec_PublicKey c k)
      else if Kty k = KeyTypeOKP then map_sum id Ed25519Public (okp_PublicKey k)
      else Inl [ErrMalformedKey])"

definition Secret :: "key \<Rightarrow> bytes result" where
  "Secret k = (if Kty k \<noteq> KeyTypeOct then Inl [ErrKeyTypeMismatch]
     else if len (k_k k) = 0 then Inl [ErrMalformedKey] else Inr (k_k k))"

section \<open>Choosing a verifier\<close>

definition sameAlgorithm :: "alg \<Rightarrow> alg \<Rightarrow> bool" where
  "sameAlgorithm keyAlg tokenAlg =
     (if keyAlg = tokenAlg then True
      else let isEd = (\<lambda>a. a = Ed25519 \<or> a = EdDSA) in isEd keyAlg \<and> isEd tokenAlg)"

definition permitsVerify :: "key \<Rightarrow> alg \<Rightarrow> go_error option" where
  "permitsVerify k a =
     (if Use k \<noteq> [] \<and> Use k \<noteq> ''sig'' then Some [ErrKeyUsage]
      else if len (KeyOps k) > 0 \<and> ''verify'' \<notin> set (KeyOps k) then Some [ErrKeyUsage]
      else if Alg k \<noteq> [] \<and> \<not> sameAlgorithm (Alg k) a then Some [ErrKeyUsage]
      else None)"

text \<open>A type assertion that fails is a panic; \<open>as_rsa\<close> and the other two make it an error value.\<close>

definition as_rsa :: "public_key \<Rightarrow> rsa_public_key result" where
  "as_rsa p = (case p of RSAPublic k \<Rightarrow> Inr k | _ \<Rightarrow> Inl [OtherError ''panic: interface conversion''])"

definition as_ecdsa :: "public_key \<Rightarrow> ecdsa_public_key result" where
  "as_ecdsa p = (case p of ECDSAPublic k \<Rightarrow> Inr k | _ \<Rightarrow> Inl [OtherError ''panic: interface conversion''])"

definition as_ed25519 :: "public_key \<Rightarrow> bytes result" where
  "as_ed25519 p = (case p of Ed25519Public k \<Rightarrow> Inr k | _ \<Rightarrow> Inl [OtherError ''panic: interface conversion''])"

definition rsaPublic :: "crypto \<Rightarrow> key \<Rightarrow> rsa_public_key result" where
  "rsaPublic c k =
     (if Kty k \<noteq> KeyTypeRSA then Inl [ErrAlgorithmNotAllowed]
      else (case PublicKey c k of Inl e \<Rightarrow> Inl e | Inr pub \<Rightarrow> as_rsa pub))"

definition verifierForAlg :: "crypto \<Rightarrow> key \<Rightarrow> alg \<Rightarrow> verifier result" where
  "verifierForAlg c k a =
     (case permitsVerify k a of
        Some e \<Rightarrow> Inl e
      | None \<Rightarrow>
          (case FamilyOf a of
             FamilyHMAC \<Rightarrow>
               (case Secret k of Inl _ \<Rightarrow> Inl [ErrAlgorithmNotAllowed]
                | Inr secret \<Rightarrow> NewHMACVerifier a secret [Kid k])
           | FamilyRSAPSS \<Rightarrow>
               (case rsaPublic c k of Inl e \<Rightarrow> Inl e | Inr pub \<Rightarrow> NewRSAPSSVerifier a (Some pub) [Kid k])
           | FamilyRSAPKCS1 \<Rightarrow>
               (case rsaPublic c k of Inl e \<Rightarrow> Inl e | Inr pub \<Rightarrow> NewRSAPKCS1Verifier a (Some pub) [Kid k])
           | FamilyECDSA \<Rightarrow>
               if Kty k \<noteq> KeyTypeEC then Inl [ErrAlgorithmNotAllowed]
               else (case PublicKey c k of Inl e \<Rightarrow> Inl e
                     | Inr p \<Rightarrow> (case as_ecdsa p of Inl e \<Rightarrow> Inl e
                         | Inr pub \<Rightarrow> NewECDSAVerifier c a (Some pub) [Kid k]))
           | FamilyEdDSA \<Rightarrow>
               if Kty k \<noteq> KeyTypeOKP then Inl [ErrAlgorithmNotAllowed]
               else (case PublicKey c k of Inl e \<Rightarrow> Inl e
                     | Inr p \<Rightarrow> (case as_ed25519 p of Inl e \<Rightarrow> Inl e
                         | Inr pub \<Rightarrow> NewEd25519VerifierFor a pub [Kid k]))
           | FamilyUnknown \<Rightarrow> Inl [ErrUnsupportedAlgorithm]))"

definition Verifier :: "crypto \<Rightarrow> key \<Rightarrow> verifier result" where
  "Verifier c k = verifierForAlg c k (Alg k)"

definition validateRepresentation :: "crypto \<Rightarrow> key \<Rightarrow> go_error option" where
  "validateRepresentation c k =
     (case checkCanonical k of
        Some e \<Rightarrow> Some e
      | None \<Rightarrow>
          if Kty k = KeyTypeRSA then
            (case PublicKey c k of Inl _ \<Rightarrow> Some [ErrMalformedKey] | Inr _ \<Rightarrow> None)
          else if Kty k = KeyTypeEC then
            (if curveByName (k_crv k) \<noteq> None
             then (case PublicKey c k of Inl _ \<Rightarrow> Some [ErrMalformedKey] | Inr _ \<Rightarrow> None) else None)
          else if Kty k = KeyTypeOKP then
            (if k_crv k = ''Ed25519''
             then (case PublicKey c k of Inl _ \<Rightarrow> Some [ErrMalformedKey] | Inr _ \<Rightarrow> None) else None)
          else if Kty k = KeyTypeOct then
            (case Secret k of Inl _ \<Rightarrow> Some [ErrMalformedKey] | Inr _ \<Rightarrow> None)
          else None)"

section \<open>Lemmas\<close>

lemma slices_Clone_id [simp]: "slices_Clone xs = xs"
  by (simp add: slices_Clone_def)

lemma Clone_id [simp]: "Clone k = k"
  by (simp add: Clone_def)

lemma dec_b64_Encode [simp]: "dec_b64 (Encode b) = Inr b"
  by (simp add: dec_b64_def)

lemma dec_b64_Nil [simp]: "dec_b64 [] = Inr []"
  by (simp add: dec_b64_def)

lemma Nil_eq_Encode [simp]: "[] = Encode b \<longleftrightarrow> b = []"
  using Encode_eq_Nil [of b] by metis

lemma dec_b64_Inr: "dec_b64 s = Inr b \<longleftrightarrow> s = Encode b"
  by (auto simp: dec_b64_def Decode_iff)

text \<open>The operation classes: which of the three sets the list meets.\<close>

definition classes_of :: "string list \<Rightarrow> 8 word" where
  "classes_of ops = (if \<exists>op \<in> set ops. op \<in> set sigKeyOps then 1 else 0)
     OR (if \<exists>op \<in> set ops. op \<in> set encKeyOps then 2 else 0)
     OR (if \<exists>op \<in> set ops. op \<in> set deriveKeyOps then 4 else 0)"

definition use_consistent :: "string \<Rightarrow> string \<Rightarrow> bool" where
  "use_consistent use op \<longleftrightarrow> (use = ''sig'' \<longrightarrow> op \<in> set sigKeyOps) \<and>
     (use = ''enc'' \<longrightarrow> op \<in> set encKeyOps \<or> op \<in> set deriveKeyOps)"

lemma key_ops_disjoint:
  "op \<in> set sigKeyOps \<Longrightarrow> op \<notin> set encKeyOps \<and> op \<notin> set deriveKeyOps"
  "op \<in> set encKeyOps \<Longrightarrow> op \<notin> set deriveKeyOps"
  by (auto simp: sigKeyOps_def encKeyOps_def deriveKeyOps_def)

definition op_class :: "string \<Rightarrow> 8 word" where
  "op_class op = (if op \<in> set sigKeyOps then 1 else if op \<in> set encKeyOps then 2
     else if op \<in> set deriveKeyOps then 4 else 0)"

lemma classes_of_Cons: "classes_of (op # ops) = op_class op OR classes_of ops"
  using key_ops_disjoint [of op] by (auto simp: classes_of_def op_class_def)

lemma checkKeyOps_step:
  "checkKeyOps use seen cl (op # ops) =
     (if op \<in> set seen \<or> \<not> use_consistent use op then Inl [ErrMalformedKey]
      else checkKeyOps use (op # seen) (cl OR op_class op) ops)"
  by (simp add: use_consistent_def op_class_def Let_def)

lemma checkKeyOps_eq:
  "checkKeyOps use seen cl ops =
     (if distinct ops \<and> set ops \<inter> set seen = {} \<and> list_all (use_consistent use) ops
      then Inr (cl OR classes_of ops) else Inl [ErrMalformedKey])"
proof (induction ops arbitrary: seen cl)
  case Nil
  show ?case by (simp add: classes_of_def)
next
  case (Cons op ops)
  show ?case
    unfolding checkKeyOps_step Cons.IH classes_of_Cons by (auto simp: or.assoc)
qed

definition one_class :: "string list \<Rightarrow> bool" where
  "one_class ops \<longleftrightarrow> length (filter (\<lambda>cl. \<exists>op \<in> set ops. op \<in> set cl) [sigKeyOps, encKeyOps, deriveKeyOps]) \<le> 1"

lemma classes_power_of_two:
  "\<not> (classes_of ops \<noteq> 0 \<and> classes_of ops AND (classes_of ops - 1) \<noteq> 0) \<longleftrightarrow> one_class ops"
  by (cases "\<exists>op \<in> set ops. op \<in> set sigKeyOps"; cases "\<exists>op \<in> set ops. op \<in> set encKeyOps";
      cases "\<exists>op \<in> set ops. op \<in> set deriveKeyOps") (simp_all add: classes_of_def one_class_def)

lemma checkCanonical_None:
  "checkCanonical k = None \<longleftrightarrow>
     distinct (KeyOps k) \<and> list_all (use_consistent (Use k)) (KeyOps k) \<and> one_class (KeyOps k)
     \<and> checkMaterial k = None"
  using classes_power_of_two [of "KeyOps k"] by (auto simp: checkCanonical_def checkKeyOps_eq)

lemma checkCanonical_no_ops [simp]: "KeyOps k = [] \<Longrightarrow> checkCanonical k = checkMaterial k"
  by (simp add: checkCanonical_def)

lemma checkMaterial_error: "checkMaterial k = Some e \<Longrightarrow> e = [ErrMalformedKey]"
  by (auto simp: checkMaterial_def split: if_splits option.splits)

lemma checkCanonical_error: "checkCanonical k = Some e \<Longrightarrow> e = [ErrMalformedKey]"
  by (auto simp: checkCanonical_def checkKeyOps_eq dest: checkMaterial_error split: if_splits)

subsection \<open>JSON round trip\<close>

definition jwk_valid_utf8 :: "jwkJSON \<Rightarrow> bool" where
  "jwk_valid_utf8 j \<longleftrightarrow> valid_utf8 (j_Kty j) \<and> valid_utf8 (j_Kid j) \<and> valid_utf8 (j_Use j)
     \<and> list_all valid_utf8 (j_KeyOps j) \<and> valid_utf8 (j_Alg j) \<and> valid_utf8 (j_N j) \<and> valid_utf8 (j_E j)
     \<and> valid_utf8 (j_Crv j) \<and> valid_utf8 (j_X j) \<and> valid_utf8 (j_Y j) \<and> valid_utf8 (j_K j)"

definition jwk_values :: "jwkJSON \<Rightarrow> (string \<times> bool \<times> string \<times> json) list" where
  "jwk_values j =
     [(''kty'', False, enc_str (j_Kty j), JStr (j_Kty j)),
      (''kid'', j_Kid j = [], enc_str (j_Kid j), JStr (j_Kid j)),
      (''use'', j_Use j = [], enc_str (j_Use j), JStr (j_Use j)),
      (''key_ops'', j_KeyOps j = [], enc_array (map enc_str (j_KeyOps j)),
         JArr (map (\<lambda>s. (enc_str s, JStr s)) (j_KeyOps j))),
      (''alg'', j_Alg j = [], enc_str (j_Alg j), JStr (j_Alg j)),
      (''n'', j_N j = [], enc_str (j_N j), JStr (j_N j)),
      (''e'', j_E j = [], enc_str (j_E j), JStr (j_E j)),
      (''crv'', j_Crv j = [], enc_str (j_Crv j), JStr (j_Crv j)),
      (''x'', j_X j = [], enc_str (j_X j), JStr (j_X j)),
      (''y'', j_Y j = [], enc_str (j_Y j), JStr (j_Y j)),
      (''k'', j_K j = [], enc_str (j_K j), JStr (j_K j))]"

lemma jwk_reads_as:
  assumes "jwk_valid_utf8 j"
  shows "reads_as 2 (enc_struct (jwk_fields j)) (JObj (struct_members (jwk_values j)))"
proof -
  have m: "jwk_fields j = map (\<lambda>(n, om, raw, v). (n, om, raw)) (jwk_values j)"
    by (simp add: jwk_fields_def jwk_values_def)
  have s: "reads_as 1 (enc_str s) (JStr s)" if "valid_utf8 s" for s
    by (rule reads_as_mono [OF reads_as_str [OF that]]) simp
  have a: "reads_as 1 (enc_array (map enc_str (j_KeyOps j))) (JArr (map (\<lambda>s. (enc_str s, JStr s)) (j_KeyOps j)))"
    using assms by (intro reads_as_strings) (auto simp: jwk_valid_utf8_def list_all_iff)
  have "reads_as (1 + 1) (enc_struct (jwk_fields j)) (JObj (struct_members (jwk_values j)))"
    unfolding m
  proof (rule reads_as_struct)
    fix n om raw v
    assume "(n, om, raw, v) \<in> set (jwk_values j)"
    then show "valid_utf8 n \<and> (\<not> om \<longrightarrow> reads_as 1 raw v)"
      using assms s a unfolding jwk_values_def jwk_valid_utf8_def
      by (auto intro!: valid_utf8_ASCII simp: isASCII_def)
  qed (simp_all add: jwk_values_def)
  then show ?thesis by simp
qed

text \<open>Decoding an optional field of an object being filled, whether it was left out or not.\<close>

lemma jwk_optional_field:
  "j_Kid r = [] \<Longrightarrow> dec_fields jwk_field r (struct_members ((''kid'', s = [], raw, JStr s) # fs)) =
     dec_fields jwk_field (r\<lparr>j_Kid := s\<rparr>) (struct_members fs)"
  "j_Use r = [] \<Longrightarrow> dec_fields jwk_field r (struct_members ((''use'', s = [], raw, JStr s) # fs)) =
     dec_fields jwk_field (r\<lparr>j_Use := s\<rparr>) (struct_members fs)"
  "j_Alg r = [] \<Longrightarrow> dec_fields jwk_field r (struct_members ((''alg'', s = [], raw, JStr s) # fs)) =
     dec_fields jwk_field (r\<lparr>j_Alg := s\<rparr>) (struct_members fs)"
  "j_N r = [] \<Longrightarrow> dec_fields jwk_field r (struct_members ((''n'', s = [], raw, JStr s) # fs)) =
     dec_fields jwk_field (r\<lparr>j_N := s\<rparr>) (struct_members fs)"
  "j_E r = [] \<Longrightarrow> dec_fields jwk_field r (struct_members ((''e'', s = [], raw, JStr s) # fs)) =
     dec_fields jwk_field (r\<lparr>j_E := s\<rparr>) (struct_members fs)"
  "j_Crv r = [] \<Longrightarrow> dec_fields jwk_field r (struct_members ((''crv'', s = [], raw, JStr s) # fs)) =
     dec_fields jwk_field (r\<lparr>j_Crv := s\<rparr>) (struct_members fs)"
  "j_X r = [] \<Longrightarrow> dec_fields jwk_field r (struct_members ((''x'', s = [], raw, JStr s) # fs)) =
     dec_fields jwk_field (r\<lparr>j_X := s\<rparr>) (struct_members fs)"
  "j_Y r = [] \<Longrightarrow> dec_fields jwk_field r (struct_members ((''y'', s = [], raw, JStr s) # fs)) =
     dec_fields jwk_field (r\<lparr>j_Y := s\<rparr>) (struct_members fs)"
  "j_K r = [] \<Longrightarrow> dec_fields jwk_field r (struct_members ((''k'', s = [], raw, JStr s) # fs)) =
     dec_fields jwk_field (r\<lparr>j_K := s\<rparr>) (struct_members fs)"
  by (cases r; auto simp: jwk_field_def set_str_def)+

lemma jwk_other_fields:
  "dec_fields jwk_field r (struct_members ((''kty'', False, raw, JStr s) # fs)) =
     dec_fields jwk_field (r\<lparr>j_Kty := s\<rparr>) (struct_members fs)"
  "j_KeyOps r = [] \<Longrightarrow> dec_fields jwk_field r
     (struct_members ((''key_ops'', ss = [], raw, JArr (map (\<lambda>s. (enc_str s, JStr s)) ss)) # fs)) =
     dec_fields jwk_field (r\<lparr>j_KeyOps := ss\<rparr>) (struct_members fs)"
  by (cases r; auto simp: jwk_field_def set_str_def dec_strings_emitted simp del: dec_strings.simps)+

lemma jwk_fields_emitted: "dec_fields jwk_field zero_jwk (struct_members (jwk_values j)) = Inr j"
  by (cases j) (simp add: jwk_values_def jwk_optional_field jwk_other_fields zero_jwk_def
      del: struct_members.simps(2))

lemma UnmarshalJSON_MarshalJSON_eq:
  assumes "MarshalJSON k = Inr b" "jwk_valid_utf8 (key_to_jwk k)"
  shows "UnmarshalJSON b = jwk_to_key (key_to_jwk k)"
proof -
  have b: "b = enc_struct (jwk_fields (key_to_jwk k))"
    using assms(1) by (auto simp: MarshalJSON_def split: if_splits)
  have "decodeObject (dec_struct jwk_field zero_jwk) b = Inr (key_to_jwk k)"
    using decodeObject_reads_as [OF jwk_reads_as [OF assms(2)], of "dec_struct jwk_field zero_jwk"]
    by (simp add: b enc_struct_hd max_depth_def jwk_fields_emitted)
  then show ?thesis by (simp add: UnmarshalJSON_def)
qed

lemma key_to_jwk_fields:
  "j_Kty (key_to_jwk k) = Kty k" "j_Kid (key_to_jwk k) = Kid k" "j_Use (key_to_jwk k) = Use k"
  "j_KeyOps (key_to_jwk k) = KeyOps k" "j_Alg (key_to_jwk k) = Alg k" "j_Crv (key_to_jwk k) = k_crv k"
  "j_N (key_to_jwk k) = Encode (k_n k)" "j_E (key_to_jwk k) = Encode (k_e k)"
  "j_X (key_to_jwk k) = Encode (k_x k)" "j_Y (key_to_jwk k) = Encode (k_y k)" "j_K (key_to_jwk k) = []"
  by (simp_all add: key_to_jwk_def Let_def zero_jwk_def)

definition key_valid_utf8 :: "key \<Rightarrow> bool" where
  "key_valid_utf8 k \<longleftrightarrow> valid_utf8 (Kty k) \<and> valid_utf8 (Kid k) \<and> valid_utf8 (Use k)
     \<and> list_all valid_utf8 (KeyOps k) \<and> valid_utf8 (Alg k) \<and> valid_utf8 (k_crv k)"

lemma key_to_jwk_valid: "key_valid_utf8 k \<Longrightarrow> jwk_valid_utf8 (key_to_jwk k)"
  by (simp add: jwk_valid_utf8_def key_valid_utf8_def key_to_jwk_fields valid_utf8_ASCII)

lemma jwk_to_key_to_jwk: "jwk_to_key (key_to_jwk k) =
    (case checkCanonical (k\<lparr>k_k := []\<rparr>) of Some e \<Rightarrow> Inl e | None \<Rightarrow> Inr (k\<lparr>k_k := []\<rparr>))"
  by (cases k) (simp add: jwk_to_key_def key_to_jwk_fields Let_def split: option.split)

subsection \<open>Verifiers\<close>

lemma PublicKey_kinds:
  "PublicKey c k = Inr (RSAPublic r) \<longleftrightarrow> Kty k = KeyTypeRSA \<and> rsa_PublicKey k = Inr r"
  "PublicKey c k = Inr (ECDSAPublic q) \<longleftrightarrow> Kty k = KeyTypeEC \<and> ec_PublicKey c k = Inr q"
  "PublicKey c k = Inr (Ed25519Public p) \<longleftrightarrow> Kty k = KeyTypeOKP \<and> okp_PublicKey k = Inr p"
  by (auto simp: PublicKey_def map_sum_def split: sum.splits)

lemma permitsVerify_None:
  "permitsVerify k a = None \<longleftrightarrow>
     (Use k = [] \<or> Use k = ''sig'') \<and> (KeyOps k = [] \<or> ''verify'' \<in> set (KeyOps k))
     \<and> (Alg k = [] \<or> sameAlgorithm (Alg k) a)"
  by (auto simp: permitsVerify_def len_def)

lemma permitsVerify_error: "permitsVerify k a = Some e \<Longrightarrow> e = [ErrKeyUsage]"
  by (auto simp: permitsVerify_def split: if_splits)

lemma sameAlgorithm_family: "sameAlgorithm a b \<Longrightarrow> FamilyOf a = FamilyOf b"
  by (auto simp: sameAlgorithm_def FamilyOf_def Let_def split: if_splits)

lemma rsaPublic_Inr: "rsaPublic c k = Inr r \<longleftrightarrow> Kty k = KeyTypeRSA \<and> rsa_PublicKey k = Inr r"
  by (auto simp: rsaPublic_def PublicKey_def as_rsa_def map_sum_def split: sum.splits)

text \<open>The verifiers a key can give for an algorithm, family by family.\<close>

inductive key_gives :: "crypto \<Rightarrow> key \<Rightarrow> alg \<Rightarrow> verifier \<Rightarrow> bool" for c k a where
  gives_hmac: "Kty k = KeyTypeOct \<Longrightarrow> FamilyOf a = FamilyHMAC \<Longrightarrow> Hash a = Some h \<Longrightarrow>
     k_k k \<noteq> [] \<Longrightarrow> hash_size h \<le> len (k_k k) \<Longrightarrow> key_gives c k a (HmacVerifier a (k_k k) (Kid k) h)"
| gives_rsa: "Kty k = KeyTypeRSA \<Longrightarrow> FamilyOf a = FamilyRSAPSS \<or> FamilyOf a = FamilyRSAPKCS1 \<Longrightarrow> Hash a = Some h \<Longrightarrow> rsa_PublicKey k = Inr r \<Longrightarrow>
     validateRSAPublicKey (Some r) = None \<Longrightarrow> key_gives c k a (RsaVerifier a r (Kid k) h (FamilyOf a = FamilyRSAPSS))"
| gives_ecdsa: "Kty k = KeyTypeEC \<Longrightarrow> FamilyOf a = FamilyECDSA \<Longrightarrow> ECDSAParams a = Some (cv, h, sz) \<Longrightarrow> ec_PublicKey c k = Inr q \<Longrightarrow>
     validateECDSAPublicKey c (Some q) cv = None \<Longrightarrow> key_gives c k a (EcdsaVerifier a q (Kid k) h sz)"
| gives_ed25519: "Kty k = KeyTypeOKP \<Longrightarrow> FamilyOf a = FamilyEdDSA \<Longrightarrow> okp_PublicKey k = Inr p \<Longrightarrow>
     key_gives c k a (Ed25519Verifier a p (Kid k))"

inductive_cases key_givesE: "key_gives c k a v"

lemma optKID_single [simp]: "optKID [s] = s"
  by (simp add: optKID_def)

lemma NewRSAVerifier_Inr:
  "NewRSAPSSVerifier a (Some r) kid = Inr v \<longleftrightarrow>
     (\<exists>h. FamilyOf a = FamilyRSAPSS \<and> Hash a = Some h \<and> validateRSAPublicKey (Some r) = None
        \<and> v = RsaVerifier a r (optKID kid) h True)"
  "NewRSAPKCS1Verifier a (Some r) kid = Inr v \<longleftrightarrow>
     (\<exists>h. FamilyOf a = FamilyRSAPKCS1 \<and> Hash a = Some h \<and> validateRSAPublicKey (Some r) = None
        \<and> v = RsaVerifier a r (optKID kid) h False)"
  by (auto simp: NewRSAPSSVerifier_def NewRSAPKCS1Verifier_def newRSAVerifier_def FamilyOf_RSAPSS
      FamilyOf_RSAPKCS1 split: option.splits)

lemma sum_bind_Inr: "(case x of Inl e \<Rightarrow> Inl e | Inr y \<Rightarrow> f y) = Inr v \<longleftrightarrow> (\<exists>y. x = Inr y \<and> f y = Inr v)"
  by (cases x) auto

lemma as_Inr:
  "as_ecdsa p = Inr q \<longleftrightarrow> p = ECDSAPublic q"
  "as_ed25519 p = Inr b \<longleftrightarrow> p = Ed25519Public b"
  by (cases p; auto simp: as_ecdsa_def as_ed25519_def)+

lemma verifierForAlg_Inr:
  "verifierForAlg c k a = Inr v \<longleftrightarrow> permitsVerify k a = None \<and> key_gives c k a v"
proof (cases "permitsVerify k a")
  case (Some e)
  then show ?thesis by (simp add: verifierForAlg_def)
next
  case None
  note def = verifierForAlg_def key_gives.simps None sum_bind_Inr
  show ?thesis
  proof (cases "FamilyOf a")
    case FamilyUnknown
    then show ?thesis by (simp add: def)
  next
    case FamilyHMAC
    then show ?thesis by (auto simp: def Secret_def NewHMACVerifier_Inr)
  next
    case FamilyRSAPSS
    then show ?thesis by (auto simp: def rsaPublic_Inr NewRSAVerifier_Inr)
  next
    case FamilyRSAPKCS1
    then show ?thesis by (auto simp: def rsaPublic_Inr NewRSAVerifier_Inr)
  next
    case FamilyECDSA
    then show ?thesis by (auto simp: def as_Inr PublicKey_kinds NewECDSAVerifier_Inr)
  next
    case FamilyEdDSA
    moreover from this have "a = Ed25519 \<or> a = EdDSA" by (simp add: FamilyOf_EdDSA)
    ultimately show ?thesis
      by (auto simp: def as_Inr PublicKey_kinds NewEd25519VerifierFor_Inr okp_PublicKey_def)
  qed
qed

lemma key_gives_Algorithm: "key_gives c k a v \<Longrightarrow> verifier_Algorithm v = a \<and> verifier_KeyID v = Kid k"
  by (auto elim: key_givesE)

lemma key_gives_unique: "key_gives c k a v \<Longrightarrow> key_gives c k a w \<Longrightarrow> v = w"
  by (auto elim!: key_givesE)

subsection \<open>Reconstruction of the public key\<close>

lemma be_bytes_hd: "0 < n \<Longrightarrow> be_bytes n \<noteq> [] \<and> hd (be_bytes n) \<noteq> chr 0"
proof (induction n rule: be_bytes.induct)
  case (1 n)
  have eq: "be_bytes n = be_bytes (n div 256) @ [chr (n mod 256)]"
    using "1.prems" by (subst be_bytes.simps) simp
  show ?case
  proof (cases "n div 256 > 0")
    case True
    with 1 have "be_bytes (n div 256) \<noteq> [] \<and> hd (be_bytes (n div 256)) \<noteq> chr 0" by simp
    with eq show ?thesis by simp
  next
    case False
    then have n: "n < 256" using "1.prems" by (meson not_less pos_imp_zdiv_pos_iff zero_less_numeral)
    then have z: "be_bytes (n div 256) = []" using "1.prems" by (subst be_bytes.simps) simp
    have "ord (chr (n mod 256)) = n" using n "1.prems" by simp
    then have "chr (n mod 256) \<noteq> chr 0" using "1.prems" by (metis of_char_of mod_0 less_irrefl)
    then show ?thesis by (simp only: eq z) simp
  qed
qed

lemma rsa_PublicKey_FromRSAPublicKey:
  assumes "validateRSAPublicKey (Some p) = None" "rsa_E p \<le> 2147483647"
  shows "PublicKey c (FromRSAPublicKey (Some p) kid) = Inr (RSAPublic \<lparr>rsa_N = rsa_N p, rsa_E = rsa_E p\<rparr>)"
proof -
  obtain n where n: "rsa_N p = Some n" "0 < n" "odd n" "3 \<le> rsa_E p" "odd (rsa_E p)" "bit_len n \<le> 8192"
    using assms(1) by (auto simp: validateRSAPublicKey_None)
  then have hd: "be_bytes n \<noteq> []" "be_bytes n ! 0 \<noteq> chr 0"
      "be_bytes (rsa_E p) \<noteq> []" "be_bytes (rsa_E p) ! 0 \<noteq> chr 0"
    using be_bytes_hd [of n] be_bytes_hd [of "rsa_E p"] by (auto simp: hd_conv_nth)
  show ?thesis
    using n hd assms(2)
    by (simp add: FromRSAPublicKey_def PublicKey_def rsa_PublicKey_def be_int_be_bytes Let_def MaxRSAKeyBits_def)
qed

definition sample_okp_key :: key where
  "sample_okp_key = (FromEd25519PublicKey (replicate 32 CHR ''q'') [''k1''])\<lparr>Use := ''sig'', KeyOps := [''verify'']\<rparr>"

section \<open>Properties\<close>

text \<open>
  C32: a canonical, servable key survives publication: marshalling succeeds and unmarshalling
  the text gives back the same key, for every key type but \<^verbatim>\<open>oct\<close>, whatever members are set, as
  long as its strings are valid UTF-8 (which JSON requires).
\<close>

theorem jwk_json_roundtrip:
  assumes "Kty k \<noteq> KeyTypeOct" "k_k k = []" "checkCanonical k = None" "key_valid_utf8 k"
  shows "\<exists>b. MarshalJSON k = Inr b \<and> UnmarshalJSON b = Inr k"
proof -
  obtain b where b: "MarshalJSON k = Inr b" using assms(1) by (simp add: MarshalJSON_def)
  have "k\<lparr>k_k := []\<rparr> = k" using assms(2) by simp
  then have "UnmarshalJSON b = Inr k"
    using UnmarshalJSON_MarshalJSON_eq [OF b key_to_jwk_valid [OF assms(4)]] assms(3)
    by (simp add: jwk_to_key_to_jwk)
  with b show ?thesis by blast
qed

theorem jwk_json_roundtrip_witness: "\<exists>b. MarshalJSON sample_okp_key = Inr b \<and> UnmarshalJSON b = Inr sample_okp_key"
proof (rule jwk_json_roundtrip)
  show "checkCanonical sample_okp_key = None" by code_simp
  show "key_valid_utf8 sample_okp_key" by code_simp
qed (simp_all add: sample_okp_key_def FromEd25519PublicKey_def zero_key_def)

end
