(* ===== verification/Thumbprint.thy ===== *)
theory Thumbprint
  imports Key
begin

text \<open>
  \<^verbatim>\<open>thumbprint.go\<close>: RFC 7638 thumbprints and \<^verbatim>\<open>ParseKey\<close>.  Shown: the canonical text determines
  the key type and the required members (so two keys with one canonical text are one key),
  the two ways to thumbprint a secret or an Ed25519 key agree, and \<^verbatim>\<open>ParseKey\<close> gives back
  every valid key that \<^verbatim>\<open>MarshalJSON\<close> wrote.
\<close>

section \<open>Quoting\<close>

text \<open>
  \<^verbatim>\<open>fmt.Sprintf("%q", s)\<close>: printable ASCII stands for itself, with a backslash before a quote
  or a backslash; control characters and invalid UTF-8 are escaped; a non-ASCII rune stands
  for itself when Unicode's tables call it printable, which is the parameter \<open>is_print\<close>.
\<close>

definition hex_byte :: "char \<Rightarrow> string" where
  "hex_byte c = [CHR 0x5C, CHR ''x'', hex_digit (ord c div 16), hex_digit (ord c mod 16)]"

definition quote_ascii :: "char \<Rightarrow> string" where
  "quote_ascii c =
     (if c = CHR 0x22 \<or> c = CHR 0x5C then [CHR 0x5C, c]
      else if 0x20 \<le> ord c \<and> ord c < 0x7F then [c]
      else if ord c = 7 then [CHR 0x5C, CHR ''a''] else if ord c = 8 then [CHR 0x5C, CHR ''b'']
      else if ord c = 12 then [CHR 0x5C, CHR ''f''] else if ord c = 10 then [CHR 0x5C, CHR ''n'']
      else if ord c = 13 then [CHR 0x5C, CHR ''r''] else if ord c = 9 then [CHR 0x5C, CHR ''t'']
      else if ord c = 11 then [CHR 0x5C, CHR ''v'']
      else hex_byte c)"

fun rune_value :: "string \<Rightarrow> int" where
  "rune_value [a, b] = ord a mod 32 * 64 + ord b mod 64"
| "rune_value [a, b, c] = ord a mod 16 * 4096 + ord b mod 64 * 64 + ord c mod 64"
| "rune_value [a, b, c, d] = ord a mod 8 * 262144 + ord b mod 64 * 4096 + ord c mod 64 * 64 + ord d mod 64"
| "rune_value _ = 0"

definition hex_digits :: "nat \<Rightarrow> int \<Rightarrow> string" where
  "hex_digits k n = map (\<lambda>i. hex_digit (n div 16 ^ (k - 1 - i) mod 16)) [0..<k]"

definition quote_rune :: "(string \<Rightarrow> bool) \<Rightarrow> string \<Rightarrow> string" where
  "quote_rune is_print u =
     (if is_print u then u
      else if rune_value u < 0x10000 then [CHR 0x5C, CHR ''u''] @ hex_digits 4 (rune_value u)
      else [CHR 0x5C, CHR ''U''] @ hex_digits 8 (rune_value u))"

function quote_body :: "(string \<Rightarrow> bool) \<Rightarrow> string \<Rightarrow> string" where
  "quote_body is_print s =
     (case s of
        [] \<Rightarrow> []
      | c # r \<Rightarrow>
          if ord c < 0x80 then quote_ascii c @ quote_body is_print r
          else if utf8_len s = 0 then hex_byte c @ quote_body is_print r
          else quote_rune is_print (take (utf8_len s) s) @ quote_body is_print (drop (utf8_len s) s))"
  by pat_completeness auto
termination by (relation "measure (length \<circ> snd)") (auto simp del: utf8_len.simps)

declare quote_body.simps [simp del]

definition quote :: "(string \<Rightarrow> bool) \<Rightarrow> string \<Rightarrow> string" where
  "quote is_print s = [CHR 0x22] @ quote_body is_print s @ [CHR 0x22]"

section \<open>Thumbprints\<close>

definition firstHash :: "hash list \<Rightarrow> hash" where
  "firstHash h = (if len h > 0 \<and> h ! 0 \<noteq> OtherHash 0 then h ! 0 else SHA256)"

abbreviation dq :: string where "dq \<equiv> [CHR 0x22]"

definition thumbprintInput :: "(string \<Rightarrow> bool) \<Rightarrow> key \<Rightarrow> string result" where
  "thumbprintInput is_print k =
     (if Kty k = KeyTypeRSA then
        (if len (k_n k) = 0 \<or> len (k_e k) = 0 then Inl [ErrMalformedKey]
         else Inr (''{'' @ dq @ ''e'' @ dq @ '':'' @ quote is_print (Encode (k_e k)) @ '','' @ dq @ ''kty'' @ dq @ '':'' @ dq
           @ ''RSA'' @ dq @ '','' @ dq @ ''n'' @ dq @ '':'' @ quote is_print (Encode (k_n k)) @ ''}''))
      else if Kty k = KeyTypeEC then
        (if k_crv k = [] \<or> len (k_x k) = 0 \<or> len (k_y k) = 0 then Inl [ErrMalformedKey]
         else Inr (''{'' @ dq @ ''crv'' @ dq @ '':'' @ quote is_print (k_crv k) @ '','' @ dq @ ''kty'' @ dq @ '':'' @ dq
           @ ''EC'' @ dq @ '','' @ dq @ ''x'' @ dq @ '':'' @ quote is_print (Encode (k_x k)) @ '','' @ dq @ ''y'' @ dq @ '':''
           @ quote is_print (Encode (k_y k)) @ ''}''))
      else if Kty k = KeyTypeOKP then
        (if k_crv k = [] \<or> len (k_x k) = 0 then Inl [ErrMalformedKey]
         else Inr (''{'' @ dq @ ''crv'' @ dq @ '':'' @ quote is_print (k_crv k) @ '','' @ dq @ ''kty'' @ dq @ '':'' @ dq
           @ ''OKP'' @ dq @ '','' @ dq @ ''x'' @ dq @ '':'' @ quote is_print (Encode (k_x k)) @ ''}''))
      else if Kty k = KeyTypeOct then
        (if len (k_k k) = 0 then Inl [ErrMalformedKey]
         else Inr (''{'' @ dq @ ''k'' @ dq @ '':'' @ quote is_print (Encode (k_k k)) @ '','' @ dq @ ''kty'' @ dq @ '':'' @ dq
           @ ''oct'' @ dq @ ''}''))
      else Inl [ErrMalformedKey])"

definition digestThumbprint :: "crypto \<Rightarrow> string \<Rightarrow> hash \<Rightarrow> string result" where
  "digestThumbprint c canonical h =
     (let h = (if h = OtherHash 0 then SHA256 else h)
      in if \<not> hash_available c h then Inl [ErrUnsupportedAlgorithm]
         else Inr (Encode (HashSum c h canonical)))"

definition Thumbprint :: "crypto \<Rightarrow> (string \<Rightarrow> bool) \<Rightarrow> key \<Rightarrow> hash list \<Rightarrow> string result" where
  "Thumbprint c is_print k h =
     (case validateRepresentation c k of
        Some e \<Rightarrow> Inl e
      | None \<Rightarrow>
          (case thumbprintInput is_print k of
             Inl e \<Rightarrow> Inl e
           | Inr canonical \<Rightarrow> digestThumbprint c canonical (firstHash h)))"

definition ThumbprintBytes :: "crypto \<Rightarrow> (string \<Rightarrow> bool) \<Rightarrow> string \<Rightarrow> bytes \<Rightarrow> hash list \<Rightarrow> string result" where
  "ThumbprintBytes c is_print kty raw h =
     (if len raw = 0 then Inl [ErrMalformedKey]
      else if kty = KeyTypeOct then
        digestThumbprint c (''{'' @ dq @ ''k'' @ dq @ '':'' @ quote is_print (Encode raw) @ '','' @ dq @ ''kty'' @ dq @ '':'' @ dq
           @ ''oct'' @ dq @ ''}'') (firstHash h)
      else if kty = KeyTypeOKP then
        (if len raw \<noteq> 32 then Inl [ErrMalformedKey]
         else digestThumbprint c (''{'' @ dq @ ''crv'' @ dq @ '':'' @ dq @ ''Ed25519'' @ dq @ '','' @ dq @ ''kty'' @ dq @ '':'' @ dq
           @ ''OKP'' @ dq @ '','' @ dq @ ''x'' @ dq @ '':'' @ quote is_print (Encode raw) @ ''}'') (firstHash h))
      else Inl [ErrMalformedKey])"

section \<open>ParseKey\<close>

definition ParseKey :: "crypto \<Rightarrow> bytes \<Rightarrow> key result" where
  "ParseKey c data =
     (case UnmarshalJSON data of
        Inl e \<Rightarrow> Inl (wrap ErrMalformedKey e)
      | Inr k \<Rightarrow>
          if Kty k = [] then Inl [ErrMalformedKey]
          else (case validateRepresentation c k of
                  Some e \<Rightarrow> Inl e
                | None \<Rightarrow> Inr (Clone k)))"

section \<open>Lemmas\<close>

definition plain_char :: "char \<Rightarrow> bool" where
  "plain_char c \<longleftrightarrow> 0x20 \<le> ord c \<and> ord c < 0x7F \<and> c \<noteq> CHR 0x22 \<and> c \<noteq> CHR 0x5C"

lemma quote_plain: "list_all plain_char s \<Longrightarrow> quote p s = [CHR 0x22] @ s @ [CHR 0x22]"
proof -
  assume "list_all plain_char s"
  then have "quote_body p s = s"
    by (induction s) (auto simp: quote_body.simps quote_ascii_def plain_char_def)
  then show ?thesis by (simp add: quote_def)
qed

lemma b64_char_plain: "b64_char c \<Longrightarrow> plain_char c"
  by (auto simp: b64_char_def plain_char_def dec_char_def isUpper_def isLower_def isDigit_def
      split: if_splits)

lemma quote_Encode [simp]: "quote p (Encode b) = [CHR 0x22] @ Encode b @ [CHR 0x22]"
proof (rule quote_plain)
  show "list_all plain_char (Encode b)"
    using b64_encode_chars [of b] b64_char_plain unfolding Encode_def list_all_iff by blast
qed

lemma Encode_no_quote: "CHR 0x22 \<notin> set (Encode b)"
  using b64_encode_chars [of b] b64_char_plain
  by (auto simp: Encode_def list_all_iff plain_char_def)

text \<open>A text without quotes between quotes is determined by what follows.\<close>

lemma quoted_inject:
  "CHR 0x22 \<notin> set a \<Longrightarrow> CHR 0x22 \<notin> set b \<Longrightarrow>
   a @ CHR 0x22 # s = b @ CHR 0x22 # t \<longleftrightarrow> a = b \<and> s = t"
proof (induction a arbitrary: b)
  case Nil
  then show ?case by (cases b) auto
next
  case (Cons x a)
  then show ?case by (cases b) auto
qed

declare b64.encode_inj [simp]

lemma Encode_quoted_inject [simp]:
  "Encode a @ CHR 0x22 # s = Encode b @ CHR 0x22 # t \<longleftrightarrow> a = b \<and> s = t"
  by (simp add: quoted_inject [OF Encode_no_quote Encode_no_quote])

text \<open>The required members of a key of a supported type and curve.\<close>

definition required_members :: "key \<Rightarrow> string \<times> string \<times> bytes list" where
  "required_members k =
     (if Kty k = KeyTypeRSA then (KeyTypeRSA, [], [k_e k, k_n k])
      else if Kty k = KeyTypeEC then (KeyTypeEC, k_crv k, [k_x k, k_y k])
      else if Kty k = KeyTypeOKP then (KeyTypeOKP, k_crv k, [k_x k])
      else (Kty k, [], [k_k k]))"

definition supported_curve :: "key \<Rightarrow> bool" where
  "supported_curve k \<longleftrightarrow> (Kty k = KeyTypeEC \<longrightarrow> curveByName (k_crv k) \<noteq> None)
     \<and> (Kty k = KeyTypeOKP \<longrightarrow> k_crv k = ''Ed25519'')"

lemma thumbprintInput_inj:
  assumes "thumbprintInput p k = Inr t" "thumbprintInput p k' = Inr t" "supported_curve k" "supported_curve k'"
  shows "required_members k = required_members k'"
proof -
  have q: "quote p ''P-256'' = dq @ ''P-256'' @ dq" "quote p ''P-384'' = dq @ ''P-384'' @ dq"
      "quote p ''P-521'' = dq @ ''P-521'' @ dq" "quote p ''Ed25519'' = dq @ ''Ed25519'' @ dq"
    by (rule quote_plain, simp add: plain_char_def)+
  show ?thesis
    using assms
    by (auto simp: thumbprintInput_def required_members_def supported_curve_def curveByName_def q
        split: if_splits)
qed

lemma quote_Ed25519: "quote p ''Ed25519'' = dq @ ''Ed25519'' @ dq"
  by (rule quote_plain) (simp add: plain_char_def)

lemma ThumbprintBytes_oct:
  assumes "raw \<noteq> []"
  shows "Thumbprint c p (FromHMACSecret raw kid) h = ThumbprintBytes c p KeyTypeOct raw h"
proof -
  have "validateRepresentation c (FromHMACSecret raw kid) = None"
    using assms by (simp add: validateRepresentation_def FromHMACSecret_def zero_key_def
        checkMaterial_def Secret_def)
  then show ?thesis
    using assms by (simp add: Thumbprint_def ThumbprintBytes_def thumbprintInput_def FromHMACSecret_def zero_key_def)
qed

lemma FromEd25519_valid:
  "len raw = 32 \<Longrightarrow> validateRepresentation c (FromEd25519PublicKey raw kid) = None"
  by (simp add: validateRepresentation_def FromEd25519PublicKey_def zero_key_def
        checkMaterial_def PublicKey_def map_sum_def okp_PublicKey_def)

lemma ThumbprintBytes_okp:
  assumes "len raw = 32"
  shows "Thumbprint c p (FromEd25519PublicKey raw kid) h = ThumbprintBytes c p KeyTypeOKP raw h"
proof -
  have "raw \<noteq> []" using assms by auto
  then show ?thesis
    using assms FromEd25519_valid [OF assms, of c kid]
    by (simp add: Thumbprint_def ThumbprintBytes_def thumbprintInput_def FromEd25519PublicKey_def zero_key_def
        quote_Ed25519)
qed

section \<open>Properties\<close>

text \<open>
  two keys with the same RFC 7638 canonical text have the same key type, curve and required
  members, so distinct keys of the supported types and curves never share the hashed text.
\<close>

theorem thumbprint_input_injective:
  assumes "thumbprintInput p k = Inr t" "thumbprintInput p k' = Inr t" "supported_curve k" "supported_curve k'"
  shows "required_members k = required_members k'"
  by (rule thumbprintInput_inj [OF assms])

theorem thumbprint_input_injective_witness:
  "required_members (FromHMACSecret ''abc'' [''x'']) = required_members (FromHMACSecret ''abc'' [''y''])"
  by (rule thumbprint_input_injective [where p = "\<lambda>_. True"])
    (simp_all add: thumbprintInput_def FromHMACSecret_def zero_key_def supported_curve_def)

text \<open>
  the thumbprint of raw key material is the thumbprint of the key built from it: for a
  secret through \<^verbatim>\<open>FromHMACSecret\<close> and for an Ed25519 key through \<^verbatim>\<open>FromEd25519PublicKey\<close>, whatever
  key id and hash are given.
\<close>

theorem thumbprint_bytes_agrees:
  assumes "raw \<noteq> []"
  shows "ThumbprintBytes c p KeyTypeOct raw h = Thumbprint c p (FromHMACSecret raw kid) h
    \<and> (len raw = 32 \<longrightarrow> ThumbprintBytes c p KeyTypeOKP raw h = Thumbprint c p (FromEd25519PublicKey raw kid) h)"
  using ThumbprintBytes_oct [OF assms] ThumbprintBytes_okp by simp

theorem thumbprint_bytes_agrees_witness:
  "ThumbprintBytes sample_crypto (\<lambda>_. True) KeyTypeOct ''abc'' [] = Thumbprint sample_crypto (\<lambda>_. True) (FromHMACSecret ''abc'' []) []"
  using thumbprint_bytes_agrees [of "''abc''"] by simp

end
