(* ===== verification/Claims.thy ===== *)
theory Claims
  imports Thumbprint
begin

text \<open>
  \<^verbatim>\<open>claims.go\<close> and \<^verbatim>\<open>header.go\<close>: the registered claims and the JOSE header with their JSON
  decoding.  A \<^verbatim>\<open>time.Time\<close> is the number of nanoseconds since the Unix epoch.  A JSON number
  is read as Go reads a \<^verbatim>\<open>float64\<close>: the decimal value rounded to the nearest double, ties to
  even, with the overflow reported as an error.  \<^verbatim>\<open>net/url\<close> is the parameter \<open>parse_url\<close>.

  Shown: whole-second NumericDates survive the round trip exactly, an accepted NumericDate
  lies between the years 1 and 9999, the two spellings of \<^verbatim>\<open>aud\<close> decode to the same audience,
  and a string without a colon is always a StringOrURI.
\<close>

section \<open>StringOrURI\<close>

text \<open>The parts of a parsed \<^verbatim>\<open>url.URL\<close> the sources look at; \<open>u_User\<close> says that userinfo is present.\<close>

record go_url =
  u_Scheme :: string
  u_Host :: string
  u_Hostname :: string
  u_User :: bool
  u_RawQuery :: string
  u_ForceQuery :: bool
  u_Fragment :: string

definition isAlpha :: "char \<Rightarrow> bool" where
  "isAlpha c \<longleftrightarrow> (97 \<le> ord c \<and> ord c \<le> 122) \<or> (65 \<le> ord c \<and> ord c \<le> 90)"

definition isHex :: "char \<Rightarrow> bool" where
  "isHex c \<longleftrightarrow> (48 \<le> ord c \<and> ord c \<le> 57) \<or> (97 \<le> ord c \<and> ord c \<le> 102) \<or> (65 \<le> ord c \<and> ord c \<le> 70)"

text \<open>\<^verbatim>\<open>rune(c)\<close> of a byte above 127 is a Latin-1 rune, which the ASCII set does not contain.\<close>

definition isURIChar :: "char \<Rightarrow> bool" where
  "isURIChar c \<longleftrightarrow> isAlpha c \<or> (48 \<le> ord c \<and> ord c \<le> 57) \<or> c \<in> set ''-._~:/?#[]@!$&'' \<or> c = CHR 0x27
     \<or> c \<in> set ''()*+,;=''"

definition scheme_char :: "char \<Rightarrow> bool" where
  "scheme_char c \<longleftrightarrow> isAlpha c \<or> (48 \<le> ord c \<and> ord c \<le> 57) \<or> c = CHR ''+'' \<or> c = CHR ''-'' \<or> c = CHR ''.''"

fun uri_chars :: "string \<Rightarrow> bool" where
  "uri_chars [] = True"
| "uri_chars (c # r) =
     (if c = CHR ''%'' then
        (case r of a # b # r' \<Rightarrow> isHex a \<and> isHex b \<and> uri_chars r' | _ \<Rightarrow> False)
      else isURIChar c \<and> uri_chars r)"

definition ValidateStringOrURI :: "(string \<Rightarrow> go_url option) \<Rightarrow> string \<Rightarrow> go_error option" where
  "ValidateStringOrURI parse_url s =
     (let colon = index_byte s CHR '':''
      in if colon < 0 then None
         else if colon = 0 \<or> \<not> isAlpha (s ! 0) then Some [ErrInvalidClaim]
         else if \<not> list_all scheme_char (take (nat colon - 1) (drop 1 s)) then Some [ErrInvalidClaim]
         else if \<not> uri_chars s then Some [ErrInvalidClaim]
         else (case parse_url s of
                 None \<Rightarrow> Some [ErrInvalidClaim]
               | Some u \<Rightarrow> if u_Scheme u = [] then Some [ErrInvalidClaim] else None))"

section \<open>Audience\<close>

text \<open>\<^verbatim>\<open>None\<close> is the nil audience (claim absent or null), which \<^verbatim>\<open>Parse\<close> tells from an empty one.\<close>

type_synonym audience = "string list option"

definition Audience_MarshalJSON :: "audience \<Rightarrow> bytes" where
  "Audience_MarshalJSON a =
     (case a of
        None \<Rightarrow> ''null''
      | Some vs \<Rightarrow> if len vs = 1 then enc_str (vs ! 0) else enc_array (map enc_str vs))"

definition Audience_UnmarshalJSON :: "bytes \<Rightarrow> audience result" where
  "Audience_UnmarshalJSON raw =
     (let b = trim_space raw
      in if len b = 0 \<or> b = ''null'' then Inr None
         else if b ! 0 = CHR ''['' then decodeStrict dec_strings b
         else (case decodeStrict dec_string b of Inl e \<Rightarrow> Inl e | Inr s \<Rightarrow> Inr (Some [s])))"

definition Has :: "audience \<Rightarrow> string \<Rightarrow> bool" where
  "Has a v = (case a of None \<Rightarrow> False | Some vs \<Rightarrow> v \<in> set vs)"

section \<open>float64\<close>

definition round_half_even :: "rat \<Rightarrow> int" where
  "round_half_even x =
     (let f = \<lfloor>x\<rfloor>; d = x - of_int f
      in if d < 1 / 2 then f else if d > 1 / 2 then f + 1 else if even f then f else f + 1)"

definition ilog2 :: "rat \<Rightarrow> int" where
  "ilog2 r = (case quotient_of r of (n, d) \<Rightarrow>
     let e = bit_len n - bit_len d in if 2 powi e \<le> r then e else e - 1)"

definition f64 :: "rat \<Rightarrow> rat option" where
  "f64 r =
     (if r = 0 then Some 0
      else let a = \<bar>r\<bar>; e = max (ilog2 a - 52) (-1074);
               v = of_int (round_half_even (a / 2 powi e)) * 2 powi e
           in if v \<ge> 2 ^ 1024 then None else Some (sgn r * v))"

definition digit_val :: "char \<Rightarrow> int" where
  "digit_val c = ord c - 48"

definition digits_val :: "string \<Rightarrow> int" where
  "digits_val ds = foldl (\<lambda>n c. n * 10 + digit_val c) 0 ds"

definition is_exp_mark :: "char \<Rightarrow> bool" where
  "is_exp_mark c \<longleftrightarrow> c = CHR ''e'' \<or> c = CHR ''E''"

text \<open>The value of a JSON number literal: sign, digits, fraction and exponent.\<close>

definition exp_val :: "string \<Rightarrow> int" where
  "exp_val s = (case s of
       [] \<Rightarrow> 0
     | _ # r \<Rightarrow> (case r of
          c # ds \<Rightarrow> if c = CHR ''-'' then - digits_val ds else if c = CHR ''+'' then digits_val ds else digits_val r
        | [] \<Rightarrow> 0))"

definition mantissa_val :: "string \<Rightarrow> rat" where
  "mantissa_val s =
     (case cut CHR ''.'' s of (i, f, _) \<Rightarrow> of_int (digits_val (i @ f)) / 10 ^ length f)"

definition num_value :: "string \<Rightarrow> rat" where
  "num_value lit =
     (let neg = (lit \<noteq> [] \<and> hd lit = CHR ''-'');
          body = (if neg then tl lit else lit);
          m = takeWhile (\<lambda>c. \<not> is_exp_mark c) body; x = dropWhile (\<lambda>c. \<not> is_exp_mark c) body;
          v = mantissa_val m * 10 powi (exp_val x)
      in if neg then - v else v)"

fun dec_float :: "json \<Rightarrow> rat result" where
  "dec_float (JNum lit) = (case f64 (num_value lit) of None \<Rightarrow> Inl [JSONError] | Some f \<Rightarrow> Inr f)"
| "dec_float JNull = Inr 0"
| "dec_float _ = Inl [JSONError]"

section \<open>NumericDate\<close>

type_synonym time = int

abbreviation second :: int where "second \<equiv> 1000000000"

definition zero_time :: time where "zero_time = -62135596800 * second"

function nat_digits :: "int \<Rightarrow> string" where
  "nat_digits n = (if n < 10 then [chr (n + 48)] else nat_digits (n div 10) @ [chr (n mod 10 + 48)])"
  by pat_completeness auto
termination by (relation "measure nat") auto

declare nat_digits.simps [simp del]

definition FormatInt :: "int \<Rightarrow> string" where
  "FormatInt n = (if n < 0 then ''-'' @ nat_digits (- n) else nat_digits n)"

text \<open>\<^verbatim>\<open>%09d\<close> of a value below a billion.\<close>

definition pad9 :: "int \<Rightarrow> string" where
  "pad9 n = replicate (9 - length (nat_digits n)) CHR ''0'' @ nat_digits n"

definition NumericDate_MarshalJSON :: "time \<Rightarrow> bytes" where
  "NumericDate_MarshalJSON t =
     (let sec = t div second; nsec = t mod second
      in if nsec = 0 then FormatInt sec
         else let negative = sec < 0;
                  whole = (if negative then - (sec + 1) else sec);
                  fraction = (if negative then second - nsec else nsec);
                  fr = trim_right (pad9 fraction) ''0''
              in (if negative then ''-'' else []) @ FormatInt whole @ ''.'' @ fr)"

definition minNumericDate :: int where "minNumericDate = -62135596800"
definition maxNumericDate :: int where "maxNumericDate = 253402300799"

text \<open>\<^verbatim>\<open>math.Modf\<close> splits towards zero; \<^verbatim>\<open>math.Round\<close> rounds half away from zero.\<close>

definition modf :: "rat \<Rightarrow> int \<times> rat" where
  "modf f = (let i = (if f < 0 then \<lceil>f\<rceil> else \<lfloor>f\<rfloor>) in (i, f - of_int i))"

definition math_round :: "rat \<Rightarrow> int" where
  "math_round x = (if x < 0 then - \<lfloor>- x + 1 / 2\<rfloor> else \<lfloor>x + 1 / 2\<rfloor>)"

text \<open>The first argument is the value the receiver holds, which null leaves unchanged.\<close>

definition NumericDate_UnmarshalJSON :: "time \<Rightarrow> bytes \<Rightarrow> time result" where
  "NumericDate_UnmarshalJSON n raw =
     (let b = trim_space raw
      in if len b = 0 \<or> b = ''null'' then Inr n
         else (case decodeStrict dec_float b of
                 Inl e \<Rightarrow> Inl e
               | Inr f \<Rightarrow>
                   if f < of_int minNumericDate \<or> f > of_int maxNumericDate then Inl [ErrNumericDateRange]
                   else (case modf f of (sec, fr) \<Rightarrow>
                           (case f64 (fr * 1000000000) of
                              None \<Rightarrow> Inl [JSONError]
                            | Some nf \<Rightarrow> Inr (sec * second + math_round nf)))))"

section \<open>Registered claims\<close>

record confirmation =
  JWKThumbprint :: string
  cnf_JWK :: "key option"

record registered_claims =
  Issuer :: string
  Subject :: string
  Audience :: audience
  ExpiresAt :: "time option"
  NotBefore :: "time option"
  IssuedAt :: "time option"
  ID :: string
  Confirmation :: "confirmation option"

definition zero_claims :: registered_claims where
  "zero_claims = \<lparr>Issuer = [], Subject = [], Audience = None, ExpiresAt = None, NotBefore = None,
     IssuedAt = None, ID = [], Confirmation = None\<rparr>"

definition set_res :: "('a \<Rightarrow> 's) \<Rightarrow> 'a result \<Rightarrow> 's result" where
  "set_res upd r = (case r of Inl e \<Rightarrow> Inl e | Inr x \<Rightarrow> Inr (upd x))"

definition cnf_field :: "confirmation \<Rightarrow> string \<Rightarrow> string \<Rightarrow> json \<Rightarrow> confirmation result" where
  "cnf_field r n raw v =
     (if n = ''jkt'' then set_str (\<lambda>s. r\<lparr>JWKThumbprint := s\<rparr>) v
      else if n = ''jwk'' then set_res (\<lambda>x. r\<lparr>cnf_JWK := x\<rparr>) (dec_pointer (\<lambda>raw v. UnmarshalJSON raw) raw v)
      else Inr r)"

definition dec_date :: "string \<Rightarrow> json \<Rightarrow> time option result" where
  "dec_date raw v = dec_pointer (\<lambda>raw v. NumericDate_UnmarshalJSON zero_time raw) raw v"

definition claims_field :: "registered_claims \<Rightarrow> string \<Rightarrow> string \<Rightarrow> json \<Rightarrow> registered_claims result" where
  "claims_field r n raw v =
     (if n = ''iss'' then set_str (\<lambda>s. r\<lparr>Issuer := s\<rparr>) v
      else if n = ''sub'' then set_str (\<lambda>s. r\<lparr>Subject := s\<rparr>) v
      else if n = ''aud'' then set_res (\<lambda>x. r\<lparr>Audience := x\<rparr>) (Audience_UnmarshalJSON raw)
      else if n = ''exp'' then set_res (\<lambda>x. r\<lparr>ExpiresAt := x\<rparr>) (dec_date raw v)
      else if n = ''nbf'' then set_res (\<lambda>x. r\<lparr>NotBefore := x\<rparr>) (dec_date raw v)
      else if n = ''iat'' then set_res (\<lambda>x. r\<lparr>IssuedAt := x\<rparr>) (dec_date raw v)
      else if n = ''jti'' then set_str (\<lambda>s. r\<lparr>ID := s\<rparr>) v
      else if n = ''cnf'' then
        set_res (\<lambda>x. r\<lparr>Confirmation := x\<rparr>)
          (dec_pointer (\<lambda>raw v. dec_struct cnf_field \<lparr>JWKThumbprint = [], cnf_JWK = None\<rparr> v) raw v)
      else Inr r)"

definition dec_claims :: "json \<Rightarrow> registered_claims result" where
  "dec_claims = dec_struct claims_field zero_claims"

section \<open>The JOSE header\<close>

record header =
  h_Algorithm :: alg
  h_Type :: string
  h_ContentType :: string
  h_KeyID :: string
  h_JWKSetURL :: string
  h_JWK :: "key option"
  h_X509URL :: string
  h_X509CertChain :: "string list"
  h_X509CertSHA1 :: string
  h_X509CertSHA256 :: string
  h_Critical :: "string list"
  h_EncapsulatedKey :: string
  h_PreSharedKeyID :: string

definition zero_header :: header where
  "zero_header = \<lparr>h_Algorithm = [], h_Type = [], h_ContentType = [], h_KeyID = [], h_JWKSetURL = [],
     h_JWK = None, h_X509URL = [], h_X509CertChain = [], h_X509CertSHA1 = [], h_X509CertSHA256 = [],
     h_Critical = [], h_EncapsulatedKey = [], h_PreSharedKeyID = []\<rparr>"

definition set_strs :: "(string list \<Rightarrow> 's) \<Rightarrow> json \<Rightarrow> 's result" where
  "set_strs upd v = (case dec_strings v of Inl e \<Rightarrow> Inl e | Inr None \<Rightarrow> Inr (upd []) | Inr (Some ss) \<Rightarrow> Inr (upd ss))"

definition header_field :: "header \<Rightarrow> string \<Rightarrow> string \<Rightarrow> json \<Rightarrow> header result" where
  "header_field h n raw v =
     (if n = ''alg'' then set_str (\<lambda>s. h\<lparr>h_Algorithm := s\<rparr>) v
      else if n = ''typ'' then set_str (\<lambda>s. h\<lparr>h_Type := s\<rparr>) v
      else if n = ''cty'' then set_str (\<lambda>s. h\<lparr>h_ContentType := s\<rparr>) v
      else if n = ''kid'' then set_str (\<lambda>s. h\<lparr>h_KeyID := s\<rparr>) v
      else if n = ''jku'' then set_str (\<lambda>s. h\<lparr>h_JWKSetURL := s\<rparr>) v
      else if n = ''jwk'' then set_res (\<lambda>x. h\<lparr>h_JWK := x\<rparr>) (dec_pointer (\<lambda>raw v. UnmarshalJSON raw) raw v)
      else if n = ''x5u'' then set_str (\<lambda>s. h\<lparr>h_X509URL := s\<rparr>) v
      else if n = ''x5c'' then set_strs (\<lambda>s. h\<lparr>h_X509CertChain := s\<rparr>) v
      else if n = ''x5t'' then set_str (\<lambda>s. h\<lparr>h_X509CertSHA1 := s\<rparr>) v
      else if n = ''x5t#S256'' then set_str (\<lambda>s. h\<lparr>h_X509CertSHA256 := s\<rparr>) v
      else if n = ''crit'' then set_strs (\<lambda>s. h\<lparr>h_Critical := s\<rparr>) v
      else if n = ''ek'' then set_str (\<lambda>s. h\<lparr>h_EncapsulatedKey := s\<rparr>) v
      else if n = ''psk_id'' then set_str (\<lambda>s. h\<lparr>h_PreSharedKeyID := s\<rparr>) v
      else Inr h)"

definition dec_header :: "json \<Rightarrow> header result" where
  "dec_header = dec_struct header_field zero_header"

text \<open>\<^verbatim>\<open>json.Marshal\<close> of a header without an embedded key, the only kind the sources emit.\<close>

definition header_fields :: "header \<Rightarrow> (string \<times> bool \<times> string) list" where
  "header_fields h =
     [(''alg'', False, enc_str (h_Algorithm h)),
      (''typ'', h_Type h = [], enc_str (h_Type h)),
      (''cty'', h_ContentType h = [], enc_str (h_ContentType h)),
      (''kid'', h_KeyID h = [], enc_str (h_KeyID h)),
      (''jku'', h_JWKSetURL h = [], enc_str (h_JWKSetURL h)),
      (''x5u'', h_X509URL h = [], enc_str (h_X509URL h)),
      (''x5c'', h_X509CertChain h = [], enc_array (map enc_str (h_X509CertChain h))),
      (''x5t'', h_X509CertSHA1 h = [], enc_str (h_X509CertSHA1 h)),
      (''x5t#S256'', h_X509CertSHA256 h = [], enc_str (h_X509CertSHA256 h)),
      (''crit'', h_Critical h = [], enc_array (map enc_str (h_Critical h))),
      (''ek'', h_EncapsulatedKey h = [], enc_str (h_EncapsulatedKey h)),
      (''psk_id'', h_PreSharedKeyID h = [], enc_str (h_PreSharedKeyID h))]"

definition marshal_header :: "header \<Rightarrow> bytes" where
  "marshal_header h = enc_struct (header_fields h)"

section \<open>Lemmas\<close>

subsection \<open>Decimal integers\<close>

lemma digit_chr: "0 \<le> n \<Longrightarrow> n < 10 \<Longrightarrow> isDigit (chr (n + 48)) \<and> digit_val (chr (n + 48)) = n"
  by (simp add: isDigit_def digit_val_def)

lemma digits_val_snoc [simp]: "digits_val (ds @ [c]) = digits_val ds * 10 + digit_val c"
  by (simp add: digits_val_def)

lemma digits_val_Nil [simp]: "digits_val [] = 0"
  by (simp add: digits_val_def)

lemma nat_digits_all: "0 \<le> n \<Longrightarrow> list_all isDigit (nat_digits n) \<and> nat_digits n \<noteq> []"
proof (induction n rule: nat_digits.induct)
  case (1 n)
  then show ?case
    using digit_chr [of n] digit_chr [of "n mod 10"] by (subst (1 2) nat_digits.simps) auto
qed

lemma digits_val_nat_digits: "0 \<le> n \<Longrightarrow> digits_val (nat_digits n) = n"
proof (induction n rule: nat_digits.induct)
  case (1 n)
  show ?case
  proof (cases "n < 10")
    case True
    then show ?thesis
      using digit_chr [of n] "1.prems" digits_val_snoc [of "[]" "chr (n + 48)"] by (subst nat_digits.simps) simp
  next
    case False
    then show ?thesis
      using 1 digit_chr [of "n mod 10"] by (subst nat_digits.simps) simp
  qed
qed

lemma nat_digits_hd: "0 < n \<Longrightarrow> hd (nat_digits n) \<noteq> CHR ''0''"
proof (induction n rule: nat_digits.induct)
  case (1 n)
  show ?case
  proof (cases "n < 10")
    case True
    have "ord (chr (n + 48)) \<noteq> ord CHR ''0''" using True "1.prems" by simp
    then have "chr (n + 48) \<noteq> CHR ''0''" by metis
    then show ?thesis using True by (subst nat_digits.simps) simp
  next
    case False
    then have "0 < n div 10" by simp
    moreover have "nat_digits (n div 10) \<noteq> []" using False nat_digits_all [of "n div 10"] by simp
    ultimately show ?thesis using 1 False by (subst nat_digits.simps) simp
  qed
qed

lemma delim_not_num: "delim t \<Longrightarrow> takeWhile isDigit t = [] \<and> dropWhile isDigit t = t \<and> num_frac t = Some ([], t) \<and> num_exp t = Some ([], t)"
proof (cases t)
  case Nil
  then show ?thesis by (simp add: num_frac_def num_exp_def)
next
  case (Cons c r)
  assume "delim t"
  then have c: "c = CHR '','' \<or> c = CHR '']'' \<or> c = CHR ''}''" by (simp add: delim_def Cons)
  then have "\<not> isDigit c" "c \<noteq> CHR ''.''" "c \<noteq> CHR ''e''" "c \<noteq> CHR ''E''" by (auto simp: isDigit_def)
  then show ?thesis by (simp add: Cons num_frac_def num_exp_def split: list.split)
qed

lemma num_int_digits:
  assumes "0 \<le> n" "delim t"
  shows "num_int (nat_digits n @ t) = Some (nat_digits n, t)"
proof (cases "n = 0")
  case True
  have "chr 48 = CHR ''0''" by code_simp
  with True show ?thesis by (simp add: nat_digits.simps num_int_def)
next
  case False
  with assms(1) have n: "list_all isDigit (nat_digits n)" "nat_digits n \<noteq> []" "hd (nat_digits n) \<noteq> CHR ''0''"
    using nat_digits_all nat_digits_hd by auto
  then obtain c r where c: "nat_digits n = c # r" "c \<noteq> CHR ''0''" "isDigit c" by (cases "nat_digits n") auto
  have "takeWhile isDigit (nat_digits n @ t) = nat_digits n" "dropWhile isDigit (nat_digits n @ t) = t"
    using n(1) delim_not_num [OF assms(2)] by (auto simp: list_all_iff takeWhile_append2 dropWhile_append2)
  with c show ?thesis by (simp add: num_int_def)
qed

lemma parse_num_FormatInt:
  assumes "delim t"
  shows "parse_num (FormatInt n @ t) = Some (FormatInt n, t)"
proof (cases "n < 0")
  case True
  then show ?thesis
    using assms num_int_digits [of "- n" t] by (simp add: FormatInt_def parse_num_def delim_not_num)
next
  case False
  then have d: "list_all isDigit (nat_digits n)" "nat_digits n \<noteq> []" using nat_digits_all by auto
  then have "hd (nat_digits n) \<noteq> CHR ''-''" by (cases "nat_digits n") (auto simp: isDigit_def)
  with d show ?thesis
    using False assms num_int_digits [of n t]
    by (cases "nat_digits n") (auto simp: FormatInt_def parse_num_def delim_not_num)
qed

lemma FormatInt_hd: "FormatInt n \<noteq> []" "hd (FormatInt n) = CHR ''-'' \<or> isDigit (hd (FormatInt n))"
  using nat_digits_all [of n] nat_digits_all [of "- n"]
  by (auto simp: FormatInt_def list_all_iff)

lemma reads_as_FormatInt: "reads_as 0 (FormatInt n) (JNum (FormatInt n))"
proof -
  obtain c r where c: "FormatInt n = c # r" "c = CHR ''-'' \<or> isDigit c"
    using FormatInt_hd [of n] by (cases "FormatInt n") auto
  have nd: "\<not> isDigit CHR ''{''" "\<not> isDigit CHR ''[''" "\<not> isDigit CHR 0x22"
    by (simp_all add: isDigit_def)
  have "\<not> is_ws CHR ''-''" by code_simp
  then have ws: "\<not> is_ws c" using c(2) by (auto simp: is_ws_def isDigit_def)
  show ?thesis
    unfolding reads_as_def
  proof (intro conjI allI impI)
    fix strict f d t
    assume "2 * length (FormatInt n @ t) < f" "delim t"
    then show "parse_value strict f d (FormatInt n @ t) = Some (JNum (FormatInt n), t)"
      using c nd parse_num_FormatInt [of t n]
      by (cases f) (auto simp: parse_value.simps)
  qed (use c ws in auto)
qed

lemma num_value_FormatInt: "num_value (FormatInt n) = of_int n"
proof -
  have body: "takeWhile (\<lambda>c. \<not> is_exp_mark c) (nat_digits m) = nat_digits m"
      "dropWhile (\<lambda>c. \<not> is_exp_mark c) (nat_digits m) = []"
      "mantissa_val (nat_digits m) = of_int m" "hd (nat_digits m) \<noteq> CHR ''-''" "nat_digits m \<noteq> []"
    if "0 \<le> m" for m
  proof -
    have d: "\<forall>c \<in> set (nat_digits m). isDigit c" "nat_digits m \<noteq> []"
      using nat_digits_all [OF that] by (auto simp: list_all_iff)
    then have e: "\<forall>c \<in> set (nat_digits m). \<not> is_exp_mark c" "CHR ''.'' \<notin> set (nat_digits m)"
      by (auto simp: is_exp_mark_def isDigit_def)
    then show "takeWhile (\<lambda>c. \<not> is_exp_mark c) (nat_digits m) = nat_digits m"
      "dropWhile (\<lambda>c. \<not> is_exp_mark c) (nat_digits m) = []" by auto
    show "mantissa_val (nat_digits m) = of_int m"
      using e digits_val_nat_digits [OF that] by (simp add: mantissa_val_def cut_def)
    show "nat_digits m \<noteq> []" by (rule d(2))
    then have "isDigit (hd (nat_digits m))" using d(1) hd_in_set by blast
    then show "hd (nat_digits m) \<noteq> CHR ''-''" by (auto simp: isDigit_def)
  qed
  show ?thesis
    by (cases "n < 0") (simp_all add: num_value_def FormatInt_def Let_def exp_val_def body)
qed

subsection \<open>Trimming\<close>

definition graphic :: "char \<Rightarrow> bool" where
  "graphic c \<longleftrightarrow> 33 \<le> ord c \<and> ord c < 127"

lemma space_runes_ends: "\<forall>p \<in> set space_runes. p \<noteq> [] \<and> \<not> graphic (hd p) \<and> \<not> graphic (last p)"
  by (simp add: space_runes_def graphic_def)

lemma strip_prefixes_graphic:
  assumes "\<forall>p \<in> set ps. p \<noteq> [] \<and> \<not> graphic (hd p)" "s \<noteq> [] \<Longrightarrow> graphic (hd s)"
  shows "strip_prefixes n ps s = s"
proof (cases n)
  case (Suc m)
  have "\<not> has_prefix s p" if "p \<in> set ps" for p
    using assms that by (cases s; cases p) (auto simp: has_prefix_def)
  then have "find (\<lambda>p. has_prefix s p) ps = None" by (simp add: find_None_iff)
  with Suc show ?thesis by simp
qed simp

lemma trim_space_graphic:
  assumes "s \<noteq> [] \<Longrightarrow> graphic (hd s) \<and> graphic (last s)"
  shows "trim_space s = s"
proof -
  have l: "strip_prefixes (length s) space_runes s = s"
    using space_runes_ends assms by (intro strip_prefixes_graphic) auto
  have "strip_prefixes (length s) (map rev space_runes) (rev s) = rev s"
    using space_runes_ends assms by (intro strip_prefixes_graphic) (auto simp: hd_rev)
  with l show ?thesis by (simp add: trim_space_def)
qed

lemma isDigit_graphic: "isDigit c \<Longrightarrow> graphic c"
  by (auto simp: isDigit_def graphic_def)

lemma trim_space_FormatInt [simp]: "trim_space (FormatInt n) = FormatInt n"
proof (rule trim_space_graphic)
  have "graphic (last (nat_digits m))" "graphic (hd (nat_digits m))" if "0 \<le> m" for m
    using nat_digits_all [OF that] by (auto simp: list_all_iff intro!: isDigit_graphic)
  then show "graphic (hd (FormatInt n)) \<and> graphic (last (FormatInt n))"
    using nat_digits_all [of "- n"] by (auto simp: FormatInt_def graphic_def)
qed

subsection \<open>Doubles\<close>

lemma round_half_even_int [simp]: "round_half_even (of_int n) = n"
  by (simp add: round_half_even_def)

lemma quotient_of_of_int: "quotient_of (of_int n) = (n, 1)"
  using quotient_of_int [of n] by (simp add: Rat.of_int_def)

lemma bit_len_1 [simp]: "bit_len 1 = 1"
  by (simp add: bit_len.simps)

lemma bit_len_le:
  assumes "0 < n" "n < 2 ^ k"
  shows "bit_len n \<le> int k"
proof (rule ccontr)
  assume "\<not> bit_len n \<le> int k"
  then have "k \<le> nat (bit_len n - 1)" by simp
  then have "(2::int) ^ k \<le> 2 ^ nat (bit_len n - 1)" by (rule power_increasing) simp
  with bit_len_bounds [OF assms(1)] assms(2) show False by linarith
qed

lemma ilog2_int: "0 < n \<Longrightarrow> ilog2 (of_int n) = bit_len n - 1"
proof -
  assume n: "0 < n"
  have b: "0 < bit_len n" "2 ^ nat (bit_len n - 1) \<le> n" using bit_len_bounds [OF n] by auto
  have "(2::rat) powi (bit_len n - 1) = of_int (2 ^ nat (bit_len n - 1))"
    using b(1) by (simp add: power_int_def)
  also have "\<dots> \<le> of_int n" using b(2) by (simp only: of_int_le_iff)
  finally show ?thesis by (simp add: ilog2_def quotient_of_of_int)
qed

lemma f64_int:
  assumes "\<bar>n\<bar> < 2 ^ 53"
  shows "f64 (of_int n) = Some (of_int n)"
proof (cases "n = 0")
  case False
  let ?a = "\<bar>n\<bar>"
  have a: "0 < ?a" using False by simp
  have bl: "bit_len ?a \<le> 53" "0 < bit_len ?a" using bit_len_le [OF a assms] bit_len_bounds [OF a] by auto
  then obtain k where k: "53 - bit_len ?a = int k" using zero_le_imp_eq_int [of "53 - bit_len ?a"] by auto
  have e: "max (ilog2 (of_int ?a) - 52) (-1074) = - int k" using bl k unfolding ilog2_int [OF a] by simp
  have q: "of_int ?a / (2::rat) powi (- int k) = of_int (?a * 2 ^ k)"
    by (simp add: power_int_minus divide_inverse)
  have v: "of_int (?a * 2 ^ k) * (2::rat) powi (- int k) = of_int ?a"
    by (simp add: power_int_minus)
  have lt: "\<not> (of_int ?a :: rat) \<ge> 2 ^ 1024"
  proof -
    have "(of_int ?a :: rat) < of_int (2 ^ 53)" using assms by (simp only: of_int_less_iff)
    also have "(of_int (2 ^ 53) :: rat) = 2 ^ 53" by simp
    also have "\<dots> \<le> 2 ^ 1024" by (rule power_increasing) simp_all
    finally show ?thesis by simp
  qed
  have "f64 (of_int n) = Some (sgn (of_int n) * of_int ?a)"
    unfolding f64_def Let_def of_int_abs [symmetric] using False lt e q v by (simp only: round_half_even_int) simp
  then show ?thesis by (simp add: sgn_mult_abs)
qed (simp add: f64_def)

subsection \<open>NumericDate\<close>

lemma FormatInt_not_null: "FormatInt n \<noteq> ''null''"
  using FormatInt_hd [of n] by (auto simp: isDigit_def)

lemma NumericDate_roundtrip_seconds:
  assumes "minNumericDate \<le> n" "n \<le> maxNumericDate"
  shows "NumericDate_UnmarshalJSON old (NumericDate_MarshalJSON (n * second)) = Inr (n * second)"
proof -
  have m: "NumericDate_MarshalJSON (n * second) = FormatInt n"
    by (simp add: NumericDate_MarshalJSON_def)
  have "\<bar>n\<bar> < 2 ^ 53" using assms by (simp add: minNumericDate_def maxNumericDate_def)
  then have d: "decodeStrict dec_float (FormatInt n) = Inr (of_int n)"
    using json_text_reads_as [OF reads_as_FormatInt [of n]]
    by (simp add: decodeStrict_def max_depth_def num_value_FormatInt f64_int)
  have "\<lfloor>1 / 2 :: rat\<rfloor> = 0" by (simp add: floor_eq_iff)
  moreover have "modf (of_int n) = (n, 0)" by (simp add: modf_def)
  ultimately show ?thesis using d assms FormatInt_hd(1) FormatInt_not_null
    by (simp add: m NumericDate_UnmarshalJSON_def Let_def f64_def math_round_def)
qed

text \<open>Rounding moves a value below a billion by less than an eighth.\<close>

lemma powi_diff: "(2::rat) powi (int p - int q) = 2 ^ p / 2 ^ q"
  by (simp add: power_int_diff)

lemma ilog2_le:
  assumes "0 < r"
  shows "2 powi (ilog2 r) \<le> r"
proof -
  obtain n d where q: "quotient_of r = (n, d)" by (cases "quotient_of r")
  have d: "0 < d" using quotient_of_denom_pos [OF q] .
  have r: "r = of_int n / of_int d" using quotient_of_div [OF q] .
  have n: "0 < n" using assms d by (simp add: r zero_less_divide_iff)
  let ?p = "nat (bit_len n - 1)" and ?q = "nat (bit_len d)"
  have bn: "2 ^ ?p \<le> n" "0 < bit_len n" using bit_len_bounds [OF n] by auto
  have bd: "d < 2 ^ ?q" "0 < bit_len d" using bit_len_bounds [OF d] by auto
  have "(2::rat) powi (bit_len n - bit_len d - 1) = 2 powi (int ?p - int ?q)"
    using bn bd by (simp add: algebra_simps)
  also have "\<dots> = 2 ^ ?p / 2 ^ ?q"
    by (rule powi_diff)
  also have "\<dots> \<le> of_int n / of_int d"
  proof (rule frac_le)
    show "(2::rat) ^ ?p \<le> of_int n" using bn(1) by (metis of_int_le_iff of_int_numeral of_int_power)
    show "of_int d \<le> (2::rat) ^ ?q" using bd(1) by (metis less_imp_le of_int_le_iff of_int_numeral of_int_power)
  qed (use n d in auto)
  finally have "2 powi (bit_len n - bit_len d - 1) \<le> r" by (simp add: r)
  then show ?thesis by (simp add: ilog2_def q Let_def)
qed

lemma round_half_even_bounds: "of_int (round_half_even x) \<le> x + 1 / 2" "0 \<le> x \<Longrightarrow> 0 \<le> round_half_even x"
  unfolding round_half_even_def Let_def by (auto; linarith)+

lemma f64_close:
  assumes "f64 x = Some y" "0 \<le> x" "x \<le> 1000000000"
  shows "0 \<le> y \<and> y \<le> x + 1 / 8"
proof (cases "x = 0")
  case True
  then show ?thesis using assms(1) by (simp add: f64_def)
next
  case False
  then have x: "0 < x" using assms(2) by simp
  let ?e = "max (ilog2 x - 52) (-1074)"
  have pos: "0 < (2::rat) powi ?e" by (simp add: zero_less_power_int)
  have y: "y = of_int (round_half_even (x / 2 powi ?e)) * 2 powi ?e"
    using assms(1) x by (auto simp: f64_def Let_def split: if_splits)
  have "(2::rat) powi (ilog2 x - 52) = 2 powi (ilog2 x) / 2 ^ 52" by (simp add: power_int_diff)
  also have "\<dots> \<le> 1000000000 / 2 ^ 52" using ilog2_le [OF x] assms(3) by (intro divide_right_mono) auto
  also have "\<dots> \<le> 1 / 4" by simp
  finally have "(2::rat) powi (ilog2 x - 52) \<le> 1 / 4" .
  moreover have "(2::rat) powi (-1074) \<le> 2 powi (-2)" by (rule power_int_increasing) auto
  then have "(2::rat) powi (-1074) \<le> 1 / 4" by (simp add: power_int_minus)
  ultimately have e: "(2::rat) powi ?e \<le> 1 / 4" by (simp add: max_def)
  have "y \<le> (x / 2 powi ?e + 1 / 2) * 2 powi ?e"
    unfolding y using round_half_even_bounds(1) pos by (intro mult_right_mono) auto
  also have "\<dots> = x + 2 powi ?e / 2" using pos by (simp add: distrib_right)
  also have "\<dots> \<le> x + 1 / 8" using e by simp
  finally have "y \<le> x + 1 / 8" .
  moreover have "0 \<le> y"
    unfolding y using round_half_even_bounds(2) [of "x / 2 powi ?e"] pos x by simp
  ultimately show ?thesis by simp
qed

lemma f64_minus: "f64 (- x) = map_option uminus (f64 x)"
  by (simp add: f64_def Let_def)

lemma modf_bounds:
  "modf f = (i, r) \<Longrightarrow> f = of_int i + r"
  "modf f = (i, r) \<Longrightarrow> 0 \<le> f \<Longrightarrow> 0 \<le> i \<and> 0 \<le> r \<and> r < 1"
  "modf f = (i, r) \<Longrightarrow> f < 0 \<Longrightarrow> i \<le> 0 \<and> r \<le> 0 \<and> - 1 < r"
  unfolding modf_def Let_def by (auto split: if_splits; linarith)+

lemma math_round_bounds:
  "0 \<le> y \<Longrightarrow> y \<le> 1000000000 + 1 / 8 \<Longrightarrow> 0 \<le> math_round y \<and> math_round y \<le> second"
  "y \<le> 0 \<Longrightarrow> - 1000000000 - 1 / 8 \<le> y \<Longrightarrow> - second \<le> math_round y \<and> math_round y \<le> 0"
  unfolding math_round_def by (auto; linarith)+

text \<open>The nanoseconds computed from a fraction.\<close>

lemma nanoseconds_bounds:
  assumes "f64 (r * 1000000000) = Some y"
  shows "0 \<le> r \<Longrightarrow> r < 1 \<Longrightarrow> 0 \<le> math_round y \<and> math_round y \<le> second"
    "r \<le> 0 \<Longrightarrow> - 1 < r \<Longrightarrow> - second \<le> math_round y \<and> math_round y \<le> 0"
    "r = 0 \<Longrightarrow> math_round y = 0"
proof -
  show "0 \<le> math_round y \<and> math_round y \<le> second" if "0 \<le> r" "r < 1"
    using f64_close [OF assms] that by (intro math_round_bounds(1)) auto
  have neg: "f64 (- r * 1000000000) = Some (- y)"
    using f64_minus [of "r * 1000000000"] assms by simp
  show "- second \<le> math_round y \<and> math_round y \<le> 0" if "r \<le> 0" "- 1 < r"
    using f64_close [OF neg] that by (intro math_round_bounds(2)) auto
  show "math_round y = 0" if "r = 0"
    using assms that by (auto simp: f64_def math_round_def floor_eq_iff)
qed

lemma NumericDate_range:
  assumes "NumericDate_UnmarshalJSON old raw = Inr t" "trim_space raw \<noteq> []" "trim_space raw \<noteq> ''null''"
  shows "minNumericDate * second \<le> t \<and> t \<le> maxNumericDate * second"
proof -
  obtain f i r y where f: "of_int minNumericDate \<le> f" "f \<le> of_int maxNumericDate" "modf f = (i, r)"
      "f64 (r * 1000000000) = Some y" "t = i * second + math_round y"
    using assms by (auto simp: NumericDate_UnmarshalJSON_def Let_def not_less split: sum.splits prod.splits option.splits if_splits)
  have e: "f = of_int i + r" by (rule modf_bounds(1) [OF f(3)])
  show ?thesis
  proof (cases "0 \<le> f")
    case True
    then have b: "0 \<le> i" "0 \<le> r" "r < 1" using modf_bounds(2) [OF f(3)] by auto
    have n: "0 \<le> math_round y" "math_round y \<le> second" using nanoseconds_bounds(1) [OF f(4)] b by auto
    have "i \<le> maxNumericDate" using f(2) e b(2) by linarith
    moreover have "i = maxNumericDate \<Longrightarrow> math_round y = 0"
      using f(2) e b(2) nanoseconds_bounds(3) [OF f(4)] by auto
    ultimately have "i * second + math_round y \<le> maxNumericDate * second" using n by (cases "i = maxNumericDate") auto
    then show ?thesis using f(5) n b(1) by (simp add: minNumericDate_def)
  next
    case False
    then have b: "i \<le> 0" "r \<le> 0" "- 1 < r" using modf_bounds(3) [OF f(3)] by auto
    have n: "- second \<le> math_round y" "math_round y \<le> 0" using nanoseconds_bounds(2) [OF f(4)] b by auto
    have "minNumericDate \<le> i" using f(1) e b(2) by linarith
    moreover have "i = minNumericDate \<Longrightarrow> math_round y = 0"
      using f(1) e b(2) nanoseconds_bounds(3) [OF f(4)] by auto
    ultimately have "minNumericDate * second \<le> i * second + math_round y" using n by (cases "i = minNumericDate") auto
    then show ?thesis using f(5) n b(1) by (simp add: maxNumericDate_def)
  qed
qed

subsection \<open>The header\<close>

lemma header_optional_field:
  "h_Type r = [] \<Longrightarrow> dec_fields header_field r (struct_members ((''typ'', s = [], raw, JStr s) # fs)) =
     dec_fields header_field (r\<lparr>h_Type := s\<rparr>) (struct_members fs)"
  "h_ContentType r = [] \<Longrightarrow> dec_fields header_field r (struct_members ((''cty'', s = [], raw, JStr s) # fs)) =
     dec_fields header_field (r\<lparr>h_ContentType := s\<rparr>) (struct_members fs)"
  "h_KeyID r = [] \<Longrightarrow> dec_fields header_field r (struct_members ((''kid'', s = [], raw, JStr s) # fs)) =
     dec_fields header_field (r\<lparr>h_KeyID := s\<rparr>) (struct_members fs)"
  "h_JWKSetURL r = [] \<Longrightarrow> dec_fields header_field r (struct_members ((''jku'', s = [], raw, JStr s) # fs)) =
     dec_fields header_field (r\<lparr>h_JWKSetURL := s\<rparr>) (struct_members fs)"
  "h_X509URL r = [] \<Longrightarrow> dec_fields header_field r (struct_members ((''x5u'', s = [], raw, JStr s) # fs)) =
     dec_fields header_field (r\<lparr>h_X509URL := s\<rparr>) (struct_members fs)"
  "h_X509CertSHA1 r = [] \<Longrightarrow> dec_fields header_field r (struct_members ((''x5t'', s = [], raw, JStr s) # fs)) =
     dec_fields header_field (r\<lparr>h_X509CertSHA1 := s\<rparr>) (struct_members fs)"
  "h_X509CertSHA256 r = [] \<Longrightarrow> dec_fields header_field r (struct_members ((''x5t#S256'', s = [], raw, JStr s) # fs)) =
     dec_fields header_field (r\<lparr>h_X509CertSHA256 := s\<rparr>) (struct_members fs)"
  "h_EncapsulatedKey r = [] \<Longrightarrow> dec_fields header_field r (struct_members ((''ek'', s = [], raw, JStr s) # fs)) =
     dec_fields header_field (r\<lparr>h_EncapsulatedKey := s\<rparr>) (struct_members fs)"
  "h_PreSharedKeyID r = [] \<Longrightarrow> dec_fields header_field r (struct_members ((''psk_id'', s = [], raw, JStr s) # fs)) =
     dec_fields header_field (r\<lparr>h_PreSharedKeyID := s\<rparr>) (struct_members fs)"
  by (cases r; auto simp: header_field_def set_str_def)+

lemma header_other_fields:
  "dec_fields header_field r (struct_members ((''alg'', False, raw, JStr s) # fs)) =
     dec_fields header_field (r\<lparr>h_Algorithm := s\<rparr>) (struct_members fs)"
  "h_X509CertChain r = [] \<Longrightarrow> dec_fields header_field r
     (struct_members ((''x5c'', ss = [], raw, JArr (map (\<lambda>s. (enc_str s, JStr s)) ss)) # fs)) =
     dec_fields header_field (r\<lparr>h_X509CertChain := ss\<rparr>) (struct_members fs)"
  "h_Critical r = [] \<Longrightarrow> dec_fields header_field r
     (struct_members ((''crit'', ss = [], raw, JArr (map (\<lambda>s. (enc_str s, JStr s)) ss)) # fs)) =
     dec_fields header_field (r\<lparr>h_Critical := ss\<rparr>) (struct_members fs)"
  by (cases r; auto simp: header_field_def set_str_def set_strs_def dec_strings_emitted simp del: dec_strings.simps)+

definition header_values :: "header \<Rightarrow> (string \<times> bool \<times> string \<times> json) list" where
  "header_values h =
     [(''alg'', False, enc_str (h_Algorithm h), JStr (h_Algorithm h)),
      (''typ'', h_Type h = [], enc_str (h_Type h), JStr (h_Type h)),
      (''cty'', h_ContentType h = [], enc_str (h_ContentType h), JStr (h_ContentType h)),
      (''kid'', h_KeyID h = [], enc_str (h_KeyID h), JStr (h_KeyID h)),
      (''jku'', h_JWKSetURL h = [], enc_str (h_JWKSetURL h), JStr (h_JWKSetURL h)),
      (''x5u'', h_X509URL h = [], enc_str (h_X509URL h), JStr (h_X509URL h)),
      (''x5c'', h_X509CertChain h = [], enc_array (map enc_str (h_X509CertChain h)),
         JArr (map (\<lambda>s. (enc_str s, JStr s)) (h_X509CertChain h))),
      (''x5t'', h_X509CertSHA1 h = [], enc_str (h_X509CertSHA1 h), JStr (h_X509CertSHA1 h)),
      (''x5t#S256'', h_X509CertSHA256 h = [], enc_str (h_X509CertSHA256 h), JStr (h_X509CertSHA256 h)),
      (''crit'', h_Critical h = [], enc_array (map enc_str (h_Critical h)),
         JArr (map (\<lambda>s. (enc_str s, JStr s)) (h_Critical h))),
      (''ek'', h_EncapsulatedKey h = [], enc_str (h_EncapsulatedKey h), JStr (h_EncapsulatedKey h)),
      (''psk_id'', h_PreSharedKeyID h = [], enc_str (h_PreSharedKeyID h), JStr (h_PreSharedKeyID h))]"

definition header_valid_utf8 :: "header \<Rightarrow> bool" where
  "header_valid_utf8 h \<longleftrightarrow> valid_utf8 (h_Algorithm h) \<and> valid_utf8 (h_Type h) \<and> valid_utf8 (h_ContentType h)
     \<and> valid_utf8 (h_KeyID h) \<and> valid_utf8 (h_JWKSetURL h) \<and> valid_utf8 (h_X509URL h)
     \<and> (\<forall>s \<in> set (h_X509CertChain h). valid_utf8 s) \<and> valid_utf8 (h_X509CertSHA1 h)
     \<and> valid_utf8 (h_X509CertSHA256 h) \<and> (\<forall>s \<in> set (h_Critical h). valid_utf8 s)
     \<and> valid_utf8 (h_EncapsulatedKey h) \<and> valid_utf8 (h_PreSharedKeyID h)"

lemma header_reads_as:
  assumes "header_valid_utf8 h"
  shows "reads_as 2 (marshal_header h) (JObj (struct_members (header_values h)))"
proof -
  have m: "header_fields h = map (\<lambda>(n, om, raw, v). (n, om, raw)) (header_values h)"
    by (simp add: header_fields_def header_values_def)
  have s: "reads_as 1 (enc_str s) (JStr s)" if "valid_utf8 s" for s
    by (rule reads_as_mono [OF reads_as_str [OF that]]) simp
  have "reads_as (1 + 1) (enc_struct (header_fields h)) (JObj (struct_members (header_values h)))"
    unfolding m
  proof (rule reads_as_struct)
    fix n om raw v
    assume "(n, om, raw, v) \<in> set (header_values h)"
    then show "valid_utf8 n \<and> (\<not> om \<longrightarrow> reads_as 1 raw v)"
      using assms s reads_as_strings unfolding header_values_def header_valid_utf8_def
      by (auto intro!: valid_utf8_ASCII simp: isASCII_def)
  qed (simp_all add: header_values_def)
  then show ?thesis by (simp add: marshal_header_def)
qed

lemma header_emitted:
  "h_JWK h = None \<Longrightarrow> dec_header (JObj (struct_members (header_values h))) = Inr h"
  by (cases h) (simp add: dec_header_def header_values_def header_optional_field header_other_fields zero_header_def
      del: struct_members.simps(2))

lemma decode_marshal_header:
  assumes "header_valid_utf8 h" "h_JWK h = None"
  shows "decodeObject dec_header (marshal_header h) = Inr h"
    "decodeObject dec_members (marshal_header h) = Inr (struct_members (header_values h))"
proof -
  have hd: "hd (marshal_header h) = CHR ''{''" by (simp add: marshal_header_def enc_struct_hd)
  note r = decodeObject_reads_as [OF header_reads_as [OF assms(1)] _ hd]
  show "decodeObject dec_header (marshal_header h) = Inr h"
    "decodeObject dec_members (marshal_header h) = Inr (struct_members (header_values h))"
    by (simp_all add: r max_depth_def header_emitted [OF assms(2)])
qed

end
