(* ===== verification/KeySet.thy ===== *)
theory KeySet
  imports Claims
begin

text \<open>
  \<^verbatim>\<open>keyset.go\<close>, \<^verbatim>\<open>keyprovider.go\<close> and the key provider of \<^verbatim>\<open>jwttest\<close>: the mutable JWK set with its
  index by key id, the fixed providers, and the parsing of JWKS documents.

  The promise every provider makes to \<^verbatim>\<open>Parse\<close> (the conformance suite of \<^verbatim>\<open>jwttest\<close>) is the
  locale \<open>key_provider\<close>; it is interpreted for \<^verbatim>\<open>KeySet\<close>, \<^verbatim>\<open>MapKeyProvider\<close> and
  \<^verbatim>\<open>FakeKeyProvider\<close>, and gives the weaker contract of a provider of one key, which
  \<^verbatim>\<open>StaticKeyProvider\<close> meets too.  Shown further: the index always agrees with the list of
  keys, each operation refines the operation on lists, which members of a JWKS document a parser
  keeps and which it refuses or reports, with the limits in numbers,
  and the round trip of a published set.
\<close>

section \<open>KeySet\<close>

type_synonym key_lookup = "string \<Rightarrow> key option result"

record keyset =
  ks_keys :: "key list"
  ks_byKID :: "string \<rightharpoonup> int"

definition empty_keyset :: keyset where
  "empty_keyset = \<lparr>ks_keys = [], ks_byKID = Map.empty\<rparr>"

definition Add :: "key \<Rightarrow> keyset \<Rightarrow> keyset" where
  "Add k s =
     (let clone = Clone k;
          append_it = (let ks = ks_keys s @ [clone] in
             s\<lparr>ks_keys := ks,
               ks_byKID := (if Kid clone \<noteq> [] then (ks_byKID s)(Kid clone \<mapsto> len ks - 1) else ks_byKID s)\<rparr>)
      in if Kid clone \<noteq> [] then
           (case ks_byKID s (Kid clone) of
              Some i \<Rightarrow> s\<lparr>ks_keys := (ks_keys s)[nat i := clone]\<rparr>
            | None \<Rightarrow> append_it)
         else append_it)"

definition NewKeySet :: "key list \<Rightarrow> keyset" where
  "NewKeySet keys = fold Add keys empty_keyset"

fun index_keys :: "int \<Rightarrow> key list \<Rightarrow> (string \<rightharpoonup> int) \<Rightarrow> string \<rightharpoonup> int" where
  "index_keys i [] m = m"
| "index_keys i (k # ks) m = index_keys (i + 1) ks (if Kid k \<noteq> [] then m(Kid k \<mapsto> i) else m)"

definition rebuildIndexLocked :: "keyset \<Rightarrow> keyset" where
  "rebuildIndexLocked s = s\<lparr>ks_byKID := index_keys 0 (ks_keys s) Map.empty\<rparr>"

definition Remove :: "string \<Rightarrow> keyset \<Rightarrow> keyset" where
  "Remove kid s = rebuildIndexLocked (s\<lparr>ks_keys := filter (\<lambda>k. Kid k \<noteq> kid) (ks_keys s)\<rparr>)"

definition ks_lookup :: "keyset \<Rightarrow> string \<Rightarrow> key option" where
  "ks_lookup s kid =
     (if kid = [] then (if len (ks_keys s) = 1 then Some (Clone (ks_keys s ! 0)) else None)
      else (case ks_byKID s kid of
              None \<Rightarrow> None
            | Some i \<Rightarrow> if i < 0 \<or> i \<ge> len (ks_keys s) then None else Some (Clone (ks_keys s ! nat i))))"

definition KeySet_Lookup :: "keyset \<Rightarrow> key_lookup" where
  "KeySet_Lookup s kid = Inr (ks_lookup s kid)"

definition Keys :: "keyset \<Rightarrow> key list" where
  "Keys s = map Clone (ks_keys s)"

definition KeySet_Clone :: "keyset option \<Rightarrow> keyset" where
  "KeySet_Clone s = (case s of None \<Rightarrow> NewKeySet [] | Some s \<Rightarrow> NewKeySet (Keys s))"

definition KeySet_MarshalJSON :: "keyset \<Rightarrow> bytes result" where
  "KeySet_MarshalJSON s =
     (case traverse MarshalJSON (Keys s) of
        Inl e \<Rightarrow> Inl e
      | Inr raws \<Rightarrow> Inr (enc_struct [(''keys'', False, enc_array raws)]))"

section \<open>Parsing JWKS documents\<close>

definition MaxKeySetKeys :: int where "MaxKeySetKeys = 128"
definition MaxJWKJSONBytes :: int where "MaxJWKJSONBytes = 65536"
definition MaxJWKMaterialBytes :: int where "MaxJWKMaterialBytes = 8192"
definition MaxKeySetJSONBytes :: int where "MaxKeySetJSONBytes = MaxKeySetKeys * MaxJWKJSONBytes + 1024"
definition maxJWKMaterialEncoded :: int where "maxJWKMaterialEncoded = (MaxJWKMaterialBytes * 8 + 5) div 6"

definition understandsJWK :: "key \<Rightarrow> bool" where
  "understandsJWK k =
     (if Kty k = KeyTypeRSA \<or> Kty k = KeyTypeOct then True
      else if Kty k = KeyTypeEC then curveByName (k_crv k) \<noteq> None
      else if Kty k = KeyTypeOKP then k_crv k = ''Ed25519''
      else False)"

text \<open>The five material members of a JWK, in the order n, e, x, y, k.\<close>

definition material_field :: "string list \<Rightarrow> string \<Rightarrow> string \<Rightarrow> json \<Rightarrow> string list result" where
  "material_field m n raw v =
     (if n = ''n'' then set_str (\<lambda>s. m[0 := s]) v
      else if n = ''e'' then set_str (\<lambda>s. m[1 := s]) v
      else if n = ''x'' then set_str (\<lambda>s. m[2 := s]) v
      else if n = ''y'' then set_str (\<lambda>s. m[3 := s]) v
      else if n = ''k'' then set_str (\<lambda>s. m[4 := s]) v
      else Inr m)"

definition parseBoundedJWK :: "crypto \<Rightarrow> bytes \<Rightarrow> key result" where
  "parseBoundedJWK c raw =
     (if len raw > MaxJWKJSONBytes then Inl [ErrMalformedKey]
      else (case decodeObject (dec_struct material_field [[], [], [], [], []]) raw of
              Inl e \<Rightarrow> Inl (wrap ErrMalformedKey e)
            | Inr material \<Rightarrow>
                if list_ex (\<lambda>encoded. len encoded > maxJWKMaterialEncoded) material then Inl [ErrMalformedKey]
                else ParseKey c raw))"

text \<open>The \<^verbatim>\<open>keys\<close> member as raw messages; \<open>None\<close> is the nil slice.\<close>

definition doc_field :: "string list option \<Rightarrow> string \<Rightarrow> string \<Rightarrow> json \<Rightarrow> string list option result" where
  "doc_field d n raw v =
     (if n = ''keys'' then
        (case v of JArr vs \<Rightarrow> Inr (Some (map fst vs)) | JNull \<Rightarrow> Inr None | _ \<Rightarrow> Inl [JSONError])
      else Inr d)"

type_synonym diagnostics = "(int \<times> go_error) list"

fun parse_members_loop :: "crypto \<Rightarrow> bool \<Rightarrow> int \<Rightarrow> bytes list \<Rightarrow> keyset \<Rightarrow> diagnostics \<Rightarrow> (keyset \<times> diagnostics) result" where
  "parse_members_loop c permissive i [] s ds = Inr (s, ds)"
| "parse_members_loop c permissive i (raw # raws) s ds =
     (case parseBoundedJWK c raw of
        Inl e \<Rightarrow>
          if \<not> permissive then Inl (wrap ErrMalformedKey e)
          else parse_members_loop c permissive (i + 1) raws s (ds @ [(i, wrap ErrMalformedKey e)])
      | Inr k \<Rightarrow>
          if permissive \<and> \<not> understandsJWK k
          then parse_members_loop c permissive (i + 1) raws s (ds @ [(i, [ErrUnsupportedAlgorithm])])
          else parse_members_loop c permissive (i + 1) raws (Add k s) ds)"

definition parseKeySet :: "crypto \<Rightarrow> bytes \<Rightarrow> bool \<Rightarrow> (keyset \<times> diagnostics) result" where
  "parseKeySet c data permissive =
     (if len data > MaxKeySetJSONBytes then Inl [ErrMalformedKey]
      else (case decodeObject (dec_struct doc_field None) data of
              Inl e \<Rightarrow> Inl (wrap ErrMalformedKey e)
            | Inr None \<Rightarrow> Inl [ErrMalformedKey]
            | Inr (Some raws) \<Rightarrow>
                if len raws > MaxKeySetKeys then Inl [ErrMalformedKey]
                else parse_members_loop c permissive 0 raws (NewKeySet []) []))"

definition ParseKeySet :: "crypto \<Rightarrow> bytes \<Rightarrow> keyset result" where
  "ParseKeySet c data = (case parseKeySet c data False of Inl e \<Rightarrow> Inl e | Inr (s, _) \<Rightarrow> Inr s)"

definition ParseKeySetPermissive :: "crypto \<Rightarrow> bytes \<Rightarrow> (keyset \<times> diagnostics) result" where
  "ParseKeySetPermissive c data = parseKeySet c data True"

section \<open>The fixed providers\<close>

definition StaticKeyProvider :: "key \<Rightarrow> key" where
  "StaticKeyProvider k = Clone k"

definition static_Lookup :: "key \<Rightarrow> key_lookup" where
  "static_Lookup s kid =
     (if kid \<noteq> [] \<and> Kid s \<noteq> [] \<and> kid \<noteq> Kid s then Inr None else Inr (Some (Clone s)))"

text \<open>A Go map with its size: an association list with distinct keys.\<close>

definition MapKeyProvider :: "(string \<times> key) list \<Rightarrow> (string \<times> key) list" where
  "MapKeyProvider byKID = map (\<lambda>(kid, k). (kid, Clone k)) byKID"

definition map_Lookup :: "(string \<times> key) list \<Rightarrow> key_lookup" where
  "map_Lookup m kid =
     (if kid = [] \<and> len m = 1 then Inr (Some (Clone (snd (m ! 0))))
      else Inr (map_option Clone (map_of m kid)))"

record fake_provider =
  fake_Keys :: "(string \<times> key) list"
  fake_Err :: "go_error option"

definition NewFakeKeyProvider :: "key list \<Rightarrow> fake_provider" where
  "NewFakeKeyProvider keys =
     \<lparr>fake_Keys = fold (\<lambda>k m. alist_set (Kid k) k m) keys [], fake_Err = None\<rparr>"

definition fake_Lookup :: "fake_provider \<Rightarrow> key_lookup" where
  "fake_Lookup f kid =
     (case fake_Err f of
        Some e \<Rightarrow> Inl e
      | None \<Rightarrow>
          if kid = [] then
            (if len (fake_Keys f) = 1 then Inr (Some (snd (fake_Keys f ! 0))) else Inr None)
          else Inr (map_of (fake_Keys f) kid))"

section \<open>The provider contract\<close>

definition distinct_kids :: "key list \<Rightarrow> bool" where
  "distinct_kids ks \<longleftrightarrow> distinct (map Kid ks) \<and> [] \<notin> Kid ` set ks"

text \<open>What a list of keys with distinct, non-empty ids answers.\<close>

definition resolve :: "key list \<Rightarrow> string \<Rightarrow> key option" where
  "resolve ks kid =
     (if kid = [] then (case ks of [k] \<Rightarrow> Some k | _ \<Rightarrow> None) else find (\<lambda>k. Kid k = kid) ks)"

locale sole_key_provider =
  fixes build1 :: "key \<Rightarrow> 'p" and lookup :: "'p \<Rightarrow> key_lookup"
  assumes sole_empty: "Kid k \<noteq> [] \<Longrightarrow> lookup (build1 k) [] = Inr (Some k)"
    and sole_hit: "Kid k \<noteq> [] \<Longrightarrow> lookup (build1 k) (Kid k) = Inr (Some k)"
    and sole_miss: "Kid k \<noteq> [] \<Longrightarrow> kid \<noteq> [] \<Longrightarrow> kid \<noteq> Kid k \<Longrightarrow> lookup (build1 k) kid = Inr None"
begin

lemma sole_resolve: "Kid k \<noteq> [] \<Longrightarrow> lookup (build1 k) kid = Inr (resolve [k] kid)"
  using sole_empty sole_hit sole_miss by (auto simp: resolve_def)

end

locale key_provider =
  fixes build :: "key list \<Rightarrow> 'p" and lookup :: "'p \<Rightarrow> key_lookup"
  assumes hit: "distinct_kids ks \<Longrightarrow> k \<in> set ks \<Longrightarrow> lookup (build ks) (Kid k) = Inr (Some k)"
    and miss: "distinct_kids ks \<Longrightarrow> kid \<noteq> [] \<Longrightarrow> kid \<notin> Kid ` set ks \<Longrightarrow> lookup (build ks) kid = Inr None"
    and sole: "distinct_kids [k] \<Longrightarrow> lookup (build [k]) [] = Inr (Some k)"
    and ambiguous: "distinct_kids ks \<Longrightarrow> length ks \<noteq> 1 \<Longrightarrow> lookup (build ks) [] = Inr None"
begin

lemma find_kid: "distinct_kids ks \<Longrightarrow> k \<in> set ks \<Longrightarrow> find (\<lambda>x. Kid x = Kid k) ks = Some k"
  by (induction ks) (auto simp: distinct_kids_def)

lemma lookup_resolve:
  assumes "distinct_kids ks"
  shows "lookup (build ks) kid = Inr (resolve ks kid)"
proof (cases "kid = []")
  case True
  show ?thesis
  proof (cases "length ks = 1")
    case True
    then obtain k where "ks = [k]" by (cases ks) auto
    with assms sole \<open>kid = []\<close> show ?thesis by (simp add: resolve_def)
  next
    case False
    with assms ambiguous \<open>kid = []\<close> show ?thesis by (cases ks; cases "tl ks") (auto simp: resolve_def)
  qed
next
  case False
  show ?thesis
  proof (cases "kid \<in> Kid ` set ks")
    case True
    then obtain k where "k \<in> set ks" "Kid k = kid" by auto
    with assms hit find_kid False show ?thesis by (auto simp: resolve_def)
  next
    case False
    then have "find (\<lambda>x. Kid x = kid) ks = None" by (auto simp: find_None_iff)
    with False assms miss \<open>kid \<noteq> []\<close> show ?thesis by (simp add: resolve_def)
  qed
qed

end

sublocale key_provider \<subseteq> sole: sole_key_provider "\<lambda>k. build [k]" lookup
  by unfold_locales (use sole hit miss in \<open>auto simp: distinct_kids_def\<close>)

section \<open>The index agrees with the keys\<close>

lemma len_plus_one [simp]: "1 + len xs \<noteq> 0" "len xs + 1 \<noteq> 0"
  using len_nonneg(1) [of xs] by linarith+

fun kid_pos :: "key list \<Rightarrow> string \<Rightarrow> int option" where
  "kid_pos [] kid = None"
| "kid_pos (k # ks) kid = (if Kid k = kid then Some 0 else map_option (\<lambda>i. i + 1) (kid_pos ks kid))"

definition kids_unique :: "key list \<Rightarrow> bool" where
  "kids_unique ks \<longleftrightarrow> distinct (filter (\<lambda>s. s \<noteq> []) (map Kid ks))"

definition ks_inv :: "keyset \<Rightarrow> bool" where
  "ks_inv s \<longleftrightarrow> kids_unique (ks_keys s) \<and>
     (\<forall>kid. ks_byKID s kid = (if kid = [] then None else kid_pos (ks_keys s) kid))"

lemma kid_pos_Some: "kid_pos ks kid = Some i \<Longrightarrow> 0 \<le> i \<and> i < len ks \<and> Kid (ks ! nat i) = kid"
  by (induction ks arbitrary: i) (auto simp: nat_add_distrib split: if_splits)

lemma kid_pos_None: "kid_pos ks kid = None \<longleftrightarrow> kid \<notin> Kid ` set ks"
  by (induction ks) auto

lemma kid_pos_append:
  "kid_pos (ks @ [k]) kid =
     (case kid_pos ks kid of Some i \<Rightarrow> Some i | None \<Rightarrow> if Kid k = kid then Some (len ks) else None)"
  by (induction ks) (auto split: option.splits)

lemma kid_pos_cong: "map Kid ks = map Kid ks' \<Longrightarrow> kid_pos ks = kid_pos ks'"
proof (induction ks arbitrary: ks')
  case (Cons k ks)
  then obtain k' ks'' where "ks' = k' # ks''" "Kid k = Kid k'" "map Kid ks = map Kid ks''" by auto
  with Cons.IH show ?case by (auto simp: fun_eq_iff)
qed simp

lemma find_kid_pos: "find (\<lambda>k. Kid k = kid) ks = map_option (\<lambda>i. ks ! nat i) (kid_pos ks kid)"
proof (induction ks)
  case (Cons k ks)
  show ?case
  proof (cases "kid_pos ks kid")
    case (Some i)
    with kid_pos_Some [OF Some] Cons show ?thesis by (auto simp: nat_add_distrib)
  qed (use Cons in auto)
qed simp

lemma kids_unique_simps [simp]:
  "kids_unique []" "kids_unique (k # ks) \<longleftrightarrow> kids_unique ks \<and> (Kid k \<noteq> [] \<longrightarrow> Kid k \<notin> Kid ` set ks)"
  "kids_unique (ks @ [k]) \<longleftrightarrow> kids_unique ks \<and> (Kid k \<noteq> [] \<longrightarrow> Kid k \<notin> Kid ` set ks)"
  by (auto simp: kids_unique_def)

lemma kids_unique_filter: "kids_unique ks \<Longrightarrow> kids_unique (filter P ks)"
  by (induction ks) auto

lemma index_keys_eq:
  "kids_unique ks \<Longrightarrow> kid \<noteq> [] \<Longrightarrow>
   index_keys i ks m kid = (case kid_pos ks kid of Some j \<Rightarrow> Some (i + j) | None \<Rightarrow> m kid)"
proof (induction ks arbitrary: i m)
  case (Cons k ks)
  show ?case
  proof (cases "Kid k = kid")
    case True
    with Cons.prems have "kid_pos ks kid = None" by (auto simp: kid_pos_None)
    with True Cons show ?thesis by simp
  next
    case False
    with Cons show ?thesis by (auto split: option.splits)
  qed
qed simp

lemma index_keys_empty: "index_keys i ks m [] = m []"
  by (induction ks arbitrary: i m) auto

subsection \<open>The operations on the list of keys\<close>

definition list_add :: "key \<Rightarrow> key list \<Rightarrow> key list" where
  "list_add k ks =
     (if Kid k \<noteq> [] \<and> Kid k \<in> Kid ` set ks then map (\<lambda>x. if Kid x = Kid k then k else x) ks else ks @ [k])"

definition list_lookup :: "key list \<Rightarrow> string \<Rightarrow> key option" where
  "list_lookup ks kid = (if kid = [] then (case ks of [k] \<Rightarrow> Some k | _ \<Rightarrow> None) else find (\<lambda>k. Kid k = kid) ks)"

lemma replace_at_pos:
  "kids_unique ks \<Longrightarrow> Kid k \<noteq> [] \<Longrightarrow> kid_pos ks (Kid k) = Some i \<Longrightarrow>
   ks[nat i := k] = map (\<lambda>x. if Kid x = Kid k then k else x) ks"
proof (induction ks arbitrary: i)
  case (Cons x ks)
  show ?case
  proof (cases "Kid x = Kid k")
    case True
    with Cons.prems have "\<forall>y \<in> set ks. Kid y \<noteq> Kid k" by (metis imageI kids_unique_simps(2))
    then have "map (\<lambda>x. if Kid x = Kid k then k else x) ks = ks" by (induction ks) auto
    with True Cons.prems show ?thesis by auto
  next
    case False
    with Cons.prems obtain j where "kid_pos ks (Kid k) = Some j" "i = j + 1" by auto
    moreover from this kid_pos_Some have "0 \<le> j" by blast
    ultimately show ?thesis using Cons False by (auto simp: nat_add_distrib)
  qed
qed simp

lemma Add_refines:
  assumes "ks_inv s"
  shows "ks_inv (Add k s)" "ks_keys (Add k s) = list_add k (ks_keys s)"
proof -
  have u: "kids_unique (ks_keys s)" and b: "\<And>kid. ks_byKID s kid = (if kid = [] then None else kid_pos (ks_keys s) kid)"
    using assms by (auto simp: ks_inv_def)
  have "ks_inv (Add k s) \<and> ks_keys (Add k s) = list_add k (ks_keys s)"
  proof (cases "Kid k \<noteq> [] \<and> Kid k \<in> Kid ` set (ks_keys s)")
    case True
    then obtain i where i: "kid_pos (ks_keys s) (Kid k) = Some i" by (metis kid_pos_None not_None_eq)
    then have a: "Add k s = s\<lparr>ks_keys := (ks_keys s)[nat i := k]\<rparr>"
      using True by (simp add: Add_def b Let_def)
    have kids: "map Kid ((ks_keys s)[nat i := k]) = map Kid (ks_keys s)"
      using kid_pos_Some [OF i] list_update_same_conv [of "nat i" "map Kid (ks_keys s)" "Kid k"]
      by (simp add: map_update len_def nat_less_iff)
    have "kids_unique ((ks_keys s)[nat i := k])" using u kids by (simp only: kids_unique_def)
    then show ?thesis
      using True b kid_pos_cong [OF kids] replace_at_pos [OF u _ i] by (simp add: a ks_inv_def list_add_def)
  next
    case False
    then have n: "Kid k = [] \<or> kid_pos (ks_keys s) (Kid k) = None" by (auto simp: kid_pos_None)
    then have a: "Add k s = s\<lparr>ks_keys := ks_keys s @ [k],
        ks_byKID := (if Kid k \<noteq> [] then (ks_byKID s)(Kid k \<mapsto> len (ks_keys s)) else ks_byKID s)\<rparr>"
      by (auto simp: Add_def b Let_def)
    show ?thesis
      using False n u b by (auto simp: a ks_inv_def list_add_def kid_pos_append split: option.splits)
  qed
  then show "ks_inv (Add k s)" "ks_keys (Add k s) = list_add k (ks_keys s)" by auto
qed

lemma Remove_refines:
  assumes "ks_inv s"
  shows "ks_inv (Remove kid s)" "ks_keys (Remove kid s) = filter (\<lambda>k. Kid k \<noteq> kid) (ks_keys s)"
proof -
  have u: "kids_unique (filter (\<lambda>k. Kid k \<noteq> kid) (ks_keys s))"
    using assms kids_unique_filter by (auto simp: ks_inv_def)
  then show "ks_inv (Remove kid s)"
    by (auto simp: Remove_def rebuildIndexLocked_def ks_inv_def index_keys_empty index_keys_eq [OF u] split: option.splits)
  show "ks_keys (Remove kid s) = filter (\<lambda>k. Kid k \<noteq> kid) (ks_keys s)"
    by (simp add: Remove_def rebuildIndexLocked_def)
qed

lemma lookup_refines:
  assumes "ks_inv s"
  shows "ks_lookup s kid = list_lookup (ks_keys s) kid"
proof (cases "kid = []")
  case True
  then show ?thesis by (cases "ks_keys s"; cases "tl (ks_keys s)") (auto simp: ks_lookup_def list_lookup_def)
next
  case False
  then have "ks_byKID s kid = kid_pos (ks_keys s) kid" using assms by (simp add: ks_inv_def)
  with False kid_pos_Some [of "ks_keys s" kid] show ?thesis
    by (auto simp: ks_lookup_def list_lookup_def find_kid_pos split: option.splits)
qed

lemma empty_keyset_inv: "ks_inv empty_keyset"
  by (simp add: ks_inv_def empty_keyset_def)

lemma fold_Add_refines: "ks_inv s \<Longrightarrow> ks_inv (fold Add keys s) \<and> ks_keys (fold Add keys s) = fold list_add keys (ks_keys s)"
  by (induction keys arbitrary: s) (auto simp: Add_refines)

lemma NewKeySet_refines: "ks_inv (NewKeySet keys)" "ks_keys (NewKeySet keys) = fold list_add keys []"
  using fold_Add_refines [OF empty_keyset_inv, of keys] by (auto simp: NewKeySet_def empty_keyset_def)

lemma fold_list_add_unique:
  "kids_unique (acc @ keys) \<Longrightarrow> fold list_add keys acc = acc @ keys"
proof (induction keys arbitrary: acc)
  case (Cons k keys)
  have "kids_unique (acc @ [k])"
    using Cons.prems by (auto simp: kids_unique_def)
  then have "list_add k acc = acc @ [k]" by (auto simp: list_add_def)
  with Cons show ?case by simp
qed simp

lemma NewKeySet_keys: "kids_unique keys \<Longrightarrow> ks_keys (NewKeySet keys) = keys"
  using fold_list_add_unique [of "[]" keys] by (simp add: NewKeySet_refines)

lemma distinct_kids_unique: "distinct_kids ks \<Longrightarrow> kids_unique ks"
  by (induction ks) (auto simp: distinct_kids_def)

section \<open>The providers meet the contract\<close>

lemma KeySet_resolve: "distinct_kids ks \<Longrightarrow> KeySet_Lookup (NewKeySet ks) kid = Inr (resolve ks kid)"
  using lookup_refines [OF NewKeySet_refines(1)] NewKeySet_keys [OF distinct_kids_unique]
  by (simp add: KeySet_Lookup_def list_lookup_def resolve_def)

lemma resolve_laws:
  "distinct_kids ks \<Longrightarrow> k \<in> set ks \<Longrightarrow> resolve ks (Kid k) = Some k"
  "kid \<noteq> [] \<Longrightarrow> kid \<notin> Kid ` set ks \<Longrightarrow> resolve ks kid = None"
  "resolve [k] [] = Some k" "length ks \<noteq> 1 \<Longrightarrow> resolve ks [] = None"
proof -
  show "resolve ks (Kid k) = Some k" if "distinct_kids ks" "k \<in> set ks"
    using that by (induction ks) (auto simp: resolve_def distinct_kids_def split: list.splits)
  show "resolve ks [] = None" if "length ks \<noteq> 1"
    using that by (auto simp: resolve_def split: list.splits)
qed (auto simp: resolve_def find_None_iff)

interpretation ks: key_provider NewKeySet KeySet_Lookup
  by unfold_locales (simp_all add: KeySet_resolve resolve_laws)

definition map_provider :: "key list \<Rightarrow> (string \<times> key) list" where
  "map_provider ks = MapKeyProvider (map (\<lambda>k. (Kid k, k)) ks)"

lemma map_of_kids: "map_of (map (\<lambda>k. (Kid k, k)) ks) kid = find (\<lambda>k. Kid k = kid) ks"
  by (induction ks) auto

lemma map_resolve:
  assumes "distinct_kids ks"
  shows "map_Lookup (map_provider ks) kid = Inr (resolve ks kid)"
proof -
  have "map_of (map_provider ks) kid = find (\<lambda>k. Kid k = kid) ks"
    by (simp add: map_provider_def MapKeyProvider_def comp_def map_of_kids)
  moreover have "kid = [] \<Longrightarrow> find (\<lambda>k. Kid k = kid) ks = None"
    using assms unfolding find_None_iff distinct_kids_def by (metis imageI)
  moreover have "Clone = id" by (simp add: fun_eq_iff)
  ultimately show ?thesis
    by (cases ks; cases "tl ks") (auto simp: map_Lookup_def resolve_def option.map_id map_provider_def MapKeyProvider_def)
qed

interpretation mp: key_provider map_provider map_Lookup
  by unfold_locales (simp_all add: map_resolve resolve_laws)

lemma fake_keys: "distinct_kids (acc @ ks) \<Longrightarrow>
  fold (\<lambda>k m. alist_set (Kid k) k m) ks (map (\<lambda>k. (Kid k, k)) acc) = map (\<lambda>k. (Kid k, k)) (acc @ ks)"
proof (induction ks arbitrary: acc)
  case (Cons k ks)
  have notin: "Kid k \<notin> Kid ` set acc" using Cons.prems by (auto simp: distinct_kids_def)
  then have "alist_set (Kid k) k (map (\<lambda>k. (Kid k, k)) acc) = map (\<lambda>k. (Kid k, k)) (acc @ [k])"
    by (induction acc) auto
  with Cons.IH [of "acc @ [k]"] Cons.prems show ?case by simp
qed simp

lemma fake_resolve:
  assumes "distinct_kids ks"
  shows "fake_Lookup (NewFakeKeyProvider ks) kid = Inr (resolve ks kid)"
proof -
  have "fake_Keys (NewFakeKeyProvider ks) = map (\<lambda>k. (Kid k, k)) ks"
    using fake_keys [of "[]" ks] assms by (simp add: NewFakeKeyProvider_def)
  moreover have "fake_Err (NewFakeKeyProvider ks) = None" by (simp add: NewFakeKeyProvider_def)
  ultimately show ?thesis
    by (cases ks; cases "tl ks") (auto simp: fake_Lookup_def resolve_def map_of_kids comp_def)
qed

interpretation fk: key_provider NewFakeKeyProvider fake_Lookup
  by unfold_locales (simp_all add: fake_resolve resolve_laws)

interpretation st: sole_key_provider StaticKeyProvider static_Lookup
  by unfold_locales (simp_all add: StaticKeyProvider_def static_Lookup_def)

section \<open>Histories of a set\<close>

datatype ks_op = OpAdd key | OpRemove string

fun run_op :: "ks_op \<Rightarrow> keyset \<Rightarrow> keyset" where
  "run_op (OpAdd k) s = Add k s"
| "run_op (OpRemove kid) s = Remove kid s"

fun run_list :: "ks_op \<Rightarrow> key list \<Rightarrow> key list" where
  "run_list (OpAdd k) ks = list_add k ks"
| "run_list (OpRemove kid) ks = filter (\<lambda>k. Kid k \<noteq> kid) ks"

lemma run_op_refines: "ks_inv s \<Longrightarrow> ks_inv (run_op x s) \<and> ks_keys (run_op x s) = run_list x (ks_keys s)"
  by (cases x) (auto simp: Add_refines Remove_refines)

lemma run_ops_refine:
  "ks_inv s \<Longrightarrow> ks_inv (fold run_op ops s) \<and> ks_keys (fold run_op ops s) = fold run_list ops (ks_keys s)"
  by (induction ops arbitrary: s) (auto simp: run_op_refines)

section \<open>Bounds of a parsed set\<close>

definition key_accepted :: "crypto \<Rightarrow> key \<Rightarrow> bool" where
  "key_accepted c k \<longleftrightarrow> validateRepresentation c k = None \<and> Kty k \<noteq> []"

lemma parseBoundedJWK_accepted: "parseBoundedJWK c raw = Inr k \<Longrightarrow> key_accepted c k"
  by (auto simp: parseBoundedJWK_def ParseKey_def key_accepted_def split: sum.splits if_splits option.splits)

lemma list_add_length: "length (list_add k ks) \<le> length ks + 1"
  by (simp add: list_add_def)

lemma list_add_set: "set (list_add k ks) \<subseteq> insert k (set ks)"
  by (auto simp: list_add_def)

lemma parse_loop_bounds:
  assumes "parse_members_loop c perm i raws s ds = Inr (s', ds')" "ks_inv s"
  shows "ks_inv s' \<and> length (ks_keys s') \<le> length (ks_keys s) + length raws
    \<and> (\<forall>k \<in> set (ks_keys s'). k \<in> set (ks_keys s) \<or> (key_accepted c k \<and> (perm \<longrightarrow> understandsJWK k)))
    \<and> length ds' \<le> length ds + length raws \<and> (\<not> perm \<longrightarrow> ds' = ds)"
  using assms
proof (induction c perm i raws s ds rule: parse_members_loop.induct)
  case (2 c perm i raw raws s ds)
  show ?case
  proof (cases "parseBoundedJWK c raw")
    case (Inl e)
    with 2 show ?thesis by (fastforce split: if_splits)
  next
    case (Inr k)
    show ?thesis
    proof (cases "perm \<and> \<not> understandsJWK k")
      case True
      with 2 Inr show ?thesis by fastforce
    next
      case False
      have a: "ks_inv (Add k s)" "ks_keys (Add k s) = list_add k (ks_keys s)" using Add_refines "2.prems" by auto
      have r: "parse_members_loop c perm (i + 1) raws (Add k s) ds = Inr (s', ds')"
        using "2.prems" Inr False by auto
      have IH: "ks_inv s' \<and> length (ks_keys s') \<le> length (list_add k (ks_keys s)) + length raws
          \<and> (\<forall>k' \<in> set (ks_keys s'). k' \<in> set (list_add k (ks_keys s)) \<or> (key_accepted c k' \<and> (perm \<longrightarrow> understandsJWK k')))
          \<and> length ds' \<le> length ds + length raws \<and> (\<not> perm \<longrightarrow> ds' = ds)"
        using "2.IH"(3) [OF Inr False r a(1)] by (simp add: a)
      have "key_accepted c k \<and> (perm \<longrightarrow> understandsJWK k)" using parseBoundedJWK_accepted [OF Inr] False by auto
      then show ?thesis
        using IH list_add_length [of k "ks_keys s"] list_add_set [of k "ks_keys s"] by fastforce
    qed
  qed
qed auto

lemma NewKeySet_Nil: "ks_inv (NewKeySet [])" "ks_keys (NewKeySet []) = []"
  by (simp_all add: NewKeySet_refines)

subsection \<open>What becomes of each member\<close>

text \<open>
  The limits of one member, in numbers: 65536 bytes of JSON, and 10923 characters for each of the
  five texts \<^verbatim>\<open>n\<close>, \<^verbatim>\<open>e\<close>, \<^verbatim>\<open>x\<close>, \<^verbatim>\<open>y\<close> and \<^verbatim>\<open>k\<close> (8192 bytes in base64url).
\<close>

definition member_within_limits :: "bytes \<Rightarrow> bool" where
  "member_within_limits raw \<longleftrightarrow> len raw \<le> 65536
     \<and> (\<exists>material. decodeObject (dec_struct material_field [[], [], [], [], []]) raw = Inr material
          \<and> (\<forall>encoded \<in> set material. len encoded \<le> 10923))"

text \<open>The key a member contributes, if it does.\<close>

definition member_key :: "crypto \<Rightarrow> bool \<Rightarrow> bytes \<Rightarrow> key option" where
  "member_key c perm raw =
     (case ParseKey c raw of
        Inl e \<Rightarrow> None
      | Inr k \<Rightarrow> if member_within_limits raw \<and> (perm \<longrightarrow> understandsJWK k) then Some k else None)"

lemma parseBoundedJWK_Inr: "parseBoundedJWK c raw = Inr k \<longleftrightarrow> member_within_limits raw \<and> ParseKey c raw = Inr k"
  by (auto simp: parseBoundedJWK_def member_within_limits_def MaxJWKJSONBytes_def maxJWKMaterialEncoded_def
      MaxJWKMaterialBytes_def list_ex_iff not_less dest: leD split: sum.splits)

lemma member_key_Some: "member_key c perm raw = Some k \<longleftrightarrow>
   member_within_limits raw \<and> ParseKey c raw = Inr k \<and> (perm \<longrightarrow> understandsJWK k)"
  by (auto simp: member_key_def split: sum.splits)

lemma parseBoundedJWK_member_key:
  "parseBoundedJWK c raw = Inl e \<Longrightarrow> member_key c perm raw = None"
  "parseBoundedJWK c raw = Inr k \<Longrightarrow> member_key c perm raw = (if perm \<and> \<not> understandsJWK k then None else Some k)"
proof -
  show "member_key c perm raw = None" if "parseBoundedJWK c raw = Inl e"
  proof (rule ccontr)
    assume "member_key c perm raw \<noteq> None"
    then obtain k where "member_key c perm raw = Some k" by blast
    with that parseBoundedJWK_Inr [of c raw k] show False by (simp add: member_key_Some)
  qed
  show "member_key c perm raw = (if perm \<and> \<not> understandsJWK k then None else Some k)" if "parseBoundedJWK c raw = Inr k"
    using that by (auto simp: parseBoundedJWK_Inr member_key_def)
qed

definition refused_members :: "crypto \<Rightarrow> bool \<Rightarrow> int \<Rightarrow> bytes list \<Rightarrow> int list" where
  "refused_members c perm i raws = map fst (filter (\<lambda>(j, raw). member_key c perm raw = None) (zip [i..i + len raws - 1] raws))"

lemma refused_members_simps [simp]:
  "refused_members c perm i [] = []"
  "refused_members c perm i (raw # raws) =
     (if member_key c perm raw = None then [i] else []) @ refused_members c perm (i + 1) raws"
proof -
  have "[i..i + len (raw # raws) - 1] = i # [i + 1..(i + 1) + len raws - 1]"
    by (subst upto.simps) (simp add: len_def)
  then show "refused_members c perm i (raw # raws) =
      (if member_key c perm raw = None then [i] else []) @ refused_members c perm (i + 1) raws"
    by (simp add: refused_members_def)
qed (simp add: refused_members_def)

lemma parse_loop_exact:
  assumes "parse_members_loop c perm i raws s ds = Inr (s', ds')" "ks_inv s"
  shows "ks_keys s' = fold list_add (List.map_filter (member_key c perm) raws) (ks_keys s)
    \<and> map fst ds' = map fst ds @ refused_members c perm i raws
    \<and> (\<not> perm \<longrightarrow> (\<forall>raw \<in> set raws. member_key c perm raw \<noteq> None))"
  using assms
proof (induction c perm i raws s ds rule: parse_members_loop.induct)
  case (2 c perm i raw raws s ds)
  show ?case
  proof (cases "parseBoundedJWK c raw")
    case (Inl e)
    have p: perm using "2.prems"(1) Inl by (cases perm) simp_all
    then have "parse_members_loop c perm (i + 1) raws s (ds @ [(i, wrap ErrMalformedKey e)]) = Inr (s', ds')"
      using "2.prems"(1) Inl by simp
    with "2.IH"(1) [OF Inl] "2.prems"(2) p parseBoundedJWK_member_key(1) [OF Inl] show ?thesis
      by (simp add: List.map_filter_simps)
  next
    case (Inr k)
    show ?thesis
    proof (cases "perm \<and> \<not> understandsJWK k")
      case True
      with 2 Inr parseBoundedJWK_member_key(2) [OF Inr] show ?thesis by (simp add: List.map_filter_simps)
    next
      case False
      have a: "ks_inv (Add k s)" "ks_keys (Add k s) = list_add k (ks_keys s)" using Add_refines "2.prems" by auto
      have r: "parse_members_loop c perm (i + 1) raws (Add k s) ds = Inr (s', ds')"
        using "2.prems" Inr False by auto
      from "2.IH"(3) [OF Inr False r a(1)] parseBoundedJWK_member_key(2) [OF Inr, of perm] False show ?thesis
        by (cases perm) (simp_all add: List.map_filter_simps a(2))
    qed
  qed
qed (simp add: List.map_filter_simps)

section \<open>Properties\<close>

text \<open>
  C33: the index of a key set never goes stale: after any sequence of \<^verbatim>\<open>Add\<close> and \<^verbatim>\<open>Remove\<close> the set
  holds the keys of the plain list under the same operations, in order, and \<^verbatim>\<open>Lookup\<close> answers
  what searching that list would.
\<close>

theorem keyset_refines_list:
  "Keys (fold run_op ops (NewKeySet ks)) = fold run_list ops (fold list_add ks [])
   \<and> ks_lookup (fold run_op ops (NewKeySet ks)) kid = list_lookup (fold run_list ops (fold list_add ks [])) kid"
proof -
  have r: "ks_inv (fold run_op ops (NewKeySet ks))"
      "ks_keys (fold run_op ops (NewKeySet ks)) = fold run_list ops (fold list_add ks [])"
    using run_ops_refine [OF NewKeySet_refines(1)] by (auto simp: NewKeySet_refines(2))
  have "Clone = id" by (simp add: fun_eq_iff)
  with r(2) lookup_refines [OF r(1)] show ?thesis by (simp add: Keys_def)
qed

text \<open>
  the conformance contract: given keys with distinct, non-empty ids, a \<^verbatim>\<open>KeySet\<close>, a
  \<^verbatim>\<open>MapKeyProvider\<close> and a \<^verbatim>\<open>FakeKeyProvider\<close> answer every lookup alike (the key with that id, the
  sole key for an empty id, otherwise not found without an error), and with one key so does
  \<^verbatim>\<open>StaticKeyProvider\<close>.
\<close>

theorem key_providers_agree:
  assumes "distinct_kids ks"
  shows "KeySet_Lookup (NewKeySet ks) kid = Inr (resolve ks kid)
    \<and> map_Lookup (map_provider ks) kid = Inr (resolve ks kid)
    \<and> fake_Lookup (NewFakeKeyProvider ks) kid = Inr (resolve ks kid)
    \<and> (\<forall>k. ks = [k] \<longrightarrow> static_Lookup (StaticKeyProvider k) kid = Inr (resolve ks kid))"
  using ks.lookup_resolve [OF assms] mp.lookup_resolve [OF assms] fk.lookup_resolve [OF assms] st.sole_resolve assms
  by (auto simp: distinct_kids_def)

theorem key_providers_agree_witness:
  "KeySet_Lookup (NewKeySet [FromHMACSecret ''s'' [''a''], FromHMACSecret ''t'' [''b'']]) ''b'' = Inr (Some (FromHMACSecret ''t'' [''b'']))"
proof -
  have d: "distinct_kids [FromHMACSecret ''s'' [''a''], FromHMACSecret ''t'' [''b'']]" by code_simp
  show ?thesis
    using key_providers_agree [OF d, of "''b''"]
    by (simp add: resolve_def FromHMACSecret_def FirstString_def zero_key_def)
qed

text \<open>
  C35: what comes out of a JWKS document is determined by its members and bounded.  The document
  has at most 8389632 bytes and at most 128 members; the set holds, in order and with
  \<^verbatim>\<open>Add\<close>'s replacement of equal ids, exactly the keys of the members that have at most 65536
  bytes of JSON, at most 10923 characters in each of \<^verbatim>\<open>n\<close>, \<^verbatim>\<open>e\<close>, \<^verbatim>\<open>x\<close>, \<^verbatim>\<open>y\<close> and \<^verbatim>\<open>k\<close>, and a
  valid key, of an understood type if parsing is permissive.  Strict parsing succeeds only when
  every member is such a one and reports nothing; permissive parsing reports exactly the
  indices of the others, those beyond a limit of their own included, and goes on.
\<close>

theorem parsed_keyset_bounds:
  assumes "parseKeySet c data perm = Inr (s, ds)"
  shows "len data \<le> 8389632
    \<and> (\<exists>raws. decodeObject (dec_struct doc_field None) data = Inr (Some raws) \<and> len raws \<le> 128
        \<and> ks_keys s = fold list_add (List.map_filter (member_key c perm) raws) []
        \<and> map fst ds = refused_members c perm 0 raws
        \<and> (\<not> perm \<longrightarrow> (\<forall>raw \<in> set raws. member_key c perm raw \<noteq> None)))
    \<and> len (ks_keys s) \<le> 128 \<and> len ds \<le> 128 \<and> ks_inv s
    \<and> (\<forall>k \<in> set (ks_keys s). validateRepresentation c k = None \<and> Kty k \<noteq> [] \<and> (perm \<longrightarrow> understandsJWK k))
    \<and> (\<not> perm \<longrightarrow> ds = [])"
proof -
  obtain raws where raws: "len data \<le> MaxKeySetJSONBytes" "len raws \<le> MaxKeySetKeys"
      "decodeObject (dec_struct doc_field None) data = Inr (Some raws)"
      "parse_members_loop c perm 0 raws (NewKeySet []) [] = Inr (s, ds)"
    using assms by (auto simp: parseKeySet_def not_less split: if_splits sum.splits option.splits)
  have "len data \<le> 8389632" "len raws \<le> 128"
    using raws(1,2) by (simp_all add: MaxKeySetJSONBytes_def MaxKeySetKeys_def MaxJWKJSONBytes_def)
  moreover from parse_loop_exact [OF raws(4) NewKeySet_Nil(1)]
  have "ks_keys s = fold list_add (List.map_filter (member_key c perm) raws) []"
    "map fst ds = refused_members c perm 0 raws" "\<not> perm \<longrightarrow> (\<forall>raw \<in> set raws. member_key c perm raw \<noteq> None)"
    by (simp_all add: NewKeySet_Nil(2))
  moreover have "len (ks_keys s) \<le> 128 \<and> len ds \<le> 128 \<and> ks_inv s
    \<and> (\<forall>k \<in> set (ks_keys s). validateRepresentation c k = None \<and> Kty k \<noteq> [] \<and> (perm \<longrightarrow> understandsJWK k))
    \<and> (\<not> perm \<longrightarrow> ds = [])"
    using parse_loop_bounds [OF raws(4) NewKeySet_Nil(1)] raws(2)
    by (auto simp: NewKeySet_Nil(2) MaxKeySetKeys_def len_def key_accepted_def)
  ultimately show ?thesis using raws(3) by blast
qed

text \<open>A document with a symmetric key and a member of an unknown type.\<close>

definition sample_jwks :: bytes where
  "sample_jwks = enc_struct [(''keys'', False, enc_array
     [enc_struct [(''kty'', False, enc_str ''oct''), (''kid'', False, enc_str ''a''), (''k'', False, enc_str ''MDEyMzQ1Njc4OWFiY2RlZg'')],
      enc_struct [(''kty'', False, enc_str ''new''), (''kid'', False, enc_str ''b'')]])]"

theorem parsed_keyset_bounds_witness:
  "\<exists>s ds raws. parseKeySet sample_crypto sample_jwks True = Inr (s, ds)
     \<and> map Kid (ks_keys s) = [''a''] \<and> map fst ds = [1]
     \<and> ks_keys s = fold list_add (List.map_filter (member_key sample_crypto True) raws) []
     \<and> map fst ds = refused_members sample_crypto True 0 raws \<and> len (ks_keys s) \<le> 128"
proof -
  have "case parseKeySet sample_crypto sample_jwks True of Inl _ \<Rightarrow> False
      | Inr (s, ds) \<Rightarrow> map Kid (ks_keys s) = [''a''] \<and> map fst ds = [1]"
    by code_simp
  then obtain s ds where p: "parseKeySet sample_crypto sample_jwks True = Inr (s, ds)"
      and k: "map Kid (ks_keys s) = [''a'']" "map fst ds = [1]"
    by (auto split: sum.splits)
  from parsed_keyset_bounds [OF p] obtain raws where
      "ks_keys s = fold list_add (List.map_filter (member_key sample_crypto True) raws) []"
      "map fst ds = refused_members sample_crypto True 0 raws" "len (ks_keys s) \<le> 128" by blast
  with k p show ?thesis by (intro exI conjI)
qed

end
