(* ===== verification/JWT.thy ===== *)
theory JWT
  imports KeySet
begin

text \<open>
  \<^verbatim>\<open>jwt.go\<close>: signing and parsing of compact JWS tokens.  The claims type \<^verbatim>\<open>C\<close> of \<^verbatim>\<open>Sign\<close> and
  \<^verbatim>\<open>Parse\<close> is a parameter: \<^verbatim>\<open>Sign\<close> takes what marshalling the claims gives, \<^verbatim>\<open>Parse\<close> the decoder
  of the type.  A clock is the time it shows when \<^verbatim>\<open>validateClaims\<close> reads it, which it does
  once.  A nil option, provider or destination is \<open>None\<close>.

  Shown: the exact conditions under which a token is accepted; that nothing but a well-formed
  token with an allowed algorithm ever reaches a key or verifier provider; that the key a
  token is verified with is of the type of the token's algorithm; what the claim rules
  accept and in which order they fail; and that a signed token parses back to its payload.
\<close>

section \<open>Signing\<close>

definition maxTokenBytes :: int where "maxTokenBytes = 1048576"

definition DefaultType :: string where "DefaultType = ''JWT''"

record sign_config =
  sc_typ :: string
  sc_contentType :: string

datatype sign_option =
    SignOptions string string \<comment> \<open>Type and ContentType\<close>
  | WithType string
  | WithContentType string

fun applySign :: "sign_option \<Rightarrow> sign_config \<Rightarrow> sign_config" where
  "applySign (SignOptions typ cty) c =
     (let c = (if typ \<noteq> [] then c\<lparr>sc_typ := typ\<rparr> else c)
      in if cty \<noteq> [] then c\<lparr>sc_contentType := cty\<rparr> else c)"
| "applySign (WithType typ) c = c\<lparr>sc_typ := typ\<rparr>"
| "applySign (WithContentType cty) c = c\<lparr>sc_contentType := cty\<rparr>"

text \<open>Options apply left to right; a nil option is skipped.\<close>

definition apply_options :: "('o \<Rightarrow> 'c \<Rightarrow> 'c) \<Rightarrow> 'o option list \<Rightarrow> 'c \<Rightarrow> 'c" where
  "apply_options app opts cfg = fold (\<lambda>o' c. case o' of None \<Rightarrow> c | Some x \<Rightarrow> app x c) opts cfg"

definition is_none :: "alg \<Rightarrow> bool" where
  "is_none a \<longleftrightarrow> a = [] \<or> equal_fold a ''none''"

definition sign_header :: "signer \<Rightarrow> sign_option option list \<Rightarrow> header" where
  "sign_header s opts =
     (let cfg = apply_options applySign opts \<lparr>sc_typ = DefaultType, sc_contentType = []\<rparr>
      in zero_header\<lparr>h_Algorithm := signer_Algorithm s, h_Type := sc_typ cfg,
           h_ContentType := sc_contentType cfg, h_KeyID := signer_KeyID s\<rparr>)"

text \<open>\<open>claims_json\<close> is what \<^verbatim>\<open>json.Marshal(claims)\<close> gives.\<close>

definition Sign :: "crypto \<Rightarrow> bytes result \<Rightarrow> signer option \<Rightarrow> sign_option option list \<Rightarrow> string result" where
  "Sign c claims_json signer opts =
     (case signer of
        None \<Rightarrow> Inl [ErrUnsupportedAlgorithm]
      | Some s \<Rightarrow>
          if is_none (signer_Algorithm s) then Inl [ErrAlgorithmNotAllowed]
          else
            let headerJSON = marshal_header (sign_header s opts)
            in case claims_json of
                 Inl e \<Rightarrow> Inl e
               | Inr payloadJSON \<Rightarrow>
                   (case decodeObject dec_members payloadJSON of
                      Inl e \<Rightarrow> Inl (wrap ErrInvalidClaims e)
                    | Inr _ \<Rightarrow>
                        let signingInput = Encode headerJSON @ ''.'' @ Encode payloadJSON
                        in case signer_Sign c s signingInput of
                             Inl e \<Rightarrow> Inl e
                           | Inr sig \<Rightarrow> Inr (signingInput @ ''.'' @ Encode sig)))"

section \<open>Parse configuration\<close>

text \<open>\<^verbatim>\<open>LookupVerifier\<close>: \<open>None\<close> stands for not found and for a nil verifier.\<close>

type_synonym verifier_provider = "alg \<Rightarrow> string \<Rightarrow> verifier option result"

type_synonym duration = "64 word"

record parse_config =
  pc_allowedAlgs :: "alg list"
  pc_issuer :: string
  pc_audience :: string
  pc_requiredType :: string
  pc_now :: time
  pc_leeway :: duration
  pc_requiredClaims :: "string list"
  pc_skipAudience :: bool
  pc_verifierProvider :: "verifier_provider option"
  pc_rawPayload :: bool
  pc_allowedKeyAlgs :: "string list"
  pc_allowedContentAlgs :: "string list"
  pc_Realm :: string
  pc_OnError :: bool

definition default_config :: "time \<Rightarrow> parse_config" where
  "default_config wall = \<lparr>pc_allowedAlgs = [], pc_issuer = [], pc_audience = [], pc_requiredType = [],
     pc_now = wall, pc_leeway = 0, pc_requiredClaims = [], pc_skipAudience = False,
     pc_verifierProvider = None, pc_rawPayload = False, pc_allowedKeyAlgs = [],
     pc_allowedContentAlgs = [], pc_Realm = [], pc_OnError = False\<rparr>"

record parse_options =
  po_AllowedAlgorithms :: "alg list"
  po_AllowedKeyAlgorithms :: "string list"
  po_AllowedContentAlgorithms :: "string list"
  po_Issuer :: string
  po_Audience :: string
  po_SkipAudienceCheck :: bool
  po_RequiredType :: string
  po_RequiredClaims :: "string list"
  po_Leeway :: duration
  po_Clock :: "time option"
  po_VerifierProvider :: "verifier_provider option"

datatype parse_option =
    ParseOptions parse_options
  | WithAllowedAlgorithms "alg list"
  | WithAllowedKeyAlgorithms "string list"
  | WithAllowedContentAlgorithms "string list"
  | WithIssuer string
  | WithAudience string
  | WithoutAudienceCheck
  | WithRequiredType string
  | WithClock "time option"
  | WithLeeway duration
  | WithRequiredClaims "string list"
  | WithVerifierProvider "verifier_provider option"
  | MiddlewareOptions string bool \<comment> \<open>Realm, and whether OnError is set\<close>

definition apply_ParseOptions :: "parse_options \<Rightarrow> parse_config \<Rightarrow> parse_config" where
  "apply_ParseOptions p c =
     (let c = c\<lparr>pc_allowedAlgs := pc_allowedAlgs c @ po_AllowedAlgorithms p,
                pc_allowedKeyAlgs := pc_allowedKeyAlgs c @ po_AllowedKeyAlgorithms p,
                pc_allowedContentAlgs := pc_allowedContentAlgs c @ po_AllowedContentAlgorithms p\<rparr>;
          c = (if po_Issuer p \<noteq> [] then c\<lparr>pc_issuer := po_Issuer p\<rparr> else c);
          c = (if po_Audience p \<noteq> [] then c\<lparr>pc_audience := po_Audience p\<rparr> else c);
          c = (if po_RequiredType p \<noteq> [] then c\<lparr>pc_requiredType := po_RequiredType p\<rparr> else c);
          c = c\<lparr>pc_requiredClaims := pc_requiredClaims c @ po_RequiredClaims p\<rparr>;
          c = (if po_SkipAudienceCheck p then c\<lparr>pc_skipAudience := True\<rparr> else c);
          c = (if po_Leeway p \<noteq> 0 then c\<lparr>pc_leeway := po_Leeway p\<rparr> else c);
          c = (case po_Clock p of None \<Rightarrow> c | Some now \<Rightarrow> c\<lparr>pc_now := now\<rparr>)
      in case po_VerifierProvider p of None \<Rightarrow> c | Some v \<Rightarrow> c\<lparr>pc_verifierProvider := Some v\<rparr>)"

fun applyParse :: "parse_option \<Rightarrow> parse_config \<Rightarrow> parse_config" where
  "applyParse (ParseOptions p) c = apply_ParseOptions p c"
| "applyParse (WithAllowedAlgorithms algs) c = c\<lparr>pc_allowedAlgs := pc_allowedAlgs c @ algs\<rparr>"
| "applyParse (WithAllowedKeyAlgorithms algs) c = c\<lparr>pc_allowedKeyAlgs := pc_allowedKeyAlgs c @ algs\<rparr>"
| "applyParse (WithAllowedContentAlgorithms encs) c = c\<lparr>pc_allowedContentAlgs := pc_allowedContentAlgs c @ encs\<rparr>"
| "applyParse (WithIssuer iss) c = c\<lparr>pc_issuer := iss\<rparr>"
| "applyParse (WithAudience aud) c = c\<lparr>pc_audience := aud\<rparr>"
| "applyParse WithoutAudienceCheck c = c\<lparr>pc_skipAudience := True\<rparr>"
| "applyParse (WithRequiredType typ) c = c\<lparr>pc_requiredType := typ\<rparr>"
| "applyParse (WithClock now) c = (case now of None \<Rightarrow> c | Some t \<Rightarrow> c\<lparr>pc_now := t\<rparr>)"
| "applyParse (WithLeeway d) c = c\<lparr>pc_leeway := d\<rparr>"
| "applyParse (WithRequiredClaims names) c = c\<lparr>pc_requiredClaims := pc_requiredClaims c @ names\<rparr>"
| "applyParse (WithVerifierProvider p) c =
     (case p of None \<Rightarrow> c | Some v \<Rightarrow> c\<lparr>pc_verifierProvider := Some v\<rparr>)"
| "applyParse (MiddlewareOptions realm onerr) c =
     (let c = (if realm \<noteq> [] then c\<lparr>pc_Realm := realm\<rparr> else c)
      in if onerr then c\<lparr>pc_OnError := True\<rparr> else c)"

section \<open>Segments, types and allowlists\<close>

definition split3 :: "string \<Rightarrow> (string \<times> string \<times> string) option" where
  "split3 s =
     (let i = index_byte s CHR ''.''
      in if i < 0 then None
         else let j = index_byte (drop (nat (i + 1)) s) CHR ''.''
              in if j < 0 then None
                 else let j = j + (i + 1)
                      in if index_byte (drop (nat (j + 1)) s) CHR ''.'' \<ge> 0 then None
                         else Some (take (nat i) s, take (nat (j - (i + 1))) (drop (nat (i + 1)) s),
                                    drop (nat (j + 1)) s))"

definition norm_type :: "(string \<Rightarrow> string) \<Rightarrow> string \<Rightarrow> string" where
  "norm_type uni_lower s = to_lower uni_lower (if CHR ''/'' \<notin> set s then ''application/'' @ s else s)"

definition typeMatches :: "(string \<Rightarrow> string) \<Rightarrow> string \<Rightarrow> string \<Rightarrow> bool" where
  "typeMatches uni_lower got want \<longleftrightarrow>
     got \<noteq> [] \<and> want \<noteq> [] \<and> norm_type uni_lower got = norm_type uni_lower want"

definition withoutNone :: "alg list \<Rightarrow> alg list" where
  "withoutNone algs = filter (\<lambda>a. \<not> is_none a) algs"

definition containsAlg :: "alg list \<Rightarrow> alg \<Rightarrow> bool" where
  "containsAlg algs want \<longleftrightarrow> want \<in> set algs"

section \<open>Claims\<close>

fun missing_claim :: "members \<Rightarrow> string list \<Rightarrow> go_error option" where
  "missing_claim present [] = None"
| "missing_claim present (name # names) =
     (case map_of present name of
        None \<Rightarrow> Some [ErrMissingClaim]
      | Some (raw, _) \<Rightarrow>
          if trim_space raw = ''null'' then Some [ErrMissingClaim] else missing_claim present names)"

text \<open>Duration arithmetic: \<open>- leeway\<close> wraps at 64 bits, and \<^verbatim>\<open>Time.Add\<close> adds the signed value.\<close>

definition time_add :: "time \<Rightarrow> duration \<Rightarrow> time" where
  "time_add t d = t + sint d"

definition validateClaims :: "(string \<Rightarrow> string) \<Rightarrow> bytes \<Rightarrow> registered_claims \<Rightarrow> header \<Rightarrow> parse_config \<Rightarrow> go_error option" where
  "validateClaims uni_lower raw rc header cfg =
     (let now = pc_now cfg
      in if ExpiresAt rc \<noteq> None \<and> \<not> time_add now (- pc_leeway cfg) < the (ExpiresAt rc) then Some [ErrExpired]
         else if NotBefore rc \<noteq> None \<and> time_add now (pc_leeway cfg) < the (NotBefore rc) then Some [ErrNotYetValid]
         else if pc_issuer cfg \<noteq> [] \<and> Issuer rc \<noteq> pc_issuer cfg then Some [ErrIssuerMismatch]
         else if pc_audience cfg \<noteq> [] \<and> \<not> Has (Audience rc) (pc_audience cfg) then Some [ErrAudienceMismatch]
         else if pc_audience cfg = [] \<and> Audience rc \<noteq> None \<and> \<not> pc_skipAudience cfg then Some [ErrAudienceMismatch]
         else if pc_requiredType cfg \<noteq> [] \<and> \<not> typeMatches uni_lower (h_Type header) (pc_requiredType cfg)
           then Some [ErrTypeMismatch]
         else if len (pc_requiredClaims cfg) > 0 then
           (case decodeObject dec_members raw of
              Inl e \<Rightarrow> Some (wrap ErrMalformedToken e)
            | Inr present \<Rightarrow> missing_claim present (pc_requiredClaims cfg))
         else None)"

section \<open>Choosing the verifier\<close>

definition lookupVerifier :: "verifier_provider \<Rightarrow> header \<Rightarrow> verifier result" where
  "lookupVerifier provider header =
     (case provider (h_Algorithm header) (h_KeyID header) of
        Inl e \<Rightarrow> Inl (wrap ErrVerifierProvider e)
      | Inr None \<Rightarrow> Inl [ErrKeyNotFound]
      | Inr (Some v) \<Rightarrow>
          if \<not> sameAlgorithm (verifier_Algorithm v) (h_Algorithm header) then Inl [ErrKeyUsage]
          else if h_KeyID header \<noteq> [] \<and> verifier_KeyID v \<noteq> h_KeyID header then Inl [ErrKeyUsage]
          else Inr v)"

definition alg_identity :: "alg \<Rightarrow> alg" where
  "alg_identity a = (if a = EdDSA then Ed25519 else a)"

fun unambiguous_loop :: "crypto \<Rightarrow> key \<Rightarrow> alg list \<Rightarrow> alg list \<Rightarrow> alg list \<Rightarrow> go_error option" where
  "unambiguous_loop c k seen compatible [] = None"
| "unambiguous_loop c k seen compatible (a # algs) =
     (if alg_identity a \<in> set seen then unambiguous_loop c k seen compatible algs
      else let seen = alg_identity a # seen
           in case verifierForAlg c k a of
                Inl _ \<Rightarrow> unambiguous_loop c k seen compatible algs
              | Inr _ \<Rightarrow>
                  let compatible = compatible @ [a]
                  in if len compatible > 1 then Some [ErrKeyUsage]
                     else unambiguous_loop c k seen compatible algs)"

definition requireUnambiguousKeyAlgorithm :: "crypto \<Rightarrow> key \<Rightarrow> alg list \<Rightarrow> go_error option" where
  "requireUnambiguousKeyAlgorithm c k allowed =
     (if Alg k \<noteq> [] then None else unambiguous_loop c k [] [] allowed)"

definition resolve_verifier :: "crypto \<Rightarrow> key_lookup option \<Rightarrow> parse_config \<Rightarrow> alg list \<Rightarrow> header \<Rightarrow> verifier result" where
  "resolve_verifier c keys cfg allowed header =
     (case pc_verifierProvider cfg of
        Some provider \<Rightarrow> lookupVerifier provider header
      | None \<Rightarrow>
          (case keys of
             None \<Rightarrow> Inl [ErrKeyNotFound]
           | Some Lookup \<Rightarrow>
               (case Lookup (h_KeyID header) of
                  Inl e \<Rightarrow> Inl (wrap ErrKeyProvider e)
                | Inr None \<Rightarrow> Inl [ErrKeyNotFound]
                | Inr (Some key) \<Rightarrow>
                    (case requireUnambiguousKeyAlgorithm c key allowed of
                       Some e \<Rightarrow> Inl e
                     | None \<Rightarrow> verifierForAlg c key (h_Algorithm header)))))"

section \<open>Parsing\<close>

text \<open>
  \<^verbatim>\<open>parseVerified\<close>: the payload, and the header that \<^verbatim>\<open>headerOut\<close> receives.  The checks before
  a provider is consulted come first.
\<close>

definition parse_header :: "string \<Rightarrow> alg list \<Rightarrow> (header \<times> bytes \<times> bytes \<times> bytes) result" where
  "parse_header token allowed =
     (if len token > maxTokenBytes then Inl [ErrMalformedToken]
      else case split3 token of
        None \<Rightarrow> Inl [ErrMalformedToken]
      | Some (h, p, s) \<Rightarrow>
          (case Decode h of
             Inl _ \<Rightarrow> Inl [ErrMalformedToken]
           | Inr headerJSON \<Rightarrow>
               (case decodeObject dec_header headerJSON of
                  Inl e \<Rightarrow> Inl (wrap ErrMalformedToken e)
                | Inr header \<Rightarrow>
                    (case headerMembers headerJSON of
                       Inl e \<Rightarrow> Inl e
                     | Inr ms \<Rightarrow>
                         (case checkCritical ms of
                            Some e \<Rightarrow> Inl e
                          | None \<Rightarrow>
                              if is_none (h_Algorithm header) then Inl [ErrAlgorithmNotAllowed]
                              else if \<not> containsAlg allowed (h_Algorithm header) then Inl [ErrAlgorithmNotAllowed]
                              else (case Decode p of
                                      Inl _ \<Rightarrow> Inl [ErrMalformedToken]
                                    | Inr payloadJSON \<Rightarrow>
                                        (case Decode s of
                                           Inl _ \<Rightarrow> Inl [ErrMalformedToken]
                                         | Inr sig \<Rightarrow> Inr (header, h @ ''.'' @ p, payloadJSON, sig))))))))"

definition parseVerified :: "crypto \<Rightarrow> (string \<Rightarrow> string) \<Rightarrow> string \<Rightarrow> key_lookup option \<Rightarrow> parse_config \<Rightarrow> (header \<times> bytes) result" where
  "parseVerified c uni_lower token keys cfg =
     (let allowed = withoutNone (pc_allowedAlgs cfg)
      in if len allowed = 0 then Inl [ErrNoAllowedAlgorithms]
         else case parse_header token allowed of
           Inl e \<Rightarrow> Inl e
         | Inr (header, input, payloadJSON, sig) \<Rightarrow>
             (case resolve_verifier c keys cfg allowed header of
                Inl e \<Rightarrow> Inl e
              | Inr v \<Rightarrow>
                  (case verifier_Verify c v input sig of
                     Some e \<Rightarrow> Inl (wrap ErrInvalidSignature e)
                   | None \<Rightarrow>
                       if pc_rawPayload cfg then Inr (header, payloadJSON)
                       else (case decodeObject dec_claims payloadJSON of
                               Inl e \<Rightarrow> Inl (wrap ErrMalformedToken e)
                             | Inr reg \<Rightarrow>
                                 (case validateClaims uni_lower payloadJSON reg header cfg of
                                    Some e \<Rightarrow> Inl e
                                  | None \<Rightarrow> Inr (header, payloadJSON))))))"

text \<open>\<^verbatim>\<open>Parse\<close> and \<^verbatim>\<open>ParseInsecure\<close>: the error, and the destination afterwards.\<close>

definition Parse :: "crypto \<Rightarrow> (string \<Rightarrow> string) \<Rightarrow> (json \<Rightarrow> 'c result) \<Rightarrow> time \<Rightarrow> string \<Rightarrow> 'c option \<Rightarrow>
    key_lookup option \<Rightarrow> parse_option option list \<Rightarrow> go_error option \<times> 'c option" where
  "Parse c uni_lower dec wall token dst keys opts =
     (if dst = None then (Some [ErrInvalidDestination], None)
      else let cfg = apply_options applyParse opts (default_config wall)
           in case parseVerified c uni_lower token keys cfg of
                Inl e \<Rightarrow> (Some e, dst)
              | Inr (_, payloadJSON) \<Rightarrow>
                  (case decodeFreshObject dec payloadJSON dst of
                     (Some e, d) \<Rightarrow> (Some (wrap ErrMalformedToken e), d)
                   | (None, d) \<Rightarrow> (None, d)))"

definition ParseInsecure :: "(json \<Rightarrow> 'c result) \<Rightarrow> string \<Rightarrow> 'c option \<Rightarrow> go_error option \<times> 'c option" where
  "ParseInsecure dec token dst =
     (if dst = None then (Some [ErrInvalidDestination], None)
      else if len token > maxTokenBytes then (Some [ErrMalformedToken], dst)
      else case split3 token of
        None \<Rightarrow> (Some [ErrMalformedToken], dst)
      | Some (_, payload, _) \<Rightarrow>
          (case Decode payload of
             Inl _ \<Rightarrow> (Some [ErrMalformedToken], dst)
           | Inr payloadJSON \<Rightarrow>
               (case decodeFreshObject dec payloadJSON dst of
                  (Some e, d) \<Rightarrow> (Some (wrap ErrMalformedToken e), d)
                | (None, d) \<Rightarrow> (None, d))))"

section \<open>Lemmas\<close>

subsection \<open>Segments\<close>

lemma split3_join:
  assumes "CHR ''.'' \<notin> set a" "CHR ''.'' \<notin> set b" "CHR ''.'' \<notin> set c"
  shows "split3 (a @ ''.'' @ b @ ''.'' @ c) = Some (a, b, c)"
proof -
  have i: "index_byte (a @ ''.'' @ b @ ''.'' @ c) CHR ''.'' = len a"
    using index_byte_append [OF assms(1)] by simp
  have j: "index_byte (b @ ''.'' @ c) CHR ''.'' = len b"
    using index_byte_append [OF assms(2)] by simp
  have k: "index_byte c CHR ''.'' < 0" using assms(3) by (simp add: index_byte_neg)
  have d: "drop (nat (len a + 1)) (a @ ''.'' @ b @ ''.'' @ c) = b @ ''.'' @ c"
    "drop (nat (len b + (len a + 1) + 1)) (a @ ''.'' @ b @ ''.'' @ c) = c"
    by (simp_all add: len_def nat_add_distrib)
  show ?thesis
    using i j k d by (simp add: split3_def Let_def len_def)
qed

lemma index_byte_obtain:
  assumes "\<not> index_byte s c < 0"
  obtains a b where "s = a @ c # b" "c \<notin> set a"
  using assms index_byte_neg [of s c] split_list_first [of c s] by auto

lemma split3_Some:
  "split3 s = Some (a, b, c) \<longleftrightarrow>
     s = a @ ''.'' @ b @ ''.'' @ c \<and> CHR ''.'' \<notin> set a \<and> CHR ''.'' \<notin> set b \<and> CHR ''.'' \<notin> set c"
proof
  assume sp: "split3 s = Some (a, b, c)"
  then have "\<not> index_byte s CHR ''.'' < 0" by (auto simp: split3_def Let_def split: if_splits)
  then obtain a' r where a: "s = a' @ CHR ''.'' # r" "CHR ''.'' \<notin> set a'" by (rule index_byte_obtain)
  have d: "index_byte s CHR ''.'' = len a'" "drop (nat (len a' + 1)) s = r"
    using index_byte_append [OF a(2)] by (simp_all add: a(1) len_def nat_add_distrib)
  with sp have "\<not> index_byte r CHR ''.'' < 0" by (auto simp: split3_def Let_def split: if_splits)
  then obtain b' c' where b: "r = b' @ CHR ''.'' # c'" "CHR ''.'' \<notin> set b'" by (rule index_byte_obtain)
  have "index_byte r CHR ''.'' = len b'" using index_byte_append [OF b(2)] b(1) by simp
  moreover have "drop (nat (len b' + (len a' + 1) + 1)) s = c'"
    by (simp add: a b len_def nat_add_distrib)
  ultimately have "\<not> index_byte c' CHR ''.'' \<ge> 0" using sp d by (auto simp: split3_def Let_def split: if_splits)
  then have "CHR ''.'' \<notin> set c'" by (simp add: index_byte_neg not_le)
  with a b split3_join [of a' b' c'] sp
  show "s = a @ ''.'' @ b @ ''.'' @ c \<and> CHR ''.'' \<notin> set a \<and> CHR ''.'' \<notin> set b \<and> CHR ''.'' \<notin> set c"
    by simp
next
  assume "s = a @ ''.'' @ b @ ''.'' @ c \<and> CHR ''.'' \<notin> set a \<and> CHR ''.'' \<notin> set b \<and> CHR ''.'' \<notin> set c"
  then show "split3 s = Some (a, b, c)" using split3_join by blast
qed

subsection \<open>What parse_header accepts\<close>

definition token_of :: "bytes \<Rightarrow> bytes \<Rightarrow> bytes \<Rightarrow> string" where
  "token_of headerJSON payloadJSON sig = Encode headerJSON @ ''.'' @ Encode payloadJSON @ ''.'' @ Encode sig"

definition signing_input :: "bytes \<Rightarrow> bytes \<Rightarrow> string" where
  "signing_input headerJSON payloadJSON = Encode headerJSON @ ''.'' @ Encode payloadJSON"

text \<open>A JOSE header object without \<^verbatim>\<open>crit\<close> whose algorithm is in the list.\<close>

definition header_accepted :: "alg list \<Rightarrow> bytes \<Rightarrow> header \<Rightarrow> bool" where
  "header_accepted allowed headerJSON h \<longleftrightarrow>
     (\<exists>ms. decodeObject dec_members headerJSON = Inr ms \<and> ''crit'' \<notin> fst ` set ms)
     \<and> decodeObject dec_header headerJSON = Inr h \<and> \<not> is_none (h_Algorithm h) \<and> h_Algorithm h \<in> set allowed"

lemma split3_token: "split3 (token_of hj p s) = Some (Encode hj, Encode p, Encode s)"
  by (simp add: token_of_def split3_Some)

lemma parse_header_Inr:
  "parse_header token allowed = Inr (h, input, p, sig) \<longleftrightarrow>
     (\<exists>hj. token = token_of hj p sig \<and> input = signing_input hj p \<and> len token \<le> maxTokenBytes
        \<and> header_accepted allowed hj h)"
proof
  assume ph: "parse_header token allowed = Inr (h, input, p, sig)"
  then obtain a b d hj where t: "split3 token = Some (a, b, d)" "Decode a = Inr hj" "Decode b = Inr p" "Decode d = Inr sig"
      "len token \<le> maxTokenBytes" "input = a @ ''.'' @ b"
      "header_accepted allowed hj h"
    by (auto simp: parse_header_def header_accepted_def headerMembers_def checkCritical_eq containsAlg_def not_less
        split: if_splits option.splits sum.splits prod.splits)
  then show "\<exists>hj. token = token_of hj p sig \<and> input = signing_input hj p \<and> len token \<le> maxTokenBytes
      \<and> header_accepted allowed hj h"
    by (auto simp: split3_Some token_of_def signing_input_def Decode_iff)
next
  assume "\<exists>hj. token = token_of hj p sig \<and> input = signing_input hj p \<and> len token \<le> maxTokenBytes
      \<and> header_accepted allowed hj h"
  then show "parse_header token allowed = Inr (h, input, p, sig)"
    by (auto simp: parse_header_def split3_token signing_input_def header_accepted_def headerMembers_def
        checkCritical_eq containsAlg_def)
qed

lemma withoutNone_set: "a \<in> set (withoutNone algs) \<longleftrightarrow> a \<in> set algs \<and> \<not> is_none a"
  by (auto simp: withoutNone_def)

subsection \<open>The claim rules\<close>

definition claim_present :: "members \<Rightarrow> string \<Rightarrow> bool" where
  "claim_present ms name \<longleftrightarrow> (\<exists>raw v. map_of ms name = Some (raw, v) \<and> trim_space raw \<noteq> ''null'')"

definition time_valid :: "registered_claims \<Rightarrow> parse_config \<Rightarrow> bool" where
  "time_valid rc cfg \<longleftrightarrow>
     (\<forall>e. ExpiresAt rc = Some e \<longrightarrow> time_add (pc_now cfg) (- pc_leeway cfg) < e)
     \<and> (\<forall>n. NotBefore rc = Some n \<longrightarrow> n \<le> time_add (pc_now cfg) (pc_leeway cfg))"

definition audience_valid :: "registered_claims \<Rightarrow> parse_config \<Rightarrow> bool" where
  "audience_valid rc cfg \<longleftrightarrow>
     (if pc_audience cfg \<noteq> [] then Has (Audience rc) (pc_audience cfg)
      else Audience rc = None \<or> pc_skipAudience cfg)"

definition claims_valid :: "(string \<Rightarrow> string) \<Rightarrow> bytes \<Rightarrow> registered_claims \<Rightarrow> header \<Rightarrow> parse_config \<Rightarrow> bool" where
  "claims_valid uni_lower raw rc h cfg \<longleftrightarrow>
     time_valid rc cfg \<and> (pc_issuer cfg = [] \<or> Issuer rc = pc_issuer cfg) \<and> audience_valid rc cfg
     \<and> (pc_requiredType cfg = [] \<or> typeMatches uni_lower (h_Type h) (pc_requiredType cfg))
     \<and> (pc_requiredClaims cfg = [] \<or>
         (\<exists>ms. decodeObject dec_members raw = Inr ms \<and> list_all (claim_present ms) (pc_requiredClaims cfg)))"

lemma missing_claim_None: "missing_claim ms names = None \<longleftrightarrow> list_all (claim_present ms) names"
  by (induction ms names rule: missing_claim.induct) (auto simp: claim_present_def split: option.splits)

lemma validateClaims_None:
  "validateClaims uni_lower raw rc h cfg = None \<longleftrightarrow> claims_valid uni_lower raw rc h cfg"
  unfolding validateClaims_def claims_valid_def time_valid_def audience_valid_def Let_def
  by (cases "ExpiresAt rc"; cases "NotBefore rc")
    (auto simp: missing_claim_None split: sum.splits)

subsection \<open>Ambiguity\<close>

definition usable :: "crypto \<Rightarrow> key \<Rightarrow> alg \<Rightarrow> bool" where
  "usable c k a \<longleftrightarrow> (\<exists>v. verifierForAlg c k a = Inr v)"

definition compatible_ids :: "crypto \<Rightarrow> key \<Rightarrow> alg list \<Rightarrow> alg set" where
  "compatible_ids c k algs = alg_identity ` {a \<in> set algs. usable c k a}"

lemma usable_EdDSA: "Alg k = [] \<Longrightarrow> usable c k EdDSA \<longleftrightarrow> usable c k Ed25519"
  by (simp add: usable_def verifierForAlg_Inr permitsVerify_None key_gives.simps FamilyOf_def)

lemma usable_identity:
  assumes "Alg k = []" "alg_identity a = alg_identity b"
  shows "usable c k a \<longleftrightarrow> usable c k b"
proof -
  have "a = b \<or> a \<in> {EdDSA, Ed25519} \<and> b \<in> {EdDSA, Ed25519}"
    using assms(2) by (auto simp: alg_identity_def split: if_splits)
  then show ?thesis using usable_EdDSA [OF assms(1)] by auto
qed

lemma compatible_ids_Cons:
  "compatible_ids c k (a # algs) =
     (if usable c k a then insert (alg_identity a) (compatible_ids c k algs) else compatible_ids c k algs)"
  by (auto simp: compatible_ids_def)

lemma finite_compatible_ids [simp]: "finite (compatible_ids c k algs)"
  by (simp add: compatible_ids_def)

lemma unambiguous_loop_None:
  assumes "Alg k = []" "length compatible \<le> 1"
  shows "unambiguous_loop c k seen compatible algs = None \<longleftrightarrow>
     length compatible + card (compatible_ids c k algs - set seen) \<le> 1"
  using assms
proof (induction c k seen compatible algs rule: unambiguous_loop.induct)
  case (1 c k seen compatible)
  then show ?case by (simp add: compatible_ids_def)
next
  case (2 c k seen compatible a algs)
  let ?i = "alg_identity a" and ?C = "compatible_ids c k algs"
  show ?case
  proof (cases "?i \<in> set seen")
    case True
    then have "compatible_ids c k (a # algs) - set seen = ?C - set seen"
      by (auto simp: compatible_ids_Cons)
    with True 2 show ?thesis by simp
  next
    case False
    show ?thesis
    proof (cases "verifierForAlg c k a")
      case (Inl e)
      then have nu: "\<not> usable c k a" by (simp add: usable_def)
      have "?i \<notin> ?C"
      proof
        assume "?i \<in> ?C"
        then obtain b where "alg_identity a = alg_identity b" "usable c k b" unfolding compatible_ids_def by blast
        with usable_identity [OF "2.prems"(1)] nu show False by blast
      qed
      then have "compatible_ids c k (a # algs) - set seen = ?C - set (?i # seen)"
        using nu by (auto simp: compatible_ids_Cons)
      with False Inl 2 show ?thesis by simp
    next
      case (Inr v)
      then have u: "usable c k a" by (simp add: usable_def)
      have "compatible_ids c k (a # algs) - set seen = insert ?i (?C - set (?i # seen))"
        using u False by (auto simp: compatible_ids_Cons)
      then have card: "card (compatible_ids c k (a # algs) - set seen) = Suc (card (?C - set (?i # seen)))"
        by simp
      show ?thesis
      proof (cases "compatible = []")
        case True
        with False Inr 2 card show ?thesis by simp
      next
        case nonempty: False
        with "2.prems" False Inr card show ?thesis by (cases compatible) (simp_all add: len_def)
      qed
    qed
  qed
qed

lemma requireUnambiguous_None:
  "requireUnambiguousKeyAlgorithm c k allowed = None \<longleftrightarrow> Alg k \<noteq> [] \<or> card (compatible_ids c k allowed) \<le> 1"
  by (auto simp: requireUnambiguousKeyAlgorithm_def unambiguous_loop_None)

subsection \<open>Acceptance\<close>

definition verifier_for :: "crypto \<Rightarrow> key_lookup option \<Rightarrow> parse_config \<Rightarrow> header \<Rightarrow> verifier \<Rightarrow> bool" where
  "verifier_for c keys cfg h v \<longleftrightarrow>
     (case pc_verifierProvider cfg of
        Some provider \<Rightarrow> provider (h_Algorithm h) (h_KeyID h) = Inr (Some v)
          \<and> sameAlgorithm (verifier_Algorithm v) (h_Algorithm h)
          \<and> (h_KeyID h = [] \<or> verifier_KeyID v = h_KeyID h)
      | None \<Rightarrow> (\<exists>lookup k. keys = Some lookup \<and> lookup (h_KeyID h) = Inr (Some k)
          \<and> (Alg k \<noteq> [] \<or> card (compatible_ids c k (withoutNone (pc_allowedAlgs cfg))) \<le> 1)
          \<and> permitsVerify k (h_Algorithm h) = None \<and> key_gives c k (h_Algorithm h) v))"

lemma lookupVerifier_Inr:
  "lookupVerifier p h = Inr v \<longleftrightarrow> p (h_Algorithm h) (h_KeyID h) = Inr (Some v)
     \<and> sameAlgorithm (verifier_Algorithm v) (h_Algorithm h) \<and> (h_KeyID h = [] \<or> verifier_KeyID v = h_KeyID h)"
  by (auto simp: lookupVerifier_def split: sum.splits option.splits)

lemma resolve_verifier_Inr:
  "resolve_verifier c keys cfg (withoutNone (pc_allowedAlgs cfg)) h = Inr v \<longleftrightarrow> verifier_for c keys cfg h v"
proof (cases "pc_verifierProvider cfg")
  case (Some p)
  then show ?thesis by (simp add: resolve_verifier_def verifier_for_def lookupVerifier_Inr)
next
  case None
  then show ?thesis
    unfolding resolve_verifier_def verifier_for_def requireUnambiguous_None [symmetric]
    by (auto simp: verifierForAlg_Inr split: option.splits sum.splits)
qed

lemma parseVerified_Inr:
  "parseVerified c u token keys cfg = Inr (h, p) \<longleftrightarrow>
     (\<exists>hj sig v. token = token_of hj p sig \<and> len token \<le> maxTokenBytes
        \<and> header_accepted (withoutNone (pc_allowedAlgs cfg)) hj h
        \<and> verifier_for c keys cfg h v \<and> verifier_Verify c v (signing_input hj p) sig = None
        \<and> (pc_rawPayload cfg \<or> (\<exists>rc. decodeObject dec_claims p = Inr rc \<and> claims_valid u p rc h cfg)))"
  (is "?lhs \<longleftrightarrow> ?rhs")
proof
  assume ?lhs
  then obtain input sig v where
    "parse_header token (withoutNone (pc_allowedAlgs cfg)) = Inr (h, input, p, sig)"
    "resolve_verifier c keys cfg (withoutNone (pc_allowedAlgs cfg)) h = Inr v"
    "verifier_Verify c v input sig = None"
    "pc_rawPayload cfg \<or> (\<exists>rc. decodeObject dec_claims p = Inr rc \<and> validateClaims u p rc h cfg = None)"
    by (auto simp: parseVerified_def Let_def split: if_splits sum.splits option.splits prod.splits)
  then show ?rhs
    by (auto simp: parse_header_Inr resolve_verifier_Inr validateClaims_None)
next
  assume ?rhs
  then obtain hj sig v where r:
    "parse_header token (withoutNone (pc_allowedAlgs cfg)) = Inr (h, signing_input hj p, p, sig)"
    "verifier_for c keys cfg h v" "verifier_Verify c v (signing_input hj p) sig = None"
    "pc_rawPayload cfg \<or> (\<exists>rc. decodeObject dec_claims p = Inr rc \<and> validateClaims u p rc h cfg = None)"
    "header_accepted (withoutNone (pc_allowedAlgs cfg)) hj h"
    by (auto simp: parse_header_Inr validateClaims_None)
  then have "withoutNone (pc_allowedAlgs cfg) \<noteq> []" by (auto simp: header_accepted_def)
  with r show ?lhs
    by (auto simp: parseVerified_def Let_def resolve_verifier_Inr [symmetric])
qed

subsection \<open>Signing, then parsing\<close>

lemma Sign_Inr:
  "Sign c (Inr p) (Some s) opts = Inr token \<longleftrightarrow>
     (\<exists>sig ms. \<not> is_none (signer_Algorithm s) \<and> decodeObject dec_members p = Inr ms
        \<and> signer_Sign c s (signing_input (marshal_header (sign_header s opts)) p) = Inr sig
        \<and> token = token_of (marshal_header (sign_header s opts)) p sig)"
  by (auto simp: Sign_def Let_def signing_input_def token_of_def split: sum.splits)

lemma sign_header_fields [simp]:
  "h_Algorithm (sign_header s opts) = signer_Algorithm s" "h_KeyID (sign_header s opts) = signer_KeyID s"
  "h_JWK (sign_header s opts) = None" "h_Critical (sign_header s opts) = []"
  by (simp_all add: sign_header_def Let_def zero_header_def)

lemma header_values_no_crit:
  "h_Critical h = [] \<Longrightarrow> ''crit'' \<notin> fst ` set (struct_members (header_values h))"
  by (simp add: header_values_def)

lemma emitted_header_accepted:
  assumes "header_valid_utf8 h" "h_JWK h = None" "h_Critical h = []" "\<not> is_none (h_Algorithm h)" "h_Algorithm h \<in> set algs"
  shows "header_accepted (withoutNone algs) (marshal_header h) h"
  using assms header_values_no_crit [of h] by (simp add: header_accepted_def decode_marshal_header withoutNone_set)

lemma sign_parse:
  assumes "Sign c (Inr p) (Some s) opts = Inr token" "len token \<le> maxTokenBytes"
    "header_valid_utf8 (sign_header s opts)" "signer_Algorithm s \<in> set (pc_allowedAlgs cfg)"
    "verifier_for c keys cfg (sign_header s opts) v"
    "\<And>input sig. signer_Sign c s input = Inr sig \<Longrightarrow> verifier_Verify c v input sig = None"
    "decodeObject dec_claims p = Inr rc" "claims_valid u p rc (sign_header s opts) cfg"
  shows "parseVerified c u token keys cfg = Inr (sign_header s opts, p)"
proof -
  obtain sig where sig: "\<not> is_none (signer_Algorithm s)"
      "signer_Sign c s (signing_input (marshal_header (sign_header s opts)) p) = Inr sig"
      "token = token_of (marshal_header (sign_header s opts)) p sig"
    using assms(1) by (auto simp: Sign_Inr)
  moreover have "header_accepted (withoutNone (pc_allowedAlgs cfg)) (marshal_header (sign_header s opts)) (sign_header s opts)"
    by (rule emitted_header_accepted) (use assms(3,4) sig(1) in simp_all)
  ultimately show ?thesis
    using assms(2,5-8) unfolding parseVerified_Inr by blast
qed

text \<open>With a provider of one key that has no \<^verbatim>\<open>alg\<close> and an allowlist of one algorithm.\<close>

lemma compatible_ids_single: "card (compatible_ids c k (withoutNone [a])) \<le> 1"
proof -
  have "compatible_ids c k (withoutNone [a]) \<subseteq> {alg_identity a}"
    by (auto simp: compatible_ids_def withoutNone_def split: if_splits)
  then have "card (compatible_ids c k (withoutNone [a])) \<le> card {alg_identity a}"
    by (intro card_mono) auto
  then show ?thesis by simp
qed

lemma verifier_for_static:
  assumes "pc_verifierProvider cfg = None" "pc_allowedAlgs cfg = [a]" "h_Algorithm h = a"
    "h_KeyID h = Kid k" "permitsVerify k a = None" "key_gives c k a v"
  shows "verifier_for c (Some (static_Lookup (StaticKeyProvider k))) cfg h v"
  using assms compatible_ids_single by (simp add: verifier_for_def static_Lookup_def StaticKeyProvider_def)

text \<open>An HMAC signer and a provider of its secret.\<close>

lemma hmac_static_verifies:
  assumes "NewHMACSigner a secret [kid] = Inr s" "secret \<noteq> []" "pc_allowedAlgs cfg = [a]" "pc_verifierProvider cfg = None"
    "h_Algorithm h = a" "h_KeyID h = kid"
  obtains v where "verifier_for c (Some (static_Lookup (StaticKeyProvider (FromHMACSecret secret [kid])))) cfg h v"
    "\<And>input sig. signer_Sign c s input = Inr sig \<Longrightarrow> verifier_Verify c v input sig = None" "signer_Algorithm s = a"
proof -
  obtain hf where s: "s = HmacSigner a secret kid hf" "FamilyOf a = FamilyHMAC" "Hash a = Some hf" "hash_size hf \<le> len secret"
    using assms(1) by (auto simp: NewHMACSigner_Inr)
  let ?k = "FromHMACSecret secret [kid]"
  have k: "Kty ?k = KeyTypeOct" "k_k ?k = secret" "Kid ?k = kid" "permitsVerify ?k a = None"
    by (simp_all add: FromHMACSecret_def FirstString_def zero_key_def permitsVerify_None)
  have "key_gives c ?k a (HmacVerifier a (k_k ?k) (Kid ?k) hf)"
    by (rule gives_hmac) (use k s assms(2) in simp_all)
  then have v: "key_gives c ?k a (HmacVerifier a secret kid hf)" by (simp only: k)
  show ?thesis
    by (rule that [OF verifier_for_static [OF assms(4,3,5) _ k(4) v]]) (use assms(6) s k in \<open>auto simp: sign_verify_defs\<close>)
qed

subsection \<open>Durations\<close>

definition min_duration :: duration where
  "min_duration = 0x8000000000000000"

lemma sint_min_duration: "sint d = - (2 ^ 63) \<longleftrightarrow> d = min_duration"
proof -
  have m: "sint min_duration = - (2 ^ 63)" by (simp add: min_duration_def)
  have "sint d = sint min_duration \<Longrightarrow> d = min_duration" by (rule signed_word_eqI)
  with m show ?thesis by auto
qed

text \<open>Negation is exact except at the least duration.\<close>

lemma sint_minus_duration:
  assumes "d \<noteq> min_duration"
  shows "sint (- d) = - sint d"
proof -
  have "sint d \<noteq> - (2 ^ 63)" using assms by (simp only: sint_min_duration simp_thms)
  moreover have "- (2 ^ 63) \<le> sint d" "sint d < 2 ^ 63"
    using sint_greater_eq [of d] sint_less [of d] by simp_all
  ultimately have r: "- (2 ^ 63) \<le> - sint d" "- sint d < 2 ^ 63" by linarith+
  have "sint (- d) = signed_take_bit 63 (- sint d)" by (simp add: sint_word_ariths)
  also have "\<dots> = - sint d" by (rule signed_take_bit_int_eq_self) (use r in simp_all)
  finally show ?thesis .
qed

lemma time_valid_iff:
  "pc_leeway cfg \<noteq> min_duration \<Longrightarrow>
   time_valid rc cfg \<longleftrightarrow>
     (\<forall>e. ExpiresAt rc = Some e \<longrightarrow> pc_now cfg < e + sint (pc_leeway cfg))
     \<and> (\<forall>n. NotBefore rc = Some n \<longrightarrow> n \<le> pc_now cfg + sint (pc_leeway cfg))"
  by (auto simp: time_valid_def time_add_def sint_minus_duration)

subsection \<open>A sample setting\<close>

text \<open>A concrete secret, configuration and token on which the properties are evaluated.\<close>

definition sample_secret :: bytes where
  "sample_secret = ''0123456789abcdef0123456789abcdef''"

definition sample_config :: "alg \<Rightarrow> parse_config" where
  "sample_config a = (default_config 0)\<lparr>pc_allowedAlgs := [a]\<rparr>"

definition sample_hmac_token :: string where
  "sample_hmac_token = ''eyJhbGciOiJIUzI1NiIsInR5cCI6IkpXVCIsImtpZCI6ImsxIn0.e30.MDEy''"

lemma sample_hmac_token_signed:
  "Sign sample_crypto (Inr ''{}'') (Some (HmacSigner HS256 sample_secret ''k1'' SHA256)) [] = Inr sample_hmac_token"
  by code_simp

lemma sample_hmac_token_accepted:
  "parseVerified sample_crypto id sample_hmac_token
     (Some (static_Lookup (FromHMACSecret sample_secret [''k1'']))) (sample_config HS256)
   = Inr (sign_header (HmacSigner HS256 sample_secret ''k1'' SHA256) [], ''{}'')"
  by code_simp

subsection \<open>A signing pair\<close>

definition ed25519_pair :: "crypto \<Rightarrow> bytes \<Rightarrow> bytes \<Rightarrow> bool" where
  "ed25519_pair c priv pub \<longleftrightarrow>
     (\<forall>m. len (ed25519_sign c priv m) = 64 \<and> ed25519_verify c pub m (ed25519_sign c priv m))"

definition NewSigningPair :: "bytes \<Rightarrow> bytes \<Rightarrow> string \<Rightarrow> (signer \<times> key_lookup) result" where
  "NewSigningPair pub priv kid =
     (case NewEd25519Signer priv [kid] of
        Inl e \<Rightarrow> Inl e
      | Inr s \<Rightarrow> Inr (s, static_Lookup (StaticKeyProvider (FromEd25519PublicKey pub [kid]))))"

lemma ed25519_sign_parse:
  assumes "ed25519_pair c priv pub" "len pub = 32" "NewSigningPair pub priv kid = Inr (s, provider)"
    "Sign c (Inr p) (Some s) opts = Inr token" "len token \<le> maxTokenBytes"
    "header_valid_utf8 (sign_header s opts)"
    "pc_allowedAlgs cfg = [Ed25519]" "pc_verifierProvider cfg = None"
    "decodeObject dec_claims p = Inr rc" "claims_valid u p rc (sign_header s opts) cfg"
  shows "parseVerified c u token (Some provider) cfg = Inr (sign_header s opts, p)"
proof -
  let ?k = "FromEd25519PublicKey pub [kid]"
  have s: "s = Ed25519Signer priv kid" "provider = static_Lookup (StaticKeyProvider ?k)"
    using assms(3) by (auto simp: NewSigningPair_def NewEd25519Signer_def split: if_splits)
  have k: "Kty ?k = KeyTypeOKP" "Kid ?k = kid" "okp_PublicKey ?k = Inr pub" "permitsVerify ?k Ed25519 = None"
    using assms(2) by (simp_all add: FromEd25519PublicKey_def FirstString_def zero_key_def permitsVerify_None okp_PublicKey_def)
  have "key_gives c ?k Ed25519 (Ed25519Verifier Ed25519 pub (Kid ?k))"
    by (rule gives_ed25519) (use k in \<open>simp_all add: FamilyOf_def\<close>)
  then have v: "key_gives c ?k Ed25519 (Ed25519Verifier Ed25519 pub kid)" by (simp only: k)
  show ?thesis
    unfolding s(2)
    by (rule sign_parse [OF assms(4-6) _ verifier_for_static [OF assms(8,7) _ _ k(4) v] _ assms(9,10)])
      (use assms(1,7) s k in \<open>auto simp: ed25519_pair_def sign_verify_defs\<close>)
qed

definition sample_ed_token :: string where
  "sample_ed_token = token_of (marshal_header (sign_header (Ed25519Signer (replicate 64 CHR ''p'') ''k1'') []))
     ''{}'' (replicate 64 CHR ''s'')"

section \<open>Properties\<close>

text \<open>
  C1: a token is accepted exactly when it is the canonical encoding of a header, the returned
  payload and a signature, within the size limit, its header is a JSON object without
  \<^verbatim>\<open>crit\<close> whose algorithm is allowlisted and not \<^verbatim>\<open>none\<close>, the provider resolves a verifier for
  that header (a key whose own members permit the algorithm and that is of its family, or a
  custom verifier that reports the same algorithm and key id), that verifier accepts the
  signature over the two segments as received, and the payload is a claims set that
  satisfies every configured rule.
\<close>

theorem parse_accepts_iff:
  "parseVerified c u token keys cfg = Inr (h, p) \<longleftrightarrow>
     (\<exists>hj sig v. token = token_of hj p sig \<and> len token \<le> maxTokenBytes
        \<and> header_accepted (withoutNone (pc_allowedAlgs cfg)) hj h
        \<and> verifier_for c keys cfg h v \<and> verifier_Verify c v (signing_input hj p) sig = None
        \<and> (pc_rawPayload cfg \<or> (\<exists>rc. decodeObject dec_claims p = Inr rc \<and> claims_valid u p rc h cfg)))"
  by (rule parseVerified_Inr)

text \<open>
  whatever the providers answer, a token that is not the canonical encoding of an
  acceptable header, a payload and a signature gets one and the same error: no provider is
  consulted about it.
\<close>

theorem malformed_token_never_reaches_provider:
  assumes "\<nexists>hj p sig h. token = token_of hj p sig \<and> len token \<le> maxTokenBytes
      \<and> header_accepted (withoutNone (pc_allowedAlgs cfg)) hj h"
  shows "\<exists>e. \<forall>keys provider. parseVerified c u token keys (cfg\<lparr>pc_verifierProvider := provider\<rparr>) = Inl e"
proof (cases "parse_header token (withoutNone (pc_allowedAlgs cfg))")
  case (Inl e)
  then show ?thesis by (auto simp: parseVerified_def Let_def)
next
  case (Inr r)
  obtain h input p sig where "r = (h, input, p, sig)" by (cases r)
  with Inr assms show ?thesis by (auto simp: parse_header_Inr)
qed

theorem malformed_token_never_reaches_provider_witness:
  "\<exists>e. \<forall>keys provider. parseVerified sample_crypto id ''abc'' keys ((sample_config HS256)\<lparr>pc_verifierProvider := provider\<rparr>) = Inl e"
proof (rule malformed_token_never_reaches_provider)
  have "CHR ''.'' \<in> set (token_of hj p sig)" for hj p sig by (simp add: token_of_def)
  moreover have "CHR ''.'' \<notin> set ''abc''" by simp
  ultimately show "\<nexists>hj p sig h. ''abc'' = token_of hj p sig \<and> len ''abc'' \<le> maxTokenBytes
      \<and> header_accepted (withoutNone (pc_allowedAlgs (sample_config HS256))) hj h"
    by metis
qed

text \<open>
  C14: the key a token is verified with is of the key type of the token's algorithm (a public
  RSA or EC key is never used as an HMAC secret), and its own \<^verbatim>\<open>use\<close>, \<^verbatim>\<open>key_ops\<close> and \<^verbatim>\<open>alg\<close>
  members permit the verification.
\<close>

theorem verification_key_matches_algorithm:
  assumes "parseVerified c u token (Some lookup) cfg = Inr (h, p)" "pc_verifierProvider cfg = None"
  shows "\<exists>k. lookup (h_KeyID h) = Inr (Some k)
     \<and> (FamilyOf (h_Algorithm h), Kty k) \<in> {(FamilyHMAC, KeyTypeOct), (FamilyRSAPSS, KeyTypeRSA),
          (FamilyRSAPKCS1, KeyTypeRSA), (FamilyECDSA, KeyTypeEC), (FamilyEdDSA, KeyTypeOKP)}
     \<and> (Use k = [] \<or> Use k = ''sig'') \<and> (KeyOps k = [] \<or> ''verify'' \<in> set (KeyOps k))
     \<and> (Alg k = [] \<or> sameAlgorithm (Alg k) (h_Algorithm h))"
proof -
  obtain v k where "lookup (h_KeyID h) = Inr (Some k)" "permitsVerify k (h_Algorithm h) = None"
      "key_gives c k (h_Algorithm h) v"
    using assms by (auto simp: parseVerified_Inr verifier_for_def)
  then show ?thesis
    by (auto elim!: key_givesE simp: permitsVerify_None)
qed

theorem verification_key_matches_algorithm_witness:
  "\<exists>k. static_Lookup (FromHMACSecret sample_secret [''k1'']) ''k1'' = Inr (Some k)
     \<and> (FamilyOf HS256, Kty k) \<in> {(FamilyHMAC, KeyTypeOct), (FamilyRSAPSS, KeyTypeRSA),
          (FamilyRSAPKCS1, KeyTypeRSA), (FamilyECDSA, KeyTypeEC), (FamilyEdDSA, KeyTypeOKP)}
     \<and> (Use k = [] \<or> Use k = ''sig'') \<and> (KeyOps k = [] \<or> ''verify'' \<in> set (KeyOps k))
     \<and> (Alg k = [] \<or> sameAlgorithm (Alg k) HS256)"
  using verification_key_matches_algorithm [OF sample_hmac_token_accepted]
  by (simp add: sample_config_def default_config_def)

text \<open>
  C16: the claim rules, for every leeway but the least 64-bit duration (whose negation wraps):
  they accept exactly when the time is before \<^verbatim>\<open>exp\<close> plus the leeway and not before \<^verbatim>\<open>nbf\<close> minus
  the leeway, the issuer is the configured one, the configured audience is listed (or, with
  none configured, there is no \<^verbatim>\<open>aud\<close> at all unless the check is skipped), the type matches and
  every required claim is present and not null.
\<close>

theorem claim_rules_exact:
  assumes "pc_leeway cfg \<noteq> min_duration"
  shows "validateClaims u raw rc h cfg = None \<longleftrightarrow>
     (\<forall>e. ExpiresAt rc = Some e \<longrightarrow> pc_now cfg < e + sint (pc_leeway cfg))
     \<and> (\<forall>n. NotBefore rc = Some n \<longrightarrow> n \<le> pc_now cfg + sint (pc_leeway cfg))
     \<and> (pc_issuer cfg = [] \<or> Issuer rc = pc_issuer cfg)
     \<and> (if pc_audience cfg \<noteq> [] then Has (Audience rc) (pc_audience cfg) else Audience rc = None \<or> pc_skipAudience cfg)
     \<and> (pc_requiredType cfg = [] \<or> typeMatches u (h_Type h) (pc_requiredType cfg))
     \<and> (pc_requiredClaims cfg = [] \<or>
         (\<exists>ms. decodeObject dec_members raw = Inr ms \<and> list_all (claim_present ms) (pc_requiredClaims cfg)))"
  using time_valid_iff [OF assms, of rc]
  by (simp only: validateClaims_None claims_valid_def audience_valid_def) blast

theorem claim_rules_exact_witness:
  "validateClaims id ''{}'' (zero_claims\<lparr>ExpiresAt := Some 9\<rparr>) zero_header ((sample_config HS256)\<lparr>pc_leeway := 5, pc_now := 13\<rparr>) = None"
proof -
  have "pc_leeway ((sample_config HS256)\<lparr>pc_leeway := 5, pc_now := 13\<rparr>) \<noteq> min_duration"
    by (simp add: min_duration_def)
  from claim_rules_exact [OF this] show ?thesis
    by (simp add: sample_config_def default_config_def zero_claims_def)
qed

text \<open>
  C15: a token signed with an HMAC secret parses back: with the same secret as the only key,
  the algorithm as the only allowed one, and a payload that satisfies the configured claim
  rules, \<^verbatim>\<open>parseVerified\<close> returns the very payload and header.  Nothing is assumed of the hash
  function.
\<close>

theorem hmac_sign_parse_roundtrip:
  assumes "NewHMACSigner a secret [kid] = Inr s" "secret \<noteq> []"
    "Sign c (Inr p) (Some s) opts = Inr token" "len token \<le> maxTokenBytes"
    "header_valid_utf8 (sign_header s opts)"
    "pc_allowedAlgs cfg = [a]" "pc_verifierProvider cfg = None"
    "decodeObject dec_claims p = Inr rc" "claims_valid u p rc (sign_header s opts) cfg"
  shows "parseVerified c u token (Some (static_Lookup (StaticKeyProvider (FromHMACSecret secret [kid])))) cfg
     = Inr (sign_header s opts, p)"
proof -
  have "h_Algorithm (sign_header s opts) = a" "h_KeyID (sign_header s opts) = kid"
    using assms(1) by (auto simp: NewHMACSigner_Inr)
  from hmac_static_verifies [OF assms(1,2,6,7) this, of c] obtain v where
    "verifier_for c (Some (static_Lookup (StaticKeyProvider (FromHMACSecret secret [kid])))) cfg (sign_header s opts) v"
    "\<And>input sig. signer_Sign c s input = Inr sig \<Longrightarrow> verifier_Verify c v input sig = None" "signer_Algorithm s = a" by blast
  then show ?thesis using sign_parse [OF assms(3-5) _ _ _ assms(8,9)] assms(6) by simp
qed

theorem hmac_sign_parse_roundtrip_witness:
  "parseVerified sample_crypto id sample_hmac_token
     (Some (static_Lookup (StaticKeyProvider (FromHMACSecret sample_secret [''k1''])))) (sample_config HS256)
   = Inr (sign_header (HmacSigner HS256 sample_secret ''k1'' SHA256) [], ''{}'')"
proof (rule hmac_sign_parse_roundtrip [OF _ _ sample_hmac_token_signed])
  show "NewHMACSigner HS256 sample_secret [''k1''] = Inr (HmacSigner HS256 sample_secret ''k1'' SHA256)"
    by (simp add: NewHMACSigner_def Hash_def FamilyOf_def sample_secret_def)
  show "sample_secret \<noteq> []" by (simp add: sample_secret_def)
  show "len sample_hmac_token \<le> maxTokenBytes" by code_simp
  show "header_valid_utf8 (sign_header (HmacSigner HS256 sample_secret ''k1'' SHA256) [])" by code_simp
  show "decodeObject dec_claims ''{}'' = Inr zero_claims" by code_simp
qed (simp_all add: sample_config_def default_config_def claims_valid_def time_valid_def audience_valid_def zero_claims_def)

text \<open>
  the pair of \<^verbatim>\<open>jwttest.NewSigningPair\<close> works: when Ed25519 signatures are 64 bytes long and
  verify under the matching public key, a token of the signer parses with the provider of the
  pair and gives back its payload.
\<close>

theorem ed25519_sign_parse_roundtrip:
  assumes "ed25519_pair c priv pub" "len pub = 32" "NewSigningPair pub priv kid = Inr (s, provider)"
    "Sign c (Inr p) (Some s) opts = Inr token" "len token \<le> maxTokenBytes"
    "header_valid_utf8 (sign_header s opts)"
    "pc_allowedAlgs cfg = [Ed25519]" "pc_verifierProvider cfg = None"
    "decodeObject dec_claims p = Inr rc" "claims_valid u p rc (sign_header s opts) cfg"
  shows "parseVerified c u token (Some provider) cfg = Inr (sign_header s opts, p)"
  by (rule ed25519_sign_parse [OF assms])

theorem ed25519_sign_parse_roundtrip_witness:
  "parseVerified sample_crypto id sample_ed_token
     (Some (static_Lookup (StaticKeyProvider (FromEd25519PublicKey (replicate 32 CHR ''q'') [''k1''])))) (sample_config Ed25519)
   = Inr (sign_header (Ed25519Signer (replicate 64 CHR ''p'') ''k1'') [], ''{}'')"
proof (rule ed25519_sign_parse_roundtrip)
  show "ed25519_pair sample_crypto (replicate 64 CHR ''p'') (replicate 32 CHR ''q'')"
    by (simp add: ed25519_pair_def sample_crypto_def len_def)
  show "NewSigningPair (replicate 32 CHR ''q'') (replicate 64 CHR ''p'') ''k1'' =
     Inr (Ed25519Signer (replicate 64 CHR ''p'') ''k1'', static_Lookup (StaticKeyProvider (FromEd25519PublicKey (replicate 32 CHR ''q'') [''k1''])))"
    by (simp add: NewSigningPair_def NewEd25519Signer_def len_def)
  show "Sign sample_crypto (Inr ''{}'') (Some (Ed25519Signer (replicate 64 CHR ''p'') ''k1'')) [] = Inr sample_ed_token"
    by code_simp
  show "len sample_ed_token \<le> maxTokenBytes" by code_simp
  show "header_valid_utf8 (sign_header (Ed25519Signer (replicate 64 CHR ''p'') ''k1'') [])" by code_simp
  show "decodeObject dec_claims ''{}'' = Inr zero_claims" by code_simp
qed (simp_all add: sample_config_def default_config_def claims_valid_def time_valid_def audience_valid_def zero_claims_def len_def)

text \<open>
  \<^verbatim>\<open>Parse\<close> writes the destination only on success: any error leaves the caller's value, and
  a nil error means the destination holds what the payload of an accepted token decodes to.
\<close>

theorem parse_destination_atomic:
  assumes "Parse c u dec wall token (Some old) keys opts = (err, d)"
  shows "(case err of
       Some e \<Rightarrow> d = Some old
     | None \<Rightarrow> (\<exists>h p x. parseVerified c u token keys (apply_options applyParse opts (default_config wall)) = Inr (h, p)
          \<and> decodeObject dec p = Inr x \<and> d = Some x))"
  using assms by (auto simp: Parse_def decodeFreshObject_def Let_def split: sum.splits prod.splits)

theorem parse_destination_atomic_witness:
  "snd (Parse sample_crypto id dec_claims 0 ''abc'' (Some zero_claims) None []) = Some zero_claims"
proof -
  have p: "Parse sample_crypto id dec_claims 0 ''abc'' (Some zero_claims) None [] = (Some [ErrNoAllowedAlgorithms], Some zero_claims)"
    by code_simp
  show ?thesis using parse_destination_atomic [OF p] by (simp add: p)
qed

end
