(* ===== verification/HTTPAuth.thy ===== *)
theory HTTPAuth
  imports JWT
begin

text \<open>
  \<^verbatim>\<open>httpauth.go\<close>: bearer credentials, the verifying middleware and the RFC 6750 challenges.  A
  request is the list of its \<^verbatim>\<open>Authorization\<close> header values; a response is its status, its
  \<^verbatim>\<open>WWW-Authenticate\<close> header if set, and its body.  The middleware's outcome is either the
  payload handed to the next handler or a response, with the errors reported to
  \<^verbatim>\<open>OnError\<close>.

  Shown: which header values carry a token, that the next handler runs exactly for accepted
  tokens, how each error is answered, that server-side failures carry no challenge, and that
  no realm, scope or error can put a control byte into a header.
\<close>

section \<open>Bearer credentials\<close>

definition isB64TokenChar :: "char \<Rightarrow> bool" where
  "isB64TokenChar c \<longleftrightarrow> isLower c \<or> isUpper c \<or> isDigit c \<or> index_byte ''-._~+/'' c \<ge> 0"

definition isB64Token :: "string \<Rightarrow> bool" where
  "isB64Token s = (let body = trim_right s ''='' in body \<noteq> [] \<and> list_all isB64TokenChar body)"

definition BearerToken :: "string list \<Rightarrow> string option" where
  "BearerToken values =
     (if len values \<noteq> 1 then None
      else let h = values ! 0
           in if len h \<le> 6 \<or> \<not> equal_fold (take 6 h) ''bearer'' \<or> h ! 6 \<noteq> CHR '' '' then None
              else let token = trim_left (drop 6 h) '' '' in if \<not> isB64Token token then None else Some token)"

section \<open>Challenges\<close>

record response =
  rsp_status :: int
  rsp_challenge :: "string option"
  rsp_body :: string

definition StatusText :: "int \<Rightarrow> string" where
  "StatusText n =
     (if n = 400 then ''Bad Request'' else if n = 401 then ''Unauthorized'' else if n = 403 then ''Forbidden''
      else if n = 500 then ''Internal Server Error'' else if n = 503 then ''Service Unavailable'' else [])"

definition writeStatus :: "int \<Rightarrow> string option \<Rightarrow> response" where
  "writeStatus status challenge =
     \<lparr>rsp_status = status, rsp_challenge = challenge, rsp_body = StatusText status @ [chr 10]\<rparr>"

definition writeBearerChallenge :: "int \<Rightarrow> string list \<Rightarrow> response" where
  "writeBearerChallenge status params =
     writeStatus status (Some (if len params > 0 then ''Bearer'' @ '' '' @ join_with '', '' params else ''Bearer''))"

definition tokenErrors :: "sentinel list" where
  "tokenErrors =
     [ErrInvalidSignature, ErrExpired, ErrNotYetValid, ErrIssuerMismatch, ErrAudienceMismatch,
      ErrAlgorithmNotAllowed, ErrMissingClaim, ErrTypeMismatch, ErrKeyNotFound, ErrKeyUsage,
      ErrKeyTypeMismatch, ErrUnsupportedCritical, ErrUnsupportedAlgorithm, ErrDecryptionFailed, ErrInvalidClaim]"

definition classifyAuthError :: "go_error option \<Rightarrow> int \<times> string \<times> string" where
  "classifyAuthError err =
     (case err of
        None \<Rightarrow> (401, [], [])
      | Some e \<Rightarrow>
          if errors_is e ErrKeyFetch \<or> errors_is e ContextDeadlineExceeded \<or> errors_is e ContextCanceled then (503, [], [])
          else if errors_is e ErrMalformedToken then (400, ''invalid_request'', ''The access token is malformed'')
          else if errors_is e ErrExpired then (401, ''invalid_token'', ''The access token expired'')
          else if errors_is e ErrNotYetValid then (401, ''invalid_token'', ''The access token is not yet valid'')
          else if list_ex (errors_is e) tokenErrors then (401, ''invalid_token'', ''The access token is invalid'')
          else (500, [], []))"

text \<open>\<^verbatim>\<open>strings.Map\<close> drops the unsafe characters and turns invalid UTF-8 into U+FFFD.\<close>

function quoteSafe :: "string \<Rightarrow> string" where
  "quoteSafe s =
     (case s of
        [] \<Rightarrow> []
      | c # r \<Rightarrow>
          if ord c < 0x80 then
            (if c = CHR 0x22 \<or> c = CHR 0x5C \<or> ord c < 0x20 \<or> ord c = 0x7F then quoteSafe r else c # quoteSafe r)
          else if utf8_len s = 0 then [chr 0xEF, chr 0xBF, chr 0xBD] @ quoteSafe r
          else take (utf8_len s) s @ quoteSafe (drop (utf8_len s) s))"
  by pat_completeness auto
termination by (relation "measure length") (auto simp del: utf8_len.simps)

declare quoteSafe.simps [simp del]

definition realm_params :: "(string \<Rightarrow> bool) \<Rightarrow> string \<Rightarrow> string list" where
  "realm_params is_print realm = (if realm \<noteq> [] then [''realm='' @ quote is_print (quoteSafe realm)] else [])"

definition WriteChallenge :: "(string \<Rightarrow> bool) \<Rightarrow> string \<Rightarrow> go_error option \<Rightarrow> response" where
  "WriteChallenge is_print realm err =
     (case classifyAuthError err of (status, code, desc) \<Rightarrow>
        if status \<ge> 500 then writeStatus status None
        else writeBearerChallenge status
               (realm_params is_print realm
                @ (if code \<noteq> [] then [''error='' @ quote is_print code, ''error_description='' @ quote is_print desc] else [])))"

definition isScopeToken :: "string \<Rightarrow> bool" where
  "isScopeToken s \<longleftrightarrow> s \<noteq> [] \<and>
     list_all (\<lambda>c. \<not> (ord c < 0x21 \<or> ord c > 0x7E \<or> c = CHR 0x22 \<or> c = CHR 0x5C)) s"

definition WriteInsufficientScope :: "(string \<Rightarrow> bool) \<Rightarrow> string \<Rightarrow> string list \<Rightarrow> response" where
  "WriteInsufficientScope is_print realm scopes =
     (let valid = filter isScopeToken scopes
      in writeBearerChallenge 403
           (realm_params is_print realm @ [''error='' @ [CHR 0x22] @ ''insufficient_scope'' @ [CHR 0x22]]
            @ (if len valid > 0 then [''scope='' @ [CHR 0x22] @ join_with '' '' valid @ [CHR 0x22]] else [])))"

section \<open>Middleware\<close>

datatype outcome = Next bytes | Answer response

definition Middleware :: "crypto \<Rightarrow> (string \<Rightarrow> string) \<Rightarrow> (string \<Rightarrow> bool) \<Rightarrow> time \<Rightarrow> key_lookup option \<Rightarrow>
    parse_option option list \<Rightarrow> string list \<Rightarrow> go_error list \<times> outcome" where
  "Middleware c uni_lower is_print wall keys opts values =
     (let cfg = apply_options applyParse opts (default_config wall)
      in case BearerToken values of
           None \<Rightarrow> ([], Answer (WriteChallenge is_print (pc_Realm cfg) None))
         | Some token \<Rightarrow>
             (case parseVerified c uni_lower token keys cfg of
                Inl err \<Rightarrow> (if pc_OnError cfg then [err] else [], Answer (WriteChallenge is_print (pc_Realm cfg) (Some err)))
              | Inr (_, payload) \<Rightarrow> ([], Next payload)))"

text \<open>The context holds the payload the middleware stored, if it ran.\<close>

definition ClaimsFromContext :: "(json \<Rightarrow> 'c result) \<Rightarrow> bytes option \<Rightarrow> 'c option \<Rightarrow> go_error option \<times> 'c option" where
  "ClaimsFromContext dec ctx dst =
     (if dst = None then (Some [ErrInvalidDestination], None)
      else (case ctx of
              None \<Rightarrow> (Some [ErrNoClaimsInContext], dst)
            | Some payload \<Rightarrow>
                (case decodeFreshObject dec payload dst of
                   (Some e, d) \<Rightarrow> (Some (wrap ErrMalformedToken e), d)
                 | (None, d) \<Rightarrow> (None, d))))"

section \<open>Lemmas\<close>

definition safe_byte :: "char \<Rightarrow> bool" where
  "safe_byte c \<longleftrightarrow> 0x20 \<le> ord c \<and> ord c \<noteq> 0x7F"

lemma hex_digit_safe: "0 \<le> n \<Longrightarrow> n < 16 \<Longrightarrow> safe_byte (hex_digit n)"
  by (auto simp: hex_digit_def safe_byte_def)

lemma hex_byte_safe: "list_all safe_byte (hex_byte c)"
proof -
  have d: "n div 16 < 16" if "n < 256" for n :: int using that by presburger
  have "safe_byte (hex_digit (ord c div 16))" "safe_byte (hex_digit (ord c mod 16))"
    by (rule hex_digit_safe; simp add: d pos_imp_zdiv_nonneg_iff)+
  then show ?thesis by (simp add: hex_byte_def) (simp add: safe_byte_def)
qed

lemma quote_ascii_safe: "list_all safe_byte (quote_ascii c)"
  using hex_byte_safe [of c] by (simp add: quote_ascii_def) (simp add: safe_byte_def)

lemma hex_digits_safe: "list_all safe_byte (hex_digits k n)"
  by (auto simp: hex_digits_def list_all_iff intro!: hex_digit_safe)

lemma utf8_rune_safe:
  assumes "0 < utf8_len s" "\<not> ord (hd s) < 0x80"
  shows "list_all safe_byte (take (utf8_len s) s)"
  using refl assms(1)
proof (cases s "utf8_len s" rule: utf8_len_cases)
  case (one c r)
  then show ?thesis using assms by simp
qed (auto simp: safe_byte_def cont_byte_def byte_in_def simp del: utf8_len.simps split: if_splits)

lemma quote_body_safe: "list_all safe_byte (quote_body p s)"
proof (induction p s rule: quote_body.induct)
  case (1 p s)
  show ?case
  proof (cases s)
    case Nil
    then show ?thesis by (simp add: quote_body.simps)
  next
    case (Cons c r)
    have "list_all safe_byte (quote_rune p (take (utf8_len s) s))" if "0 < utf8_len s" "\<not> ord c < 0x80"
      using utf8_rune_safe [OF that(1)] that(2) Cons hex_digits_safe
      by (simp add: quote_rune_def) (simp add: safe_byte_def)
    then show ?thesis
      using 1 Cons quote_ascii_safe hex_byte_safe
      by (subst quote_body.simps) (simp del: utf8_len.simps)
  qed
qed

lemma quote_safe: "list_all safe_byte (quote p s)"
  using quote_body_safe [of p s] by (simp add: quote_def) (simp add: safe_byte_def)

lemma join_with_all: "list_all P sep \<Longrightarrow> list_all (list_all P) ss \<Longrightarrow> list_all P (join_with sep ss)"
  by (induction sep ss rule: join_with.induct) auto

lemma realm_params_safe: "list_all (list_all safe_byte) (realm_params p realm)"
  using quote_safe by (simp add: realm_params_def) (simp add: safe_byte_def)

lemma error_params_safe:
  "list_all safe_byte (''error='' @ quote p code)" "list_all safe_byte (''error_description='' @ quote p desc)"
  by (simp_all only: list_all_append quote_safe simp_thms) (simp_all add: safe_byte_def)

lemma scope_params_safe:
  "list_all safe_byte (''error='' @ [CHR 0x22] @ ''insufficient_scope'' @ [CHR 0x22])"
  "list_all safe_byte s \<Longrightarrow> list_all safe_byte (''scope='' @ [CHR 0x22] @ s @ [CHR 0x22])"
  by (simp_all only: list_all_append simp_thms) (simp_all add: safe_byte_def)

lemma scope_token_safe: "isScopeToken s \<Longrightarrow> c \<in> set s \<Longrightarrow> safe_byte c"
  unfolding isScopeToken_def safe_byte_def list_all_iff by fastforce

lemma writeBearerChallenge_safe:
  assumes "list_all (list_all safe_byte) params"
  shows "list_all safe_byte (the (rsp_challenge (writeBearerChallenge status params)))"
proof -
  have "list_all safe_byte (join_with '', '' params)"
    by (rule join_with_all [OF _ assms]) (simp add: safe_byte_def)
  then show ?thesis
    by (simp add: writeBearerChallenge_def writeStatus_def) (simp add: safe_byte_def)
qed

lemma classify_range:
  "classifyAuthError err = (status, code, desc) \<Longrightarrow>
   status \<in> {400, 401, 500, 503} \<and> (status \<ge> 500 \<longrightarrow> code = [] \<and> desc = [])"
  by (auto simp: classifyAuthError_def split: option.splits if_splits)

lemma trim_right_append: "\<exists>r. s = trim_right s cutset @ r"
proof -
  have "rev s = takeWhile (\<lambda>c. c \<in> set cutset) (rev s) @ dropWhile (\<lambda>c. c \<in> set cutset) (rev s)" by simp
  then have "s = rev (dropWhile (\<lambda>c. c \<in> set cutset) (rev s)) @ rev (takeWhile (\<lambda>c. c \<in> set cutset) (rev s))"
    by (metis rev_append rev_rev_ident)
  then show ?thesis unfolding trim_right_def by blast
qed

lemma b64_token_hd: "isB64Token s \<Longrightarrow> s \<noteq> [] \<and> hd s \<noteq> CHR '' ''"
proof -
  assume b: "isB64Token s"
  obtain r where r: "s = trim_right s ''='' @ r" using trim_right_append by blast
  have t: "trim_right s ''='' \<noteq> []" "list_all isB64TokenChar (trim_right s ''='')"
    using b by (auto simp: isB64Token_def Let_def)
  then have "isB64TokenChar (hd (trim_right s ''=''))" by (auto simp: list_all_iff)
  moreover have "hd s = hd (trim_right s ''='')" using r t(1) by (metis hd_append2)
  moreover have "\<not> isB64TokenChar CHR '' ''" by code_simp
  ultimately show ?thesis using r t(1) by auto
qed

lemma dropWhile_replicate: "t = [] \<or> hd t \<noteq> c \<Longrightarrow> dropWhile (\<lambda>x. x = c) (replicate n c @ t) = t"
  by (induction n) (auto simp: dropWhile_eq_self_iff)

lemma takeWhile_eq_replicate: "takeWhile (\<lambda>x. x = c) s = replicate (length (takeWhile (\<lambda>x. x = c) s)) c"
  by (induction s) auto

lemma BearerToken_Some:
  "BearerToken hdrs = Some token \<longleftrightarrow>
     (\<exists>scheme n. hdrs = [scheme @ replicate (Suc n) CHR '' '' @ token] \<and> length scheme = 6
        \<and> equal_fold scheme ''bearer'' \<and> isB64Token token)"
proof
  assume b: "BearerToken hdrs = Some token"
  then have "len hdrs = 1" by (simp add: BearerToken_def split: if_splits)
  then obtain h where h: "hdrs = [h]" by (auto simp: len_def length_Suc_conv)
  have c: "6 < length h" "equal_fold (take 6 h) ''bearer''" "h ! 6 = CHR '' ''"
      "token = dropWhile (\<lambda>c. c = CHR '' '') (drop 6 h)" "isB64Token token"
    using b by (auto simp: BearerToken_def h trim_left_def len_def Let_def split: if_splits)
  let ?w = "takeWhile (\<lambda>c. c = CHR '' '') (drop 6 h)"
  have "drop 6 h = CHR '' '' # drop (Suc 6) h" using Cons_nth_drop_Suc [OF c(1)] c(3) by simp
  then obtain n where n: "length ?w = Suc n" by simp
  have "h = take 6 h @ ?w @ token" by (simp add: c(4))
  also have "?w = replicate (Suc n) CHR '' ''" using takeWhile_eq_replicate [of "CHR '' ''" "drop 6 h"] n by simp
  finally have "hdrs = [take 6 h @ replicate (Suc n) CHR '' '' @ token]" using h by simp
  moreover have "length (take 6 h) = 6" using c(1) by simp
  ultimately show "\<exists>scheme n. hdrs = [scheme @ replicate (Suc n) CHR '' '' @ token] \<and> length scheme = 6
        \<and> equal_fold scheme ''bearer'' \<and> isB64Token token" using c(2,5) by blast
next
  assume "\<exists>scheme n. hdrs = [scheme @ replicate (Suc n) CHR '' '' @ token] \<and> length scheme = 6
        \<and> equal_fold scheme ''bearer'' \<and> isB64Token token"
  then obtain scheme n where v: "hdrs = [scheme @ replicate (Suc n) CHR '' '' @ token]" "length scheme = 6"
      "equal_fold scheme ''bearer''" "isB64Token token" by blast
  have "dropWhile (\<lambda>c. c = CHR '' '') (replicate (Suc n) CHR '' '' @ token) = token"
    using b64_token_hd [OF v(4)] by (intro dropWhile_replicate) auto
  with v show "BearerToken hdrs = Some token"
    by (simp add: BearerToken_def trim_left_def len_def nth_append Let_def)
qed

text \<open>A compact token is a bearer credential.\<close>

lemma b64_token_chars: "b64_char c \<Longrightarrow> isB64TokenChar c"
  by (auto simp: b64_char_def dec_char_def isB64TokenChar_def isUpper_def isLower_def isDigit_def split: if_splits)

lemma Encode_token_chars: "list_all isB64TokenChar (Encode b)"
  using b64_encode_chars [of b] b64_token_chars by (auto simp: Encode_def list_all_iff)

lemma trim_right_none: "c \<notin> set s \<Longrightarrow> trim_right s [c] = s"
proof -
  assume "c \<notin> set s"
  then have "c \<notin> set (rev s)" by simp
  then have "dropWhile (\<lambda>x. x \<in> set [c]) (rev s) = rev s" by (cases "rev s") auto
  then show "trim_right s [c] = s" by (simp add: trim_right_def)
qed

lemma isB64Token_token: "isB64Token (token_of hj p sig)"
proof -
  have dot: "isB64TokenChar CHR ''.''" "\<not> isB64TokenChar CHR ''=''" by code_simp+
  have all: "list_all isB64TokenChar (token_of hj p sig)" using Encode_token_chars dot by (simp add: token_of_def)
  then have "CHR ''='' \<notin> set (token_of hj p sig)" using dot(2) by (auto simp: list_all_iff)
  then have "trim_right (token_of hj p sig) ''='' = token_of hj p sig"
    by (rule trim_right_none)
  moreover have "token_of hj p sig \<noteq> []" by (simp add: token_of_def)
  ultimately show ?thesis using all by (simp add: isB64Token_def)
qed

lemma BearerToken_token: "BearerToken [''Bearer '' @ token_of hj p sig] = Some (token_of hj p sig)"
proof -
  have "equal_fold ''Bearer'' ''bearer''" by code_simp
  then show ?thesis unfolding BearerToken_Some using isB64Token_token
    by (intro exI [of _ "''Bearer''"] exI [of _ 0]) simp
qed

text \<open>
  How an error is answered, written out: the conditions and the header texts are literal, and
  share no definition with the code that classifies the error and prints the challenge.
\<close>

definition dquoted :: "string \<Rightarrow> string" where
  "dquoted s = [CHR 0x22] @ s @ [CHR 0x22]"

definition realm_text :: "(string \<Rightarrow> bool) \<Rightarrow> string \<Rightarrow> string" where
  "realm_text p realm =
     (if list_all (\<lambda>ch. ord ch < 0x80) realm
      then dquoted (filter (\<lambda>ch. 0x20 \<le> ord ch \<and> ord ch \<noteq> 0x7F \<and> ch \<noteq> CHR 0x22 \<and> ch \<noteq> CHR 0x5C) realm)
      else quote p (quoteSafe realm))"

definition unreachable_keys :: "go_error \<Rightarrow> bool" where
  "unreachable_keys e \<longleftrightarrow> (\<exists>s \<in> {ErrKeyFetch, ContextDeadlineExceeded, ContextCanceled}. errors_is e s)"

definition refused_token :: "go_error \<Rightarrow> bool" where
  "refused_token e \<longleftrightarrow> (\<exists>s \<in> {ErrExpired, ErrNotYetValid, ErrInvalidSignature, ErrIssuerMismatch, ErrAudienceMismatch,
      ErrAlgorithmNotAllowed, ErrMissingClaim, ErrInvalidClaim, ErrTypeMismatch, ErrKeyNotFound, ErrKeyUsage,
      ErrKeyTypeMismatch, ErrUnsupportedCritical, ErrUnsupportedAlgorithm, ErrDecryptionFailed}. errors_is e s)"

definition challenge_text :: "(string \<Rightarrow> bool) \<Rightarrow> string \<Rightarrow> string \<Rightarrow> string \<Rightarrow> string" where
  "challenge_text p realm code desc =
     ''Bearer '' @ (if realm = [] then [] else ''realm='' @ realm_text p realm @ '', '')
       @ ''error='' @ dquoted code @ '', error_description='' @ dquoted (''The access token '' @ desc)"

definition answers_no_token :: "(string \<Rightarrow> bool) \<Rightarrow> string \<Rightarrow> response \<Rightarrow> bool" where
  "answers_no_token p realm r \<longleftrightarrow> rsp_status r = 401 \<and> rsp_body r = ''Unauthorized'' @ [chr 10]
     \<and> rsp_challenge r = Some (if realm = [] then ''Bearer'' else ''Bearer realm='' @ realm_text p realm)"

definition answers_error :: "(string \<Rightarrow> bool) \<Rightarrow> string \<Rightarrow> go_error \<Rightarrow> response \<Rightarrow> bool" where
  "answers_error p realm e r \<longleftrightarrow>
     rsp_status r \<in> {400, 401, 500, 503}
     \<and> (rsp_status r = 503 \<longleftrightarrow> unreachable_keys e)
     \<and> (rsp_status r = 400 \<longleftrightarrow> \<not> unreachable_keys e \<and> errors_is e ErrMalformedToken)
     \<and> (rsp_status r = 401 \<longleftrightarrow> \<not> unreachable_keys e \<and> \<not> errors_is e ErrMalformedToken \<and> refused_token e)
     \<and> (rsp_status r = 503 \<longrightarrow> rsp_challenge r = None \<and> rsp_body r = ''Service Unavailable'' @ [chr 10])
     \<and> (rsp_status r = 500 \<longrightarrow> rsp_challenge r = None \<and> rsp_body r = ''Internal Server Error'' @ [chr 10])
     \<and> (rsp_status r = 400 \<longrightarrow> rsp_challenge r = Some (challenge_text p realm ''invalid_request'' ''is malformed'')
          \<and> rsp_body r = ''Bad Request'' @ [chr 10])
     \<and> (rsp_status r = 401 \<longrightarrow> rsp_challenge r = Some (challenge_text p realm ''invalid_token''
            (if errors_is e ErrExpired then ''expired''
             else if errors_is e ErrNotYetValid then ''is not yet valid'' else ''is invalid''))
          \<and> rsp_body r = ''Unauthorized'' @ [chr 10])"

lemma quoteSafe_ascii:
  "list_all (\<lambda>ch. ord ch < 0x80) s \<Longrightarrow>
   quoteSafe s = filter (\<lambda>ch. 0x20 \<le> ord ch \<and> ord ch \<noteq> 0x7F \<and> ch \<noteq> CHR 0x22 \<and> ch \<noteq> CHR 0x5C) s"
proof (induction s)
  case Nil
  show ?case by (subst quoteSafe.simps) simp
next
  case (Cons a s)
  then show ?case by (subst quoteSafe.simps) auto
qed

lemma realm_params_text: "realm_params p realm = (if realm = [] then [] else [''realm='' @ realm_text p realm])"
proof -
  have "quote p (quoteSafe realm) = realm_text p realm"
  proof (cases "list_all (\<lambda>ch. ord ch < 0x80) realm")
    case True
    have "list_all plain_char (quoteSafe realm)"
      using True unfolding quoteSafe_ascii [OF True] by (auto simp: list_all_iff plain_char_def)
    from quote_plain [OF this, of p] show ?thesis
      by (simp only: realm_text_def True if_True dquoted_def quoteSafe_ascii [OF True])
  next
    case False
    then show ?thesis unfolding realm_text_def by (simp only: if_False)
  qed
  then show ?thesis by (simp add: realm_params_def)
qed

lemma quote_literals:
  "quote p ''invalid_request'' = dquoted ''invalid_request''"
  "quote p ''invalid_token'' = dquoted ''invalid_token''"
  "quote p ''The access token is malformed'' = dquoted ''The access token is malformed''"
  "quote p ''The access token expired'' = dquoted ''The access token expired''"
  "quote p ''The access token is not yet valid'' = dquoted ''The access token is not yet valid''"
  "quote p ''The access token is invalid'' = dquoted ''The access token is invalid''"
  unfolding dquoted_def by (rule quote_plain, simp add: plain_char_def)+

lemma WriteChallenge_none: "answers_no_token p realm (WriteChallenge p realm None)"
  by (simp add: answers_no_token_def WriteChallenge_def classifyAuthError_def writeBearerChallenge_def
      writeStatus_def StatusText_def realm_params_text)

lemma tokenErrors_refused:
  "\<not> errors_is e ErrExpired \<Longrightarrow> \<not> errors_is e ErrNotYetValid \<Longrightarrow> list_ex (errors_is e) tokenErrors = refused_token e"
  by (simp add: tokenErrors_def refused_token_def) blast

lemma WriteChallenge_error: "answers_error p realm e (WriteChallenge p realm (Some e))"
proof -
  have k: "unreachable_keys e \<longleftrightarrow>
      errors_is e ErrKeyFetch \<or> errors_is e ContextDeadlineExceeded \<or> errors_is e ContextCanceled"
    by (simp add: unreachable_keys_def)
  have x: "errors_is e ErrExpired \<or> errors_is e ErrNotYetValid \<Longrightarrow> refused_token e"
    by (auto simp: refused_token_def)
  note defs = answers_error_def WriteChallenge_def classifyAuthError_def writeBearerChallenge_def
    writeStatus_def StatusText_def realm_params_text challenge_text_def quote_literals
  show ?thesis
  proof (cases "unreachable_keys e \<or> errors_is e ErrMalformedToken \<or> errors_is e ErrExpired \<or> errors_is e ErrNotYetValid")
    case True
    then show ?thesis using x by (auto simp: defs k)
  next
    case False
    then show ?thesis using tokenErrors_refused [of e] by (auto simp: defs k)
  qed
qed

section \<open>Properties\<close>

text \<open>
  a request carries a bearer token exactly when it has one \<^verbatim>\<open>Authorization\<close> value, made of the
  scheme in any case, one or more spaces and a credential in the b64token syntax.
\<close>

theorem bearer_token_exact:
  "BearerToken hdrs = Some token \<longleftrightarrow>
     (\<exists>scheme n. hdrs = [scheme @ replicate (Suc n) CHR '' '' @ token] \<and> length scheme = 6
        \<and> equal_fold scheme ''bearer'' \<and> isB64Token token)"
  by (rule BearerToken_Some)

text \<open>
  C7: the middleware runs the next handler exactly for requests whose bearer token is accepted,
  and hands it that token's payload.  A request without credentials gets 401 with the bare
  challenge.  A refused token is reported to \<^verbatim>\<open>OnError\<close> if one is set and answered as
  \<^verbatim>\<open>answers_error\<close> spells out: 503 exactly for failures to reach the keys and for ended
  contexts, otherwise 400 exactly for malformed tokens, otherwise 401 exactly for the fifteen
  failures of the token itself, otherwise 500; no challenge with 500 and 503, and with 400 and
  401 the literal text of the challenge, with the realm cleaned and quoted.
\<close>

theorem middleware_exact:
  "Middleware c u p wall keys opts hdrs = (reported, out) \<Longrightarrow>
   cfg = apply_options applyParse opts (default_config wall) \<Longrightarrow>
   (case BearerToken hdrs of
      None \<Rightarrow> reported = [] \<and> (\<exists>r. out = Answer r \<and> answers_no_token p (pc_Realm cfg) r)
    | Some token \<Rightarrow>
        (case parseVerified c u token keys cfg of
           Inr (h, payload) \<Rightarrow> reported = [] \<and> out = Next payload
         | Inl e \<Rightarrow> reported = (if pc_OnError cfg then [e] else [])
             \<and> (\<exists>r. out = Answer r \<and> answers_error p (pc_Realm cfg) e r)))"
  using WriteChallenge_none WriteChallenge_error [of p "pc_Realm cfg"]
  by (auto simp: Middleware_def Let_def split: option.splits sum.splits)

theorem middleware_exact_witness:
  "\<exists>r. Middleware sample_crypto (\<lambda>s. s) (\<lambda>_. True) 0 None
        [Some (WithAllowedAlgorithms [HS256]), Some (MiddlewareOptions ''api'' True)] [''Bearer abc'']
        = ([[ErrMalformedToken]], Answer r)
     \<and> rsp_status r = 400
     \<and> rsp_challenge r = Some (''Bearer realm='' @ dquoted ''api'' @ '', error='' @ dquoted ''invalid_request''
          @ '', error_description='' @ dquoted ''The access token is malformed'')"
proof -
  define opts where "opts = [Some (WithAllowedAlgorithms [HS256]), Some (MiddlewareOptions ''api'' True)]"
  define cfg where "cfg = apply_options applyParse opts (default_config 0)"
  have t: "BearerToken [''Bearer abc''] = Some ''abc''" by code_simp
  have e: "parseVerified sample_crypto (\<lambda>s. s) ''abc'' None cfg = Inl [ErrMalformedToken]"
    unfolding cfg_def opts_def by code_simp
  have c: "pc_Realm cfg = ''api''" "pc_OnError cfg" unfolding cfg_def opts_def by code_simp+
  obtain reported out where m: "Middleware sample_crypto (\<lambda>s. s) (\<lambda>_. True) 0 None opts [''Bearer abc''] = (reported, out)"
    by (cases "Middleware sample_crypto (\<lambda>s. s) (\<lambda>_. True) 0 None opts [''Bearer abc'']")
  from middleware_exact [OF m cfg_def] obtain r where r: "reported = [[ErrMalformedToken]]" "out = Answer r"
      "answers_error (\<lambda>_. True) ''api'' [ErrMalformedToken] r"
    by (auto simp: t e c)
  have "rsp_status r = 400" using r(3) by (simp add: answers_error_def unreachable_keys_def errors_is_def)
  then show ?thesis using r m
    by (simp add: opts_def answers_error_def challenge_text_def realm_text_def dquoted_def)
qed

text \<open>
  whatever realm, scopes and error a response is written for, its \<^verbatim>\<open>WWW-Authenticate\<close> value
  holds no control byte, so no header or response can be split.
\<close>

theorem challenge_has_no_control_bytes:
  "(case rsp_challenge (WriteChallenge p realm err) of None \<Rightarrow> True | Some v \<Rightarrow> list_all safe_byte v)
   \<and> (case rsp_challenge (WriteInsufficientScope p realm scopes) of None \<Rightarrow> True | Some v \<Rightarrow> list_all safe_byte v)"
proof
  obtain status code desc where k: "classifyAuthError err = (status, code, desc)" by (cases "classifyAuthError err")
  let ?ps = "realm_params p realm @ (if code \<noteq> [] then [''error='' @ quote p code, ''error_description='' @ quote p desc] else [])"
  have "list_all (list_all safe_byte) ?ps"
    using realm_params_safe error_params_safe by simp
  from writeBearerChallenge_safe [OF this, of status]
  show "case rsp_challenge (WriteChallenge p realm err) of None \<Rightarrow> True | Some v \<Rightarrow> list_all safe_byte v"
    by (auto simp: WriteChallenge_def k writeStatus_def split: option.splits)
next
  let ?valid = "filter isScopeToken scopes"
  let ?ps = "realm_params p realm @ [''error='' @ [CHR 0x22] @ ''insufficient_scope'' @ [CHR 0x22]]
      @ (if len ?valid > 0 then [''scope='' @ [CHR 0x22] @ join_with '' '' ?valid @ [CHR 0x22]] else [])"
  have "list_all safe_byte (join_with '' '' ?valid)"
    by (rule join_with_all) (simp add: safe_byte_def, auto simp: list_all_iff intro: scope_token_safe)
  then have "list_all (list_all safe_byte) ?ps"
    using realm_params_safe scope_params_safe by simp
  from writeBearerChallenge_safe [OF this, of 403]
  show "case rsp_challenge (WriteInsufficientScope p realm scopes) of None \<Rightarrow> True | Some v \<Rightarrow> list_all safe_byte v"
    by (auto simp: WriteInsufficientScope_def Let_def split: option.splits)
qed

end
