(* ===== verification/GoHeap.thy ===== *)
theory GoHeap
  imports JWT_Prelude "HOL-Library.Multiset"
begin

text \<open>
  Go's \<^verbatim>\<open>container/heap\<close> on a slice whose \<^verbatim>\<open>Less\<close> compares a key \<open>pri\<close>: \<^verbatim>\<open>up\<close>, \<^verbatim>\<open>down\<close>, \<^verbatim>\<open>Push\<close>, \<^verbatim>\<open>Pop\<close>
  and \<^verbatim>\<open>Init\<close> with the index arithmetic of the package.  The interface a client relies on, a
  min-queue with multiset semantics, is the locale \<open>min_queue\<close>; the slice heap is an
  interpretation of it.
\<close>

section \<open>The operations\<close>

definition swap :: "nat \<Rightarrow> nat \<Rightarrow> 'a list \<Rightarrow> 'a list" where
  "swap i j h = h[i := h ! j, j := h ! i]"

text \<open>\<^verbatim>\<open>(j-1)/2\<close> truncates towards zero, so the parent of 0 is 0.\<close>

function heap_up :: "('a \<Rightarrow> int) \<Rightarrow> 'a list \<Rightarrow> nat \<Rightarrow> 'a list" where
  "heap_up pri h j =
     (let i = (j - 1) div 2
      in if i = j \<or> \<not> pri (h ! j) < pri (h ! i) then h else heap_up pri (swap i j h) i)"
  by pat_completeness auto
termination by (relation "measure (\<lambda>(_, _, j). j)") (auto simp: div_less_dividend less_Suc_eq_le)

definition down_child :: "('a \<Rightarrow> int) \<Rightarrow> 'a list \<Rightarrow> nat \<Rightarrow> nat \<Rightarrow> nat" where
  "down_child pri h i n =
     (let j1 = 2 * i + 1; j2 = j1 + 1 in if j2 < n \<and> pri (h ! j2) < pri (h ! j1) then j2 else j1)"

function heap_down :: "('a \<Rightarrow> int) \<Rightarrow> 'a list \<Rightarrow> nat \<Rightarrow> nat \<Rightarrow> 'a list" where
  "heap_down pri h i n =
     (if 2 * i + 1 \<ge> n then h
      else let j = down_child pri h i n
           in if \<not> pri (h ! j) < pri (h ! i) then h else heap_down pri (swap i j h) j n)"
  by pat_completeness auto
termination by (relation "measure (\<lambda>(_, _, i, n). n - i)") (auto simp: down_child_def Let_def)

declare heap_up.simps [simp del] heap_down.simps [simp del]

definition heap_Push :: "('a \<Rightarrow> int) \<Rightarrow> 'a \<Rightarrow> 'a list \<Rightarrow> 'a list" where
  "heap_Push pri x h = heap_up pri (h @ [x]) (length h)"

definition heap_Pop :: "('a \<Rightarrow> int) \<Rightarrow> 'a list \<Rightarrow> 'a \<times> 'a list" where
  "heap_Pop pri h =
     (let n = length h - 1; h' = heap_down pri (swap 0 n h) 0 n in (h' ! n, take n h'))"

fun init_loop :: "('a \<Rightarrow> int) \<Rightarrow> nat \<Rightarrow> 'a list \<Rightarrow> 'a list" where
  "init_loop pri 0 h = h"
| "init_loop pri (Suc i) h = init_loop pri i (heap_down pri h i (length h))"

definition heap_Init :: "('a \<Rightarrow> int) \<Rightarrow> 'a list \<Rightarrow> 'a list" where
  "heap_Init pri h = init_loop pri (length h div 2) h"

section \<open>Lengths and multisets\<close>

lemma length_swap [simp]: "length (swap i j h) = length h"
  by (simp add: swap_def)

lemma mset_swap_idx: "i < length h \<Longrightarrow> j < length h \<Longrightarrow> mset (swap i j h) = mset h"
  by (simp add: swap_def mset_swap)

lemma nth_swap:
  "i < length h \<Longrightarrow> j < length h \<Longrightarrow> k < length h \<Longrightarrow>
   swap i j h ! k = (if k = i then h ! j else if k = j then h ! i else h ! k)"
  by (auto simp: swap_def nth_list_update)

lemma down_child_bounds: "2 * i + 1 < n \<Longrightarrow> i < down_child pri h i n \<and> down_child pri h i n < n"
  by (auto simp: down_child_def Let_def)

lemma heap_up_length [simp]: "length (heap_up pri h j) = length h"
proof (induction pri h j rule: heap_up.induct)
  case (1 pri h j)
  then show ?case by (subst heap_up.simps) (auto simp: Let_def)
qed

lemma heap_down_length [simp]: "length (heap_down pri h i n) = length h"
proof (induction pri h i n rule: heap_down.induct)
  case (1 pri h i n)
  then show ?case by (subst heap_down.simps) (auto simp: Let_def)
qed

lemma heap_up_mset: "j < length h \<Longrightarrow> mset (heap_up pri h j) = mset h"
proof (induction pri h j rule: heap_up.induct)
  case (1 pri h j)
  have "(j - 1) div 2 < length h" using "1.prems" by auto
  then show ?case
    using 1 by (subst heap_up.simps) (auto simp: Let_def mset_swap_idx)
qed

lemma heap_down_mset: "n \<le> length h \<Longrightarrow> mset (heap_down pri h i n) = mset h"
proof (induction pri h i n rule: heap_down.induct)
  case (1 pri h i n)
  show ?case
  proof (cases "2 * i + 1 \<ge> n")
    case True
    then show ?thesis by (subst heap_down.simps) simp
  next
    case False
    then have "i < down_child pri h i n" "down_child pri h i n < n" using down_child_bounds [of i n] by auto
    then show ?thesis
      using 1 False by (subst heap_down.simps) (auto simp: Let_def mset_swap_idx)
  qed
qed

text \<open>Positions from \<open>n\<close> on are not touched.\<close>

lemma heap_down_nth: "n \<le> length h \<Longrightarrow> n \<le> k \<Longrightarrow> k < length h \<Longrightarrow> heap_down pri h i n ! k = h ! k"
proof (induction pri h i n rule: heap_down.induct)
  case (1 pri h i n)
  show ?case
  proof (cases "2 * i + 1 \<ge> n")
    case True
    then show ?thesis by (subst heap_down.simps) simp
  next
    case False
    then have "i < down_child pri h i n" "down_child pri h i n < n" using down_child_bounds [of i n] by auto
    then show ?thesis
      using 1 False by (subst heap_down.simps) (auto simp: Let_def nth_swap)
  qed
qed

section \<open>The heap property\<close>

definition parent :: "nat \<Rightarrow> nat" where
  "parent k = (k - 1) div 2"

text \<open>The first \<open>n\<close> entries satisfy the order at every node whose parent is at least \<open>l\<close>.\<close>

definition heap_from :: "('a \<Rightarrow> int) \<Rightarrow> 'a list \<Rightarrow> nat \<Rightarrow> nat \<Rightarrow> bool" where
  "heap_from pri h l n \<longleftrightarrow> (\<forall>k. 0 < k \<longrightarrow> k < n \<longrightarrow> l \<le> parent k \<longrightarrow> pri (h ! parent k) \<le> pri (h ! k))"

abbreviation is_heap :: "('a \<Rightarrow> int) \<Rightarrow> 'a list \<Rightarrow> bool" where
  "is_heap pri h \<equiv> heap_from pri h 0 (length h)"

definition down_inv :: "('a \<Rightarrow> int) \<Rightarrow> 'a list \<Rightarrow> nat \<Rightarrow> nat \<Rightarrow> nat \<Rightarrow> bool" where
  "down_inv pri h l i n \<longleftrightarrow>
     (\<forall>k. 0 < k \<longrightarrow> k < n \<longrightarrow> l \<le> parent k \<longrightarrow> parent k \<noteq> i \<longrightarrow> pri (h ! parent k) \<le> pri (h ! k)) \<and>
     (\<forall>k. 0 < k \<longrightarrow> k < n \<longrightarrow> parent k = i \<longrightarrow> 0 < i \<longrightarrow> l \<le> parent i \<longrightarrow> pri (h ! parent i) \<le> pri (h ! k))"

definition up_inv :: "('a \<Rightarrow> int) \<Rightarrow> 'a list \<Rightarrow> nat \<Rightarrow> bool" where
  "up_inv pri h j \<longleftrightarrow>
     (\<forall>k. 0 < k \<longrightarrow> k < length h \<longrightarrow> k \<noteq> j \<longrightarrow> pri (h ! parent k) \<le> pri (h ! k)) \<and>
     (\<forall>k. 0 < k \<longrightarrow> k < length h \<longrightarrow> parent k = j \<longrightarrow> 0 < j \<longrightarrow> pri (h ! parent j) \<le> pri (h ! k))"

lemma parent_less: "0 < k \<Longrightarrow> parent k < k"
  by (auto simp: parent_def)

lemma parent_children: "parent k = i \<and> 0 < k \<longleftrightarrow> k = 2 * i + 1 \<or> k = 2 * i + 2"
  by (auto simp: parent_def)

lemma heap_up_heap:
  "up_inv pri h j \<Longrightarrow> j < length h \<Longrightarrow> is_heap pri (heap_up pri h j)"
proof (induction pri h j rule: heap_up.induct)
  case (1 pri h j)
  let ?i = "(j - 1) div 2"
  show ?case
  proof (cases "?i = j \<or> \<not> pri (h ! j) < pri (h ! ?i)")
    case True
    then have "is_heap pri h"
      using "1.prems" unfolding up_inv_def heap_from_def parent_def by (metis bot_nat_0.not_eq_extremum not_less diff_0_eq_0 div_0 parent_def parent_less less_irrefl)
    with True show ?thesis by (subst heap_up.simps) simp
  next
    case False
    then have j: "0 < j" "?i < j" "?i < length h" "parent j = ?i" using "1.prems" by (auto simp: parent_def)
    have inv: "up_inv pri (swap ?i j h) ?i"
      unfolding up_inv_def
    proof (intro conjI allI impI)
      fix k assume k: "0 < k" "k < length (swap ?i j h)" "k \<noteq> ?i"
      have "k \<noteq> j \<Longrightarrow> pri (h ! parent k) \<le> pri (h ! k)" using "1.prems" k by (auto simp: up_inv_def)
      then have "k \<noteq> j \<Longrightarrow> parent k = ?i \<Longrightarrow> pri (h ! j) \<le> pri (h ! k)" using False by fastforce
      then show "pri (swap ?i j h ! parent k) \<le> pri (swap ?i j h ! k)"
        using "1.prems" False j k parent_less [of k] by (auto simp: nth_swap up_inv_def)
    next
      fix k assume k: "0 < k" "k < length (swap ?i j h)" "parent k = ?i" "0 < ?i"
      have "parent ?i < ?i" using k(4) parent_less by blast
      moreover have "pri (h ! parent ?i) \<le> pri (h ! ?i)" using "1.prems" j k by (auto simp: up_inv_def)
      moreover have "k \<noteq> j \<Longrightarrow> pri (h ! ?i) \<le> pri (h ! k)" using "1.prems"(1) k unfolding up_inv_def by (metis length_swap)
      ultimately show "pri (swap ?i j h ! parent ?i) \<le> pri (swap ?i j h ! k)"
        using "1.prems" False j k parent_less [of k] by (auto simp: nth_swap)
    qed
    have "is_heap pri (heap_up pri (swap ?i j h) ?i)"
      using "1.IH" [OF refl False inv] j by simp
    with False show ?thesis by (subst heap_up.simps) (simp add: Let_def)
  qed
qed

lemma down_child_min:
  assumes "2 * i + 1 < n" "0 < k" "k < n" "parent k = i"
  shows "pri (h ! down_child pri h i n) \<le> pri (h ! k)"
proof -
  have "k = 2 * i + 1 \<or> k = 2 * i + 2" using assms(2,4) parent_children by blast
  then show ?thesis using assms(3) by (auto simp: down_child_def Let_def)
qed

lemma heap_down_heap:
  "down_inv pri h l i n \<Longrightarrow> n \<le> length h \<Longrightarrow> l \<le> i \<Longrightarrow> heap_from pri (heap_down pri h i n) l n"
proof (induction pri h i n rule: heap_down.induct)
  case (1 pri h i n)
  let ?j = "down_child pri h i n"
  show ?case
  proof (cases "2 * i + 1 \<ge> n")
    case True
    then have "heap_from pri h l n"
      using "1.prems"(1) parent_children unfolding down_inv_def heap_from_def
      by (metis add_lessD1 le_antisym less_or_eq_imp_le not_less less_imp_le_nat one_add_one add.assoc)
    with True show ?thesis by (subst heap_down.simps) simp
  next
    case n: False
    then have j: "i < ?j" "?j < n" "2 * i + 1 < n" using down_child_bounds [of i n] by auto
    have pj: "parent ?j = i" using parent_children [of ?j i] by (auto simp: down_child_def Let_def)
    show ?thesis
    proof (cases "pri (h ! ?j) < pri (h ! i)")
      case False
      have "heap_from pri h l n"
        unfolding heap_from_def
      proof (intro allI impI)
        fix k assume k: "0 < k" "k < n" "l \<le> parent k"
        show "pri (h ! parent k) \<le> pri (h ! k)"
        proof (cases "parent k = i")
          case True
          with down_child_min [OF j(3) k(1,2) True, of pri h] False show ?thesis by simp
        next
          case False
          with k "1.prems"(1) show ?thesis by (auto simp: down_inv_def)
        qed
      qed
      with False n show ?thesis by (subst heap_down.simps) simp
    next
      case True
      have len: "i < length h" "?j < length h" using j "1.prems"(2) by auto
      have "down_inv pri (swap i ?j h) l ?j n"
        unfolding down_inv_def
      proof (intro conjI allI impI)
        fix k assume k: "0 < k" "k < n" "l \<le> parent k" "parent k \<noteq> ?j"
        have kl: "k < length h" "parent k < length h" using k "1.prems"(2) parent_less [of k] by auto
        show "pri (swap i ?j h ! parent k) \<le> pri (swap i ?j h ! k)"
        proof (cases "parent k = i")
          case pi: True
          show ?thesis
          proof (cases "k = ?j")
            case True
            then show ?thesis using pi len kl j \<open>pri (h ! ?j) < pri (h ! i)\<close> by (simp add: nth_swap)
          next
            case False
            then show ?thesis
              using pi len kl j k down_child_min [OF j(3) k(1,2) pi, of pri h] parent_less [of k]
              by (auto simp: nth_swap)
          qed
        next
          case ni: False
          show ?thesis
          proof (cases "k = i")
            case True
            have "pri (h ! parent i) \<le> pri (h ! ?j)"
              using "1.prems"(1) j pj k True unfolding down_inv_def by (metis less_nat_zero_code neq0_conv)
            then show ?thesis using True ni len kl j k by (auto simp: nth_swap)
          next
            case False
            have "k \<noteq> ?j" using ni pj by blast
            then show ?thesis
              using False ni k "1.prems"(1) len kl by (auto simp: nth_swap down_inv_def)
          qed
        qed
      next
        fix k assume k: "0 < k" "k < n" "parent k = ?j" "0 < ?j" "l \<le> parent ?j"
        have kl: "k < length h" "?j < k" using k "1.prems"(2) parent_less [of k] by auto
        have "pri (h ! ?j) \<le> pri (h ! k)"
          using "1.prems"(1,3) k j pj unfolding down_inv_def by (metis less_irrefl less_imp_le_nat order.trans)
        then show "pri (swap i ?j h ! parent ?j) \<le> pri (swap i ?j h ! k)"
          using len kl j pj by (auto simp: nth_swap)
      qed
      then have "heap_from pri (heap_down pri (swap i ?j h) ?j n) l n"
        using "1.IH" [OF n refl] True "1.prems" j by simp
      with True n show ?thesis by (subst heap_down.simps) (simp add: Let_def)
    qed
  qed
qed

lemma heap_root_min: "is_heap pri h \<Longrightarrow> k < length h \<Longrightarrow> pri (h ! 0) \<le> pri (h ! k)"
proof (induction k rule: less_induct)
  case (less k)
  show ?case
  proof (cases "k = 0")
    case False
    then have "pri (h ! 0) \<le> pri (h ! parent k)" using less parent_less [of k] by simp
    also have "\<dots> \<le> pri (h ! k)" using less.prems False by (auto simp: heap_from_def)
    finally show ?thesis .
  qed simp
qed

lemma heap_Push_heap: "is_heap pri h \<Longrightarrow> is_heap pri (heap_Push pri x h)"
proof -
  assume h: "is_heap pri h"
  have "up_inv pri (h @ [x]) (length h)"
    unfolding up_inv_def
  proof (intro conjI allI impI)
    fix k assume k: "0 < k" "k < length (h @ [x])" "k \<noteq> length h"
    then show "pri ((h @ [x]) ! parent k) \<le> pri ((h @ [x]) ! k)"
      using h parent_less [of k] by (auto simp: heap_from_def nth_append)
  next
    fix k assume k: "0 < k" "k < length (h @ [x])" "parent k = length h"
    then show "pri ((h @ [x]) ! parent (length h)) \<le> pri ((h @ [x]) ! k)"
      using parent_less [of k] by auto
  qed
  from heap_up_heap [OF this] show ?thesis by (simp add: heap_Push_def)
qed

lemma heap_Push_mset: "mset (heap_Push pri x h) = add_mset x (mset h)"
  by (simp add: heap_Push_def heap_up_mset)

lemma heap_from_take:
  assumes "heap_from pri h 0 n" "n \<le> length h"
  shows "is_heap pri (take n h)"
  unfolding heap_from_def
proof (intro allI impI)
  fix k assume k: "0 < k" "k < length (take n h)"
  then have "k < n" "parent k < n" using parent_less [of k] by auto
  with k assms(1) show "pri (take n h ! parent k) \<le> pri (take n h ! k)" by (simp add: heap_from_def)
qed

lemma heap_Pop_correct:
  assumes "is_heap pri h" "h \<noteq> []" "heap_Pop pri h = (x, h')"
  shows "x = h ! 0" "is_heap pri h'" "mset h = add_mset x (mset h')"
proof -
  let ?n = "length h - 1" and ?s = "swap 0 (length h - 1) h"
  let ?d = "heap_down pri ?s 0 ?n"
  have n: "?n < length h" "0 < length h" using assms(2) by auto
  have x: "x = ?d ! ?n" "h' = take ?n ?d" using assms(3) by (auto simp: heap_Pop_def Let_def)
  show x0: "x = h ! 0" using n by (simp add: x heap_down_nth nth_swap)
  have "down_inv pri ?s 0 0 ?n"
    unfolding down_inv_def
  proof (intro conjI allI impI)
    fix k assume k: "0 < k" "k < ?n" "0 \<le> parent k" "parent k \<noteq> 0"
    then have "parent k < ?n" using parent_less [of k] by simp
    with k n assms(1) show "pri (?s ! parent k) \<le> pri (?s ! k)" by (auto simp: nth_swap heap_from_def)
  qed simp
  then have "heap_from pri ?d 0 ?n" by (rule heap_down_heap) simp_all
  then show "is_heap pri h'" unfolding x by (rule heap_from_take) simp
  have "?d = take (Suc ?n) ?d" using n by simp
  also have "\<dots> = h' @ [x]" unfolding x by (rule take_Suc_conv_app_nth) (use n in simp)
  finally have "mset ?d = add_mset x (mset h')" by (metis mset.simps(1,2) mset_append add_mset_add_single)
  moreover have "mset ?d = mset h" using n by (simp add: heap_down_mset mset_swap_idx)
  ultimately show "mset h = add_mset x (mset h')" by simp
qed

lemma init_loop_heap:
  "heap_from pri h i (length h) \<Longrightarrow> is_heap pri (init_loop pri i h) \<and> mset (init_loop pri i h) = mset h"
proof (induction i arbitrary: h)
  case (Suc i)
  have "down_inv pri h i i (length h)"
    using Suc.prems parent_less [of i] unfolding down_inv_def heap_from_def
    by (metis Suc_leI le_neq_implies_less not_less)
  then have "heap_from pri (heap_down pri h i (length h)) i (length h)" by (rule heap_down_heap) simp_all
  then have "is_heap pri (init_loop pri i (heap_down pri h i (length h))) \<and>
      mset (init_loop pri i (heap_down pri h i (length h))) = mset (heap_down pri h i (length h))"
    using Suc.IH [of "heap_down pri h i (length h)"] by simp
  then show ?case by (simp add: heap_down_mset)
qed simp

lemma heap_Init_heap: "is_heap pri (heap_Init pri h)" "mset (heap_Init pri h) = mset h"
proof -
  have "heap_from pri h (length h div 2) (length h)"
    by (auto simp: heap_from_def parent_def)
  from init_loop_heap [OF this] show "is_heap pri (heap_Init pri h)" "mset (heap_Init pri h) = mset h"
    by (simp_all add: heap_Init_def)
qed

section \<open>The interface\<close>

locale min_queue =
  fixes pri :: "'a \<Rightarrow> int" and valid :: "'q \<Rightarrow> bool" and elems :: "'q \<Rightarrow> 'a multiset"
    and push :: "'a \<Rightarrow> 'q \<Rightarrow> 'q" and pop :: "'q \<Rightarrow> 'a \<times> 'q" and peek :: "'q \<Rightarrow> 'a"
    and build :: "'a list \<Rightarrow> 'q"
  assumes push: "valid q \<Longrightarrow> valid (push x q) \<and> elems (push x q) = add_mset x (elems q)"
    and pop: "valid q \<Longrightarrow> elems q \<noteq> {#} \<Longrightarrow> pop q = (x, q') \<Longrightarrow>
           x = peek q \<and> valid q' \<and> elems q = add_mset x (elems q')"
    and peek: "valid q \<Longrightarrow> x \<in># elems q \<Longrightarrow> pri (peek q) \<le> pri x"
    and build: "valid (build xs) \<and> elems (build xs) = mset xs"
begin

lemma peek_above: "valid q \<Longrightarrow> t < pri (peek q) \<Longrightarrow> x \<in># elems q \<Longrightarrow> t < pri x"
  using peek by fastforce

lemma pop_subset: "valid q \<Longrightarrow> elems q \<noteq> {#} \<Longrightarrow> pop q = (x, q') \<Longrightarrow> set_mset (elems q) = insert x (set_mset (elems q'))"
  using pop by (metis set_mset_add_mset_insert)

end

interpretation slice_heap: min_queue pri "is_heap pri" mset "heap_Push pri" "heap_Pop pri" "\<lambda>h. h ! 0" "heap_Init pri"
proof
  fix q x and q' :: "'a list"
  assume q: "is_heap pri q"
  show "is_heap pri (heap_Push pri x q) \<and> mset (heap_Push pri x q) = add_mset x (mset q)"
    using q by (simp add: heap_Push_heap heap_Push_mset)
  show "x = q ! 0 \<and> is_heap pri q' \<and> mset q = add_mset x (mset q')"
    if "mset q \<noteq> {#}" "heap_Pop pri q = (x, q')"
    using heap_Pop_correct [OF q _ that(2)] that(1) by auto
  show "pri (q ! 0) \<le> pri x" if "x \<in># mset q"
    using that heap_root_min [OF q] by (auto simp: in_set_conv_nth)
qed (simp add: heap_Init_heap)

end
