(* ===== verification/Revoke.thy ===== *)
theory Revoke
  imports JWT GoHeap
begin

text \<open>
  \<^verbatim>\<open>revoke.go\<close> and the revocation store of \<^verbatim>\<open>jwttest\<close>.  The in-memory store keeps its entries in a
  map (an association list with distinct identifiers, in the order a \<^verbatim>\<open>range\<close> over the map
  happens to visit them) beside a slice heap of expiry nodes; the generation counter is a
  64-bit word.  The mutex makes each operation one step; the clock is the time the step
  reads.

  Shown: each operation refines the operation on a plain map from identifiers to expiry
  times; an identifier is reported revoked exactly as long as its last revocation is live;
  the capacity is never exceeded and no live revocation is evicted; the number of heap nodes
  stays linear in the number of entries.
\<close>

section \<open>The store\<close>

abbreviation "ReasonLogout \<equiv> ''logout''"
abbreviation "ReasonKeyCompromised \<equiv> ''key_compromised''"
abbreviation "ReasonReuseDetected \<equiv> ''reuse_detected''"
abbreviation "ReasonAdmin \<equiv> ''admin_revoked''"

record revocation_entry =
  re_reason :: string
  re_expiresAt :: time
  re_generation :: "64 word"

definition live_until :: "time \<Rightarrow> time \<Rightarrow> bool" where
  "live_until expiresAt now \<longleftrightarrow> expiresAt = zero_time \<or> expiresAt > now"

definition live :: "revocation_entry \<Rightarrow> time \<Rightarrow> bool" where
  "live e now \<longleftrightarrow> live_until (re_expiresAt e) now"

record revocation_expiry =
  rx_id :: string
  rx_expiresAt :: time
  rx_generation :: "64 word"

record revocation_store =
  rs_items :: "(string \<times> revocation_entry) list"
  rs_expirations :: "revocation_expiry list"
  rs_capacity :: int
  rs_generation :: "64 word"

definition newMemoryRevocationStore :: "int \<Rightarrow> revocation_store" where
  "newMemoryRevocationStore capacity =
     \<lparr>rs_items = [], rs_expirations = [], rs_capacity = capacity, rs_generation = 0\<rparr>"

definition NewMemoryRevocationStore :: revocation_store where
  "NewMemoryRevocationStore = newMemoryRevocationStore 0"

definition NewMemoryRevocationStoreWithCapacity :: "int \<Rightarrow> revocation_store result" where
  "NewMemoryRevocationStoreWithCapacity capacity =
     (if capacity \<le> 0 then Inl [ErrInvalidRevocationCapacity] else Inr (newMemoryRevocationStore capacity))"

text \<open>The loop of \<^verbatim>\<open>removeExpiredLocked\<close> over heap and map; every round takes a node off the heap.\<close>

function remove_expired :: "time \<Rightarrow> revocation_expiry list \<Rightarrow> (string \<times> revocation_entry) list \<Rightarrow>
    revocation_expiry list \<times> (string \<times> revocation_entry) list" where
  "remove_expired now h items =
     (if h = [] \<or> rx_expiresAt (h ! 0) > now then (h, items)
      else (case heap_Pop rx_expiresAt h of (expired, h') \<Rightarrow>
        remove_expired now h'
          (case map_of items (rx_id expired) of
             None \<Rightarrow> items
           | Some entry \<Rightarrow>
               if re_generation entry = rx_generation expired \<and> \<not> live entry now
               then alist_delete (rx_id expired) items else items)))"
  by pat_completeness auto
termination by (relation "measure (\<lambda>(_, h, _). length h)") (auto simp: heap_Pop_def Let_def)

declare remove_expired.simps [simp del]

definition removeExpiredLocked :: "time \<Rightarrow> revocation_store \<Rightarrow> revocation_store" where
  "removeExpiredLocked now s =
     (case remove_expired now (rs_expirations s) (rs_items s) of (h, items) \<Rightarrow>
        s\<lparr>rs_expirations := h, rs_items := items\<rparr>)"

definition compactExpirationsLocked :: "revocation_store \<Rightarrow> revocation_store" where
  "compactExpirationsLocked s =
     (if len (rs_expirations s) \<le> 2 * len (rs_items s) + 64 then s
      else s\<lparr>rs_expirations := heap_Init rx_expiresAt
               (map (\<lambda>(rid, e). \<lparr>rx_id = rid, rx_expiresAt = re_expiresAt e, rx_generation = re_generation e\<rparr>)
                 (filter (\<lambda>(rid, e). re_expiresAt e \<noteq> zero_time) (rs_items s)))\<rparr>)"

definition store_entry :: "string \<Rightarrow> string \<Rightarrow> time \<Rightarrow> revocation_store \<Rightarrow> revocation_store" where
  "store_entry rid reason expiresAt s =
     (let gen = rs_generation s + 1;
          entry = \<lparr>re_reason = reason, re_expiresAt = expiresAt, re_generation = gen\<rparr>;
          s = s\<lparr>rs_generation := gen, rs_items := alist_set rid entry (rs_items s)\<rparr>;
          s = (if expiresAt \<noteq> zero_time
               then s\<lparr>rs_expirations := heap_Push rx_expiresAt
                        \<lparr>rx_id = rid, rx_expiresAt = expiresAt, rx_generation = re_generation entry\<rparr> (rs_expirations s)\<rparr>
               else s)
      in compactExpirationsLocked s)"

text \<open>\<^verbatim>\<open>Revoke\<close> and \<^verbatim>\<open>IsRevoked\<close>: what they return, and the store afterwards.\<close>

definition Revoke :: "time \<Rightarrow> string \<Rightarrow> string \<Rightarrow> time \<Rightarrow> revocation_store \<Rightarrow> go_error option \<times> revocation_store" where
  "Revoke now rid reason expiresAt s =
     (if rid = [] then (Some [ErrInvalidRevocationID], s)
      else
        let s = removeExpiredLocked now s
        in if expiresAt \<noteq> zero_time \<and> \<not> expiresAt > now
           then (None, s\<lparr>rs_items := alist_delete rid (rs_items s)\<rparr>)
           else if map_of (rs_items s) rid = None \<and> rs_capacity s > 0 \<and> len (rs_items s) \<ge> rs_capacity s
           then (Some [ErrRevocationStoreFull], s)
           else (None, store_entry rid reason expiresAt s))"

definition IsRevoked :: "time \<Rightarrow> string \<Rightarrow> revocation_store \<Rightarrow> bool result \<times> revocation_store" where
  "IsRevoked now rid s =
     (if rid = [] then (Inl [ErrInvalidRevocationID], s)
      else let s = removeExpiredLocked now s in (Inr (map_of (rs_items s) rid \<noteq> None), s))"

section \<open>The fake store of jwttest\<close>

record fake_store =
  fs_entries :: "(string \<times> (string \<times> time)) list"
  fs_Err :: "go_error option"

definition NewFakeRevocationStore :: fake_store where
  "NewFakeRevocationStore = \<lparr>fs_entries = [], fs_Err = None\<rparr>"

definition fake_Revoke :: "time \<Rightarrow> string \<Rightarrow> string \<Rightarrow> time \<Rightarrow> fake_store \<Rightarrow> go_error option \<times> fake_store" where
  "fake_Revoke now rid reason expiresAt s =
     (case fs_Err s of
        Some e \<Rightarrow> (Some e, s)
      | None \<Rightarrow> (None, s\<lparr>fs_entries := alist_set rid (reason, expiresAt) (fs_entries s)\<rparr>))"

definition fake_IsRevoked :: "time \<Rightarrow> string \<Rightarrow> fake_store \<Rightarrow> bool result \<times> fake_store" where
  "fake_IsRevoked now rid s =
     (case fs_Err s of
        Some e \<Rightarrow> (Inl e, s)
      | None \<Rightarrow>
          (case map_of (fs_entries s) rid of
             None \<Rightarrow> (Inr False, s)
           | Some (_, expiresAt) \<Rightarrow>
               if expiresAt \<noteq> zero_time \<and> \<not> expiresAt > now
               then (Inr False, s\<lparr>fs_entries := alist_delete rid (fs_entries s)\<rparr>)
               else (Inr True, s)))"

section \<open>The invariant of the store\<close>

definition store_inv :: "revocation_store \<Rightarrow> bool" where
  "store_inv s \<longleftrightarrow> distinct (map fst (rs_items s)) \<and> is_heap rx_expiresAt (rs_expirations s)
     \<and> (\<forall>rid e. (rid, e) \<in> set (rs_items s) \<longrightarrow> re_expiresAt e \<noteq> zero_time \<longrightarrow>
          (\<exists>x \<in> set (rs_expirations s). rx_id x = rid \<and> rx_expiresAt x = re_expiresAt e \<and> rx_generation x = re_generation e))"

definition noded :: "(string \<times> revocation_entry) list \<Rightarrow> revocation_expiry list \<Rightarrow> bool" where
  "noded items h \<longleftrightarrow> (\<forall>rid e. (rid, e) \<in> set items \<longrightarrow> re_expiresAt e \<noteq> zero_time \<longrightarrow>
     (\<exists>x \<in> set h. rx_id x = rid \<and> rx_expiresAt x = re_expiresAt e \<and> rx_generation x = re_generation e))"

lemma remove_expired_filter:
  assumes "distinct (map fst items)" "is_heap rx_expiresAt h" "noded items h" "remove_expired now h items = (h', items')"
  shows "is_heap rx_expiresAt h' \<and> noded items' h' \<and> items' = filter (\<lambda>(rid, e). live e now) items
    \<and> length h' \<le> length h"
  using assms
proof (induction now h items rule: remove_expired.induct)
  case (1 now h items)
  show ?case
  proof (cases "h = [] \<or> rx_expiresAt (h ! 0) > now")
    case True
    then have eq: "h' = h" "items' = items" using "1.prems"(4) by (auto simp: remove_expired.simps)
    have "live e now" if m: "(rid, e) \<in> set items" for rid e
    proof (rule ccontr)
      assume "\<not> live e now"
      then have ne: "re_expiresAt e \<noteq> zero_time" "re_expiresAt e \<le> now" by (auto simp: live_def live_until_def)
      then obtain x where x: "x \<in> set h" "rx_expiresAt x = re_expiresAt e"
        using "1.prems"(3) m unfolding noded_def by blast
      then have "rx_expiresAt (h ! 0) \<le> rx_expiresAt x" using slice_heap.peek [OF "1.prems"(2), of x] by simp
      with x ne True show False by auto
    qed
    then have "filter (\<lambda>(rid, e). live e now) items = items" by (auto simp: filter_id_conv)
    with eq "1.prems" show ?thesis by simp
  next
    case False
    obtain x q where pop: "heap_Pop rx_expiresAt h = (x, q)" by (cases "heap_Pop rx_expiresAt h")
    have x: "x = h ! 0" "is_heap rx_expiresAt q" "mset h = add_mset x (mset q)"
      using slice_heap.pop [OF "1.prems"(2) _ pop] False by auto
    have set_h: "set h = insert x (set q)" by (metis x(3) set_mset_add_mset_insert set_mset_mset)
    have len_h: "length h = Suc (length q)" by (metis x(3) size_add_mset size_mset)
    let ?items = "case map_of items (rx_id x) of None \<Rightarrow> items
       | Some entry \<Rightarrow> if re_generation entry = rx_generation x \<and> \<not> live entry now
           then alist_delete (rx_id x) items else items"
    have step: "remove_expired now q ?items = (h', items')"
      using "1.prems"(4) False by (subst (asm) remove_expired.simps) (simp add: pop)
    have uniq: "map_of items rid = Some e" if "(rid, e) \<in> set items" for rid e
      using that "1.prems"(1) by (simp add: map_of_is_SomeI)
    have sub: "filter (\<lambda>(rid, e). live e now) ?items = filter (\<lambda>(rid, e). live e now) items"
      using uniq by (auto simp: alist_delete_def filter_filter intro!: filter_cong split: option.splits)
    have nd: "noded ?items q"
      unfolding noded_def
    proof (intro allI impI)
      fix rid e assume e: "(rid, e) \<in> set ?items" "re_expiresAt e \<noteq> zero_time"
      then have i: "(rid, e) \<in> set items" by (auto simp: alist_delete_def split: option.splits if_splits)
      then obtain y where y: "y \<in> set h" "rx_id y = rid" "rx_expiresAt y = re_expiresAt e" "rx_generation y = re_generation e"
        using "1.prems"(3) e(2) unfolding noded_def by blast
      have "y \<noteq> x"
      proof
        assume yx: "y = x"
        have "\<not> live e now" using y(3) yx e(2) False x(1) by (auto simp: live_def live_until_def)
        then have "?items = alist_delete rid items" using uniq [OF i] y yx by simp
        with e(1) show False by (auto simp: alist_delete_def)
      qed
      with y set_h show "\<exists>x\<in>set q. rx_id x = rid \<and> rx_expiresAt x = re_expiresAt e \<and> rx_generation x = re_generation e"
        by auto
    qed
    have ds: "distinct (map fst ?items)"
      using "1.prems"(1) by (auto simp: distinct_alist_delete split: option.splits)
    have "is_heap rx_expiresAt h' \<and> noded items' h' \<and> items' = filter (\<lambda>(rid, e). live e now) ?items \<and> length h' \<le> length q"
      by (rule "1.IH" [OF False pop [symmetric] ds x(2) nd step])
    with sub len_h show ?thesis by (metis le_SucI)
  qed
qed

lemma store_inv_noded:
  "store_inv s \<longleftrightarrow> distinct (map fst (rs_items s)) \<and> is_heap rx_expiresAt (rs_expirations s) \<and> noded (rs_items s) (rs_expirations s)"
  by (simp add: store_inv_def noded_def)

lemma removeExpiredLocked_spec:
  assumes "store_inv s"
  shows "store_inv (removeExpiredLocked now s)"
    "rs_items (removeExpiredLocked now s) = filter (\<lambda>(rid, e). live e now) (rs_items s)"
    "rs_capacity (removeExpiredLocked now s) = rs_capacity s"
    "length (rs_expirations (removeExpiredLocked now s)) \<le> length (rs_expirations s)"
proof -
  obtain h items where r: "remove_expired now (rs_expirations s) (rs_items s) = (h, items)"
    by (cases "remove_expired now (rs_expirations s) (rs_items s)")
  have f: "is_heap rx_expiresAt h" "noded items h" "items = filter (\<lambda>(rid, e). live e now) (rs_items s)"
      "length h \<le> length (rs_expirations s)"
    using remove_expired_filter [OF _ _ _ r] assms by (auto simp: store_inv_noded)
  have d: "distinct (map fst items)" using assms by (auto simp: f(3) store_inv_def distinct_map_filter)
  show "store_inv (removeExpiredLocked now s)"
    "rs_items (removeExpiredLocked now s) = filter (\<lambda>(rid, e). live e now) (rs_items s)"
    "rs_capacity (removeExpiredLocked now s) = rs_capacity s"
    "length (rs_expirations (removeExpiredLocked now s)) \<le> length (rs_expirations s)"
    using d f by (simp_all add: removeExpiredLocked_def r store_inv_noded)
qed

lemma compact_spec:
  assumes "store_inv s"
  shows "store_inv (compactExpirationsLocked s)" "rs_items (compactExpirationsLocked s) = rs_items s"
    "rs_capacity (compactExpirationsLocked s) = rs_capacity s"
    "len (rs_expirations (compactExpirationsLocked s)) \<le> 2 * len (rs_items s) + 64"
proof -
  let ?nodes = "map (\<lambda>(rid, e). \<lparr>rx_id = rid, rx_expiresAt = re_expiresAt e, rx_generation = re_generation e\<rparr>)
                 (filter (\<lambda>(rid, e). re_expiresAt e \<noteq> zero_time) (rs_items s))"
  have b: "is_heap rx_expiresAt (heap_Init rx_expiresAt ?nodes)" "mset (heap_Init rx_expiresAt ?nodes) = mset ?nodes"
    using slice_heap.build [of rx_expiresAt ?nodes] by auto
  have sets: "set (heap_Init rx_expiresAt ?nodes) = set ?nodes" by (rule mset_eq_setD [OF b(2)])
  have "noded (rs_items s) (heap_Init rx_expiresAt ?nodes)"
    unfolding noded_def sets
  proof (intro allI impI)
    fix rid e assume "(rid, e) \<in> set (rs_items s)" "re_expiresAt e \<noteq> zero_time"
    then have "\<lparr>rx_id = rid, rx_expiresAt = re_expiresAt e, rx_generation = re_generation e\<rparr> \<in> set ?nodes"
      by (auto intro!: image_eqI [where x = "(rid, e)"])
    then show "\<exists>x \<in> set ?nodes. rx_id x = rid \<and> rx_expiresAt x = re_expiresAt e \<and> rx_generation x = re_generation e"
      by (rule rev_bexI) simp
  qed
  with assms b(1) show "store_inv (compactExpirationsLocked s)"
    by (simp add: compactExpirationsLocked_def store_inv_noded)
  show "rs_items (compactExpirationsLocked s) = rs_items s" "rs_capacity (compactExpirationsLocked s) = rs_capacity s"
    by (simp_all add: compactExpirationsLocked_def)
  have "length (heap_Init rx_expiresAt ?nodes) = length ?nodes" by (rule mset_eq_length [OF b(2)])
  also have "\<dots> \<le> length (rs_items s)" by simp
  finally show "len (rs_expirations (compactExpirationsLocked s)) \<le> 2 * len (rs_items s) + 64"
    by (simp add: compactExpirationsLocked_def len_def)
qed

lemma set_alist_set: "set (alist_set k v xs) \<subseteq> insert (k, v) (set xs)"
  by (induction k v xs rule: alist_set.induct) auto

lemma store_entry_spec:
  assumes "store_inv s"
  shows "store_inv (store_entry rid reason ex s)"
    "map_of (rs_items (store_entry rid reason ex s)) = (map_of (rs_items s))(rid \<mapsto>
       \<lparr>re_reason = reason, re_expiresAt = ex, re_generation = rs_generation s + 1\<rparr>)"
    "rs_capacity (store_entry rid reason ex s) = rs_capacity s"
    "len (rs_expirations (store_entry rid reason ex s)) \<le> 2 * len (rs_items (store_entry rid reason ex s)) + 64"
    "length (rs_items (store_entry rid reason ex s)) =
       (if rid \<in> fst ` set (rs_items s) then length (rs_items s) else length (rs_items s) + 1)"
proof -
  let ?e = "\<lparr>re_reason = reason, re_expiresAt = ex, re_generation = rs_generation s + 1\<rparr>"
  let ?x = "\<lparr>rx_id = rid, rx_expiresAt = ex, rx_generation = rs_generation s + 1\<rparr>"
  let ?h = "if ex \<noteq> zero_time then heap_Push rx_expiresAt ?x (rs_expirations s) else rs_expirations s"
  let ?s = "s\<lparr>rs_generation := rs_generation s + 1, rs_items := alist_set rid ?e (rs_items s), rs_expirations := ?h\<rparr>"
  have eq: "store_entry rid reason ex s = compactExpirationsLocked ?s"
    by (auto simp: store_entry_def Let_def)
  have old: "distinct (map fst (rs_items s))" "is_heap rx_expiresAt (rs_expirations s)" "noded (rs_items s) (rs_expirations s)"
    using assms by (auto simp: store_inv_noded)
  have p: "is_heap rx_expiresAt (heap_Push rx_expiresAt ?x (rs_expirations s))"
      "mset (heap_Push rx_expiresAt ?x (rs_expirations s)) = add_mset ?x (mset (rs_expirations s))"
    using slice_heap.push [OF old(2), of ?x] by auto
  have seth: "set (heap_Push rx_expiresAt ?x (rs_expirations s)) = insert ?x (set (rs_expirations s))"
    by (metis p(2) set_mset_add_mset_insert set_mset_mset)
  have mem: "(j, e) = (rid, ?e) \<or> (j, e) \<in> set (rs_items s)" if "(j, e) \<in> set (alist_set rid ?e (rs_items s))" for j e
    using that set_alist_set [of rid ?e "rs_items s"] by auto
  have "noded (alist_set rid ?e (rs_items s)) ?h"
    unfolding noded_def
  proof (intro allI impI)
    fix j e assume je: "(j, e) \<in> set (alist_set rid ?e (rs_items s))" "re_expiresAt e \<noteq> zero_time"
    from mem [OF je(1)] show "\<exists>x \<in> set ?h. rx_id x = j \<and> rx_expiresAt x = re_expiresAt e \<and> rx_generation x = re_generation e"
    proof
      assume "(j, e) = (rid, ?e)"
      then show ?thesis using je(2) by (auto simp: seth)
    next
      assume "(j, e) \<in> set (rs_items s)"
      then have "\<exists>x \<in> set (rs_expirations s). rx_id x = j \<and> rx_expiresAt x = re_expiresAt e \<and> rx_generation x = re_generation e"
        using old(3) je(2) unfolding noded_def by blast
      then show ?thesis by (auto simp: seth)
    qed
  qed
  then have inv: "store_inv ?s"
    using old p(1) by (simp add: store_inv_noded distinct_alist_set)
  note c = compact_spec [OF inv]
  show "store_inv (store_entry rid reason ex s)" "rs_capacity (store_entry rid reason ex s) = rs_capacity s"
    "map_of (rs_items (store_entry rid reason ex s)) = (map_of (rs_items s))(rid \<mapsto> ?e)"
    "len (rs_expirations (store_entry rid reason ex s)) \<le> 2 * len (rs_items (store_entry rid reason ex s)) + 64"
    "length (rs_items (store_entry rid reason ex s)) =
       (if rid \<in> fst ` set (rs_items s) then length (rs_items s) else length (rs_items s) + 1)"
    using c unfolding eq by (simp_all add: length_alist_set)
qed

section \<open>The abstract store\<close>

text \<open>A map from identifiers to expiry times, and what time leaves of it.\<close>

definition rs_view :: "revocation_store \<Rightarrow> string \<rightharpoonup> time" where
  "rs_view s = (\<lambda>rid. map_option re_expiresAt (map_of (rs_items s) rid))"

definition prune :: "time \<Rightarrow> (string \<rightharpoonup> time) \<Rightarrow> string \<rightharpoonup> time" where
  "prune now m = (\<lambda>rid. case m rid of None \<Rightarrow> None | Some e \<Rightarrow> if live_until e now then Some e else None)"

definition spec_revoke :: "time \<Rightarrow> string \<Rightarrow> time \<Rightarrow> int \<Rightarrow> (string \<rightharpoonup> time) \<Rightarrow> go_error option \<times> (string \<rightharpoonup> time)" where
  "spec_revoke now rid ex cap m =
     (let m = prune now m
      in if \<not> live_until ex now then (None, m(rid := None))
         else if rid \<notin> dom m \<and> cap > 0 \<and> int (card (dom m)) \<ge> cap then (Some [ErrRevocationStoreFull], m)
         else (None, m(rid \<mapsto> ex)))"

lemma map_of_filter_value:
  "distinct (map fst xs) \<Longrightarrow>
   map_of (filter (\<lambda>(k, v). P v) xs) k = (case map_of xs k of None \<Rightarrow> None | Some v \<Rightarrow> if P v then Some v else None)"
proof (induction xs)
  case (Cons x xs)
  obtain a b where x: "x = (a, b)" by (cases x)
  have "a \<notin> fst ` set xs" using Cons.prems x by simp
  then have "map_of xs a = None" by (simp add: map_of_eq_None_iff)
  with Cons x show ?case by auto
qed simp

lemma card_dom_view: "distinct (map fst (rs_items s)) \<Longrightarrow> card (dom (rs_view s)) = length (rs_items s)"
proof -
  assume d: "distinct (map fst (rs_items s))"
  have "dom (rs_view s) = dom (map_of (rs_items s))" by (auto simp: rs_view_def)
  then have "dom (rs_view s) = fst ` set (rs_items s)" by (simp add: dom_map_of_conv_image_fst)
  then show ?thesis using d distinct_card [OF d] by simp
qed

lemma removeExpired_view: "store_inv s \<Longrightarrow> rs_view (removeExpiredLocked now s) = prune now (rs_view s)"
proof -
  assume inv: "store_inv s"
  then have "distinct (map fst (rs_items s))" by (simp add: store_inv_def)
  from map_of_filter_value [OF this, of "\<lambda>e. live e now"] removeExpiredLocked_spec(2) [OF inv, of now]
  show ?thesis by (auto simp: rs_view_def prune_def fun_eq_iff live_def split: option.splits)
qed

lemma Revoke_refines:
  assumes "store_inv s" "rid \<noteq> []" "Revoke now rid reason ex s = (err, s')"
  shows "store_inv s'" "rs_capacity s' = rs_capacity s"
    "spec_revoke now rid ex (rs_capacity s) (rs_view s) = (err, rs_view s')"
proof -
  let ?r = "removeExpiredLocked now s"
  note r = removeExpiredLocked_spec [OF assms(1), of now] and v = removeExpired_view [OF assms(1), of now]
  have dom: "rid \<notin> dom (rs_view ?r) \<longleftrightarrow> map_of (rs_items ?r) rid = None" by (auto simp: rs_view_def)
  have card: "card (dom (rs_view ?r)) = length (rs_items ?r)"
    using card_dom_view r(1) by (simp add: store_inv_def)
  have inert: "ex \<noteq> zero_time \<and> \<not> ex > now \<longleftrightarrow> \<not> live_until ex now" by (auto simp: live_until_def)
  let ?full = "map_of (rs_items ?r) rid = None \<and> rs_capacity s > 0 \<and> len (rs_items ?r) \<ge> rs_capacity s"
  have step: "(err, s') = (if \<not> live_until ex now then (None, ?r\<lparr>rs_items := alist_delete rid (rs_items ?r)\<rparr>)
      else if ?full then (Some [ErrRevocationStoreFull], ?r) else (None, store_entry rid reason ex ?r))"
    using assms(2,3) unfolding Revoke_def Let_def inert r(3) by simp
  have full: "?full \<longleftrightarrow> rid \<notin> dom (rs_view ?r) \<and> rs_capacity s > 0 \<and> int (card (dom (rs_view ?r))) \<ge> rs_capacity s"
    unfolding dom card by (simp add: len_def)
  have spec: "spec_revoke now rid ex (rs_capacity s) (rs_view s) =
      (if \<not> live_until ex now then (None, (rs_view ?r)(rid := None))
       else if ?full then (Some [ErrRevocationStoreFull], rs_view ?r) else (None, (rs_view ?r)(rid \<mapsto> ex)))"
    unfolding full spec_revoke_def v [symmetric] Let_def ..
  have "store_inv s' \<and> rs_capacity s' = rs_capacity s \<and> spec_revoke now rid ex (rs_capacity s) (rs_view s) = (err, rs_view s')"
  proof (cases "live_until ex now")
    case False
    then have e: "err = None" "s' = ?r\<lparr>rs_items := alist_delete rid (rs_items ?r)\<rparr>" using step by auto
    have "store_inv s'"
      using r(1) unfolding e(2) store_inv_noded noded_def by (auto simp: distinct_alist_delete) (auto simp: alist_delete_def)
    moreover have "rs_view s' = (rs_view ?r)(rid := None)" by (auto simp: e rs_view_def fun_eq_iff)
    ultimately show ?thesis using False e r(3) by (simp add: spec)
  next
    case lv: True
    show ?thesis
    proof (cases ?full)
      case True
      then show ?thesis using lv step r(1,3) by (simp add: spec)
    next
      case False
      then have e: "err = None" "s' = store_entry rid reason ex ?r" using lv step by auto
      note st = store_entry_spec [OF r(1), of rid reason ex]
      have "rs_view s' = (rs_view ?r)(rid \<mapsto> ex)" by (auto simp: e rs_view_def st(2) fun_eq_iff)
      then show ?thesis using lv False e st(1,3) r(3) unfolding spec by simp
    qed
  qed
  then show "store_inv s'" "rs_capacity s' = rs_capacity s"
    "spec_revoke now rid ex (rs_capacity s) (rs_view s) = (err, rs_view s')" by auto
qed

lemma IsRevoked_refines:
  assumes "store_inv s" "rid \<noteq> []"
  shows "\<exists>s'. IsRevoked now rid s = (Inr (rid \<in> dom (prune now (rs_view s))), s') \<and> store_inv s'
     \<and> rs_view s' = prune now (rs_view s) \<and> rs_capacity s' = rs_capacity s"
proof -
  let ?r = "removeExpiredLocked now s"
  have "rid \<in> dom (prune now (rs_view s)) \<longleftrightarrow> map_of (rs_items ?r) rid \<noteq> None"
    unfolding removeExpired_view [OF assms(1), symmetric] by (auto simp: rs_view_def)
  then show ?thesis
    using removeExpiredLocked_spec [OF assms(1), of now] removeExpired_view [OF assms(1), of now] assms(2)
    by (simp add: IsRevoked_def Let_def)
qed

section \<open>The contract of a revocation store\<close>

datatype rev_op = RevokeOp time string string time | QueryOp time string

fun op_time :: "rev_op \<Rightarrow> time" where
  "op_time (RevokeOp t _ _ _) = t"
| "op_time (QueryOp t _) = t"

fun op_id :: "rev_op \<Rightarrow> string" where
  "op_id (RevokeOp _ i _ _) = i"
| "op_id (QueryOp _ i) = i"

type_synonym 's revoke_fun = "time \<Rightarrow> string \<Rightarrow> string \<Rightarrow> time \<Rightarrow> 's \<Rightarrow> go_error option \<times> 's"
type_synonym 's query_fun = "time \<Rightarrow> string \<Rightarrow> 's \<Rightarrow> bool result \<times> 's"

fun run_rev :: "'s revoke_fun \<Rightarrow> 's query_fun \<Rightarrow> rev_op \<Rightarrow> 's \<Rightarrow> 's" where
  "run_rev revoke query (RevokeOp t i r e) s = snd (revoke t i r e s)"
| "run_rev revoke query (QueryOp t i) s = snd (query t i s)"

text \<open>The expiry of the last revocation of an identifier in a history.\<close>

fun last_expiry :: "rev_op list \<Rightarrow> string \<Rightarrow> time option \<Rightarrow> time option" where
  "last_expiry [] j acc = acc"
| "last_expiry (RevokeOp t i r e # ops) j acc = last_expiry ops j (if i = j then Some e else acc)"
| "last_expiry (QueryOp t i # ops) j acc = last_expiry ops j acc"

definition expiry_live :: "time option \<Rightarrow> time \<Rightarrow> bool" where
  "expiry_live e t \<longleftrightarrow> (case e of None \<Rightarrow> False | Some x \<Rightarrow> live_until x t)"

locale revocations =
  fixes valid :: "'s \<Rightarrow> bool" and view :: "'s \<Rightarrow> string \<rightharpoonup> time" and empty :: 's
    and revoke :: "'s revoke_fun" and query :: "'s query_fun"
  assumes empty: "valid empty \<and> view empty = Map.empty"
    and revoke: "valid s \<Longrightarrow> rid \<noteq> [] \<Longrightarrow> now \<le> t \<Longrightarrow> revoke now rid reason e s = (err, s') \<Longrightarrow>
      err = None \<and> valid s' \<and> expiry_live (view s' j) t = expiry_live (if rid = j then Some e else view s j) t"
    and query: "valid s \<Longrightarrow> rid \<noteq> [] \<Longrightarrow> now \<le> t \<Longrightarrow> query now rid s = (r, s') \<Longrightarrow>
      r = Inr (expiry_live (view s rid) now) \<and> valid s' \<and> expiry_live (view s' j) t = expiry_live (view s j) t"
begin

lemma history:
  assumes "valid s" "\<forall>p \<in> set ops. op_id p \<noteq> [] \<and> op_time p \<le> t"
    "expiry_live (view s j) t = expiry_live acc t"
  shows "valid (fold (run_rev revoke query) ops s) \<and>
     expiry_live (view (fold (run_rev revoke query) ops s) j) t = expiry_live (last_expiry ops j acc) t"
  using assms
proof (induction ops arbitrary: s acc)
  case (Cons p ops)
  show ?case
  proof (cases p)
    case (RevokeOp now rid r e)
    obtain err s' where s': "revoke now rid r e s = (err, s')" by (cases "revoke now rid r e s")
    have "valid s'" "expiry_live (view s' j) t = expiry_live (if rid = j then Some e else acc) t"
      using revoke [OF Cons.prems(1) _ _ s', of t j] Cons.prems(2,3) RevokeOp by auto
    from Cons.IH [OF this(1) _ this(2)] Cons.prems(2) RevokeOp s' show ?thesis by simp
  next
    case (QueryOp now rid)
    obtain b s' where s': "query now rid s = (b, s')" by (cases "query now rid s")
    have "valid s'" "expiry_live (view s' j) t = expiry_live acc t"
      using query [OF Cons.prems(1) _ _ s', of t j] Cons.prems(2,3) QueryOp by auto
    from Cons.IH [OF this(1) _ this(2)] Cons.prems(2) QueryOp s' show ?thesis by simp
  qed
qed simp

lemma query_after_history:
  assumes "\<forall>p \<in> set ops. op_id p \<noteq> [] \<and> op_time p \<le> t" "j \<noteq> []"
  shows "fst (query t j (fold (run_rev revoke query) ops empty)) = Inr (expiry_live (last_expiry ops j None) t)"
proof -
  let ?s = "fold (run_rev revoke query) ops empty"
  have h: "valid ?s" "expiry_live (view ?s j) t = expiry_live (last_expiry ops j None) t"
    using history [OF _ assms(1), of empty j None] empty by auto
  obtain b s' where q: "query t j ?s = (b, s')" by (cases "query t j ?s")
  from query [OF h(1) assms(2) order_refl q] h(2) q show ?thesis by simp
qed

end

lemma expiry_live_prune: "now \<le> t \<Longrightarrow> expiry_live (prune now m j) t = expiry_live (m j) t"
  by (auto simp: expiry_live_def prune_def live_until_def split: option.splits)

lemma dom_prune: "rid \<in> dom (prune now m) \<longleftrightarrow> expiry_live (m rid) now"
  by (auto simp: prune_def expiry_live_def split: option.splits if_splits)

definition unbounded :: "revocation_store \<Rightarrow> bool" where
  "unbounded s \<longleftrightarrow> store_inv s \<and> rs_capacity s = 0"

lemma new_store_inv: "store_inv (newMemoryRevocationStore cap)"
  by (simp add: store_inv_def newMemoryRevocationStore_def heap_from_def)

interpretation mem: revocations unbounded rs_view NewMemoryRevocationStore Revoke IsRevoked
proof
  show "unbounded NewMemoryRevocationStore \<and> rs_view NewMemoryRevocationStore = Map.empty"
    using new_store_inv [of 0]
    by (auto simp: unbounded_def NewMemoryRevocationStore_def rs_view_def newMemoryRevocationStore_def)
next
  fix s s' rid reason err j and now t e :: time
  assume a: "unbounded s" "rid \<noteq> []" "now \<le> t" "Revoke now rid reason e s = (err, s')"
  then have inv: "store_inv s" by (simp add: unbounded_def)
  note r = Revoke_refines [OF inv a(2,4)]
  have sp: "(err, rs_view s') = (if \<not> live_until e now then (None, (prune now (rs_view s))(rid := None))
      else (None, (prune now (rs_view s))(rid \<mapsto> e)))"
    using r(3) a(1) by (simp add: spec_revoke_def unbounded_def Let_def split: if_splits)
  have nl: "\<not> live_until e now \<Longrightarrow> \<not> live_until e t" using a(3) by (auto simp: live_until_def)
  show "err = None \<and> unbounded s' \<and> expiry_live (rs_view s' j) t = expiry_live (if rid = j then Some e else rs_view s j) t"
  proof (intro conjI)
    show "err = None" using sp by (auto split: if_splits)
    show "unbounded s'" using r(1,2) a(1) by (simp add: unbounded_def)
    have "rs_view s' = (if \<not> live_until e now then (prune now (rs_view s))(rid := None) else (prune now (rs_view s))(rid \<mapsto> e))"
      using sp by (auto split: if_splits)
    then show "expiry_live (rs_view s' j) t = expiry_live (if rid = j then Some e else rs_view s j) t"
      using nl expiry_live_prune [OF a(3), of "rs_view s" j] by (auto simp: expiry_live_def split: if_splits)
  qed
next
  fix s s' rid r j and now t :: time
  assume a: "unbounded s" "rid \<noteq> []" "now \<le> t" "IsRevoked now rid s = (r, s')"
  then have inv: "store_inv s" by (simp add: unbounded_def)
  from IsRevoked_refines [OF inv a(2), of now] a
  have q: "r = Inr (rid \<in> dom (prune now (rs_view s)))" "unbounded s'" "rs_view s' = prune now (rs_view s)"
    by (auto simp: unbounded_def)
  then show "r = Inr (expiry_live (rs_view s rid) now) \<and> unbounded s' \<and> expiry_live (rs_view s' j) t = expiry_live (rs_view s j) t"
    using expiry_live_prune [OF a(3)] dom_prune [of rid now "rs_view s"] by simp
qed

definition fs_view :: "fake_store \<Rightarrow> string \<rightharpoonup> time" where
  "fs_view s = (\<lambda>rid. map_option snd (map_of (fs_entries s) rid))"

interpretation fake: revocations "\<lambda>s. fs_Err s = None" fs_view NewFakeRevocationStore fake_Revoke fake_IsRevoked
proof
  show "fs_Err NewFakeRevocationStore = None \<and> fs_view NewFakeRevocationStore = Map.empty"
    by (simp add: NewFakeRevocationStore_def fs_view_def)
next
  fix s s' rid reason err j and now t e :: time
  assume "fs_Err s = None" "rid \<noteq> []" "now \<le> t" "fake_Revoke now rid reason e s = (err, s')"
  then show "err = None \<and> fs_Err s' = None \<and> expiry_live (fs_view s' j) t = expiry_live (if rid = j then Some e else fs_view s j) t"
    by (auto simp: fake_Revoke_def fs_view_def expiry_live_def)
next
  fix s s' rid r j and now t :: time
  assume "fs_Err s = None" "rid \<noteq> []" "now \<le> t" "fake_IsRevoked now rid s = (r, s')"
  then show "r = Inr (expiry_live (fs_view s rid) now) \<and> fs_Err s' = None \<and> expiry_live (fs_view s' j) t = expiry_live (fs_view s j) t"
    by (auto simp: fake_IsRevoked_def fs_view_def expiry_live_def live_until_def split: option.splits if_splits)
qed

section \<open>Reachable stores\<close>

inductive reachable_store :: "int \<Rightarrow> revocation_store \<Rightarrow> bool" for cap where
  new: "reachable_store cap (newMemoryRevocationStore cap)"
| revoke: "reachable_store cap s \<Longrightarrow> Revoke now rid reason ex s = (err, s') \<Longrightarrow> reachable_store cap s'"
| query: "reachable_store cap s \<Longrightarrow> IsRevoked now rid s = (r, s') \<Longrightarrow> reachable_store cap s'"

lemma removeExpired_len: "store_inv s \<Longrightarrow> len (rs_items (removeExpiredLocked now s)) \<le> len (rs_items s)"
  by (simp add: removeExpiredLocked_spec len_def)

lemma alist_delete_len: "len (alist_delete k xs) \<le> len xs"
  by (simp add: alist_delete_def len_def)

lemma Revoke_capacity:
  assumes "store_inv s" "rs_capacity s = cap" "0 < cap" "len (rs_items s) \<le> cap" "Revoke now rid reason ex s = (err, s')"
  shows "len (rs_items s') \<le> cap"
proof -
  let ?r = "removeExpiredLocked now s"
  have r: "store_inv ?r" "len (rs_items ?r) \<le> cap" "rs_capacity ?r = cap"
    using removeExpired_len [OF assms(1), of now] removeExpiredLocked_spec [OF assms(1), of now] assms(2,4) by auto
  have "len (alist_delete rid (rs_items ?r)) \<le> cap" using alist_delete_len [of rid "rs_items ?r"] r(2) by simp
  moreover have "len (rs_items (store_entry rid reason ex ?r)) \<le> cap"
    if "\<not> (map_of (rs_items ?r) rid = None \<and> rs_capacity ?r > 0 \<and> len (rs_items ?r) \<ge> rs_capacity ?r)"
    using that r(2,3) assms(3) store_entry_spec(5) [OF r(1), of rid reason ex]
    by (auto simp: len_def map_of_eq_None_iff split: if_splits)
  ultimately show ?thesis using assms(4,5) r(2) by (auto simp: Revoke_def Let_def split: if_splits)
qed

lemma reachable_store_inv:
  "reachable_store cap s \<Longrightarrow> store_inv s \<and> rs_capacity s = cap \<and> (0 < cap \<longrightarrow> len (rs_items s) \<le> cap)"
proof (induction rule: reachable_store.induct)
  case new
  show ?case using new_store_inv by (simp add: newMemoryRevocationStore_def)
next
  case (revoke s now rid reason ex err s')
  show ?case
  proof (cases "rid = []")
    case True
    with revoke show ?thesis by (simp add: Revoke_def)
  next
    case False
    with revoke Revoke_refines [of s rid now reason ex err s'] Revoke_capacity [of s cap now rid reason ex err s']
    show ?thesis by auto
  qed
next
  case (query s now rid r s')
  show ?case
  proof (cases "rid = []")
    case True
    with query show ?thesis by (simp add: IsRevoked_def)
  next
    case False
    with query show ?thesis
      using removeExpiredLocked_spec [of s now] removeExpired_len [of s now] by (auto simp: IsRevoked_def Let_def)
  qed
qed

subsection \<open>Histories\<close>

lemma reachable_store_step: "reachable_store cap s \<Longrightarrow> reachable_store cap (run_rev Revoke IsRevoked p s)"
  by (cases p) (auto intro: reachable_store.revoke [OF _ surjective_pairing] reachable_store.query [OF _ surjective_pairing])

lemma reachable_store_fold: "reachable_store cap s \<Longrightarrow> reachable_store cap (fold (run_rev Revoke IsRevoked) ops s)"
  by (induction ops arbitrary: s) (auto intro: reachable_store_step)

text \<open>The most entries the store has held at one time.\<close>

fun most_items :: "rev_op list \<Rightarrow> revocation_store \<Rightarrow> int" where
  "most_items [] s = len (rs_items s)"
| "most_items (p # ops) s = max (len (rs_items s)) (most_items ops (run_rev Revoke IsRevoked p s))"

lemma most_items_nonneg: "0 \<le> most_items ops s"
  by (induction ops arbitrary: s) (auto simp: le_max_iff_disj)

lemma most_items_now: "len (rs_items s) \<le> most_items ops s"
  by (cases ops) auto

lemma most_items_capacity: "reachable_store cap s \<Longrightarrow> 0 < cap \<Longrightarrow> most_items ops s \<le> cap"
  using reachable_store_inv by (induction ops arbitrary: s) (auto intro: reachable_store_step)

lemma Revoke_nodes:
  assumes "store_inv s" "rid \<noteq> []" "live_until ex now" "Revoke now rid reason ex s = (None, s')"
  shows "len (rs_expirations s') \<le> 2 * len (rs_items s') + 64"
proof -
  have "s' = store_entry rid reason ex (removeExpiredLocked now s)"
    using assms(2-4) by (auto simp: Revoke_def Let_def live_until_def split: if_splits)
  then show ?thesis using store_entry_spec(4) removeExpiredLocked_spec(1) [OF assms(1)] by blast
qed

lemma nodes_step:
  assumes "store_inv s" "s' = run_rev Revoke IsRevoked p s"
  shows "len (rs_expirations s') \<le> max (len (rs_expirations s)) (2 * len (rs_items s') + 64)"
proof -
  have r: "len (rs_expirations (removeExpiredLocked now s)) \<le> len (rs_expirations s)" for now
    using removeExpiredLocked_spec(4) [OF assms(1)] by (simp add: len_def)
  show ?thesis
  proof (cases p)
    case (RevokeOp now rid reason ex)
    obtain err where e: "Revoke now rid reason ex s = (err, s')" using assms(2) RevokeOp by (cases "Revoke now rid reason ex s") simp
    show ?thesis
    proof (cases "rid \<noteq> [] \<and> live_until ex now \<and> err = None")
      case True
      then have "len (rs_expirations s') \<le> 2 * len (rs_items s') + 64" using Revoke_nodes [OF assms(1)] e by blast
      then show ?thesis by simp
    next
      case False
      then have "s' = s \<or> rs_expirations s' = rs_expirations (removeExpiredLocked now s)"
        using e by (auto simp: Revoke_def Let_def live_until_def split: if_splits)
      with r [of now] show ?thesis by auto
    qed
  next
    case (QueryOp now rid)
    with assms(2) r [of now] show ?thesis by (auto simp: IsRevoked_def Let_def)
  qed
qed

lemma nodes_history:
  "reachable_store cap s \<Longrightarrow> len (rs_expirations s) \<le> 2 * m + 64 \<Longrightarrow>
   len (rs_expirations (fold (run_rev Revoke IsRevoked) ops s)) \<le> 2 * max m (most_items ops s) + 64"
proof (induction ops arbitrary: s m)
  case (Cons p ops)
  let ?s = "run_rev Revoke IsRevoked p s"
  have "len (rs_expirations ?s) \<le> 2 * max m (len (rs_items ?s)) + 64"
    using nodes_step [of s ?s p] reachable_store_inv [OF Cons.prems(1)] Cons.prems(2) by auto
  from Cons.IH [OF reachable_store_step [OF Cons.prems(1)] this] most_items_now [of ?s ops] show ?case by auto
qed auto

section \<open>Properties\<close>

text \<open>
  C28: in any history of calls, with a clock that has not run past the query, an identifier is
  reported revoked exactly when its last revocation has no expiry or one still in the future;
  the unbounded in-memory store and the fake store of \<^verbatim>\<open>jwttest\<close> both answer so, without an
  error.  Replacing a revocation, expiry and the pruning of the heap never change an answer.
\<close>

theorem revocation_history:
  assumes "\<forall>p \<in> set ops. op_id p \<noteq> [] \<and> op_time p \<le> t" "j \<noteq> []"
  shows "fst (IsRevoked t j (fold (run_rev Revoke IsRevoked) ops NewMemoryRevocationStore)) = Inr (expiry_live (last_expiry ops j None) t)
    \<and> fst (fake_IsRevoked t j (fold (run_rev fake_Revoke fake_IsRevoked) ops NewFakeRevocationStore)) = Inr (expiry_live (last_expiry ops j None) t)"
  using mem.query_after_history [OF assms] fake.query_after_history [OF assms] by blast

theorem revocation_history_witness:
  "fst (IsRevoked 7 ''a'' (fold (run_rev Revoke IsRevoked)
     [RevokeOp 1 ''a'' ReasonLogout 5, QueryOp 2 ''b'', RevokeOp 3 ''a'' ReasonAdmin 9] NewMemoryRevocationStore)) = Inr True"
  using revocation_history [of "[RevokeOp 1 ''a'' ReasonLogout 5, QueryOp 2 ''b'', RevokeOp 3 ''a'' ReasonAdmin 9]" 7 "''a''"]
  by (simp add: expiry_live_def live_until_def)

text \<open>
  C5: the store refines a plain map of expiry times, whatever its capacity and whatever calls it has
  seen.  A new store is the empty map.  \<^verbatim>\<open>Revoke\<close>: what has expired goes, an expired revocation
  removes the identifier, a new identifier beyond the capacity is refused with nothing else
  changed (no live revocation is evicted), and otherwise the identifier gets the new expiry.
  \<^verbatim>\<open>IsRevoked\<close>: the answer is whether the identifier has an entry that is still live, and what has
  expired goes.  Both refuse an empty identifier and then change nothing.
\<close>

theorem revoke_refines_map:
  assumes "reachable_store cap s"
  shows "rs_view (newMemoryRevocationStore cap) = Map.empty
    \<and> map_prod id rs_view (Revoke now rid reason ex s) =
        (if rid = [] then (Some [ErrInvalidRevocationID], rs_view s) else spec_revoke now rid ex cap (rs_view s))
    \<and> map_prod id rs_view (IsRevoked now rid s) =
        (if rid = [] then (Inl [ErrInvalidRevocationID], rs_view s)
         else (Inr (expiry_live (rs_view s rid) now), prune now (rs_view s)))"
proof (intro conjI)
  have inv: "store_inv s" "rs_capacity s = cap" using reachable_store_inv [OF assms] by auto
  obtain err s' where r: "Revoke now rid reason ex s = (err, s')" by (cases "Revoke now rid reason ex s")
  show "map_prod id rs_view (Revoke now rid reason ex s) =
      (if rid = [] then (Some [ErrInvalidRevocationID], rs_view s) else spec_revoke now rid ex cap (rs_view s))"
    using Revoke_refines(3) [OF inv(1) _ r] inv(2) r by (auto simp: Revoke_def)
  show "map_prod id rs_view (IsRevoked now rid s) =
      (if rid = [] then (Inl [ErrInvalidRevocationID], rs_view s) else (Inr (expiry_live (rs_view s rid) now), prune now (rs_view s)))"
    using IsRevoked_refines [OF inv(1), of rid now] dom_prune [of rid now "rs_view s"] by (auto simp: IsRevoked_def)
qed (simp add: rs_view_def newMemoryRevocationStore_def)

theorem revoke_refines_map_witness:
  "map_prod id rs_view (Revoke 1 ''a'' ReasonLogout 9 (newMemoryRevocationStore 1)) = (None, [''a'' \<mapsto> 9])
   \<and> fst (IsRevoked 10 ''a'' (snd (Revoke 1 ''a'' ReasonLogout 9 (newMemoryRevocationStore 1)))) = Inr False"
proof -
  let ?s = "newMemoryRevocationStore 1"
  have n: "reachable_store 1 ?s" by (rule reachable_store.new)
  have v: "rs_view ?s = Map.empty" by (simp add: rs_view_def newMemoryRevocationStore_def)
  have 1: "map_prod id rs_view (Revoke 1 ''a'' ReasonLogout 9 ?s) = (None, [''a'' \<mapsto> 9])"
    using revoke_refines_map [OF n, of 1 "''a''" ReasonLogout 9] by (simp add: v spec_revoke_def prune_def live_until_def)
  obtain err s' where r: "Revoke 1 ''a'' ReasonLogout 9 ?s = (err, s')" by (cases "Revoke 1 ''a'' ReasonLogout 9 ?s")
  have v': "rs_view s' = [''a'' \<mapsto> 9]" using 1 r by simp
  have "fst (map_prod id rs_view (IsRevoked 10 ''a'' s')) = Inr False"
    using revoke_refines_map [OF reachable_store.revoke [OF n r], of 10 "''a''" ReasonLogout 0]
    by (simp add: v' expiry_live_def live_until_def zero_time_def)
  then show ?thesis using 1 r by simp
qed

text \<open>
  C29: after any history of calls, with any clock readings, on an unbounded store or on one with a
  capacity: a bounded store holds no more entries than its capacity and no more than twice
  that many expiry nodes, plus 64; any store has at most twice as many nodes as the most
  entries it has held at one time, plus 64; and right after a call that has stored a live
  revocation the nodes are at most twice the entries then held, plus 64.
\<close>

theorem revocation_store_bounds:
  assumes "s0 = NewMemoryRevocationStore \<and> cap = 0 \<or> NewMemoryRevocationStoreWithCapacity cap = Inr s0"
    "s = fold (run_rev Revoke IsRevoked) ops s0"
  shows "(0 < cap \<longrightarrow> len (rs_items s) \<le> cap \<and> len (rs_expirations s) \<le> 2 * cap + 64)
    \<and> len (rs_expirations s) \<le> 2 * most_items ops s0 + 64
    \<and> (\<forall>now rid reason ex s'. rid \<noteq> [] \<longrightarrow> live_until ex now \<longrightarrow> Revoke now rid reason ex s = (None, s') \<longrightarrow>
         len (rs_expirations s') \<le> 2 * len (rs_items s') + 64)"
proof -
  have n: "s0 = newMemoryRevocationStore cap"
    using assms(1) by (auto simp: NewMemoryRevocationStore_def NewMemoryRevocationStoreWithCapacity_def split: if_splits)
  then have r0: "reachable_store cap s0" by (simp add: reachable_store.new)
  have z: "len (rs_expirations s0) \<le> 2 * 0 + 64" by (simp add: n newMemoryRevocationStore_def len_def)
  have r: "reachable_store cap s" unfolding assms(2) by (rule reachable_store_fold [OF r0])
  have h: "len (rs_expirations s) \<le> 2 * max 0 (most_items ops s0) + 64"
    unfolding assms(2) by (rule nodes_history [OF r0 z])
  moreover have "0 \<le> most_items ops s0" using most_items_nonneg .
  moreover have "most_items ops s0 \<le> cap" if "0 < cap" by (rule most_items_capacity [OF r0 that])
  moreover have "0 < cap \<longrightarrow> len (rs_items s) \<le> cap" using reachable_store_inv [OF r] by blast
  moreover have "len (rs_expirations s') \<le> 2 * len (rs_items s') + 64"
    if "rid \<noteq> []" "live_until ex now" "Revoke now rid reason ex s = (None, s')" for now rid reason ex s'
    using that reachable_store_inv [OF r] by (intro Revoke_nodes) auto
  ultimately show ?thesis by auto
qed

theorem revocation_store_bounds_witness:
  "len (rs_expirations (fold (run_rev Revoke IsRevoked) [RevokeOp 1 ''a'' ReasonLogout 9, RevokeOp 2 ''b'' ReasonAdmin 9, QueryOp 3 ''a'']
     (newMemoryRevocationStore 1))) \<le> 66"
  using revocation_store_bounds [OF disjI2 refl, of 1 "newMemoryRevocationStore 1"
      "[RevokeOp 1 ''a'' ReasonLogout 9, RevokeOp 2 ''b'' ReasonAdmin 9, QueryOp 3 ''a'']"]
  by (simp add: NewMemoryRevocationStoreWithCapacity_def)

end
