(* ===== verification/ParseIP.thy ===== *)
theory ParseIP
  imports Claims
begin

text \<open>
  \<^verbatim>\<open>net.ParseIP\<close> of the standard library, which the default URL policy of \<^verbatim>\<open>keyfetch.go\<close> asks
  whether a host is an IP literal: \<^verbatim>\<open>netip.ParseAddr\<close> with its IPv4 and IPv6 readers, refusing
  a zone.  An address is its 16 bytes, an IPv4 one in the mapped form.

  \<open>ip_text\<close> is the notation of the RFCs, independent of the parser: dotted quads, eight groups of up
  to four hexadecimal digits, the \<^verbatim>\<open>::\<close> abbreviation, and a dotted quad in place of the last two
  groups.  Shown: \<^verbatim>\<open>ParseIP\<close> reads every such text as the address it denotes, so that no
  spelling of an address in that notation escapes the policy.
\<close>

section \<open>The parser\<close>

text \<open>\<^verbatim>\<open>parseIPv4Fields\<close>: the value and the number of digits of the field being read, the fields
  before it, and whether the last byte was a dot or there was none.\<close>

fun parseIPv4Fields :: "int \<Rightarrow> nat \<Rightarrow> int list \<Rightarrow> bool \<Rightarrow> string \<Rightarrow> int list option" where
  "parseIPv4Fields v digLen fs edge [] = (if length fs < 3 then None else Some (fs @ [v]))"
| "parseIPv4Fields v digLen fs edge (c # s) =
     (if isDigit c then
        if digLen = 1 \<and> v = 0 then None
        else if v * 10 + digit_val c > 255 then None
        else parseIPv4Fields (v * 10 + digit_val c) (digLen + 1) fs False s
      else if c = CHR ''.'' then
        if edge \<or> s = [] then None
        else if length fs = 3 then None
        else parseIPv4Fields 0 0 (fs @ [v]) True s
      else None)"

definition parseIPv4 :: "string \<Rightarrow> int list option" where
  "parseIPv4 s = parseIPv4Fields 0 0 [] True s"

fun hex_group :: "nat \<Rightarrow> int \<Rightarrow> string \<Rightarrow> (nat \<times> int \<times> string) option" where
  "hex_group off acc [] = Some (off, acc, [])"
| "hex_group off acc (c # s) =
     (case hex_val c of
        None \<Rightarrow> Some (off, acc, c # s)
      | Some x \<Rightarrow>
          if off > 3 then None
          else if acc * 16 + x > 65535 then None
          else hex_group (off + 1) (acc * 16 + x) s)"

text \<open>The loop of \<^verbatim>\<open>parseIPv6\<close>, with the groups still to fill, the bytes read, the position of the
  \<^verbatim>\<open>::\<close> and the input left.\<close>

fun ipv6_groups :: "nat \<Rightarrow> int list \<Rightarrow> nat option \<Rightarrow> string \<Rightarrow> (int list \<times> nat option \<times> string) option" where
  "ipv6_groups 0 ip ellipsis s = Some (ip, ellipsis, s)"
| "ipv6_groups (Suc n) ip ellipsis s =
     (case hex_group 0 0 s of
        None \<Rightarrow> None
      | Some (off, acc, r) \<Rightarrow>
          if off = 0 then None
          else if r \<noteq> [] \<and> hd r = CHR ''.'' then
            if ellipsis = None \<and> length ip \<noteq> 12 then None
            else if length ip + 4 > 16 then None
            else (case parseIPv4Fields 0 0 [] True s of None \<Rightarrow> None | Some fs \<Rightarrow> Some (ip @ fs, ellipsis, []))
          else
            let ip' = ip @ [acc div 256, acc mod 256]
            in if r = [] then Some (ip', ellipsis, [])
               else if hd r \<noteq> CHR '':'' then None
               else if tl r = [] then None
               else if hd (tl r) = CHR '':'' then
                 if ellipsis \<noteq> None then None
                 else if tl (tl r) = [] then Some (ip', Some (length ip'), [])
                 else ipv6_groups n ip' (Some (length ip')) (tl (tl r))
               else ipv6_groups n ip' ellipsis (tl r))"

definition expand_ellipsis :: "int list \<times> nat option \<times> string \<Rightarrow> int list option" where
  "expand_ellipsis r =
     (case r of (ip, ellipsis, s) \<Rightarrow>
        if s \<noteq> [] then None
        else if length ip < 16 then
          (case ellipsis of None \<Rightarrow> None | Some e \<Rightarrow> Some (take e ip @ replicate (16 - length ip) 0 @ drop e ip))
        else if ellipsis \<noteq> None then None
        else Some ip)"

definition parseIPv6_text :: "string \<Rightarrow> int list option" where
  "parseIPv6_text s =
     (if has_prefix s ''::'' then
        if drop 2 s = [] then Some (replicate 16 0)
        else Option.bind (ipv6_groups 8 [] (Some 0) (drop 2 s)) expand_ellipsis
      else Option.bind (ipv6_groups 8 [] None s) expand_ellipsis)"

definition parseIPv6 :: "string \<Rightarrow> (int list \<times> string) option" where
  "parseIPv6 inp =
     (case cut CHR ''%'' inp of (s, zone, found) \<Rightarrow>
        if found \<and> zone = [] then None else map_option (\<lambda>ip. (ip, zone)) (parseIPv6_text s))"

definition v4_mapped :: "int list \<Rightarrow> int list" where
  "v4_mapped fs = replicate 10 0 @ [255, 255] @ fs"

definition ParseAddr :: "string \<Rightarrow> (int list \<times> string) option" where
  "ParseAddr s =
     (case find (\<lambda>c. c = CHR ''.'' \<or> c = CHR '':'' \<or> c = CHR ''%'') s of
        None \<Rightarrow> None
      | Some c \<Rightarrow>
          if c = CHR ''.'' then map_option (\<lambda>fs. (v4_mapped fs, [])) (parseIPv4 s)
          else if c = CHR '':'' then parseIPv6 s
          else None)"

definition ParseIP :: "string \<Rightarrow> int list option" where
  "ParseIP s = (case ParseAddr s of None \<Rightarrow> None | Some (ip, zone) \<Rightarrow> if zone \<noteq> [] then None else Some ip)"

section \<open>The notation\<close>

definition is_byte :: "int \<Rightarrow> bool" where
  "is_byte n \<longleftrightarrow> 0 \<le> n \<and> n \<le> 255"

fun dotted :: "int \<times> int \<times> int \<times> int \<Rightarrow> string" where
  "dotted (a, b, c, d) = join_with ''.'' [nat_digits a, nat_digits b, nat_digits c, nat_digits d]"

fun quad_bytes :: "int \<times> int \<times> int \<times> int \<Rightarrow> int list" where
  "quad_bytes (a, b, c, d) = [a, b, c, d]"

definition quad_ok :: "int \<times> int \<times> int \<times> int \<Rightarrow> bool" where
  "quad_ok q \<longleftrightarrow> list_all is_byte (quad_bytes q)"

definition group_ok :: "string \<Rightarrow> bool" where
  "group_ok g \<longleftrightarrow> g \<noteq> [] \<and> length g \<le> 4 \<and> list_all isHex g"

definition group_val :: "int \<Rightarrow> string \<Rightarrow> int" where
  "group_val acc g = foldl (\<lambda>n c. n * 16 + the (hex_val c)) acc g"

definition group_bytes :: "string \<Rightarrow> int list" where
  "group_bytes g = [group_val 0 g div 256, group_val 0 g mod 256]"

text \<open>A run of groups, perhaps ended by a dotted quad.\<close>

type_synonym ip_run = "string list \<times> (int \<times> int \<times> int \<times> int) option"

definition run_ok :: "ip_run \<Rightarrow> bool" where
  "run_ok r \<longleftrightarrow> list_all group_ok (fst r) \<and> pred_option quad_ok (snd r)"

definition run_text :: "ip_run \<Rightarrow> string" where
  "run_text r = join_with '':'' (fst r @ (case snd r of None \<Rightarrow> [] | Some q \<Rightarrow> [dotted q]))"

definition run_bytes :: "ip_run \<Rightarrow> int list" where
  "run_bytes r = concat (map group_bytes (fst r)) @ (case snd r of None \<Rightarrow> [] | Some q \<Rightarrow> quad_bytes q)"

inductive ip_text :: "string \<Rightarrow> int list \<Rightarrow> bool" where
  quad: "quad_ok q \<Longrightarrow> ip_text (dotted q) (v4_mapped (quad_bytes q))"
| full: "run_ok r \<Longrightarrow> length (run_bytes r) = 16 \<Longrightarrow> ip_text (run_text r) (run_bytes r)"
| abbreviated: "list_all group_ok gs \<Longrightarrow> run_ok r \<Longrightarrow> length (run_bytes (gs, None)) + length (run_bytes r) \<le> 14 \<Longrightarrow>
    ip_text (run_text (gs, None) @ ''::'' @ run_text r)
      (run_bytes (gs, None) @ replicate (16 - (length (run_bytes (gs, None)) + length (run_bytes r))) 0 @ run_bytes r)"

section \<open>Reading the pieces\<close>

lemma nat_digits_byte:
  assumes "is_byte n"
  shows "nat_digits n = (if n < 10 then [chr (n + 48)]
     else if n < 100 then [chr (n div 10 + 48), chr (n mod 10 + 48)]
     else [chr (n div 100 + 48), chr (n div 10 mod 10 + 48), chr (n mod 10 + 48)])"
proof -
  have "n div 10 < 10 \<longleftrightarrow> n < 100" "n div 10 div 10 < 10" "n div 10 div 10 = n div 100"
    using assms by (auto simp: is_byte_def)
  then show ?thesis
    by (simp add: nat_digits.simps [of n] nat_digits.simps [of "n div 10"] nat_digits.simps [of "n div 100"])
qed

lemma digit_char: "0 \<le> n \<Longrightarrow> n < 10 \<Longrightarrow> isDigit (chr (n + 48)) \<and> digit_val (chr (n + 48)) = n \<and> chr (n + 48) \<noteq> CHR ''.''"
proof -
  assume n: "0 \<le> n" "n < 10"
  then have o: "ord (chr (n + 48)) = n + 48" by (intro ord_chr) auto
  then have d: "isDigit (chr (n + 48))" "digit_val (chr (n + 48)) = n" using n by (simp_all add: isDigit_def digit_val_def)
  have "\<not> isDigit CHR ''.''" by (simp add: isDigit_def)
  with d show ?thesis by metis
qed

lemma read_field:
  assumes "is_byte n"
  shows "parseIPv4Fields 0 0 fs e (nat_digits n @ s) = parseIPv4Fields n (length (nat_digits n)) fs False s"
proof -
  have b: "0 \<le> n" "n \<le> 255" using assms by (auto simp: is_byte_def)
  have d: "isDigit (chr (m + 48))" "digit_val (chr (m + 48)) = m" if "0 \<le> m" "m < 10" for m
    using digit_char that by auto
  consider "n < 10" | "10 \<le> n" "n < 100" | "100 \<le> n" by linarith
  then show ?thesis
  proof cases
    case 1
    with b show ?thesis by (simp add: nat_digits_byte [OF assms] d)
  next
    case 2
    then have "0 < n div 10" "n div 10 < 10" "n div 10 * 10 + n mod 10 = n" by auto
    with 2 b show ?thesis by (simp add: nat_digits_byte [OF assms] d)
  next
    case 3
    have "n div 10 div 10 * 10 + n div 10 mod 10 = n div 10" by (rule div_mult_mod_eq)
    moreover have "n div 10 div 10 = n div 100" by simp
    ultimately have "n div 100 * 10 + n div 10 mod 10 = n div 10" by simp
    moreover have "0 < n div 100" "n div 100 < 10" "n div 10 * 10 + n mod 10 = n" "n div 10 \<le> 25" using b 3 by auto
    ultimately show ?thesis using 3 b by (simp add: nat_digits_byte [OF assms] d)
  qed
qed

lemma read_dot:
  "s \<noteq> [] \<Longrightarrow> length fs < 3 \<Longrightarrow> parseIPv4Fields v k fs False (CHR ''.'' # s) = parseIPv4Fields 0 0 (fs @ [v]) True s"
  by (simp add: isDigit_def)

lemma nat_digits_nonempty [simp]: "nat_digits n \<noteq> []"
  by (simp add: nat_digits.simps [of n])

lemma read_quad: "quad_ok q \<Longrightarrow> parseIPv4Fields 0 0 [] True (dotted q) = Some (quad_bytes q)"
proof (cases q)
  case (fields a b c d)
  assume "quad_ok q"
  then have ok: "is_byte a" "is_byte b" "is_byte c" "is_byte d" by (auto simp: fields quad_ok_def)
  have last: "parseIPv4Fields 0 0 fs True (nat_digits d) = parseIPv4Fields d (length (nat_digits d)) fs False []" for fs
    using read_field [OF ok(4), of fs True "[]"] by simp
  show ?thesis
    by (simp add: fields read_field [OF ok(1)] read_field [OF ok(2)] read_field [OF ok(3)] last read_dot del: parseIPv4Fields.simps(2))
qed

lemma isHex_hex_val: "isHex c \<Longrightarrow> \<exists>x. hex_val c = Some x \<and> 0 \<le> x \<and> x < 16"
  by (auto simp: isHex_def hex_val_def isDigit_def)

lemma hex_group_reads:
  assumes "list_all isHex g" "off + length g \<le> 4" "0 \<le> acc" "acc < 16 ^ off" "s = [] \<or> hex_val (hd s) = None"
  shows "hex_group off acc (g @ s) = Some (off + length g, group_val acc g, s) \<and> 0 \<le> group_val acc g \<and> group_val acc g < 16 ^ (off + length g)"
  using assms
proof (induction g arbitrary: off acc)
  case Nil
  then show ?case by (cases s) (auto simp: group_val_def)
next
  case (Cons c g)
  obtain x where x: "hex_val c = Some x" "0 \<le> x" "x < 16" using isHex_hex_val [of c] Cons.prems by auto
  have "acc * 16 + x < 16 ^ (off + 1)" using Cons.prems(4) x by simp
  moreover have "16 ^ (off + 1) \<le> (16 ^ 4 :: int)" using Cons.prems(2) by (intro power_increasing) auto
  ultimately have a: "acc * 16 + x \<le> 65535" "acc * 16 + x < 16 ^ (off + 1)" by simp_all
  have "group_val acc (c # g) = group_val (acc * 16 + x) g" by (simp add: group_val_def x)
  with Cons.IH [of "off + 1" "acc * 16 + x"] Cons.prems a x show ?case by simp
qed

lemma hex_group_token:
  assumes "group_ok g" "s = [] \<or> hex_val (hd s) = None"
  shows "hex_group 0 0 (g @ s) = Some (length g, group_val 0 g, s)"
  using hex_group_reads [of g 0 0 s] assms by (auto simp: group_ok_def)

lemma isDigit_isHex: "isDigit c \<Longrightarrow> isHex c"
  by (auto simp: isDigit_def isHex_def)

lemma nat_digits_group: "is_byte n \<Longrightarrow> group_ok (nat_digits n)"
proof -
  assume b: "is_byte n"
  then have "list_all isDigit (nat_digits n)" using nat_digits_all [of n] by (auto simp: is_byte_def)
  then have "list_all isHex (nat_digits n)" by (rule list.pred_mono_strong) (rule isDigit_isHex)
  moreover have "length (nat_digits n) \<le> 4" by (simp add: nat_digits_byte [OF b])
  ultimately show ?thesis by (simp add: group_ok_def)
qed

lemma colon_dot_not_hex [simp]: "hex_val CHR '':'' = None" "hex_val CHR ''.'' = None"
  by (simp_all add: hex_val_def isDigit_def)

section \<open>The groups of an IPv6 address\<close>

lemma quad_starts_with_field:
  assumes "quad_ok q"
  obtains n t where "is_byte n" "dotted q = nat_digits n @ CHR ''.'' # t"
  using assms by (cases q) (auto simp: quad_ok_def)

lemma groups_quad:
  assumes "quad_ok q" "length ip \<le> 12" "ell = None \<Longrightarrow> length ip = 12"
  shows "ipv6_groups (Suc n) ip ell (dotted q) = Some (ip @ quad_bytes q, ell, [])"
proof -
  obtain m t where m: "is_byte m" "dotted q = nat_digits m @ CHR ''.'' # t" by (rule quad_starts_with_field [OF assms(1)])
  have "hex_group 0 0 (dotted q) = Some (length (nat_digits m), group_val 0 (nat_digits m), CHR ''.'' # t)"
    unfolding m(2) by (rule hex_group_token [OF nat_digits_group [OF m(1)]]) simp
  then show ?thesis using assms(2,3) read_quad [OF assms(1)] by (auto simp: Let_def)
qed

lemma groups_last:
  "group_ok g \<Longrightarrow> ipv6_groups (Suc n) ip ell g = Some (ip @ group_bytes g, ell, [])"
  using hex_group_token [of g "[]"] by (auto simp: group_bytes_def group_ok_def)

lemma groups_colon:
  assumes "group_ok g" "r \<noteq> []" "hd r \<noteq> CHR '':''"
  shows "ipv6_groups (Suc n) ip ell (g @ CHR '':'' # r) = ipv6_groups n (ip @ group_bytes g) ell r"
  using hex_group_token [of g "CHR '':'' # r"] assms by (auto simp: group_bytes_def group_ok_def Let_def)

lemma groups_ellipsis:
  assumes "group_ok g"
  shows "ipv6_groups (Suc n) ip None (g @ CHR '':'' # CHR '':'' # r) =
    (if r = [] then Some (ip @ group_bytes g, Some (length ip + 2), [])
     else ipv6_groups n (ip @ group_bytes g) (Some (length ip + 2)) r)"
  using hex_group_token [of g "CHR '':'' # CHR '':'' # r"] assms by (auto simp: group_bytes_def group_ok_def Let_def)

lemma length_group_bytes [simp]: "length (group_bytes g) = 2"
  by (simp add: group_bytes_def)

lemma length_quad_bytes [simp]: "length (quad_bytes q) = 4"
  by (cases q) simp

lemma group_head: "group_ok g \<Longrightarrow> g \<noteq> [] \<and> isHex (hd g)"
  by (cases g) (auto simp: group_ok_def)

lemma quad_head: "quad_ok q \<Longrightarrow> dotted q \<noteq> [] \<and> isHex (hd (dotted q))"
  using quad_starts_with_field [of q] nat_digits_group group_head by (metis append_is_Nil_conv hd_append2)

lemma colon_not_hex [simp]: "\<not> isHex CHR '':''" "\<not> isHex CHR ''.''" "\<not> isHex CHR ''%''"
  by (simp_all add: isHex_def)

lemma run_text_Nil: "run_text ([], q) = (case q of None \<Rightarrow> [] | Some q \<Rightarrow> dotted q)"
  by (simp add: run_text_def split: option.splits)

lemma run_text_Cons: "run_text (g # gs, q) = (if gs = [] \<and> q = None then g else g @ CHR '':'' # run_text (gs, q))"
  by (cases gs) (auto simp: run_text_def split: option.splits)

lemma run_head: "run_ok (gs, q) \<Longrightarrow> gs \<noteq> [] \<or> q \<noteq> None \<Longrightarrow> run_text (gs, q) \<noteq> [] \<and> isHex (hd (run_text (gs, q)))"
  using group_head quad_head by (cases gs; cases q) (auto simp: run_ok_def run_text_Nil run_text_Cons)

lemma groups_run:
  assumes "run_ok (gs, q)" "gs \<noteq> [] \<or> q \<noteq> None" "length ip + length (run_bytes (gs, q)) \<le> 16"
    "ell = None \<Longrightarrow> length ip + length (run_bytes (gs, q)) = 16" "length (run_bytes (gs, q)) \<le> 2 * n"
  shows "ipv6_groups n ip ell (run_text (gs, q)) = Some (ip @ run_bytes (gs, q), ell, [])"
  using assms
proof (induction gs arbitrary: n ip)
  case Nil
  then obtain p m where "q = Some p" "quad_ok p" "n = Suc m" by (cases q; cases n) (auto simp: run_ok_def run_bytes_def)
  with Nil show ?case using groups_quad [of p ip ell m] by (auto simp: run_text_Nil run_bytes_def)
next
  case (Cons g gs)
  obtain m where n: "n = Suc m" using Cons.prems(5) by (cases n) (auto simp: run_bytes_def)
  have g: "group_ok g" "run_ok (gs, q)" using Cons.prems(1) by (auto simp: run_ok_def)
  have b: "run_bytes (g # gs, q) = group_bytes g @ run_bytes (gs, q)" by (simp add: run_bytes_def)
  show ?case
  proof (cases "gs = [] \<and> q = None")
    case True
    then show ?thesis using groups_last [OF g(1)] by (simp add: n b run_text_Cons) (simp add: run_bytes_def)
  next
    case False
    then have "run_text (gs, q) \<noteq> []" "hd (run_text (gs, q)) \<noteq> CHR '':''" using run_head [OF g(2)] by auto
    then have "ipv6_groups n ip ell (run_text (g # gs, q)) = ipv6_groups m (ip @ group_bytes g) ell (run_text (gs, q))"
      using False groups_colon [OF g(1)] by (auto simp: n run_text_Cons)
    also have "\<dots> = Some ((ip @ group_bytes g) @ run_bytes (gs, q), ell, [])"
      using False Cons.prems(3-5) by (intro Cons.IH [OF g(2)]) (auto simp: n b)
    finally show ?thesis by (simp add: b)
  qed
qed

lemma length_run_bytes: "length (run_bytes (gs, None)) = 2 * length gs"
  by (induction gs) (simp_all add: run_bytes_def)

lemma groups_then_ellipsis:
  assumes "list_all group_ok gs" "gs \<noteq> []" "length gs \<le> n"
  shows "ipv6_groups n ip None (run_text (gs, None) @ ''::'' @ t) =
    (if t = [] then Some (ip @ run_bytes (gs, None), Some (length ip + 2 * length gs), [])
     else ipv6_groups (n - length gs) (ip @ run_bytes (gs, None)) (Some (length ip + 2 * length gs)) t)"
  using assms
proof (induction gs arbitrary: n ip)
  case (Cons g gs)
  obtain m where n: "n = Suc m" using Cons.prems(3) by (cases n) auto
  have g: "group_ok g" "list_all group_ok gs" using Cons.prems(1) by auto
  have b: "run_bytes (g # gs, None) = group_bytes g @ run_bytes (gs, None)" by (simp add: run_bytes_def)
  show ?case
  proof (cases "gs = []")
    case True
    then show ?thesis using groups_ellipsis [OF g(1)] by (simp add: n b run_text_Cons) (simp add: run_bytes_def)
  next
    case False
    have r: "run_text (gs, None) \<noteq> []" "hd (run_text (gs, None)) \<noteq> CHR '':''"
      using run_head [of gs None] g(2) False by (auto simp: run_ok_def)
    have "ipv6_groups n ip None (run_text (g # gs, None) @ ''::'' @ t) = ipv6_groups m (ip @ group_bytes g) None (run_text (gs, None) @ ''::'' @ t)"
      using False groups_colon [OF g(1), of "run_text (gs, None) @ ''::'' @ t"] r by (simp add: n run_text_Cons)
    also have "\<dots> = (if t = [] then Some ((ip @ group_bytes g) @ run_bytes (gs, None), Some (length (ip @ group_bytes g) + 2 * length gs), [])
        else ipv6_groups (m - length gs) ((ip @ group_bytes g) @ run_bytes (gs, None)) (Some (length (ip @ group_bytes g) + 2 * length gs)) t)"
      using Cons.prems(3) by (intro Cons.IH [OF g(2) False]) (simp add: n)
    finally show ?thesis by (simp add: n b)
  qed
qed simp

section \<open>Every text of an address is read\<close>

definition ip_char :: "char \<Rightarrow> bool" where
  "ip_char c \<longleftrightarrow> isHex c \<or> c = CHR '':'' \<or> c = CHR ''.''"

lemma colon_ip_char: "ip_char CHR '':''"
  by (simp add: ip_char_def)

lemma group_chars: "group_ok g \<Longrightarrow> list_all isHex g"
  by (simp add: group_ok_def)

lemma quad_chars: "quad_ok q \<Longrightarrow> list_all ip_char (dotted q)"
  using nat_digits_group [THEN group_chars]
  by (cases q) (auto simp: quad_ok_def ip_char_def list_all_iff)

lemma run_chars: "run_ok (gs, q) \<Longrightarrow> list_all ip_char (run_text (gs, q))"
proof (induction gs)
  case Nil
  then show ?case using quad_chars by (cases q) (auto simp: run_ok_def run_text_Nil)
next
  case (Cons g gs)
  then show ?case using group_chars [of g] by (auto simp: run_ok_def run_text_Cons ip_char_def list_all_iff)
qed

lemma ip_text_chars: "ip_text s bs \<Longrightarrow> s \<noteq> [] \<and> list_all ip_char s"
proof (induction rule: ip_text.induct)
  case (quad q)
  then show ?case using quad_head quad_chars by blast
next
  case (full r)
  then show ?case
    by (cases r) (auto simp: run_chars length_run_bytes run_head [of "fst r" "snd r"] run_bytes_def split: option.splits
        dest!: run_head)
next
  case (abbreviated gs r)
  then have "list_all ip_char (run_text (gs, None))" by (intro run_chars) (simp add: run_ok_def)
  with abbreviated run_chars [of "fst r" "snd r"] show ?case by (simp add: colon_ip_char)
qed

lemma find_separator:
  assumes "list_all isHex g" "P c" "\<And>x. isHex x \<Longrightarrow> \<not> P x"
  shows "find P (g @ c # t) = Some c"
  using assms by (induction g) auto

lemma cut_absent: "c \<notin> set s \<Longrightarrow> cut c s = (s, [], False)"
  by (simp add: cut_def)

lemma not_ip_separator: "isHex x \<Longrightarrow> \<not> (x = CHR ''.'' \<or> x = CHR '':'' \<or> x = CHR ''%'')"
  by auto

lemma ParseIP_groups:
  assumes "list_all ip_char s" "s = g @ CHR '':'' # t" "list_all isHex g" "parseIPv6_text s = Some ip"
  shows "ParseIP s = Some ip"
proof -
  have "\<not> ip_char CHR ''%''" by (simp add: ip_char_def)
  then have "CHR ''%'' \<notin> set s" using assms(1) by (auto simp: list_all_iff)
  moreover have "find (\<lambda>c. c = CHR ''.'' \<or> c = CHR '':'' \<or> c = CHR ''%'') s = Some CHR '':''"
    unfolding assms(2) by (rule find_separator [OF assms(3)]) (use not_ip_separator in auto)
  ultimately show ?thesis using assms(4) by (simp add: ParseIP_def ParseAddr_def parseIPv6_def cut_absent)
qed

lemma ParseIP_quad: "quad_ok q \<Longrightarrow> ParseIP (dotted q) = Some (v4_mapped (quad_bytes q))"
proof -
  assume q: "quad_ok q"
  then obtain n t where n: "is_byte n" "dotted q = nat_digits n @ CHR ''.'' # t" by (rule quad_starts_with_field)
  have "find (\<lambda>c. c = CHR ''.'' \<or> c = CHR '':'' \<or> c = CHR ''%'') (dotted q) = Some CHR ''.''"
    unfolding n(2) by (rule find_separator [OF group_chars [OF nat_digits_group [OF n(1)]]]) (use not_ip_separator in auto)
  with q show ?thesis by (simp add: ParseIP_def ParseAddr_def parseIPv4_def read_quad)
qed

lemma no_leading_colons: "s \<noteq> [] \<Longrightarrow> isHex (hd s) \<Longrightarrow> \<not> has_prefix (s @ t) ''::''"
  by (cases s) (auto simp: has_prefix_def)

lemma ParseIP_full:
  assumes "run_ok r" "length (run_bytes r) = 16"
  shows "ParseIP (run_text r) = Some (run_bytes r)"
proof (cases r)
  case (Pair gs q)
  have ok: "run_ok (gs, q)" "length (run_bytes (gs, q)) = 16" using assms Pair by simp_all
  then obtain g hs where g: "gs = g # hs" "hs \<noteq> [] \<or> q \<noteq> None"
    by (cases gs) (fastforce simp: run_bytes_def split: option.splits)+
  have h: "run_text (gs, q) \<noteq> []" "isHex (hd (run_text (gs, q)))" using run_head [OF ok(1)] g(1) by auto
  have "ipv6_groups 8 [] None (run_text (gs, q)) = Some ([] @ run_bytes (gs, q), None, [])"
    by (rule groups_run [OF ok(1)]) (use g(1) ok(2) in auto)
  then have "parseIPv6_text (run_text (gs, q)) = Some (run_bytes (gs, q))"
    using no_leading_colons [OF h, of "[]"] ok(2) by (simp add: parseIPv6_text_def expand_ellipsis_def)
  moreover have "run_text (gs, q) = g @ CHR '':'' # run_text (hs, q)" using g by (auto simp: run_text_Cons)
  moreover have "list_all isHex g" using ok(1) g(1) by (simp add: run_ok_def group_chars)
  ultimately show ?thesis unfolding Pair using ParseIP_groups [OF run_chars [OF ok(1)]] by blast
qed

lemma ParseIP_abbreviated:
  assumes "list_all group_ok gs" "run_ok r" "length (run_bytes (gs, None)) + length (run_bytes r) \<le> 14"
  shows "ParseIP (run_text (gs, None) @ ''::'' @ run_text r) =
    Some (run_bytes (gs, None) @ replicate (16 - (length (run_bytes (gs, None)) + length (run_bytes r))) 0 @ run_bytes r)"
proof -
  let ?s = "run_text (gs, None) @ ''::'' @ run_text r"
  obtain hs q where r: "r = (hs, q)" by (cases r)
  have l: "2 * length gs + length (run_bytes (hs, q)) \<le> 14" using assms(3) by (simp add: r length_run_bytes)
  have empty: "run_text (hs, q) = [] \<longleftrightarrow> hs = [] \<and> q = None" "hs = [] \<and> q = None \<Longrightarrow> run_bytes (hs, q) = []"
    using run_head [of hs q] assms(2) by (cases q; force simp: r run_text_Nil run_bytes_def)+
  have rest: "ipv6_groups (8 - length gs) (run_bytes (gs, None)) (Some (2 * length gs)) (run_text (hs, q)) =
      Some (run_bytes (gs, None) @ run_bytes (hs, q), Some (2 * length gs), [])" if "run_text (hs, q) \<noteq> []"
    by (rule groups_run) (use assms(2) that l in \<open>auto simp: r empty length_run_bytes\<close>)
  have v: "parseIPv6_text ?s = Some (run_bytes (gs, None) @ replicate (16 - (2 * length gs + length (run_bytes (hs, q)))) 0 @ run_bytes (hs, q))"
  proof (cases "gs = []")
    case True
    then show ?thesis
      using rest l empty by (auto simp: r parseIPv6_text_def run_text_Nil has_prefix_def run_bytes_def expand_ellipsis_def)
  next
    case False
    have h: "run_text (gs, None) \<noteq> []" "isHex (hd (run_text (gs, None)))" using run_head [of gs None] False assms(1) by (auto simp: run_ok_def)
    have "ipv6_groups 8 [] None ?s = Some (run_bytes (gs, None) @ run_bytes (hs, q), Some (2 * length gs), [])"
      using groups_then_ellipsis [OF assms(1) False, of 8 "[]" "run_text (hs, q)"] l rest empty by (auto simp: r)
    then show ?thesis
      using no_leading_colons [OF h] l by (simp add: r parseIPv6_text_def expand_ellipsis_def length_run_bytes)
  qed
  have c: "list_all ip_char ?s"
    using run_chars [of gs None] run_chars [of hs q] assms by (auto simp: r run_ok_def ip_char_def)
  have "\<exists>g t. ?s = g @ CHR '':'' # t \<and> list_all isHex g"
  proof (cases gs)
    case (Cons g gs')
    then show ?thesis using assms(1) group_chars by (auto simp: run_text_Cons)
  qed (auto simp: run_text_Nil intro: exI [of _ "[]"])
  with ParseIP_groups [OF c _ _ v] show ?thesis by (auto simp: r length_run_bytes)
qed

theorem ParseIP_reads_every_address: "ip_text s bs \<Longrightarrow> ParseIP s = Some bs"
  by (induction rule: ip_text.induct) (simp_all only: ParseIP_quad ParseIP_full ParseIP_abbreviated)

section \<open>Letter case and the last byte\<close>

lemma isHex_lower: "isHex c \<Longrightarrow> isHex (ascii_lower c)"
  by (auto simp: isHex_def ascii_lower_def isUpper_def ord_chr)

lemma group_lower: "group_ok g \<Longrightarrow> group_ok (map ascii_lower g)"
  by (simp add: group_ok_def list_all_iff isHex_lower)

lemma digits_lower: "is_byte n \<Longrightarrow> map ascii_lower (nat_digits n) = nat_digits n"
proof (rule map_idI)
  fix c assume "is_byte n" "c \<in> set (nat_digits n)"
  then have "isDigit c" using nat_digits_all [of n] by (auto simp: is_byte_def list_all_iff)
  then show "ascii_lower c = c" by (simp add: ascii_lower_def isUpper_def isDigit_def)
qed

lemma separators_lower [simp]: "ascii_lower CHR '':'' = CHR '':''" "ascii_lower CHR ''.'' = CHR ''.''"
  by (simp_all add: ascii_lower_def isUpper_def)

lemma quad_lower: "quad_ok q \<Longrightarrow> map ascii_lower (dotted q) = dotted q"
  by (cases q) (simp add: quad_ok_def digits_lower)

lemma run_lower:
  assumes "run_ok (gs, q)"
  shows "map ascii_lower (run_text (gs, q)) = run_text (map (map ascii_lower) gs, q)"
  using assms
proof (induction gs)
  case Nil
  then show ?case by (cases q) (auto simp: run_text_Nil run_ok_def quad_lower simp del: dotted.simps)
next
  case (Cons g gs)
  then show ?case by (auto simp: run_text_Cons run_ok_def)
qed

lemma run_ok_lower: "run_ok (gs, q) \<Longrightarrow> run_ok (map (map ascii_lower) gs, q)"
  by (auto simp: run_ok_def list_all_iff group_lower)

lemma run_length_lower: "length (run_bytes (map (map ascii_lower) gs, q)) = length (run_bytes (gs, q))"
  by (induction gs) (simp_all add: run_bytes_def)

lemma ip_text_lower: "ip_text s bs \<Longrightarrow> \<exists>bs'. ip_text (map ascii_lower s) bs'"
proof (induction rule: ip_text.induct)
  case (quad q)
  then show ?case using ip_text.quad [of q] quad_lower [of q] by metis
next
  case (full r)
  obtain gs q where r: "r = (gs, q)" by (cases r)
  have "ip_text (run_text (map (map ascii_lower) gs, q)) (run_bytes (map (map ascii_lower) gs, q))"
    using full by (intro ip_text.full) (simp_all add: r run_ok_lower run_length_lower)
  then show ?case using full(1) by (auto simp: r run_lower)
next
  case (abbreviated gs r)
  obtain hs q where r: "r = (hs, q)" by (cases r)
  let ?gs = "map (map ascii_lower) gs" and ?r = "(map (map ascii_lower) hs, q)"
  have "\<exists>bs. ip_text (run_text (?gs, None) @ ''::'' @ run_text ?r) bs"
    using abbreviated ip_text.abbreviated [of ?gs ?r]
    by (auto simp: r run_ok_lower run_length_lower list_all_iff group_lower)
  moreover have "run_ok (gs, None)" using abbreviated(1) by (simp add: run_ok_def)
  ultimately show ?case using abbreviated(2) by (simp add: r run_lower)
qed

lemma last_isHex: "g \<noteq> [] \<Longrightarrow> list_all isHex g \<Longrightarrow> isHex (last g)"
  by (simp add: list_all_iff)

lemma quad_last: "quad_ok q \<Longrightarrow> isHex (last (dotted q))"
  using nat_digits_group [THEN group_chars] by (cases q) (simp add: quad_ok_def last_isHex)

lemma run_last: "run_ok (gs, q) \<Longrightarrow> run_text (gs, q) \<noteq> [] \<Longrightarrow> isHex (last (run_text (gs, q)))"
proof (induction gs)
  case Nil
  then show ?case using quad_last by (cases q) (auto simp: run_text_Nil run_ok_def)
next
  case (Cons g gs)
  then have g: "group_ok g" "run_ok (gs, q)" by (auto simp: run_ok_def)
  then show ?case
    using Cons.IH run_head [OF g(2)] by (auto simp: run_text_Cons group_ok_def last_isHex)
qed

lemma ip_text_last: "ip_text s bs \<Longrightarrow> last s \<noteq> CHR ''.''"
proof (induction rule: ip_text.induct)
  case (quad q)
  then show ?case using quad_last by fastforce
next
  case (full r)
  then have "run_text r \<noteq> []" using ip_text_chars [OF ip_text.full] by blast
  with full show ?case using run_last [of "fst r" "snd r"] by fastforce
next
  case (abbreviated gs r)
  show ?case
  proof (cases "run_text r = []")
    case False
    with abbreviated have "isHex (last (run_text r))" using run_last [of "fst r" "snd r"] by simp
    with False show ?thesis by auto
  qed simp
qed

lemma ip_text_ascii: "ip_text s bs \<Longrightarrow> list_all isASCII s"
proof -
  have "isASCII c" if "ip_char c" for c
    using that by (auto simp: ip_char_def isHex_def isASCII_def)
  then show "ip_text s bs \<Longrightarrow> list_all isASCII s" using ip_text_chars by (auto simp: list_all_iff)
qed

end
