(* ===== verification/HTTPFetch.thy ===== *)
theory HTTPFetch
  imports KeySet ParseIP
begin

text \<open>
  The network side of \<^verbatim>\<open>keyfetch.go\<close>: the URL policy, the redirect-checking client, the capped
  download, \<^verbatim>\<open>Cache-Control\<close>, \<^verbatim>\<open>fetchJWKS\<close> and OpenID discovery.  The HTTP transport is a
  parameter that answers each request with a response, a redirect or a failure; the client
  follows redirects as \<^verbatim>\<open>net/http\<close> does, asking \<^verbatim>\<open>CheckRedirect\<close> before each hop, and the model
  keeps the list of URLs requested.  With a redirect policy of the caller's the loop may run
  forever, which is the value \<open>None\<close>.  \<^verbatim>\<open>net/url\<close> and Unicode lower case are
  parameters; \<^verbatim>\<open>net.ParseIP\<close> (theory \<open>ParseIP\<close>), \<^verbatim>\<open>strconv.Unquote\<close> and the lenient key count of
  \<^verbatim>\<open>encoding/json\<close> are modelled.

  Shown: every URL requested passed the HTTPS and policy checks, under the default policy no
  request goes to an IP address that \<^verbatim>\<open>net.ParseIP\<close> reads nor to a local name (short numeric forms such
  as \<^verbatim>\<open>127.1\<close> do pass), the default client stops after ten redirects, downloads respect the size limit and fetched sets the limits of a JWKS, and
  exactly which discovery documents are accepted.
\<close>

section \<open>URLs and policies\<close>

record net_env =
  ne_crypto :: crypto
  ne_parse_url :: "string \<Rightarrow> go_url option"
  ne_lower :: "string \<Rightarrow> string"

type_synonym url_policy = "go_url \<Rightarrow> go_error option"

definition validateHTTPSURL :: "go_url option \<Rightarrow> go_error option" where
  "validateHTTPSURL u =
     (case u of
        None \<Rightarrow> Some [ErrKeyFetch, ErrMalformedKey]
      | Some v \<Rightarrow> if \<not> equal_fold (u_Scheme v) ''https'' \<or> u_Host v = [] then Some [ErrKeyFetch, ErrMalformedKey] else None)"

definition policy_error :: "string \<Rightarrow> go_error option" where
  "policy_error s = Some [OtherError s]"

definition defaultURLPolicy :: "net_env \<Rightarrow> url_policy" where
  "defaultURLPolicy N u =
     (if u_User u then policy_error ''userinfo is not allowed''
      else
        let host = to_lower (ne_lower N) (trim_suffix (u_Hostname u) ''.'')
        in if host = [] then policy_error ''host is empty''
           else if ParseIP (trim_suffix host ''%'') \<noteq> None \<or> CHR ''%'' \<in> set host then policy_error ''IP-literal hosts are not allowed''
           else if host = ''localhost'' \<or> has_suffix host ''.localhost'' \<or> has_suffix host ''.local''
                   \<or> has_suffix host ''.internal'' \<or> has_suffix host ''.home.arpa'' \<or> CHR ''.'' \<notin> set host
             then policy_error ''local or private-looking host is not allowed''
           else None)"

definition validateURL :: "net_env \<Rightarrow> go_url option \<Rightarrow> url_policy option \<Rightarrow> go_error option" where
  "validateURL N u policy =
     (case validateHTTPSURL u of
        Some e \<Rightarrow> Some e
      | None \<Rightarrow>
          (case (case policy of None \<Rightarrow> defaultURLPolicy N | Some p \<Rightarrow> p) (the u) of
             Some e \<Rightarrow> Some (wrap ErrKeyFetch e)
           | None \<Rightarrow> None))"

fun selectURLPolicy :: "net_env \<Rightarrow> url_policy option list \<Rightarrow> url_policy" where
  "selectURLPolicy N [] = defaultURLPolicy N"
| "selectURLPolicy N (p # ps) = (case p of Some f \<Rightarrow> f | None \<Rightarrow> selectURLPolicy N ps)"

section \<open>The client\<close>

record http_response =
  hr_status :: int
  hr_body :: bytes
  hr_error :: "go_error option" \<comment> \<open>an error after the body\<close>
  hr_cache_control :: "string list"

datatype hop = Redirect go_url | Response http_response | Failed go_error

text \<open>The transport answers the request for a URL after a number of hops.\<close>

type_synonym transport = "nat \<Rightarrow> go_url \<Rightarrow> hop"
type_synonym redirect_check = "go_url \<Rightarrow> nat \<Rightarrow> go_error option"

definition maxRedirects :: int where "maxRedirects = 10"

definition safeHTTPClient :: "net_env \<Rightarrow> redirect_check option \<Rightarrow> url_policy option list \<Rightarrow> redirect_check" where
  "safeHTTPClient N caller policies u via =
     (case validateURL N (Some u) (Some (selectURLPolicy N policies)) of
        Some e \<Rightarrow> Some e
      | None \<Rightarrow>
          (case caller of
             Some f \<Rightarrow> f u via
           | None \<Rightarrow> if int via \<ge> maxRedirects then Some [ErrKeyFetch] else None))"

partial_function (option) client_Do :: "transport \<Rightarrow> redirect_check \<Rightarrow> go_url list \<Rightarrow> go_url \<Rightarrow> (go_url list \<times> http_response result) option" where
  "client_Do tr check via u =
     (case tr (length via) u of
        Failed e \<Rightarrow> Some (via @ [u], Inl e)
      | Response r \<Rightarrow> Some (via @ [u], Inr r)
      | Redirect v \<Rightarrow>
          (case check v (length via + 1) of
             Some e \<Rightarrow> Some (via @ [u], Inl e)
           | None \<Rightarrow> client_Do tr check (via @ [u]) v))"

text \<open>\<^verbatim>\<open>io.LimitReader\<close> of \<^verbatim>\<open>maxBytes+1\<close> bytes, a 64-bit sum that wraps.\<close>

definition read_limited :: "64 word \<Rightarrow> http_response \<Rightarrow> bytes result" where
  "read_limited maxBytes r =
     (let limit = sint (maxBytes + 1)
      in if limit \<le> len (hr_body r) then Inr (take (nat limit) (hr_body r))
         else (case hr_error r of Some e \<Rightarrow> Inl e | None \<Rightarrow> Inr (hr_body r)))"

definition response_body :: "64 word \<Rightarrow> http_response \<Rightarrow> (bytes \<times> string list) result" where
  "response_body maxBytes r =
     (if hr_status r \<noteq> 200 then Inl [ErrKeyFetch]
      else (case read_limited maxBytes r of
              Inl e \<Rightarrow> Inl (wrap ErrKeyFetch e)
            | Inr body \<Rightarrow> if len body > sint maxBytes then Inl [ErrKeyFetch] else Inr (body, hr_cache_control r)))"

definition getCapped :: "net_env \<Rightarrow> transport \<Rightarrow> redirect_check \<Rightarrow> string \<Rightarrow> 64 word \<Rightarrow> url_policy option list \<Rightarrow>
    (go_url list \<times> (bytes \<times> string list) result) option" where
  "getCapped N tr client uri maxBytes policies =
     (case ne_parse_url N uri of
        None \<Rightarrow> Some ([], Inl [ErrKeyFetch, ErrMalformedKey])
      | Some u \<Rightarrow>
          (case validateURL N (Some u) (Some (selectURLPolicy N policies)) of
             Some e \<Rightarrow> Some ([], Inl e)
           | None \<Rightarrow>
               (case client_Do tr client [] u of
                  None \<Rightarrow> None
                | Some (urls, Inl e) \<Rightarrow> Some (urls, Inl (wrap ErrKeyFetch e))
                | Some (urls, Inr r) \<Rightarrow> Some (urls, response_body maxBytes r))))"

section \<open>Cache-Control\<close>

definition maxDuration :: int where "maxDuration = 2 ^ 63 - 1"

datatype parse_uint_result = UintSyntax | UintRange | Uint int

fun uint_digits :: "int \<Rightarrow> string \<Rightarrow> parse_uint_result" where
  "uint_digits n [] = Uint n"
| "uint_digits n (c # s) =
     (if \<not> isDigit c then UintSyntax
      else if n * 10 + digit_val c > 2 ^ 64 - 1 then UintRange
      else uint_digits (n * 10 + digit_val c) s)"

definition ParseUint :: "string \<Rightarrow> parse_uint_result" where
  "ParseUint s = (if s = [] then UintSyntax else uint_digits 0 s)"

text \<open>
  \<^verbatim>\<open>strconv.Unquote\<close> of a double-quoted literal: \<open>unquote_char\<close> reads one character or escape
  sequence, the bytes it denotes and the rest; the closing quote must be the last byte.
\<close>

fun radix_digits :: "nat \<Rightarrow> int \<Rightarrow> (char \<Rightarrow> int option) \<Rightarrow> int \<Rightarrow> string \<Rightarrow> (int \<times> string) option" where
  "radix_digits 0 base dig v s = Some (v, s)"
| "radix_digits (Suc n) base dig v [] = None"
| "radix_digits (Suc n) base dig v (c # s) =
     (case dig c of None \<Rightarrow> None | Some x \<Rightarrow> radix_digits n base dig (v * base + x) s)"

definition octal_val :: "char \<Rightarrow> int option" where
  "octal_val c = (if 48 \<le> ord c \<and> ord c \<le> 55 then Some (ord c - 48) else None)"

definition valid_rune :: "int \<Rightarrow> bool" where
  "valid_rune v \<longleftrightarrow> (0 \<le> v \<and> v < 0xD800) \<or> (0xDFFF < v \<and> v \<le> 0x10FFFF)"

definition rune_escape :: "nat \<Rightarrow> string \<Rightarrow> (string \<times> string) option" where
  "rune_escape n s = (case radix_digits n 16 hex_val 0 s of
      None \<Rightarrow> None
    | Some (v, r) \<Rightarrow> if valid_rune v then Some (utf8_encode v, r) else None)"

definition escape_char :: "string \<Rightarrow> (string \<times> string) option" where
  "escape_char s =
     (case s of
        [] \<Rightarrow> None
      | c # r \<Rightarrow>
          if c = CHR ''a'' then Some ([chr 7], r) else if c = CHR ''b'' then Some ([chr 8], r)
          else if c = CHR ''f'' then Some ([chr 12], r) else if c = CHR ''n'' then Some ([chr 10], r)
          else if c = CHR ''r'' then Some ([chr 13], r) else if c = CHR ''t'' then Some ([chr 9], r)
          else if c = CHR ''v'' then Some ([chr 11], r)
          else if c = CHR ''x'' then (case radix_digits 2 16 hex_val 0 r of None \<Rightarrow> None | Some (v, r1) \<Rightarrow> Some ([chr v], r1))
          else if c = CHR ''u'' then rune_escape 4 r else if c = CHR ''U'' then rune_escape 8 r
          else if octal_val c \<noteq> None then
            (case radix_digits 3 8 octal_val 0 s of
               None \<Rightarrow> None
             | Some (v, r1) \<Rightarrow> if v > 255 then None else Some ([chr v], r1))
          else if c = CHR 0x5C \<or> c = CHR 0x22 then Some ([c], r)
          else None)"

definition unquote_char :: "string \<Rightarrow> (string \<times> string) option" where
  "unquote_char s =
     (if hd s = CHR 0x5C then escape_char (tl s)
      else if utf8_len s = 0 then Some (replacement_char, tl s)
      else Some (take (utf8_len s) s, drop (utf8_len s) s))"

lemma radix_digits_length: "radix_digits n b dig v s = Some (w, r) \<Longrightarrow> length r + n = length s"
  by (induction n b dig v s rule: radix_digits.induct) (auto split: option.splits)

lemma escape_char_length: "escape_char s = Some (x, r) \<Longrightarrow> length r < length s"
  by (auto simp: escape_char_def rune_escape_def split: list.splits if_splits option.splits dest!: radix_digits_length)

lemma unquote_char_length:
  assumes "unquote_char s = Some (x, r)" "s \<noteq> []"
  shows "length r < length s"
proof (cases "hd s = CHR 0x5C")
  case True
  then show ?thesis using assms escape_char_length [of "tl s" x r] by (auto simp: unquote_char_def)
next
  case False
  then show ?thesis using assms by (auto simp: unquote_char_def split: if_splits simp del: utf8_len.simps)
qed

function unquote_body :: "string \<Rightarrow> string option" where
  "unquote_body s =
     (if s = [] then None
      else if hd s = CHR 0x22 then (if tl s = [] then Some [] else None)
      else if hd s = chr 10 then None
      else (case unquote_char s of
              None \<Rightarrow> None
            | Some (x, r) \<Rightarrow> (case unquote_body r of None \<Rightarrow> None | Some y \<Rightarrow> Some (x @ y))))"
  by pat_completeness auto
termination by (relation "measure length") (auto dest: unquote_char_length)

declare unquote_body.simps [simp del]

definition unquote :: "string \<Rightarrow> string option" where
  "unquote s = (if s \<noteq> [] \<and> hd s = CHR 0x22 then unquote_body (tl s) else None)"

definition delta_seconds :: "string \<Rightarrow> int" where
  "delta_seconds value =
     (case ParseUint value of
        UintRange \<Rightarrow> maxDuration
      | UintSyntax \<Rightarrow> 0
      | Uint secs \<Rightarrow> if secs > maxDuration div second then maxDuration else secs * second)"

definition parseDeltaSeconds :: "net_env \<Rightarrow> string \<Rightarrow> int" where
  "parseDeltaSeconds N raw =
     (let value = trim_space raw
      in if len value \<ge> 2 \<and> hd value = CHR 0x22 \<and> last value = CHR 0x22 then
           (case unquote value of None \<Rightarrow> 0 | Some unquoted \<Rightarrow> delta_seconds unquoted)
         else delta_seconds value)"

record cache_control =
  cc_maxAge :: int
  cc_hasMaxAge :: bool
  cc_noCache :: bool
  cc_noStore :: bool

definition zero_cache :: cache_control where
  "zero_cache = \<lparr>cc_maxAge = 0, cc_hasMaxAge = False, cc_noCache = False, cc_noStore = False\<rparr>"

definition cache_directive :: "net_env \<Rightarrow> string \<Rightarrow> cache_control \<times> int \<Rightarrow> cache_control \<times> int" where
  "cache_directive N part st =
     (case st of (out, maxAgeCount) \<Rightarrow>
      case cut CHR ''='' (trim_space part) of (raw, value, hasValue) \<Rightarrow>
        let name = trim_space raw
        in if equal_fold name ''no-cache'' then (out\<lparr>cc_noCache := True\<rparr>, maxAgeCount)
           else if equal_fold name ''no-store'' then (out\<lparr>cc_noStore := True\<rparr>, maxAgeCount)
           else if equal_fold name ''max-age'' then
             (out\<lparr>cc_hasMaxAge := True,
                  cc_maxAge := (if maxAgeCount + 1 = 1 \<and> hasValue then parseDeltaSeconds N value else 0)\<rparr>, maxAgeCount + 1)
           else (out, maxAgeCount))"

definition parseCacheControl :: "net_env \<Rightarrow> string list \<Rightarrow> cache_control" where
  "parseCacheControl N headers =
     fst (fold (\<lambda>header st. fold (cache_directive N) (split_on CHR '','' header) st) headers (zero_cache, 0))"

definition parseMaxAge :: "net_env \<Rightarrow> string \<Rightarrow> int" where
  "parseMaxAge N header =
     (let cache = parseCacheControl N [header]
      in if cc_noCache cache \<or> cc_noStore cache \<or> \<not> cc_hasMaxAge cache then 0 else cc_maxAge cache)"

section \<open>Fetching and discovery\<close>

text \<open>
  \<^verbatim>\<open>json.Unmarshal\<close> into a struct whose only field is \<^verbatim>\<open>Keys []json.RawMessage\<close>: how many raw
  keys there are.  \<^verbatim>\<open>encoding/json\<close> matches names up to case and lets a later duplicate win.
\<close>

definition keys_field :: "int \<Rightarrow> string \<Rightarrow> string \<Rightarrow> json \<Rightarrow> int result" where
  "keys_field k n raw v =
     (if equal_fold n ''keys'' then
        (case v of JArr vs \<Rightarrow> Inr (len vs) | JNull \<Rightarrow> Inr 0 | _ \<Rightarrow> Inl [JSONError])
      else Inr k)"

definition count_keys :: "bytes \<Rightarrow> int result" where
  "count_keys body = (case json_lax body of None \<Rightarrow> Inl [JSONError] | Some v \<Rightarrow> dec_struct keys_field 0 v)"

definition parse_document :: "net_env \<Rightarrow> int \<Rightarrow> bytes \<times> string list \<Rightarrow> (keyset \<times> cache_control) result" where
  "parse_document N maxKeys r =
     (case r of (body, headers) \<Rightarrow>
        if (case count_keys body of Inl _ \<Rightarrow> False | Inr n \<Rightarrow> n > maxKeys) then Inl [ErrKeyFetch]
        else (case ParseKeySet (ne_crypto N) body of
                Inl e \<Rightarrow> Inl (wrap ErrKeyFetch e)
              | Inr s \<Rightarrow> Inr (s, parseCacheControl N headers)))"

definition fetchJWKS :: "net_env \<Rightarrow> transport \<Rightarrow> redirect_check \<Rightarrow> string \<Rightarrow> 64 word \<Rightarrow> int \<Rightarrow> url_policy option \<Rightarrow>
    (go_url list \<times> (keyset \<times> cache_control) result) option" where
  "fetchJWKS N tr client uri maxBytes maxKeys policy =
     (case getCapped N tr client uri maxBytes [policy] of
        None \<Rightarrow> None
      | Some (urls, Inl e) \<Rightarrow> Some (urls, Inl e)
      | Some (urls, Inr r) \<Rightarrow> Some (urls, parse_document N maxKeys r))"

definition defaultMaxJWKSBytes :: "64 word" where "defaultMaxJWKSBytes = 1048576"

definition wellKnownOpenIDConfig :: string where "wellKnownOpenIDConfig = ''/.well-known/openid-configuration''"

record discovery_doc =
  doc_Issuer :: string
  doc_JWKSURI :: string

definition discovery_field :: "discovery_doc \<Rightarrow> string \<Rightarrow> string \<Rightarrow> json \<Rightarrow> discovery_doc result" where
  "discovery_field r n raw v =
     (if n = ''issuer'' then set_str (\<lambda>s. r\<lparr>doc_Issuer := s\<rparr>) v
      else if n = ''jwks_uri'' then set_str (\<lambda>s. r\<lparr>doc_JWKSURI := s\<rparr>) v else Inr r)"

definition dec_discovery :: "json \<Rightarrow> discovery_doc result" where
  "dec_discovery = dec_struct discovery_field \<lparr>doc_Issuer = [], doc_JWKSURI = []\<rparr>"

definition check_discovery :: "net_env \<Rightarrow> string \<Rightarrow> url_policy \<Rightarrow> bytes \<Rightarrow> string result" where
  "check_discovery N issuer policy body =
     (case decodeObject dec_discovery body of
        Inl e \<Rightarrow> Inl (wrap ErrKeyFetch e)
      | Inr doc \<Rightarrow>
          if doc_Issuer doc \<noteq> issuer then Inl [ErrKeyFetch]
          else if doc_JWKSURI doc = [] then Inl [ErrKeyFetch]
          else (case ne_parse_url N (doc_JWKSURI doc) of
                  None \<Rightarrow> Inl [ErrKeyFetch]
                | Some u \<Rightarrow> (case validateURL N (Some u) (Some policy) of Some e \<Rightarrow> Inl e | None \<Rightarrow> Inr (doc_JWKSURI doc))))"

definition DiscoverJWKSURI :: "net_env \<Rightarrow> transport \<Rightarrow> redirect_check option \<Rightarrow> string \<Rightarrow> url_policy option list \<Rightarrow>
    (go_url list \<times> string result) option" where
  "DiscoverJWKSURI N tr caller issuer policies =
     (case ne_parse_url N issuer of
        None \<Rightarrow> Some ([], Inl [ErrKeyFetch])
      | Some u \<Rightarrow>
          if u_RawQuery u \<noteq> [] \<or> u_ForceQuery u \<or> u_Fragment u \<noteq> [] then Some ([], Inl [ErrKeyFetch])
          else
            let policy = selectURLPolicy N policies
            in case validateURL N (Some u) (Some policy) of
                 Some e \<Rightarrow> Some ([], Inl e)
               | None \<Rightarrow>
                   (case getCapped N tr (safeHTTPClient N caller [Some policy]) (trim_suffix issuer ''/'' @ wellKnownOpenIDConfig)
                           defaultMaxJWKSBytes [Some policy] of
                      None \<Rightarrow> None
                    | Some (urls, Inl e) \<Rightarrow> Some (urls, Inl e)
                    | Some (urls, Inr (body, _)) \<Rightarrow> Some (urls, check_discovery N issuer policy body)))"

section \<open>Lemmas\<close>

lemma client_Do_trace:
  assumes "client_Do tr check via u = Some y"
  shows "(\<forall>v n. check v n = None \<longrightarrow> Q v) \<longrightarrow> list_all Q via \<longrightarrow> Q u \<longrightarrow> list_all Q (fst y)"
proof (rule client_Do.raw_induct [OF _ assms, where
      P = "\<lambda>tr check via u y. (\<forall>v n. check v n = None \<longrightarrow> Q v) \<longrightarrow> list_all Q via \<longrightarrow> Q u \<longrightarrow> list_all Q (fst y)"])
  fix f tr check via u y
  assume IH: "\<And>tr check via u y. f tr check via u = Some y \<Longrightarrow>
      (\<forall>v n. check v n = None \<longrightarrow> Q v) \<longrightarrow> list_all Q via \<longrightarrow> Q u \<longrightarrow> list_all Q (fst y)"
    and step: "(case tr (length via) u of
        Redirect v \<Rightarrow> (case check v (length via + 1) of
            None \<Rightarrow> f tr check (via @ [u]) v | Some e \<Rightarrow> Some (via @ [u], Inl e))
      | Response r \<Rightarrow> Some (via @ [u], Inr r) | Failed e \<Rightarrow> Some (via @ [u], Inl e)) = Some y"
  show "(\<forall>v n. check v n = None \<longrightarrow> Q v) \<longrightarrow> list_all Q via \<longrightarrow> Q u \<longrightarrow> list_all Q (fst y)"
  proof (cases "tr (length via) u")
    case (Redirect v)
    then show ?thesis using step IH [of tr check "via @ [u]" v y] by (auto split: option.splits)
  qed (use step in auto)
qed

lemma client_Do_all:
  assumes "client_Do tr check via u = Some (urls, r)" "\<And>v n. check v n = None \<Longrightarrow> Q v" "list_all Q via" "Q u"
  shows "list_all Q urls"
  using client_Do_trace [OF assms(1)] assms(2-4) by auto

lemma client_Do_stops:
  assumes "\<And>v n. int n \<ge> maxRedirects \<Longrightarrow> check v n \<noteq> None" "length via < 10"
  shows "\<exists>urls r. client_Do tr check via u = Some (urls, r) \<and> length urls \<le> 10"
  using assms(2)
proof (induction "10 - length via" arbitrary: via u)
  case (Suc m)
  show ?case
  proof (cases "tr (length via) u")
    case (Redirect v)
    show ?thesis
    proof (cases "check v (length via + 1)")
      case None
      then have "length (via @ [u]) < 10" using assms(1) [of "length via + 1" v] by (cases "length via < 9") (auto simp: maxRedirects_def)
      moreover have "m = 10 - length (via @ [u])" using Suc.hyps(2) by simp
      ultimately obtain urls r where "client_Do tr check (via @ [u]) v = Some (urls, r)" "length urls \<le> 10"
        using Suc.hyps(1) [of "via @ [u]" v] by blast
      then show ?thesis using Redirect None by (subst client_Do.simps) simp
    next
      case (Some e)
      then show ?thesis using Redirect Suc.prems by (subst client_Do.simps) simp
    qed
  next
    case (Response x2)
    then show ?thesis using Suc.prems by (subst client_Do.simps) simp
  next
    case (Failed x3)
    then show ?thesis using Suc.prems by (subst client_Do.simps) simp
  qed
qed simp

definition url_ok :: "net_env \<Rightarrow> url_policy option list \<Rightarrow> go_url \<Rightarrow> bool" where
  "url_ok N policies u \<longleftrightarrow> equal_fold (u_Scheme u) ''https'' \<and> u_Host u \<noteq> [] \<and> selectURLPolicy N policies u = None"

lemma validateURL_None: "validateURL N (Some u) (Some (selectURLPolicy N policies)) = None \<longleftrightarrow> url_ok N policies u"
  by (auto simp: validateURL_def validateHTTPSURL_def url_ok_def split: option.splits)

lemma safeHTTPClient_None: "safeHTTPClient N caller policies v n = None \<Longrightarrow> url_ok N policies v"
  by (auto simp: safeHTTPClient_def validateURL_None split: option.splits)

lemma safe_default_stops: "int n \<ge> maxRedirects \<Longrightarrow> safeHTTPClient N None policies v n \<noteq> None"
  by (auto simp: safeHTTPClient_def split: option.splits)

lemma getCapped_urls:
  "getCapped N tr (safeHTTPClient N caller policies) uri mb policies = Some (urls, r) \<Longrightarrow> list_all (url_ok N policies) urls"
  by (auto simp: getCapped_def validateURL_None split: option.splits sum.splits
      intro: client_Do_all [OF _ safeHTTPClient_None])

lemma getCapped_stops:
  "\<exists>urls r. getCapped N tr (safeHTTPClient N None policies) uri mb policies = Some (urls, r) \<and> length urls \<le> 10"
proof (cases "ne_parse_url N uri")
  case (Some u)
  obtain urls r where "client_Do tr (safeHTTPClient N None policies) [] u = Some (urls, r)" "length urls \<le> 10"
    using client_Do_stops [where via = "[]", OF safe_default_stops] by fastforce
  with Some show ?thesis by (cases r) (auto simp: getCapped_def split: option.splits)
qed (simp add: getCapped_def)

lemma fetchJWKS_stops:
  "\<exists>urls r. fetchJWKS N tr (safeHTTPClient N None [policy]) uri mb mk policy = Some (urls, r) \<and> length urls \<le> 10"
proof -
  obtain urls r where "getCapped N tr (safeHTTPClient N None [policy]) uri mb [policy] = Some (urls, r)" "length urls \<le> 10"
    using getCapped_stops by blast
  then show ?thesis by (cases r) (auto simp: fetchJWKS_def)
qed

lemma DiscoverJWKSURI_stops: "\<exists>urls r. DiscoverJWKSURI N tr None issuer policies = Some (urls, r) \<and> length urls \<le> 10"
proof -
  let ?p = "[Some (selectURLPolicy N policies)]"
  obtain urls r where "getCapped N tr (safeHTTPClient N None ?p) (trim_suffix issuer ''/'' @ wellKnownOpenIDConfig) defaultMaxJWKSBytes ?p
      = Some (urls, r)" "length urls \<le> 10"
    using getCapped_stops by blast
  then show ?thesis by (cases r) (auto simp: DiscoverJWKSURI_def Let_def split: option.splits if_splits)
qed

lemma uint_digits_bounds: "0 \<le> n \<Longrightarrow> uint_digits n s = Uint m \<Longrightarrow> 0 \<le> m"
  by (induction n s rule: uint_digits.induct) (auto simp: digit_val_def isDigit_def split: if_splits)

lemma delta_seconds_bounds: "0 \<le> delta_seconds v \<and> delta_seconds v \<le> maxDuration"
proof (cases "ParseUint v")
  case (Uint n)
  then have "0 \<le> n" using uint_digits_bounds [of 0] by (auto simp: ParseUint_def split: if_splits)
  moreover have "n * second \<le> maxDuration" if "n \<le> maxDuration div second" using that by (simp add: maxDuration_def)
  ultimately show ?thesis using Uint by (simp add: delta_seconds_def maxDuration_def not_less)
qed (simp_all add: delta_seconds_def maxDuration_def)

lemma parseDeltaSeconds_bounds: "0 \<le> parseDeltaSeconds N v \<and> parseDeltaSeconds N v \<le> maxDuration"
  using delta_seconds_bounds by (auto simp: parseDeltaSeconds_def Let_def maxDuration_def split: option.splits)

definition cache_inv :: "cache_control \<times> int \<Rightarrow> bool" where
  "cache_inv st \<longleftrightarrow> 0 \<le> cc_maxAge (fst st) \<and> cc_maxAge (fst st) \<le> maxDuration \<and> 0 \<le> snd st
     \<and> (cc_hasMaxAge (fst st) \<longleftrightarrow> snd st > 0) \<and> (snd st > 1 \<longrightarrow> cc_maxAge (fst st) = 0)"

lemma cache_directive_inv: "cache_inv st \<Longrightarrow> cache_inv (cache_directive N part st)"
  using parseDeltaSeconds_bounds by (auto simp: cache_directive_def cache_inv_def Let_def maxDuration_def split: prod.splits)

lemma fold_invariant_state: "(\<And>x s. Q s \<Longrightarrow> Q (f x s)) \<Longrightarrow> Q s \<Longrightarrow> Q (fold f xs s)"
  by (induction xs arbitrary: s) auto

lemma parseCacheControl_inv:
  "cache_inv (fold (\<lambda>header st. fold (cache_directive N) (split_on CHR '','' header) st) headers (zero_cache, 0))"
  by (rule fold_invariant_state, rule fold_invariant_state, erule cache_directive_inv)
    (simp_all add: cache_inv_def zero_cache_def maxDuration_def)

lemma parseCacheControl_bounds: "0 \<le> cc_maxAge (parseCacheControl N hs) \<and> cc_maxAge (parseCacheControl N hs) \<le> maxDuration"
  using parseCacheControl_inv [of N hs] by (simp add: parseCacheControl_def cache_inv_def)

lemma sint_plus_one: "sint (w :: 64 word) < 2 ^ 63 - 1 \<Longrightarrow> sint (w + 1) = sint w + 1"
proof -
  assume a: "sint w < 2 ^ 63 - 1"
  have "- (2 ^ 63) \<le> sint w" using sint_ge [of w] by simp
  then show ?thesis using a by (simp add: signed_eq_0_iff sint_word_ariths signed_take_bit_int_eq_self)
qed

lemma response_body_Inr:
  assumes "0 \<le> sint mb" "sint mb < 2 ^ 63 - 1"
  shows "response_body mb r = Inr (body, hs) \<longleftrightarrow>
     hr_status r = 200 \<and> hr_error r = None \<and> len (hr_body r) \<le> sint mb \<and> body = hr_body r \<and> hs = hr_cache_control r"
  using assms by (auto simp: response_body_def read_limited_def Let_def sint_plus_one len_def split: sum.splits option.splits if_splits)

lemma requested_urls_ok:
  assumes "fetchJWKS N tr (safeHTTPClient N caller [policy]) uri mb mk policy = Some (urls, r)"
    "DiscoverJWKSURI N tr caller issuer policies = Some (urls', r')"
  shows "list_all (url_ok N [policy]) urls \<and> list_all (url_ok N policies) urls'"
proof
  show "list_all (url_ok N [policy]) urls"
    using assms(1) getCapped_urls [of N tr caller "[policy]"] by (auto simp: fetchJWKS_def split: option.splits sum.splits)
  have "url_ok N [Some (selectURLPolicy N policies)] = url_ok N policies" by (simp add: url_ok_def fun_eq_iff)
  then show "list_all (url_ok N policies) urls'"
    using assms(2) getCapped_urls [of N tr caller "[Some (selectURLPolicy N policies)]"]
    by (auto simp: DiscoverJWKSURI_def Let_def split: option.splits sum.splits if_splits)
qed

subsection \<open>What the default policy refuses\<close>

definition local_suffixes :: "string list" where
  "local_suffixes = [''.localhost'', ''.local'', ''.internal'', ''.home.arpa'']"

text \<open>An address as \<^verbatim>\<open>net.ParseIP\<close> reads it, a host with a zone, a single label or a name of a local domain.\<close>

definition local_host :: "string \<Rightarrow> bool" where
  "local_host h \<longleftrightarrow> (\<exists>ip. ip_text h ip)
     \<or> list_all isASCII h \<and> (h = [] \<or> last h \<noteq> CHR ''.'') \<and>
       (CHR ''%'' \<in> set h \<or> CHR ''.'' \<notin> set h \<or> (\<exists>p \<in> set local_suffixes. has_suffix (map ascii_lower h) p))"

lemma lower_punctuation: "ascii_lower c = d \<longleftrightarrow> c = d" if "d \<in> {CHR ''.'', CHR ''%''}"
proof (cases "isUpper c")
  case True
  then have "ord (ascii_lower c) = ord c + 32" "65 \<le> ord c" by (auto simp: ascii_lower_def isUpper_def intro!: ord_chr)
  moreover have "ord d < 65" "\<not> isUpper d" using that by (auto simp: isUpper_def)
  ultimately show ?thesis using True by (metis add_less_same_cancel1 leD le_add_same_cancel1 not_less order_trans zero_le_numeral)
qed (simp add: ascii_lower_def)

lemma trim_dot:
  assumes "h = [] \<or> last h \<noteq> CHR ''.''" "s \<in> {h, h @ ''.''}"
  shows "trim_suffix s ''.'' = h"
  using assms by (cases h rule: rev_cases) (auto simp: trim_suffix_def has_suffix_def has_prefix_def)

lemma trim_percent: "CHR ''%'' \<notin> set h \<Longrightarrow> trim_suffix h ''%'' = h"
  by (cases h rule: rev_cases) (auto simp: trim_suffix_def has_suffix_def has_prefix_def)

lemma default_policy_refuses:
  assumes "local_host h" "u_Hostname u \<in> {h, h @ ''.''}"
  shows "defaultURLPolicy N u \<noteq> None"
proof -
  have h: "list_all isASCII h" "h = [] \<or> last h \<noteq> CHR ''.''"
    using assms(1) ip_text_ascii ip_text_last by (auto simp: local_host_def)
  then have "trim_suffix (u_Hostname u) ''.'' = h" using trim_dot assms(2) by blast
  moreover define l where "l = map ascii_lower h"
  ultimately have t: "to_lower (ne_lower N) (trim_suffix (u_Hostname u) ''.'') = l" using h(1) by (simp add: to_lower_def)
  have m: "c \<in> set l \<longleftrightarrow> c \<in> set h" if "c \<in> {CHR ''.'', CHR ''%''}" for c
  proof -
    have "c \<in> set l \<longleftrightarrow> (\<exists>x \<in> set h. ascii_lower x = c)" by (auto simp: l_def)
    also have "\<dots> \<longleftrightarrow> c \<in> set h" unfolding lower_punctuation [OF that] by simp
    finally show ?thesis .
  qed
  show ?thesis
  proof
    assume "defaultURLPolicy N u = None"
    then have a: "ParseIP (trim_suffix l ''%'') = None" "CHR ''%'' \<notin> set l" "CHR ''.'' \<in> set l"
        "\<forall>p \<in> set local_suffixes. \<not> has_suffix l p"
      unfolding defaultURLPolicy_def Let_def t policy_error_def local_suffixes_def by (auto split: if_splits)
    have "ParseIP l = None" using a(1,2) by (simp only: trim_percent not_False_eq_True)
    then have "\<not> ip_text h ip" for ip
      using ip_text_lower [of h ip] ParseIP_reads_every_address [of l] unfolding l_def [symmetric] by (metis option.distinct(1))
    moreover have "CHR ''%'' \<notin> set h" "CHR ''.'' \<in> set h" using a(2,3) m [of "CHR ''%''"] m [of "CHR ''.''"] by simp_all
    ultimately show False using a(4) assms(1) by (simp only: local_host_def l_def [symmetric] simp_thms bex_simps) blast
  qed
qed

text \<open>
  The numeric host forms of C's \<^verbatim>\<open>inet_aton\<close> are not addresses to \<^verbatim>\<open>net.ParseIP\<close>: with a dot in
  them they pass the default policy, and a resolver of the C library takes them for 127.0.0.1.
\<close>

theorem short_numeric_hosts_pass:
  assumes "\<not> u_User u" "u_Hostname u \<in> {''127.1'', ''0177.0.0.1'', ''0x7f.0.0.1''}"
  shows "defaultURLPolicy N u = None"
proof -
  have "list_all isASCII (trim_suffix (u_Hostname u) ''.'') \<and> (let host = map ascii_lower (trim_suffix (u_Hostname u) ''.'')
      in ParseIP (trim_suffix host ''%'') = None \<and> CHR ''%'' \<notin> set host \<and> CHR ''.'' \<in> set host \<and> host \<noteq> ''localhost''
        \<and> list_all (\<lambda>p. \<not> has_suffix host p) local_suffixes)"
    using assms(2) by (elim insertE emptyE; simp only:) code_simp+
  with assms(1) show ?thesis by (auto simp: defaultURLPolicy_def to_lower_def Let_def local_suffixes_def)
qed

section \<open>Properties\<close>

definition sample_url :: go_url where
  "sample_url = \<lparr>u_Scheme = ''https'', u_Host = ''idp.example'', u_Hostname = ''idp.example'', u_User = False,
     u_RawQuery = [], u_ForceQuery = False, u_Fragment = []\<rparr>"

definition sample_net :: net_env where
  "sample_net = \<lparr>ne_crypto = sample_crypto, ne_parse_url = (\<lambda>_. Some sample_url), ne_lower = (\<lambda>s. s)\<rparr>"

text \<open>
  C18: no request leaves for a URL that is not absolute HTTPS and approved by the URL policy, be it
  the configured one, a redirect target or a discovery URL, whatever redirect policy the
  caller's own client has.
\<close>

theorem only_checked_urls_requested:
  assumes "fetchJWKS N tr (safeHTTPClient N caller [policy]) uri mb mk policy = Some (urls, r)"
    "DiscoverJWKSURI N tr caller issuer policies = Some (urls', r')"
  shows "list_all (url_ok N [policy]) urls \<and> list_all (url_ok N policies) urls'"
  by (rule requested_urls_ok [OF assms])

theorem only_checked_urls_requested_witness:
  "\<exists>urls r. fetchJWKS sample_net (\<lambda>_ _. Failed []) (safeHTTPClient sample_net None [None]) ''u'' 10 5 None = Some (urls, r)
     \<and> list_all (url_ok sample_net [None]) urls"
proof -
  let ?tr = "\<lambda>_ _. Failed []"
  obtain urls r where f: "fetchJWKS sample_net ?tr (safeHTTPClient sample_net None [None]) ''u'' 10 5 None = Some (urls, r)"
    using fetchJWKS_stops by blast
  obtain urls' r' where d: "DiscoverJWKSURI sample_net ?tr None ''i'' [None] = Some (urls', r')"
    using DiscoverJWKSURI_stops by blast
  from only_checked_urls_requested [OF f d] f show ?thesis by blast
qed

text \<open>
  C17: with the default client a fetch and a discovery always return, after at most ten requests,
  however the server redirects.
\<close>

theorem default_client_terminates:
  "(\<exists>urls r. fetchJWKS N tr (safeHTTPClient N None [policy]) uri mb mk policy = Some (urls, r) \<and> length urls \<le> 10)
   \<and> (\<exists>urls r. DiscoverJWKSURI N tr None issuer policies = Some (urls, r) \<and> length urls \<le> 10)"
  using fetchJWKS_stops DiscoverJWKSURI_stops by blast

text \<open>
  discovery returns a URI exactly when the issuer is an approved HTTPS URL without query and
  fragment, the document at its well-known location names that very issuer, and the
  \<^verbatim>\<open>jwks_uri\<close> in it is itself an approved HTTPS URL.
\<close>

theorem discovery_exact:
  "DiscoverJWKSURI N tr caller issuer policies = Some (urls, Inr uri) \<longleftrightarrow>
     (\<exists>u v body hs. ne_parse_url N issuer = Some u \<and> u_RawQuery u = [] \<and> \<not> u_ForceQuery u \<and> u_Fragment u = [] \<and> url_ok N policies u
        \<and> getCapped N tr (safeHTTPClient N caller [Some (selectURLPolicy N policies)]) (trim_suffix issuer ''/'' @ wellKnownOpenIDConfig)
            defaultMaxJWKSBytes [Some (selectURLPolicy N policies)] = Some (urls, Inr (body, hs))
        \<and> decodeObject dec_discovery body = Inr \<lparr>doc_Issuer = issuer, doc_JWKSURI = uri\<rparr> \<and> uri \<noteq> []
        \<and> ne_parse_url N uri = Some v \<and> url_ok N policies v)"
proof -
  have c: "check_discovery N issuer (selectURLPolicy N policies) body = Inr uri \<longleftrightarrow>
      decodeObject dec_discovery body = Inr \<lparr>doc_Issuer = issuer, doc_JWKSURI = uri\<rparr> \<and> uri \<noteq> []
      \<and> (\<exists>v. ne_parse_url N uri = Some v \<and> url_ok N policies v)" for body
  proof (cases "decodeObject dec_discovery body")
    case (Inr doc)
    have "doc = \<lparr>doc_Issuer = issuer, doc_JWKSURI = uri\<rparr> \<longleftrightarrow> doc_Issuer doc = issuer \<and> doc_JWKSURI doc = uri" by (cases doc) simp
    with Inr show ?thesis by (auto simp: check_discovery_def validateURL_None [symmetric] split: option.splits if_splits)
  qed (simp add: check_discovery_def)
  show ?thesis
    unfolding DiscoverJWKSURI_def Let_def
    by (auto simp: c validateURL_None [symmetric] split: option.splits sum.splits if_splits)
qed

text \<open>
  below the largest 64-bit value, a download is returned exactly when the status is 200 and the
  whole body, read without error, fits the limit; it is never truncated.
\<close>

theorem download_limit_exact:
  assumes "0 \<le> sint mb" "sint mb < 2 ^ 63 - 1"
  shows "response_body mb r = Inr (body, hs) \<longleftrightarrow>
     hr_status r = 200 \<and> hr_error r = None \<and> len (hr_body r) \<le> sint mb \<and> body = hr_body r \<and> hs = hr_cache_control r"
  by (rule response_body_Inr [OF assms])

theorem download_limit_exact_witness:
  "response_body 3 \<lparr>hr_status = 200, hr_body = ''abc'', hr_error = None, hr_cache_control = []\<rparr> = Inr (''abc'', [])"
  by (subst download_limit_exact) (simp_all add: len_def)

text \<open>
  a limit of the largest 64-bit value reads nothing at all: adding one to it wraps around, so
  every successful response is taken for an empty document.
\<close>

theorem largest_limit_reads_nothing:
  "response_body (of_int (2 ^ 63 - 1)) r =
     (if hr_status r \<noteq> 200 then Inl [ErrKeyFetch] else Inr ([], hr_cache_control r))"
proof -
  have m: "sint (of_int (2 ^ 63 - 1) + 1 :: 64 word) = - (2 ^ 63)" "sint (of_int (2 ^ 63 - 1) :: 64 word) = 2 ^ 63 - 1"
    by code_simp+
  have "- (2 ^ 63) \<le> len (hr_body r)" by (simp add: len_def)
  then show ?thesis unfolding response_body_def read_limited_def Let_def m by (simp add: len_def)
qed

text \<open>
  C22: with the default policy no request of a fetch or of a discovery, redirects included, carries
  userinfo or goes to a host that, with or without a final dot, is the text of an IP address
  that \<^verbatim>\<open>net.ParseIP\<close> reads (dotted decimal IPv4; IPv6 in every abbreviation and letter case, with
  or without an embedded IPv4 address), or an ASCII name that has a zone, is a single label or
  ends in one of the four local domains in whatever letter case.  Texts that only
  \<^verbatim>\<open>inet_aton\<close> reads as an address, such as \<^verbatim>\<open>127.1\<close> or \<^verbatim>\<open>0x7f.1\<close>, are not covered: the policy lets
  them pass (\<open>short_numeric_hosts_pass\<close>).
\<close>

theorem default_policy_no_local_target:
  assumes "fetchJWKS N tr (safeHTTPClient N caller [None]) uri mb mk None = Some (urls, r)"
    "DiscoverJWKSURI N tr caller issuer [] = Some (urls', r')" "local_host h"
  shows "\<forall>u \<in> set (urls @ urls'). \<not> u_User u \<and> u_Hostname u \<noteq> h \<and> u_Hostname u \<noteq> h @ ''.''"
proof -
  have "url_ok N [] = url_ok N [None]" by (simp add: url_ok_def fun_eq_iff)
  then have "list_all (url_ok N [None]) (urls @ urls')" using requested_urls_ok [OF assms(1,2)] by simp
  moreover have "defaultURLPolicy N u = None \<Longrightarrow> \<not> u_User u" for u by (auto simp: defaultURLPolicy_def policy_error_def)
  moreover have "defaultURLPolicy N u = None \<Longrightarrow> u_Hostname u \<noteq> h \<and> u_Hostname u \<noteq> h @ ''.''" for u
    using default_policy_refuses [OF assms(3), of u N] by auto
  ultimately show ?thesis by (auto simp: list_all_iff url_ok_def)
qed

theorem default_policy_no_local_target_witness:
  "\<exists>urls r. fetchJWKS sample_net (\<lambda>_ _. Failed []) (safeHTTPClient sample_net None [None]) ''u'' 10 5 None = Some (urls, r)
     \<and> (\<forall>u \<in> set urls. u_Hostname u \<noteq> ''::ffff:127.0.0.1'')"
proof -
  let ?tr = "\<lambda>_ _. Failed []"
  obtain urls r where f: "fetchJWKS sample_net ?tr (safeHTTPClient sample_net None [None]) ''u'' 10 5 None = Some (urls, r)"
    using fetchJWKS_stops by blast
  obtain urls' r' where d: "DiscoverJWKSURI sample_net ?tr None ''i'' [] = Some (urls', r')"
    using DiscoverJWKSURI_stops by blast
  let ?q = "(127, 0, 0, 1) :: int \<times> int \<times> int \<times> int"
  have "ip_text (run_text ([], None) @ ''::'' @ run_text ([''ffff''], Some ?q))
      (run_bytes ([], None) @ replicate (16 - (length (run_bytes ([], None)) + length (run_bytes ([''ffff''], Some ?q)))) 0
        @ run_bytes ([''ffff''], Some ?q))"
  proof (rule ip_text.abbreviated)
    show "run_ok ([''ffff''], Some ?q)" by (simp add: run_ok_def quad_ok_def is_byte_def) code_simp
  qed code_simp+
  moreover have "run_text ([], None) @ ''::'' @ run_text ([''ffff''], Some ?q) = ''::ffff:127.0.0.1''" by code_simp
  ultimately have "local_host ''::ffff:127.0.0.1''" by (auto simp: local_host_def)
  from default_policy_no_local_target [OF f d this] f show ?thesis by auto
qed

end
