(* ===== verification/KeyFetch.thy ===== *)
theory KeyFetch
  imports HTTPFetch
begin

text \<open>
  The caching side of \<^verbatim>\<open>keyfetch.go\<close>: \<^verbatim>\<open>KeyFetcher\<close>.  Its fields under the mutex are the record
  \<open>fetcher\<close>; the flights started so far are kept in order, so that a flight is its position.
  Each critical section is one definition: a \<^verbatim>\<open>Lookup\<close> enters (and is answered or waits for a
  flight), the goroutine of a flight finishes, a waiting \<^verbatim>\<open>Lookup\<close> resumes.  The step relation
  \<open>fetch_run\<close> interleaves them in any order, with any clock readings and any outcome of
  \<^verbatim>\<open>fetchJWKS\<close>.  Durations are integers of 64-bit range; \<^verbatim>\<open>Time.Sub\<close> saturates.

  The relation \<open>fetch_log\<close> takes the same steps with the log of the finished fetches.

  Shown: one flight at a time, the rate limit, that a served key comes from the latest storable
  document of the log and how old it may be, counted from its fetch, what a
  completed flight's waiters are told, that every failure is a fetch error, and that a fetcher
  is a key provider like the others.
\<close>

section \<open>Configuration\<close>

abbreviation minute :: int where "minute \<equiv> 60 * second"
abbreviation hour :: int where "hour \<equiv> 3600 * second"

record fetcher_config =
  fc_uri :: string
  fc_client :: "redirect_check option" \<comment> \<open>\<^verbatim>\<open>CheckRedirect\<close> of the caller's client\<close>
  fc_urlPolicy :: "url_policy option" \<comment> \<open>\<open>None\<close> is the default policy\<close>
  fc_minRefresh :: int
  fc_maxBytes :: "64 word"
  fc_maxKeys :: int
  fc_maxCache :: int
  fc_maxStale :: int

datatype fetcher_option =
    WithHTTPClient "redirect_check option option"
  | WithURLPolicy "url_policy option"
  | WithMinRefreshInterval int
  | WithMaxResponseBytes "64 word"
  | WithMaxKeyCount int
  | WithMaxCacheDuration int
  | WithMaxStaleDuration int

fun apply_fetcher_option :: "fetcher_option \<Rightarrow> fetcher_config \<Rightarrow> fetcher_config" where
  "apply_fetcher_option (WithHTTPClient c) f = (case c of None \<Rightarrow> f | Some check \<Rightarrow> f\<lparr>fc_client := check\<rparr>)"
| "apply_fetcher_option (WithURLPolicy p) f = (case p of None \<Rightarrow> f | Some q \<Rightarrow> f\<lparr>fc_urlPolicy := Some q\<rparr>)"
| "apply_fetcher_option (WithMinRefreshInterval d) f = (if d > 0 then f\<lparr>fc_minRefresh := d\<rparr> else f)"
| "apply_fetcher_option (WithMaxResponseBytes n) f = (if sint n > 0 then f\<lparr>fc_maxBytes := n\<rparr> else f)"
| "apply_fetcher_option (WithMaxKeyCount n) f = (if n > 0 then f\<lparr>fc_maxKeys := n\<rparr> else f)"
| "apply_fetcher_option (WithMaxCacheDuration d) f = (if d > 0 then f\<lparr>fc_maxCache := d\<rparr> else f)"
| "apply_fetcher_option (WithMaxStaleDuration d) f = (if d \<ge> 0 then f\<lparr>fc_maxStale := d\<rparr> else f)"

record flight =
  fl_done :: bool
  fl_set :: "keyset option"
  fl_err :: "go_error option"

record fetcher =
  f_set :: "keyset option"
  f_fetchedAt :: time
  f_freshFor :: int
  f_lastAttempt :: time
  f_lastErr :: "go_error option"
  f_inflight :: "nat option"
  f_flights :: "flight list"

definition NewKeyFetcher :: "string \<Rightarrow> fetcher_option option list \<Rightarrow> fetcher_config \<times> fetcher" where
  "NewKeyFetcher uri opts =
     (fold (\<lambda>o' f. case o' of None \<Rightarrow> f | Some x \<Rightarrow> apply_fetcher_option x f) opts
        \<lparr>fc_uri = uri, fc_client = None, fc_urlPolicy = None, fc_minRefresh = minute, fc_maxBytes = defaultMaxJWKSBytes,
         fc_maxKeys = 100, fc_maxCache = 24 * hour, fc_maxStale = 24 * hour\<rparr>,
      \<lparr>f_set = None, f_fetchedAt = zero_time, f_freshFor = 0, f_lastAttempt = zero_time, f_lastErr = None,
       f_inflight = None, f_flights = []\<rparr>)"

section \<open>Freshness and rate limit\<close>

definition time_Sub :: "time \<Rightarrow> time \<Rightarrow> int" where
  "time_Sub t u = max (- (2 ^ 63)) (min maxDuration (t - u))"

definition cacheAge :: "time \<Rightarrow> time \<Rightarrow> int" where
  "cacheAge now fetchedAt = (let age = time_Sub now fetchedAt in if age < 0 then 0 else age)"

definition staleAt :: "fetcher \<Rightarrow> time \<Rightarrow> bool" where
  "staleAt f now \<longleftrightarrow> cacheAge now (f_fetchedAt f) \<ge> f_freshFor f"

definition fallbackLocked :: "fetcher_config \<Rightarrow> fetcher \<Rightarrow> time \<Rightarrow> go_error option \<Rightarrow> keyset option \<times> go_error option" where
  "fallbackLocked cfg f now fetchErr =
     (case f_set f of
        None \<Rightarrow> (None, fetchErr)
      | Some s \<Rightarrow>
          let age = cacheAge now (f_fetchedAt f)
          in if age < f_freshFor f \<or> age - f_freshFor f < fc_maxStale cfg then (Some s, fetchErr)
             else (None, if fetchErr = None then Some [ErrKeyFetch] else fetchErr))"

definition mayAttemptAt :: "fetcher_config \<Rightarrow> fetcher \<Rightarrow> time \<Rightarrow> bool" where
  "mayAttemptAt cfg f now \<longleftrightarrow> f_lastAttempt f = zero_time \<or> time_Sub now (f_lastAttempt f) \<ge> fc_minRefresh cfg"

definition lookupOrErr :: "keyset option \<Rightarrow> string \<Rightarrow> go_error option \<Rightarrow> key option result" where
  "lookupOrErr s kid err =
     (case (case s of None \<Rightarrow> None | Some ks \<Rightarrow> ks_lookup ks kid) of
        Some k \<Rightarrow> Inr (Some k)
      | None \<Rightarrow> (case err of None \<Rightarrow> Inr None | Some e \<Rightarrow> Inl e))"

section \<open>Flights\<close>

definition startFlightLocked :: "time \<Rightarrow> fetcher \<Rightarrow> nat \<times> fetcher" where
  "startFlightLocked now f =
     (case f_inflight f of
        Some i \<Rightarrow> (i, f)
      | None \<Rightarrow>
          let i = length (f_flights f)
          in (i, f\<lparr>f_inflight := Some i, f_lastAttempt := now,
                   f_flights := f_flights f @ [\<lparr>fl_done = False, fl_set = None, fl_err = None\<rparr>]\<rparr>))"

text \<open>The goroutine's critical section, after \<^verbatim>\<open>fetchJWKS\<close> has returned \<open>r\<close>.\<close>

definition flight_finish :: "fetcher_config \<Rightarrow> time \<Rightarrow> nat \<Rightarrow> (keyset \<times> cache_control) result \<Rightarrow> fetcher \<Rightarrow> fetcher" where
  "flight_finish cfg now i r f =
     (let f = (case r of
                 Inl _ \<Rightarrow> f
               | Inr (s, cache) \<Rightarrow>
                   if cc_noStore cache then f\<lparr>f_set := None, f_fetchedAt := zero_time, f_freshFor := 0\<rparr>
                   else f\<lparr>f_set := Some s, f_fetchedAt := now,
                          f_freshFor := (if cc_noCache cache then 0
                                         else if cc_hasMaxAge cache then min (cc_maxAge cache) (fc_maxCache cfg)
                                         else fc_minRefresh cfg)\<rparr>);
          err = (case r of Inl e \<Rightarrow> Some e | Inr _ \<Rightarrow> None);
          got = (case r of Inl _ \<Rightarrow> None | Inr (s, _) \<Rightarrow> Some s)
      in f\<lparr>f_lastErr := err, f_inflight := None,
           f_flights := (f_flights f)[i := \<lparr>fl_done = True, fl_set = got, fl_err = err\<rparr>]\<rparr>)"

section \<open>Lookup and Refresh\<close>

text \<open>Entering \<^verbatim>\<open>Lookup\<close>: an answer, or the flight to wait for.\<close>

definition Lookup_enter :: "fetcher_config \<Rightarrow> time \<Rightarrow> string \<Rightarrow> fetcher \<Rightarrow> (key option result + nat) \<times> fetcher" where
  "Lookup_enter cfg now kid f =
     (case (case f_set f of None \<Rightarrow> None | Some s \<Rightarrow> if staleAt f now then None else ks_lookup s kid) of
        Some k \<Rightarrow> (Inl (Inr (Some k)), f)
      | None \<Rightarrow>
          if f_inflight f = None \<and> \<not> mayAttemptAt cfg f now then
            (case fallbackLocked cfg f now (f_lastErr f) of (s, lastErr) \<Rightarrow> (Inl (lookupOrErr s kid lastErr), f))
          else (case startFlightLocked now f of (i, f') \<Rightarrow> (Inr i, f')))"

datatype wait = FlightDone | ContextEnded go_error

definition Lookup_resume :: "fetcher_config \<Rightarrow> time \<Rightarrow> string \<Rightarrow> nat \<Rightarrow> wait \<Rightarrow> fetcher \<Rightarrow> key option result" where
  "Lookup_resume cfg now kid i w f =
     (case w of
        ContextEnded e \<Rightarrow> Inl e
      | FlightDone \<Rightarrow>
          let fl = f_flights f ! i
          in if fl_err fl = None then lookupOrErr (fl_set fl) kid None
             else (case fallbackLocked cfg f now (fl_err fl) of (s, err) \<Rightarrow> lookupOrErr s kid err))"

definition Refresh_enter :: "time \<Rightarrow> fetcher \<Rightarrow> nat \<times> fetcher" where
  "Refresh_enter now f = startFlightLocked now f"

definition Refresh_resume :: "nat \<Rightarrow> wait \<Rightarrow> fetcher \<Rightarrow> go_error option" where
  "Refresh_resume i w f = (case w of ContextEnded e \<Rightarrow> Some e | FlightDone \<Rightarrow> fl_err (f_flights f ! i))"

text \<open>An undisturbed \<^verbatim>\<open>Lookup\<close>: the flight, if there is one, finishes at \<open>t1\<close> with \<open>r\<close>.\<close>

definition fetcher_Lookup :: "fetcher_config \<Rightarrow> time \<Rightarrow> time \<Rightarrow> time \<Rightarrow> (keyset \<times> cache_control) result \<Rightarrow> fetcher \<Rightarrow> key_lookup" where
  "fetcher_Lookup cfg now t1 t2 r f kid =
     (case Lookup_enter cfg now kid f of
        (Inl answer, _) \<Rightarrow> answer
      | (Inr i, f') \<Rightarrow> Lookup_resume cfg t2 kid i FlightDone (flight_finish cfg t1 i r f'))"

section \<open>Interleavings\<close>

text \<open>What a fetch of this configuration can return.\<close>

definition fetch_outcome :: "net_env \<Rightarrow> fetcher_config \<Rightarrow> (keyset \<times> cache_control) result \<Rightarrow> bool" where
  "fetch_outcome N cfg r \<longleftrightarrow> (\<exists>tr urls. fetchJWKS N tr (safeHTTPClient N (fc_client cfg) [fc_urlPolicy cfg]) (fc_uri cfg)
     (fc_maxBytes cfg) (fc_maxKeys cfg) (fc_urlPolicy cfg) = Some (urls, r))"

text \<open>
  The states a fetcher reaches, with the network attempts made so far, latest first; an attempt
  records whether it was forced by \<^verbatim>\<open>Refresh\<close>, and when it was made.
\<close>

inductive fetch_run :: "net_env \<Rightarrow> fetcher_config \<Rightarrow> (bool \<times> time) list \<Rightarrow> fetcher \<Rightarrow> bool" for N cfg where
  start: "NewKeyFetcher uri opts = (cfg, f) \<Longrightarrow> fetch_run N cfg [] f"
| enter_lookup: "fetch_run N cfg as f \<Longrightarrow> Lookup_enter cfg now kid f = (r, f') \<Longrightarrow>
     fetch_run N cfg (if length (f_flights f') > length (f_flights f) then (False, now) # as else as) f'"
| enter_refresh: "fetch_run N cfg as f \<Longrightarrow> Refresh_enter now f = (i, f') \<Longrightarrow>
     fetch_run N cfg (if length (f_flights f') > length (f_flights f) then (True, now) # as else as) f'"
| finish: "fetch_run N cfg as f \<Longrightarrow> f_inflight f = Some i \<Longrightarrow> fetch_outcome N cfg r \<Longrightarrow>
     fetch_run N cfg as (flight_finish cfg now i r f)"

section \<open>Lemmas\<close>

lemma client_error_is_fetch_error:
  "fetchJWKS N tr client uri mb mk policy = Some (urls, Inl e) \<Longrightarrow> errors_is e ErrKeyFetch"
  by (auto simp: fetchJWKS_def getCapped_def parse_document_def response_body_def validateURL_def validateHTTPSURL_def errors_is_def wrap_def
      split: option.splits sum.splits prod.splits if_splits)

lemma fetch_outcome_error: "fetch_outcome N cfg (Inl e) \<Longrightarrow> errors_is e ErrKeyFetch"
  using client_error_is_fetch_error by (auto simp: fetch_outcome_def)

definition set_within_limits :: "net_env \<Rightarrow> keyset \<Rightarrow> bool" where
  "set_within_limits N s \<longleftrightarrow> ks_inv s \<and> len (ks_keys s) \<le> 128 \<and> (\<forall>k \<in> set (ks_keys s). validateRepresentation (ne_crypto N) k = None)"

lemma ParseKeySet_within_limits: "ParseKeySet (ne_crypto N) data = Inr s \<Longrightarrow> set_within_limits N s"
proof -
  assume "ParseKeySet (ne_crypto N) data = Inr s"
  then obtain raws ds where raws: "len raws \<le> MaxKeySetKeys" "parse_members_loop (ne_crypto N) False 0 raws (NewKeySet []) [] = Inr (s, ds)"
    by (auto simp: ParseKeySet_def parseKeySet_def not_less split: if_splits sum.splits option.splits)
  from parse_loop_bounds [OF raws(2) NewKeySet_Nil(1)] raws(1) show ?thesis
    by (auto simp: NewKeySet_Nil(2) MaxKeySetKeys_def len_def key_accepted_def set_within_limits_def)
qed

lemma fetchJWKS_Inr:
  "fetchJWKS N tr client uri mb mk policy = Some (urls, Inr x) \<longleftrightarrow>
     (\<exists>g. getCapped N tr client uri mb [policy] = Some (urls, Inr g) \<and> parse_document N mk g = Inr x)"
proof (cases "getCapped N tr client uri mb [policy]")
  case (Some q)
  then show ?thesis by (cases q; cases "snd q") (auto simp: fetchJWKS_def)
qed (simp add: fetchJWKS_def)

lemma fetch_outcome_Inr: "fetch_outcome N cfg (Inr (s, cache)) \<Longrightarrow> set_within_limits N s \<and> 0 \<le> cc_maxAge cache"
proof -
  assume "fetch_outcome N cfg (Inr (s, cache))"
  then obtain tr urls g where g: "getCapped N tr (safeHTTPClient N (fc_client cfg) [fc_urlPolicy cfg]) (fc_uri cfg) (fc_maxBytes cfg) [fc_urlPolicy cfg]
      = Some (urls, Inr g)" "parse_document N (fc_maxKeys cfg) g = Inr (s, cache)"
    unfolding fetch_outcome_def fetchJWKS_Inr by blast
  then obtain body hs where "ParseKeySet (ne_crypto N) body = Inr s" "cache = parseCacheControl N hs"
    by (cases g) (auto simp: parse_document_def split: option.splits sum.splits if_splits)
  then show ?thesis using ParseKeySet_within_limits parseCacheControl_bounds by blast
qed

definition config_ok :: "fetcher_config \<Rightarrow> bool" where
  "config_ok cfg \<longleftrightarrow> fc_minRefresh cfg > 0 \<and> fc_maxCache cfg > 0 \<and> fc_maxStale cfg \<ge> 0 \<and> fc_maxKeys cfg > 0 \<and> sint (fc_maxBytes cfg) > 0"

lemma apply_fetcher_option_ok: "config_ok f \<Longrightarrow> config_ok (apply_fetcher_option x f)"
  by (cases x) (auto simp: config_ok_def split: option.splits)

lemma NewKeyFetcher_ok: "NewKeyFetcher uri opts = (cfg, f) \<Longrightarrow> config_ok cfg"
proof -
  let ?d = "\<lparr>fc_uri = uri, fc_client = None, fc_urlPolicy = None, fc_minRefresh = minute, fc_maxBytes = defaultMaxJWKSBytes,
         fc_maxKeys = 100, fc_maxCache = 24 * hour, fc_maxStale = 24 * hour\<rparr>"
  have d: "config_ok ?d" by (simp add: config_ok_def defaultMaxJWKSBytes_def)
  have "config_ok (fold (\<lambda>o' f. case o' of None \<Rightarrow> f | Some x \<Rightarrow> apply_fetcher_option x f) opts ?d)"
    by (rule fold_invariant_state [where Q = config_ok, OF _ d]) (auto intro: apply_fetcher_option_ok split: option.splits)
  then show "NewKeyFetcher uri opts = (cfg, f) \<Longrightarrow> config_ok cfg" by (auto simp: NewKeyFetcher_def)
qed

lemma startFlightLocked_cases:
  assumes "startFlightLocked now f = (i, f')"
  obtains (join) "f_inflight f = Some i" "f' = f"
  | (new) "f_inflight f = None" "i = length (f_flights f)"
      "f' = f\<lparr>f_inflight := Some i, f_lastAttempt := now, f_flights := f_flights f @ [\<lparr>fl_done = False, fl_set = None, fl_err = None\<rparr>]\<rparr>"
  using assms by (auto simp: startFlightLocked_def Let_def split: option.splits)

lemma Lookup_enter_cases:
  assumes "Lookup_enter cfg now kid f = (r, f')"
  obtains (fresh) s k where "f_set f = Some s" "\<not> staleAt f now" "ks_lookup s kid = Some k" "r = Inl (Inr (Some k))" "f' = f"
  | (limited) s e where "f_inflight f = None" "\<not> mayAttemptAt cfg f now" "fallbackLocked cfg f now (f_lastErr f) = (s, e)"
      "r = Inl (lookupOrErr s kid e)" "f' = f"
  | (flight) i where "f_inflight f = None \<Longrightarrow> mayAttemptAt cfg f now" "startFlightLocked now f = (i, f')" "r = Inr i"
proof (cases "case f_set f of None \<Rightarrow> None | Some s \<Rightarrow> if staleAt f now then None else ks_lookup s kid")
  case (Some k)
  then obtain s where "f_set f = Some s" "\<not> staleAt f now" "ks_lookup s kid = Some k" by (auto split: option.splits if_splits)
  then show ?thesis using fresh Some assms by (simp add: Lookup_enter_def)
next
  case None
  show ?thesis
  proof (cases "f_inflight f = None \<and> \<not> mayAttemptAt cfg f now")
    case True
    obtain s e where "fallbackLocked cfg f now (f_lastErr f) = (s, e)" by (cases "fallbackLocked cfg f now (f_lastErr f)")
    then show ?thesis using limited [of s e] True None assms by (simp add: Lookup_enter_def)
  next
    case False
    obtain i g where "startFlightLocked now f = (i, g)" by (cases "startFlightLocked now f")
    then show ?thesis using flight [of i] False None assms by (auto simp: Lookup_enter_def)
  qed
qed

text \<open>The invariant, with the list of attempts.\<close>

definition last_attempt :: "(bool \<times> time) list \<Rightarrow> time" where
  "last_attempt as = (case as of [] \<Rightarrow> zero_time | (_, t) # _ \<Rightarrow> t)"

definition flights_ok :: "fetcher \<Rightarrow> bool" where
  "flights_ok f \<longleftrightarrow> (\<forall>i < length (f_flights f). fl_done (f_flights f ! i) \<longleftrightarrow> f_inflight f \<noteq> Some i)
     \<and> (\<forall>i. f_inflight f = Some i \<longrightarrow> Suc i = length (f_flights f))
     \<and> (\<forall>fl \<in> set (f_flights f). \<forall>e. fl_err fl = Some e \<longrightarrow> errors_is e ErrKeyFetch)"

definition cache_ok :: "net_env \<Rightarrow> fetcher_config \<Rightarrow> fetcher \<Rightarrow> bool" where
  "cache_ok N cfg f \<longleftrightarrow> (\<forall>s. f_set f = Some s \<longrightarrow> set_within_limits N s)
     \<and> 0 \<le> f_freshFor f \<and> f_freshFor f \<le> max (fc_minRefresh cfg) (fc_maxCache cfg)
     \<and> (\<forall>e. f_lastErr f = Some e \<longrightarrow> errors_is e ErrKeyFetch)"

fun rate_limited :: "int \<Rightarrow> (bool \<times> time) list \<Rightarrow> bool" where
  "rate_limited d ((forced, t) # (b, u) # as) \<longleftrightarrow>
     (forced \<or> u = zero_time \<or> time_Sub t u \<ge> d) \<and> rate_limited d ((b, u) # as)"
| "rate_limited d _ \<longleftrightarrow> True"

lemma rate_limited_Cons:
  "rate_limited d ((forced, t) # as) \<longleftrightarrow> (as = [] \<or> forced \<or> last_attempt as = zero_time \<or> time_Sub t (last_attempt as) \<ge> d) \<and> rate_limited d as"
  by (cases as) (auto simp: last_attempt_def)

definition fetch_inv :: "net_env \<Rightarrow> fetcher_config \<Rightarrow> (bool \<times> time) list \<Rightarrow> fetcher \<Rightarrow> bool" where
  "fetch_inv N cfg as f \<longleftrightarrow> config_ok cfg \<and> flights_ok f \<and> cache_ok N cfg f \<and> length (f_flights f) = length as
     \<and> f_lastAttempt f = last_attempt as \<and> rate_limited (fc_minRefresh cfg) as"

lemma flights_ok_new:
  assumes "flights_ok f" "f_inflight f = None"
  shows "flights_ok (f\<lparr>f_inflight := Some (length (f_flights f)), f_lastAttempt := now,
     f_flights := f_flights f @ [\<lparr>fl_done = False, fl_set = None, fl_err = None\<rparr>]\<rparr>)"
  using assms by (auto simp: flights_ok_def nth_append less_Suc_eq)

lemma fetch_inv_start_flight:
  assumes "fetch_inv N cfg as f" "startFlightLocked now f = (i, f')"
    "f_inflight f = None \<Longrightarrow> forced \<or> mayAttemptAt cfg f now"
  shows "fetch_inv N cfg (if length (f_flights f') > length (f_flights f) then (forced, now) # as else as) f'"
  using assms(2)
proof (cases rule: startFlightLocked_cases)
  case join
  with assms(1) show ?thesis by simp
next
  case new
  have "forced \<or> last_attempt as = zero_time \<or> time_Sub now (last_attempt as) \<ge> fc_minRefresh cfg"
    using assms(1,3) new(1) by (auto simp: fetch_inv_def mayAttemptAt_def)
  with new assms(1) flights_ok_new [of f now] show ?thesis
    by (auto simp: fetch_inv_def cache_ok_def last_attempt_def rate_limited_Cons)
qed

lemma flights_ok_finish:
  assumes "flights_ok f" "f_inflight f = Some i" "\<And>e. r = Inl e \<Longrightarrow> errors_is e ErrKeyFetch"
  shows "flights_ok (flight_finish cfg now i r f)"
proof -
  have i: "i < length (f_flights f)" using assms(1,2) by (auto simp: flights_ok_def)
  have fl: "f_flights (flight_finish cfg now i r f) = (f_flights f)[i := \<lparr>fl_done = True,
      fl_set = (case r of Inl _ \<Rightarrow> None | Inr (s, _) \<Rightarrow> Some s), fl_err = (case r of Inl e \<Rightarrow> Some e | Inr _ \<Rightarrow> None)\<rparr>]"
    "f_inflight (flight_finish cfg now i r f) = None"
    by (auto simp: flight_finish_def Let_def split: sum.splits prod.splits)
  have "fl_done (f_flights f ! j)" if "j < length (f_flights f)" "j \<noteq> i" for j
    using assms(1,2) that by (auto simp: flights_ok_def)
  then show ?thesis
    unfolding flights_ok_def fl using assms(1,3) i
    by (auto simp: flights_ok_def nth_list_update dest!: set_update_subset_insert [THEN subsetD] split: sum.splits)
qed

lemma cache_ok_finish:
  assumes "cache_ok N cfg f" "fetch_outcome N cfg r" "config_ok cfg"
  shows "cache_ok N cfg (flight_finish cfg now i r f)"
proof (cases r)
  case (Inl e)
  then show ?thesis using assms fetch_outcome_error [of N cfg e] by (auto simp: cache_ok_def flight_finish_def Let_def)
next
  case (Inr q)
  obtain s cache where q: "q = (s, cache)" by (cases q)
  have "set_within_limits N s" "0 \<le> cc_maxAge cache" using assms(2) Inr q fetch_outcome_Inr by blast+
  then show ?thesis using assms(1,3) Inr q by (auto simp: cache_ok_def flight_finish_def Let_def config_ok_def)
qed

lemma fetch_run_inv: "fetch_run N cfg as f \<Longrightarrow> fetch_inv N cfg as f"
proof (induction rule: fetch_run.induct)
  case (start uri opts f)
  then show ?case using NewKeyFetcher_ok [OF start]
    by (auto simp: NewKeyFetcher_def fetch_inv_def flights_ok_def cache_ok_def last_attempt_def config_ok_def)
next
  case (enter_lookup as f now kid r f')
  from enter_lookup(2) show ?case
  proof (cases rule: Lookup_enter_cases)
    case (flight i)
    show ?thesis by (rule fetch_inv_start_flight [OF enter_lookup(3) flight(2)]) (use flight(1) in blast)
  qed (use enter_lookup(3) in simp_all)
next
  case (enter_refresh as f now i f')
  then show ?case using fetch_inv_start_flight [of N cfg as f now i f' True] by (simp add: Refresh_enter_def)
next
  case (finish as f i r now)
  have "length (f_flights (flight_finish cfg now i r f)) = length (f_flights f)"
    "f_lastAttempt (flight_finish cfg now i r f) = f_lastAttempt f"
    by (auto simp: flight_finish_def Let_def split: sum.splits prod.splits)
  then show ?case
    using finish flights_ok_finish [of f i r cfg now] cache_ok_finish [of N cfg f r now i] fetch_outcome_error
    by (auto simp: fetch_inv_def)
qed

subsection \<open>Answers\<close>

lemma lookupOrErr_Some: "lookupOrErr s kid e = Inr (Some k) \<longleftrightarrow> (\<exists>ks. s = Some ks \<and> ks_lookup ks kid = Some k)"
  by (auto simp: lookupOrErr_def split: option.splits)

lemma lookupOrErr_error: "lookupOrErr s kid e = Inl err \<Longrightarrow> e = Some err"
  by (auto simp: lookupOrErr_def split: option.splits)

lemma fallbackLocked_Some:
  "fallbackLocked cfg f now e = (Some s, e') \<Longrightarrow> f_set f = Some s \<and>
     (cacheAge now (f_fetchedAt f) < f_freshFor f \<or> cacheAge now (f_fetchedAt f) - f_freshFor f < fc_maxStale cfg)"
  by (auto simp: fallbackLocked_def Let_def split: option.splits if_splits)

lemma fallbackLocked_error:
  "fallbackLocked cfg f now e = (s, Some err) \<Longrightarrow> e = Some err \<or> err = [ErrKeyFetch]"
  by (auto simp: fallbackLocked_def Let_def split: option.splits if_splits)

lemma fallback_error:
  assumes "fallbackLocked cfg f now e = (s, e')" "lookupOrErr s kid e' = Inl err" "\<And>x. e = Some x \<Longrightarrow> errors_is x ErrKeyFetch"
  shows "errors_is err ErrKeyFetch"
  using assms fallbackLocked_error lookupOrErr_error by (metis errors_is_single)

lemma Lookup_enter_error:
  assumes "fetch_inv N cfg as f" "Lookup_enter cfg now kid f = (Inl (Inl err), f')"
  shows "errors_is err ErrKeyFetch"
  using assms(2)
proof (cases rule: Lookup_enter_cases)
  case (limited s e)
  have "\<And>x. f_lastErr f = Some x \<Longrightarrow> errors_is x ErrKeyFetch" using assms(1) by (auto simp: fetch_inv_def cache_ok_def)
  with fallback_error [OF limited(3)] limited(4) show ?thesis by simp
qed simp_all

lemma Lookup_resume_error:
  assumes "fetch_inv N cfg as f" "i < length (f_flights f)" "Lookup_resume cfg now kid i FlightDone f = Inl err"
  shows "errors_is err ErrKeyFetch"
proof -
  have "\<And>x. fl_err (f_flights f ! i) = Some x \<Longrightarrow> errors_is x ErrKeyFetch" using assms(1,2) by (auto simp: fetch_inv_def flights_ok_def)
  with assms(3) fallback_error show ?thesis
    by (auto simp: Lookup_resume_def Let_def dest: lookupOrErr_error split: prod.splits if_splits)
qed

lemma fetcher_Lookup_error:
  assumes "fetch_run N cfg as f" "fetch_outcome N cfg r" "fetcher_Lookup cfg now t1 t2 r f kid = Inl err"
  shows "errors_is err ErrKeyFetch"
proof (cases "Lookup_enter cfg now kid f")
  case (Pair ans f')
  show ?thesis
  proof (cases ans)
    case (Inl a)
    then show ?thesis using Lookup_enter_error [OF fetch_run_inv [OF assms(1)]] Pair assms(3) by (auto simp: fetcher_Lookup_def)
  next
    case (Inr i)
    then have i: "f_inflight f' = Some i" using Pair by (auto elim!: Lookup_enter_cases startFlightLocked_cases)
    from fetch_run.finish [OF fetch_run.enter_lookup [OF assms(1) Pair] i assms(2), of t1]
    have run: "fetch_inv N cfg (if length (f_flights f') > length (f_flights f) then (False, now) # as else as) (flight_finish cfg t1 i r f')"
      by (rule fetch_run_inv)
    have "i < length (f_flights f')"
      using fetch_run_inv [OF fetch_run.enter_lookup [OF assms(1) Pair]] i by (auto simp: fetch_inv_def flights_ok_def)
    then have "i < length (f_flights (flight_finish cfg t1 i r f'))" by (auto simp: flight_finish_def Let_def split: sum.splits prod.splits)
    with Lookup_resume_error [OF run] assms(3) Pair Inr show ?thesis by (auto simp: fetcher_Lookup_def)
  qed
qed

subsection \<open>The history of finished fetches\<close>

text \<open>
  The same steps, with the log of the fetches that have finished: when each one did, and what
  it returned, latest first.
\<close>

inductive fetch_log :: "net_env \<Rightarrow> fetcher_config \<Rightarrow> (time \<times> (keyset \<times> cache_control) result) list \<Rightarrow> fetcher \<Rightarrow> bool" for N cfg where
  log_start: "NewKeyFetcher uri opts = (cfg, f) \<Longrightarrow> fetch_log N cfg [] f"
| log_lookup: "fetch_log N cfg hist f \<Longrightarrow> Lookup_enter cfg now kid f = (r, f') \<Longrightarrow> fetch_log N cfg hist f'"
| log_refresh: "fetch_log N cfg hist f \<Longrightarrow> Refresh_enter now f = (i, f') \<Longrightarrow> fetch_log N cfg hist f'"
| log_finish: "fetch_log N cfg hist f \<Longrightarrow> f_inflight f = Some i \<Longrightarrow> fetch_outcome N cfg r \<Longrightarrow>
     fetch_log N cfg ((now, r) # hist) (flight_finish cfg now i r f)"

lemma fetch_log_run: "fetch_log N cfg hist f \<Longrightarrow> \<exists>attempts. fetch_run N cfg attempts f"
  by (induction rule: fetch_log.induct) (blast intro: fetch_run.intros)+

text \<open>
  What the log says is stored: the latest document that could be fetched, with the time its fetch
  finished, unless its response forbids storing it.
\<close>

fun stored_document :: "(time \<times> (keyset \<times> cache_control) result) list \<Rightarrow> (time \<times> keyset \<times> cache_control) option" where
  "stored_document [] = None"
| "stored_document ((t, Inl e) # hist) = stored_document hist"
| "stored_document ((t, Inr (s, cache)) # hist) = (if cc_noStore cache then None else Some (t, s, cache))"

definition freshness :: "fetcher_config \<Rightarrow> cache_control \<Rightarrow> int" where
  "freshness cfg cache = (if cc_noCache cache then 0
     else if cc_hasMaxAge cache then min (cc_maxAge cache) (fc_maxCache cfg) else fc_minRefresh cfg)"

definition holds_stored :: "fetcher_config \<Rightarrow> (time \<times> keyset \<times> cache_control) option \<Rightarrow> fetcher \<Rightarrow> bool" where
  "holds_stored cfg d f \<longleftrightarrow> (case d of
       None \<Rightarrow> f_set f = None
     | Some (t, s, cache) \<Rightarrow> f_set f = Some s \<and> f_fetchedAt f = t \<and> f_freshFor f = freshness cfg cache)"

lemma startFlightLocked_cache:
  "startFlightLocked now f = (i, f') \<Longrightarrow> f_set f' = f_set f \<and> f_fetchedAt f' = f_fetchedAt f \<and> f_freshFor f' = f_freshFor f"
  by (erule startFlightLocked_cases) simp_all

lemma fetch_log_stored: "fetch_log N cfg hist f \<Longrightarrow> holds_stored cfg (stored_document hist) f"
proof (induction rule: fetch_log.induct)
  case (log_start uri opts f)
  then show ?case by (auto simp: NewKeyFetcher_def holds_stored_def)
next
  case (log_lookup hist f now kid r f')
  from log_lookup(2) have "f_set f' = f_set f \<and> f_fetchedAt f' = f_fetchedAt f \<and> f_freshFor f' = f_freshFor f"
    by (cases rule: Lookup_enter_cases) (simp_all add: startFlightLocked_cache)
  with log_lookup(3) show ?case by (auto simp: holds_stored_def split: option.splits)
next
  case (log_refresh hist f now i f')
  then show ?case using startFlightLocked_cache [of now f i f'] by (auto simp: holds_stored_def Refresh_enter_def split: option.splits)
next
  case (log_finish hist f i r now)
  show ?case
  proof (cases r)
    case (Inl e)
    then show ?thesis using log_finish(4) by (auto simp: flight_finish_def Let_def holds_stored_def split: option.splits)
  next
    case (Inr q)
    then show ?thesis by (cases q; cases "cc_noStore (snd q)") (simp_all add: flight_finish_def Let_def holds_stored_def freshness_def)
  qed
qed

lemma stored_document_in_log: "stored_document hist = Some (t, s, cache) \<Longrightarrow> (t, Inr (s, cache)) \<in> set hist \<and> \<not> cc_noStore cache"
  by (induction hist rule: stored_document.induct) (auto split: if_splits)

lemma freshness_le: "freshness cfg cache \<le> max (fc_minRefresh cfg) (fc_maxCache cfg)" if "config_ok cfg"
  using that by (auto simp: freshness_def config_ok_def)

text \<open>
  The lookups that a document answers: those in any reachable state whose stored document it is
  and still fresh, and those that waited for the fetch that returned it, which may not be
  stored at all.
\<close>

inductive document_lookup :: "net_env \<Rightarrow> fetcher_config \<Rightarrow> keyset \<Rightarrow> key_lookup \<Rightarrow> bool" for N cfg doc where
  cached: "fetch_log N cfg hist f \<Longrightarrow> stored_document hist = Some (t, doc, cache) \<Longrightarrow> cacheAge now t < freshness cfg cache \<Longrightarrow>
     document_lookup N cfg doc (fetcher_Lookup cfg now t1 t2 r f)"
| awaited: "fetch_log N cfg hist f \<Longrightarrow> f_inflight f = Some i \<Longrightarrow> fetch_outcome N cfg (Inr (doc, cache)) \<Longrightarrow>
     document_lookup N cfg doc (\<lambda>kid. Lookup_resume cfg now kid i FlightDone (flight_finish cfg t i (Inr (doc, cache)) f))"

lemma document_lookup_hit:
  assumes "document_lookup N cfg doc lookup"
  shows "ks_inv doc" "ks_lookup doc kid = Some k \<Longrightarrow> lookup kid = Inr (Some k)"
proof -
  have "ks_inv doc \<and> (ks_lookup doc kid = Some k \<longrightarrow> lookup kid = Inr (Some k))"
    using assms
  proof cases
    case (cached hist f t cache now t1 t2 r)
    obtain attempts where "fetch_inv N cfg attempts f" using fetch_log_run [OF cached(2)] fetch_run_inv by blast
    moreover have f: "f_set f = Some doc" "\<not> staleAt f now"
      using fetch_log_stored [OF cached(2)] cached(3,4) by (simp_all add: holds_stored_def staleAt_def)
    ultimately have "ks_inv doc" by (simp add: fetch_inv_def cache_ok_def set_within_limits_def)
    then show ?thesis using f by (simp add: cached(1) fetcher_Lookup_def Lookup_enter_def)
  next
    case (awaited hist f i cache now t)
    obtain attempts where "fetch_inv N cfg attempts f" using fetch_log_run [OF awaited(2)] fetch_run_inv by blast
    then have "i < length (f_flights f)" using awaited(3) by (auto simp: fetch_inv_def flights_ok_def)
    moreover have "ks_inv doc" using fetch_outcome_Inr [OF awaited(4)] by (simp add: set_within_limits_def)
    ultimately show ?thesis by (simp add: awaited(1) Lookup_resume_def flight_finish_def lookupOrErr_def Let_def)
  qed
  then show "ks_inv doc" "ks_lookup doc kid = Some k \<Longrightarrow> lookup kid = Inr (Some k)" by simp_all
qed

lemma document_key_found:
  assumes "ks_inv doc" "k \<in> set (ks_keys doc)" "kid = Kid k \<and> kid \<noteq> [] \<or> kid = [] \<and> ks_keys doc = [k]"
  shows "ks_lookup doc kid = Some k"
proof (cases "kid = []")
  case True
  with assms(3) show ?thesis by (simp add: ks_lookup_def)
next
  case False
  have "find (\<lambda>x. Kid x = Kid k) ks = Some k" if "kids_unique ks" "k \<in> set ks" "Kid k \<noteq> []" for ks
    using that by (induction ks) auto
  with False assms show ?thesis by (auto simp: lookup_refines list_lookup_def ks_inv_def)
qed

text \<open>A key served from the stored document, at an age within the bounds of its response.\<close>

definition bounded_answer :: "net_env \<Rightarrow> fetcher_config \<Rightarrow> (time \<times> (keyset \<times> cache_control) result) list \<Rightarrow> time \<Rightarrow> string \<Rightarrow> key \<Rightarrow> bool" where
  "bounded_answer N cfg hist now kid k \<longleftrightarrow> (\<exists>t s cache. stored_document hist = Some (t, s, cache)
     \<and> ks_lookup s kid = Some k \<and> set_within_limits N s
     \<and> cacheAge now t < freshness cfg cache + fc_maxStale cfg
     \<and> freshness cfg cache \<le> max (fc_minRefresh cfg) (fc_maxCache cfg))"

lemma bounded_answerI:
  assumes "fetch_log N cfg hist f" "f_set f = Some s" "ks_lookup s kid = Some k"
    "cacheAge now (f_fetchedAt f) < f_freshFor f \<or> cacheAge now (f_fetchedAt f) - f_freshFor f < fc_maxStale cfg"
  shows "bounded_answer N cfg hist now kid k"
proof -
  obtain attempts where "fetch_inv N cfg attempts f" using fetch_log_run [OF assms(1)] fetch_run_inv by blast
  then have i: "set_within_limits N s" "fc_maxStale cfg \<ge> 0" "config_ok cfg"
    using assms(2) by (simp_all add: fetch_inv_def cache_ok_def config_ok_def)
  obtain t s' cache where d: "stored_document hist = Some (t, s', cache)" "s' = s" "f_fetchedAt f = t" "f_freshFor f = freshness cfg cache"
    using fetch_log_stored [OF assms(1)] assms(2) by (auto simp: holds_stored_def split: option.splits)
  have "cacheAge now t < freshness cfg cache + fc_maxStale cfg" using assms(4) i(2) unfolding d(3,4) by linarith
  with i d assms(3) freshness_le [OF i(3)] show ?thesis unfolding bounded_answer_def by blast
qed

subsection \<open>A fetcher is a key provider\<close>

definition warm_fetcher :: "string \<Rightarrow> fetcher_option option list \<Rightarrow> time \<Rightarrow> key list \<Rightarrow> fetcher_config \<times> fetcher" where
  "warm_fetcher uri opts now ks =
     (case NewKeyFetcher uri opts of (cfg, f) \<Rightarrow>
        (case Lookup_enter cfg now [] f of
           (Inr i, f') \<Rightarrow> (cfg, flight_finish cfg now i (Inr (NewKeySet ks, zero_cache)) f')
         | (Inl _, f') \<Rightarrow> (cfg, f')))"

lemma warm_fetcher_Lookup:
  assumes "warm_fetcher uri opts now ks = (cfg, f)" "now \<noteq> zero_time"
  shows "fetcher_Lookup cfg now t1 t2 r f kid = KeySet_Lookup (NewKeySet ks) kid"
proof -
  obtain f0 where f0: "NewKeyFetcher uri opts = (cfg, f0)"
    using assms(1) by (cases "NewKeyFetcher uri opts") (auto simp: warm_fetcher_def split: prod.splits sum.splits)
  have m: "fc_minRefresh cfg > 0" using NewKeyFetcher_ok [OF f0] by (simp add: config_ok_def)
  have f: "f_set f = Some (NewKeySet ks)" "f_fetchedAt f = now" "f_freshFor f = fc_minRefresh cfg" "f_lastAttempt f = now"
      "f_lastErr f = None" "f_inflight f = None"
    using assms(1) f0
    by (auto simp: warm_fetcher_def NewKeyFetcher_def Lookup_enter_def mayAttemptAt_def startFlightLocked_def flight_finish_def zero_cache_def Let_def)
  have a: "time_Sub now now = 0" "cacheAge now now = 0" by (simp_all add: time_Sub_def cacheAge_def maxDuration_def)
  have "\<not> staleAt f now" "\<not> mayAttemptAt cfg f now" using f m a assms(2) by (simp_all add: staleAt_def mayAttemptAt_def)
  then show ?thesis
    using f m a by (auto simp: fetcher_Lookup_def Lookup_enter_def fallbackLocked_def lookupOrErr_def KeySet_Lookup_def split: option.splits)
qed

definition provider_Lookup :: "time \<Rightarrow> (keyset \<times> cache_control) result \<Rightarrow> fetcher_config \<times> fetcher \<Rightarrow> key_lookup" where
  "provider_Lookup now r p = fetcher_Lookup (fst p) now now now r (snd p)"

lemma provider_Lookup_warm:
  "provider_Lookup (zero_time + 1 + int n) r (warm_fetcher uri opts (zero_time + 1 + int n) ks) = KeySet_Lookup (NewKeySet ks)"
proof -
  have "zero_time + 1 + int n \<noteq> zero_time" by simp
  then show ?thesis
    by (cases "warm_fetcher uri opts (zero_time + 1 + int n) ks") (simp add: provider_Lookup_def fun_eq_iff warm_fetcher_Lookup)
qed

interpretation kf: key_provider "warm_fetcher uri opts (zero_time + 1 + int n)" "provider_Lookup (zero_time + 1 + int n) r"
  for uri opts n r
  by unfold_locales (simp_all add: provider_Lookup_warm ks.hit ks.miss ks.sole ks.ambiguous)

section \<open>Properties\<close>

text \<open>A fetcher that a forced refresh has filled from a document with one key.\<close>

definition sample_document :: bytes where
  "sample_document = enc_struct [(''keys'', False, enc_array [enc_struct [(''kty'', False, enc_str ''oct''), (''kid'', False, enc_str ''a''),
     (''k'', False, enc_str ''MDEyMzQ1Njc4OWFiY2RlZjAxMjM0NTY3ODlhYmNkZWY'')]])]"

definition sample_fetcher_key :: key where
  "sample_fetcher_key = FromHMACSecret ''0123456789abcdef0123456789abcdef'' [''a'']"

lemma sample_document_parses: "\<exists>s. ParseKeySet sample_crypto sample_document = Inr s \<and> ks_lookup s ''a'' = Some sample_fetcher_key"
proof -
  have "case ParseKeySet sample_crypto sample_document of Inl _ \<Rightarrow> False | Inr s \<Rightarrow> ks_lookup s ''a'' = Some sample_fetcher_key"
    by code_simp
  then show ?thesis by (cases "ParseKeySet sample_crypto sample_document") simp_all
qed

definition sample_fetch_config :: fetcher_config where
  "sample_fetch_config = fst (NewKeyFetcher ''u'' [])"

lemma sample_fetch_document:
  assumes "ParseKeySet sample_crypto data = Inr s" "count_keys data = Inr n" "n \<le> 100"
    "response_body defaultMaxJWKSBytes \<lparr>hr_status = 200, hr_body = data, hr_error = None, hr_cache_control = []\<rparr> = Inr (data, [])"
  shows "fetch_outcome sample_net sample_fetch_config (Inr (s, zero_cache))"
proof -
  let ?r = "\<lparr>hr_status = 200, hr_body = data, hr_error = None, hr_cache_control = []\<rparr>"
  have check: "validateURL sample_net (Some sample_url) (Some (selectURLPolicy sample_net [None])) = None" by code_simp
  have "fetchJWKS sample_net (\<lambda>_ _. Response ?r) (safeHTTPClient sample_net None [None]) ''u'' defaultMaxJWKSBytes 100 None
      = Some ([sample_url], Inr (s, parseCacheControl sample_net []))"
    using assms check by (simp add: fetchJWKS_def getCapped_def client_Do.simps parse_document_def sample_net_def)
  moreover have "parseCacheControl sample_net [] = zero_cache" by code_simp
  ultimately show ?thesis unfolding fetch_outcome_def sample_fetch_config_def NewKeyFetcher_def by fastforce
qed

lemma sample_fetch:
  "\<exists>s cache. fetch_outcome sample_net sample_fetch_config (Inr (s, cache)) \<and> cache = zero_cache \<and> ks_lookup s ''a'' = Some sample_fetcher_key"
proof -
  obtain s where s: "ParseKeySet sample_crypto sample_document = Inr s" "ks_lookup s ''a'' = Some sample_fetcher_key"
    using sample_document_parses by blast
  have "fetch_outcome sample_net sample_fetch_config (Inr (s, zero_cache))"
    by (rule sample_fetch_document [OF s(1), of 1]) code_simp+
  with s(2) show ?thesis by blast
qed

lemma sample_fetch_failure: "\<exists>e. fetch_outcome sample_net sample_fetch_config (Inl e)"
proof -
  have check: "validateURL sample_net (Some sample_url) (Some (selectURLPolicy sample_net [None])) = None" by code_simp
  have "fetchJWKS sample_net (\<lambda>_ _. Failed []) (safeHTTPClient sample_net None [None]) ''u'' defaultMaxJWKSBytes 100 None
      = Some ([sample_url], Inl [ErrKeyFetch])"
    using check by (simp add: fetchJWKS_def getCapped_def client_Do.simps sample_net_def wrap_def)
  then show ?thesis unfolding fetch_outcome_def sample_fetch_config_def NewKeyFetcher_def by fastforce
qed

definition sample_fetcher_at :: "keyset \<Rightarrow> fetcher" where
  "sample_fetcher_at s = flight_finish sample_fetch_config 6 0 (Inr (s, zero_cache)) (snd (Refresh_enter 5 (snd (NewKeyFetcher ''u'' []))))"

lemma sample_fetcher_refreshing: "fetch_run sample_net sample_fetch_config [(True, 5)] (snd (Refresh_enter 5 (snd (NewKeyFetcher ''u'' []))))"
proof -
  have "fetch_run sample_net sample_fetch_config [] (snd (NewKeyFetcher ''u'' []))"
    by (rule fetch_run.start [of "''u''" "[]"]) (simp add: sample_fetch_config_def)
  from fetch_run.enter_refresh [OF this surjective_pairing, of 5] show ?thesis
    by (simp add: Refresh_enter_def startFlightLocked_def NewKeyFetcher_def)
qed

lemma sample_fetcher_run:
  "\<exists>s. fetch_run sample_net sample_fetch_config [(True, 5)] (sample_fetcher_at s) \<and> ks_lookup s ''a'' = Some sample_fetcher_key"
proof -
  obtain s where s: "fetch_outcome sample_net sample_fetch_config (Inr (s, zero_cache))" "ks_lookup s ''a'' = Some sample_fetcher_key"
    using sample_fetch by blast
  have "fetch_run sample_net sample_fetch_config [(True, 5)] (sample_fetcher_at s)"
    unfolding sample_fetcher_at_def
    by (rule fetch_run.finish [OF sample_fetcher_refreshing _ s(1)]) (simp add: Refresh_enter_def startFlightLocked_def NewKeyFetcher_def)
  with s(2) show ?thesis by blast
qed

text \<open>
  C4: in every interleaving of lookups, refreshes and finishing fetches, at most one fetch is in
  flight, a caller starts one only if none is, and two fetches started by lookups, as well as
  a lookup's fetch after a forced one, are at least the minimal refresh interval apart
  (an attempt made at Go's zero time, which marks a fetcher without attempts, is not counted).
\<close>

theorem fetches_rate_limited:
  assumes "fetch_run N cfg attempts f"
  shows "rate_limited (fc_minRefresh cfg) attempts \<and> length (f_flights f) = length attempts
     \<and> length (filter (\<lambda>fl. \<not> fl_done fl) (f_flights f)) \<le> 1"
proof -
  have i: "fetch_inv N cfg attempts f" by (rule fetch_run_inv [OF assms])
  then have fl: "flights_ok f" "rate_limited (fc_minRefresh cfg) attempts" "length (f_flights f) = length attempts" by (auto simp: fetch_inv_def)
  have "{i. i < length (f_flights f) \<and> \<not> fl_done (f_flights f ! i)} \<subseteq> {the (f_inflight f)}"
    using fl(1) unfolding flights_ok_def by auto
  from card_mono [OF _ this] have "length (filter (\<lambda>fl. \<not> fl_done fl) (f_flights f)) \<le> 1"
    by (simp add: length_filter_conv_card)
  with fl show ?thesis by blast
qed

theorem fetches_rate_limited_witness:
  "\<exists>s. rate_limited (fc_minRefresh sample_fetch_config) [(True, 5)] \<and> length (f_flights (sample_fetcher_at s)) = 1
     \<and> length (filter (\<lambda>fl. \<not> fl_done fl) (f_flights (sample_fetcher_at s))) \<le> 1"
proof -
  obtain s where "fetch_run sample_net sample_fetch_config [(True, 5)] (sample_fetcher_at s)" using sample_fetcher_run by blast
  from fetches_rate_limited [OF this] show ?thesis by auto
qed

text \<open>
  C19: a key is never served from the cache beyond its bounded age.  In every interleaving of
  lookups, refreshes and finishing fetches, a key answered at once, or to a caller whose fetch
  failed, comes from the latest document that could be fetched and may be stored; its age,
  counted from the moment its fetch finished and not from any later attempt, is below the
  freshness its own response gives (none for \<^verbatim>\<open>no-cache\<close>, \<^verbatim>\<open>max-age\<close> up to the cap, else the
  minimal refresh interval) plus the stale window; and the document respects the limits of a JWKS.
\<close>

theorem served_key_age_bounded:
  assumes "fetch_log N cfg hist f"
    and "fst (Lookup_enter cfg now kid f) = Inl (Inr (Some k))
      \<or> (fl_err (f_flights f ! i) \<noteq> None \<and> Lookup_resume cfg now kid i FlightDone f = Inr (Some k))"
  shows "\<exists>t s cache. stored_document hist = Some (t, s, cache) \<and> (t, Inr (s, cache)) \<in> set hist
     \<and> \<not> cc_noStore cache \<and> ks_lookup s kid = Some k \<and> set_within_limits N s
     \<and> cacheAge now t < freshness cfg cache + fc_maxStale cfg
     \<and> freshness cfg cache \<le> max (fc_minRefresh cfg) (fc_maxCache cfg)"
proof -
  have fb: "bounded_answer N cfg hist now kid k" if "fallbackLocked cfg f now e = (s, e')" "lookupOrErr s kid e' = Inr (Some k)" for s e e'
    using that bounded_answerI [OF assms(1)] fallbackLocked_Some by (metis lookupOrErr_Some)
  have "bounded_answer N cfg hist now kid k"
    using assms(2)
  proof
    assume "fst (Lookup_enter cfg now kid f) = Inl (Inr (Some k))"
    then obtain f' where "Lookup_enter cfg now kid f = (Inl (Inr (Some k)), f')" by (cases "Lookup_enter cfg now kid f") auto
    then show ?thesis
    proof (cases rule: Lookup_enter_cases)
      case (fresh s k')
      then show ?thesis using bounded_answerI [OF assms(1), of s] by (auto simp: staleAt_def)
    next
      case (limited s e)
      then show ?thesis using fb by simp
    qed simp
  next
    assume "fl_err (f_flights f ! i) \<noteq> None \<and> Lookup_resume cfg now kid i FlightDone f = Inr (Some k)"
    then show ?thesis using fb by (auto simp: Lookup_resume_def Let_def split: prod.splits)
  qed
  then show ?thesis using stored_document_in_log unfolding bounded_answer_def by blast
qed

text \<open>A fetcher whose first fetch delivered the sample document, and whose second one failed.\<close>

theorem served_key_age_bounded_witness:
  "\<exists>hist f t s cache. fetch_log sample_net sample_fetch_config hist f \<and> length hist = 2
     \<and> stored_document hist = Some (t, s, cache) \<and> t = 6 \<and> ks_lookup s ''a'' = Some sample_fetcher_key
     \<and> cacheAge (12 * hour) t < freshness sample_fetch_config cache + fc_maxStale sample_fetch_config"
proof -
  obtain s where s: "fetch_outcome sample_net sample_fetch_config (Inr (s, zero_cache))" "ks_lookup s ''a'' = Some sample_fetcher_key"
    using sample_fetch by blast
  obtain e where e: "fetch_outcome sample_net sample_fetch_config (Inl e)" using sample_fetch_failure by blast
  define f1 where "f1 = sample_fetcher_at s"
  define f2 where "f2 = snd (Refresh_enter 8 f1)"
  define f3 where "f3 = flight_finish sample_fetch_config 9 1 (Inl e) f2"
  note defs = f1_def f2_def f3_def sample_fetcher_at_def flight_finish_def Refresh_enter_def startFlightLocked_def NewKeyFetcher_def
  have "fetch_log sample_net sample_fetch_config [] (snd (NewKeyFetcher ''u'' []))"
    by (rule fetch_log.log_start [of "''u''" "[]"]) (simp add: sample_fetch_config_def)
  from fetch_log.log_refresh [OF this surjective_pairing, of 5]
  have "fetch_log sample_net sample_fetch_config [(6, Inr (s, zero_cache))] f1"
    unfolding f1_def sample_fetcher_at_def by (rule fetch_log.log_finish [OF _ _ s(1)]) (simp add: defs)
  from fetch_log.log_refresh [OF this surjective_pairing, of 8]
  have hist: "fetch_log sample_net sample_fetch_config [(9, Inl e), (6, Inr (s, zero_cache))] f3"
    unfolding f3_def f2_def by (rule fetch_log.log_finish [OF _ _ e]) (simp add: defs)
  have "fl_err (f_flights f3 ! 1) \<noteq> None \<and> Lookup_resume sample_fetch_config (12 * hour) ''a'' 1 FlightDone f3 = Inr (Some sample_fetcher_key)"
    using s(2) by (simp add: defs Lookup_resume_def fallbackLocked_def lookupOrErr_def zero_cache_def sample_fetch_config_def
        cacheAge_def time_Sub_def maxDuration_def Let_def)
  with served_key_age_bounded [OF hist, of "12 * hour" "''a''" sample_fetcher_key 1] hist show ?thesis by auto
qed

text \<open>
  C20: every error a lookup reports is a key-fetch error or the end of the caller's own context,
  never a bare \<open>not found\<close> or a token error.
\<close>

theorem fetch_errors_classified:
  assumes "fetch_run N cfg attempts f"
    and "fst (Lookup_enter cfg now kid f) = Inl (Inl err)
      \<or> (i < length (f_flights f) \<and> Lookup_resume cfg now kid i w f = Inl err)"
  shows "errors_is err ErrKeyFetch \<or> w = ContextEnded err"
proof -
  have i: "fetch_inv N cfg attempts f" by (rule fetch_run_inv [OF assms(1)])
  show ?thesis
    using assms(2)
  proof
    assume "fst (Lookup_enter cfg now kid f) = Inl (Inl err)"
    then show ?thesis using Lookup_enter_error [OF i, of now kid err "snd (Lookup_enter cfg now kid f)"] by (simp add: prod_eq_iff)
  next
    assume "i < length (f_flights f) \<and> Lookup_resume cfg now kid i w f = Inl err"
    then show ?thesis using Lookup_resume_error [OF i, of i now kid err] by (cases w) (auto simp: Lookup_resume_def)
  qed
qed

theorem fetch_errors_classified_witness:
  "\<exists>err. Lookup_resume sample_fetch_config 7 ''a'' 0 (ContextEnded [OtherError ''canceled'']) (snd (Refresh_enter 5 (snd (NewKeyFetcher ''u'' [])))) = Inl err
     \<and> (errors_is err ErrKeyFetch \<or> ContextEnded [OtherError ''canceled''] = ContextEnded err)"
proof -
  let ?f = "snd (Refresh_enter 5 (snd (NewKeyFetcher ''u'' [])))"
  have r: "0 < length (f_flights ?f) \<and> Lookup_resume sample_fetch_config 7 ''a'' 0 (ContextEnded [OtherError ''canceled'']) ?f = Inl [OtherError ''canceled'']"
    by (simp add: Lookup_resume_def Refresh_enter_def startFlightLocked_def NewKeyFetcher_def)
  with fetch_errors_classified [OF sample_fetcher_refreshing] show ?thesis by blast
qed

text \<open>
  callers that arrive while a fetch is in flight start none of their own, and when it succeeds
  each of them is answered from the fetched document as a key set would answer; a document
  marked \<^verbatim>\<open>no-store\<close> is answered from but not kept.
\<close>

theorem waiters_share_one_fetch:
  assumes "fetch_run N cfg attempts f" "f_inflight f = Some i" "Lookup_enter cfg now kid f = (Inr j, f')"
  shows "j = i \<and> f' = f
     \<and> Lookup_resume cfg t kid j FlightDone (flight_finish cfg now' i (Inr (s, cache)) f') = KeySet_Lookup s kid
     \<and> (f_set (flight_finish cfg now' i (Inr (s, cache)) f') = (if cc_noStore cache then None else Some s))"
proof -
  have j: "j = i" "f' = f" using assms(2,3) by (auto elim!: Lookup_enter_cases startFlightLocked_cases)
  have "i < length (f_flights f)" using fetch_run_inv [OF assms(1)] assms(2) by (auto simp: fetch_inv_def flights_ok_def)
  with j show ?thesis
    by (auto simp: Lookup_resume_def flight_finish_def Let_def lookupOrErr_def KeySet_Lookup_def split: option.splits)
qed

theorem waiters_share_one_fetch_witness:
  "\<exists>f. Lookup_enter sample_fetch_config 6 ''a'' f = (Inr 0, f)
     \<and> Lookup_resume sample_fetch_config 8 ''a'' 0 FlightDone (flight_finish sample_fetch_config 7 0 (Inr (NewKeySet [], zero_cache)) f)
       = KeySet_Lookup (NewKeySet []) ''a''"
proof -
  let ?f = "snd (Refresh_enter 5 (snd (NewKeyFetcher ''u'' [])))"
  have i: "f_inflight ?f = Some 0" "Lookup_enter sample_fetch_config 6 ''a'' ?f = (Inr 0, ?f)"
    by (simp_all add: Lookup_enter_def Refresh_enter_def startFlightLocked_def NewKeyFetcher_def)
  from waiters_share_one_fetch [OF sample_fetcher_refreshing i] i(2) show ?thesis by blast
qed

text \<open>
  right after a successful fetch a fetcher answers every lookup, by id, for an unknown id and
  without id, as every other key provider holding the fetched keys does.
\<close>

theorem fetcher_is_key_provider:
  assumes "distinct_kids ks"
  shows "provider_Lookup (zero_time + 1 + int n) r (warm_fetcher uri opts (zero_time + 1 + int n) ks) kid = Inr (resolve ks kid)"
  by (rule kf.lookup_resolve [OF assms])

theorem fetcher_is_key_provider_witness:
  "provider_Lookup 7 (Inl [ErrKeyFetch]) (warm_fetcher ''u'' [] 7 [sample_fetcher_key]) ''a'' = Inr (Some sample_fetcher_key)"
proof -
  have d: "distinct_kids [sample_fetcher_key]" by code_simp
  have n: "zero_time + 1 + int (nat (6 - zero_time)) = 7" by (simp add: zero_time_def)
  have "resolve [sample_fetcher_key] ''a'' = Some sample_fetcher_key" by code_simp
  with fetcher_is_key_provider [OF d, of "nat (6 - zero_time)" "Inl [ErrKeyFetch]" "''u''" "[]" "''a''"] show ?thesis
    unfolding n by simp
qed

end
