(* ===== verification/Jwttest.thy ===== *)
theory Jwttest
  imports Revoke KeyFetch
begin

text \<open>
  The conformance suites of \<^verbatim>\<open>jwttest\<close>, as executable checks of a provider and of a store: each
  sub-test is a conjunct, a call of \<^verbatim>\<open>t.Fatal\<close> is its failure.  They are shown once inside the
  interface locales \<open>key_provider\<close> and \<open>revocations\<close>, so that every interpretation of those
  passes.  The fakes themselves and the signing pair stand with the interfaces they
  implement, in \<open>KeySet\<close>, \<open>Revoke\<close> and \<open>JWT\<close>.
\<close>

section \<open>The suites\<close>

definition k1 :: key where "k1 = FromHMACSecret ''k1-secret-k1-secret-k1-secret-32b'' [''k1'']"
definition k2 :: key where "k2 = FromHMACSecret ''k2-secret-k2-secret-k2-secret-32b'' [''k2'']"

definition finds_kid :: "string \<Rightarrow> key option result \<Rightarrow> bool" where
  "finds_kid kid r = (case r of Inr (Some got) \<Rightarrow> Kid got = kid | _ \<Rightarrow> False)"

definition RunKeyProviderConformance :: "(key list \<Rightarrow> 'p) \<Rightarrow> ('p \<Rightarrow> key_lookup) \<Rightarrow> bool" where
  "RunKeyProviderConformance newProvider Lookup \<longleftrightarrow>
     finds_kid ''k2'' (Lookup (newProvider [k1, k2]) ''k2'')
     \<and> Lookup (newProvider [k1]) ''absent'' = Inr None
     \<and> finds_kid ''k1'' (Lookup (newProvider [k1]) [])"

text \<open>\<open>now\<close> is the clock when a sub-test starts, \<open>later\<close> when it queries the store.\<close>

definition RunRevocationStoreConformance :: "time \<Rightarrow> time \<Rightarrow> 's revoke_fun \<Rightarrow> 's query_fun \<Rightarrow> 's \<Rightarrow> bool" where
  "RunRevocationStoreConformance now later revoke query newStore \<longleftrightarrow>
     fst (query later ''nope'' newStore) = Inr False
     \<and> (case revoke now ''jti-1'' ReasonLogout (now + hour) newStore of (err, s) \<Rightarrow>
          err = None \<and> fst (query later ''jti-1'' s) = Inr True)
     \<and> (case revoke now ''jti-2'' ReasonLogout (now - hour) newStore of (_, s) \<Rightarrow>
          fst (query later ''jti-2'' s) \<noteq> Inr True)
     \<and> (case revoke now ''kid-x'' ReasonKeyCompromised zero_time newStore of (_, s) \<Rightarrow>
          fst (query later ''kid-x'' s) = Inr True)"

section \<open>Every implementation of the interfaces passes\<close>

lemma suite_keys: "distinct_kids [k1, k2]" "distinct_kids [k1]" "Kid k1 = ''k1''" "Kid k2 = ''k2''"
  by code_simp+

context key_provider
begin

lemma passes_suite: "RunKeyProviderConformance build lookup"
  using hit [OF suite_keys(1), of k2] miss [OF suite_keys(2), of "''absent''"] sole [OF suite_keys(2)]
  by (simp add: RunKeyProviderConformance_def finds_kid_def suite_keys(3,4))

end

context revocations
begin

lemma revoked_then_queried:
  assumes "rid \<noteq> []" "now \<le> later"
  shows "fst (revoke now rid reason e empty) = None
    \<and> fst (query later rid (snd (revoke now rid reason e empty))) = Inr (live_until e later)"
proof -
  obtain err s where r: "revoke now rid reason e empty = (err, s)" by (cases "revoke now rid reason e empty")
  obtain b s' where q: "query later rid s = (b, s')" by (cases "query later rid s")
  from revoke [OF conjunct1 [OF empty] assms r] have s: "err = None" "valid s" "expiry_live (view s rid) later = live_until e later"
    using revoke [OF conjunct1 [OF empty] assms r, of rid] by (auto simp: expiry_live_def)
  from query [OF s(2) assms(1) order_refl q] s r q show ?thesis by simp
qed

lemma passes_suite:
  assumes "now \<le> later" "later < now + hour" "now - hour \<noteq> zero_time"
  shows "RunRevocationStoreConformance now later revoke query empty"
proof -
  have n: "fst (query later ''nope'' empty) = Inr False"
    using query_after_history [of "[]" later "''nope''"] by (simp add: expiry_live_def)
  show ?thesis
    unfolding RunRevocationStoreConformance_def case_prod_beta
    using n revoked_then_queried [of "''jti-1''" now later ReasonLogout "now + hour"]
      revoked_then_queried [of "''jti-2''" now later ReasonLogout "now - hour"]
      revoked_then_queried [of "''kid-x''" now later ReasonKeyCompromised zero_time] assms
    by (simp add: live_until_def)
qed

end

section \<open>Properties\<close>

text \<open>
  every key provider and every revocation store of the library and of \<^verbatim>\<open>jwttest\<close> passes the
  shared conformance suites, the fetcher too once it has fetched its document.
\<close>

theorem conformance_suites_pass:
  assumes "now \<le> later" "later < now + hour" "now - hour \<noteq> zero_time"
  shows "RunKeyProviderConformance NewKeySet KeySet_Lookup
     \<and> RunKeyProviderConformance map_provider map_Lookup
     \<and> RunKeyProviderConformance NewFakeKeyProvider fake_Lookup
     \<and> RunKeyProviderConformance (warm_fetcher uri opts (zero_time + 1 + int n)) (provider_Lookup (zero_time + 1 + int n) r)
     \<and> RunRevocationStoreConformance now later Revoke IsRevoked NewMemoryRevocationStore
     \<and> RunRevocationStoreConformance now later fake_Revoke fake_IsRevoked NewFakeRevocationStore"
  by (intro conjI ks.passes_suite mp.passes_suite fk.passes_suite kf.passes_suite mem.passes_suite [OF assms] fake.passes_suite [OF assms])

theorem conformance_suites_pass_witness:
  "RunRevocationStoreConformance 5 6 Revoke IsRevoked NewMemoryRevocationStore"
  using conformance_suites_pass [of 5 6] by (simp add: zero_time_def)

end
