(* ===== verification/AESKW.thy ===== *)
theory AESKW
  imports JWT_Prelude
begin

unbundle bit_operations_syntax

text \<open>
  \<^verbatim>\<open>jwe_aeskw.go\<close>, the RFC 3394 key wrap.  The AES block function of \<^verbatim>\<open>crypto/aes\<close> is the
  parameter \<open>A\<close>; a slice of eight-byte blocks is a byte string of which block \<open>i\<close> is read and
  written in place; the round counter is a \<^verbatim>\<open>uint64\<close> and is xored into the first half of the
  block as in the code.

  Shown, for a block function that is a permutation of the 16-byte blocks: unwrapping inverts
  wrapping, and unwrapping accepts nothing but what wrapping produces.
\<close>

section \<open>Words and blocks\<close>

definition Uint64 :: "bytes \<Rightarrow> 64 word" where
  "Uint64 b = word_of_int (be_int (take 8 b))"

definition PutUint64 :: "64 word \<Rightarrow> bytes" where
  "PutUint64 v = LeftPad (be_bytes (uint v)) 8"

definition get_block :: "bytes \<Rightarrow> nat \<Rightarrow> bytes" where
  "get_block r i = take 8 (drop (8 * i) r)"

definition set_block :: "bytes \<Rightarrow> nat \<Rightarrow> bytes \<Rightarrow> bytes" where
  "set_block r i b = take (8 * i) r @ b @ drop (8 * i + 8) r"

text \<open>\<^verbatim>\<open>aes.NewCipher\<close> takes keys of 16, 24 and 32 bytes.\<close>

record aes =
  aes_Encrypt :: "bytes \<Rightarrow> bytes \<Rightarrow> bytes"
  aes_Decrypt :: "bytes \<Rightarrow> bytes \<Rightarrow> bytes"

definition aes_key :: "bytes \<Rightarrow> bool" where
  "aes_key k \<longleftrightarrow> len k = 16 \<or> len k = 24 \<or> len k = 32"

definition key_size_error :: go_error where
  "key_size_error = [OtherError ''crypto/aes: invalid key size'']"

section \<open>Key wrap\<close>

definition aesKWDefaultIV :: bytes where
  "aesKWDefaultIV = replicate 8 (chr 0xA6)"

definition kw_counter :: "nat \<Rightarrow> nat \<Rightarrow> nat \<Rightarrow> 64 word" where
  "kw_counter n j i = of_nat (n * j + i + 1)"

definition wrap_step :: "aes \<Rightarrow> bytes \<Rightarrow> nat \<Rightarrow> nat \<Rightarrow> nat \<Rightarrow> bytes \<times> bytes \<Rightarrow> bytes \<times> bytes" where
  "wrap_step A kek n j i s =
     (case s of (a, r) \<Rightarrow>
        let buf = aes_Encrypt A kek (a @ get_block r i)
        in (PutUint64 (Uint64 (take 8 buf) XOR kw_counter n j i), set_block r i (drop 8 buf)))"

definition aesKWWrap :: "aes \<Rightarrow> bytes \<Rightarrow> bytes \<Rightarrow> bytes result" where
  "aesKWWrap A kek plaintext =
     (if len plaintext < 16 \<or> len plaintext mod 8 \<noteq> 0 then Inl [ErrMalformedKey]
      else if \<not> aes_key kek then Inl key_size_error
      else
        let n = length plaintext div 8
        in case fold (\<lambda>j s. fold (\<lambda>i s. wrap_step A kek n j i s) [0..<n] s) [0..<6] (aesKWDefaultIV, plaintext) of
             (a, r) \<Rightarrow> Inr (a @ r))"

definition unwrap_step :: "aes \<Rightarrow> bytes \<Rightarrow> nat \<Rightarrow> nat \<Rightarrow> nat \<Rightarrow> bytes \<times> bytes \<Rightarrow> bytes \<times> bytes" where
  "unwrap_step A kek n j i s =
     (case s of (a, out) \<Rightarrow>
        let buf = aes_Decrypt A kek (PutUint64 (Uint64 a XOR kw_counter n j i) @ get_block out i)
        in (take 8 buf, set_block out i (drop 8 buf)))"

definition aesKWUnwrap :: "aes \<Rightarrow> bytes \<Rightarrow> bytes \<Rightarrow> bytes result" where
  "aesKWUnwrap A kek ciphertext =
     (if len ciphertext < 24 \<or> len ciphertext mod 8 \<noteq> 0 then Inl [ErrDecryptionFailed]
      else if \<not> aes_key kek then Inl key_size_error
      else
        let n = length ciphertext div 8 - 1
        in case fold (\<lambda>j s. fold (\<lambda>i s. unwrap_step A kek n j i s) (rev [0..<n]) s) (rev [0..<6])
                  (take 8 ciphertext, drop 8 ciphertext) of
             (a, out) \<Rightarrow> if a \<noteq> aesKWDefaultIV then Inl [ErrDecryptionFailed] else Inr out)"

section \<open>Lemmas\<close>

text \<open>What \<^verbatim>\<open>crypto/aes\<close> promises: under every key, two inverse maps on 16-byte blocks.\<close>

definition aes_laws :: "aes \<Rightarrow> bool" where
  "aes_laws A \<longleftrightarrow> (\<forall>k b. aes_key k \<and> length b = 16 \<longrightarrow>
     length (aes_Encrypt A k b) = 16 \<and> length (aes_Decrypt A k b) = 16
     \<and> aes_Decrypt A k (aes_Encrypt A k b) = b \<and> aes_Encrypt A k (aes_Decrypt A k b) = b)"

lemma be_int_upper: "be_int bs < 256 ^ length bs"
proof (induction bs rule: rev_induct)
  case (snoc b bs)
  have "ord b < 256" by simp
  with snoc have "be_int bs * 256 + ord b < 256 ^ length bs * 256" by (smt (verit))
  then show ?case by (simp add: mult.commute)
qed simp

lemma be_int_inj: "length a = length b \<Longrightarrow> be_int a = be_int b \<Longrightarrow> a = b"
proof (induction a arbitrary: b rule: rev_induct)
  case (snoc x a)
  obtain y b' where b: "b = b' @ [y]" using snoc.prems(1) by (cases b rule: rev_cases) auto
  have d: "be_int a * 256 + ord x = be_int b' * 256 + ord y" using snoc.prems(2) b by simp
  have o: "ord x < 256" "ord y < 256" "0 \<le> ord x" "0 \<le> ord y" by simp_all
  from d have "(be_int a * 256 + ord x) mod 256 = (be_int b' * 256 + ord y) mod 256" by simp
  with o have "ord x = ord y" by simp
  moreover from this d have "be_int a = be_int b'" by simp
  moreover have "length a = length b'" using snoc.prems(1) b by simp
  ultimately show ?case using snoc.IH b by (simp add: of_char_eq_iff)
qed simp

lemma be_bytes_length: "n < 256 ^ k \<Longrightarrow> length (be_bytes n) \<le> k"
proof (induction k arbitrary: n)
  case (Suc k)
  have "n div 256 < 256 ^ k" using Suc.prems by (simp add: div_less_iff_less_mult mult.commute)
  then show ?case using Suc.IH by (subst be_bytes.simps) auto
qed (simp add: be_bytes.simps)

lemma uint_upper: "uint (v :: 64 word) < 256 ^ 8"
  using uint_lt2p [of v] by simp

lemma length_PutUint64 [simp]: "length (PutUint64 v) = 8"
  using be_bytes_length [OF uint_upper, of v] by (auto simp: PutUint64_def LeftPad_def len_def)

lemma Uint64_PutUint64 [simp]: "Uint64 (PutUint64 v) = v"
proof -
  have "be_int (PutUint64 v) = uint v"
    by (simp add: PutUint64_def LeftPad_be_int be_int_be_bytes)
  then show ?thesis by (simp add: Uint64_def)
qed

lemma PutUint64_Uint64: "length b = 8 \<Longrightarrow> PutUint64 (Uint64 b) = b"
proof (rule be_int_inj)
  assume b: "length b = 8"
  then have "be_int b < 2 ^ 64" using be_int_upper [of b] by simp
  then show "be_int (PutUint64 (Uint64 b)) = be_int b"
    using b by (simp add: PutUint64_def LeftPad_be_int be_int_be_bytes Uint64_def take_bit_int_eq_self unsigned_of_int)
qed simp

lemma length_set_block: "length r = 8 * n \<Longrightarrow> i < n \<Longrightarrow> length b = 8 \<Longrightarrow> length (set_block r i b) = 8 * n"
  by (simp add: set_block_def)

lemma get_set_block: "length r = 8 * n \<Longrightarrow> i < n \<Longrightarrow> length b = 8 \<Longrightarrow> get_block (set_block r i b) i = b"
  by (simp add: set_block_def get_block_def)

lemma set_set_block: "length r = 8 * n \<Longrightarrow> i < n \<Longrightarrow> length b = 8 \<Longrightarrow> set_block (set_block r i b) i d = set_block r i d"
  by (simp add: set_block_def)

lemma set_get_block: "set_block r i (get_block r i) = r"
  by (simp add: set_block_def get_block_def) (metis add.commute append_take_drop_id drop_drop)

lemma length_get_block: "length r = 8 * n \<Longrightarrow> i < n \<Longrightarrow> length (get_block r i) = 8"
  by (auto simp: get_block_def)

lemmas block_simps = length_set_block get_set_block set_set_block set_get_block length_get_block

definition kw_state :: "nat \<Rightarrow> bytes \<times> bytes \<Rightarrow> bool" where
  "kw_state n s \<longleftrightarrow> length (fst s) = 8 \<and> length (snd s) = 8 * n"

lemma steps_inverse:
  assumes "aes_laws A" "aes_key kek" "i < n" "kw_state n s"
  shows "kw_state n (wrap_step A kek n j i s)" "unwrap_step A kek n j i (wrap_step A kek n j i s) = s"
    "kw_state n (unwrap_step A kek n j i s)" "wrap_step A kek n j i (unwrap_step A kek n j i s) = s"
proof -
  obtain a r where s: "s = (a, r)" by (cases s)
  with assms(4) have l: "length a = 8" "length r = 8 * n" by (auto simp: kw_state_def)
  let ?e = "aes_Encrypt A kek (a @ get_block r i)"
  let ?d = "aes_Decrypt A kek (PutUint64 (Uint64 a XOR kw_counter n j i) @ get_block r i)"
  have e: "length ?e = 16" "aes_Decrypt A kek ?e = a @ get_block r i"
    using assms(1-3) l by (auto simp: aes_laws_def length_get_block)
  have d: "length ?d = 16" "aes_Encrypt A kek ?d = PutUint64 (Uint64 a XOR kw_counter n j i) @ get_block r i"
    using assms(1-3) l by (auto simp: aes_laws_def length_get_block)
  show "kw_state n (wrap_step A kek n j i s)" "kw_state n (unwrap_step A kek n j i s)"
    using e(1) d(1) l assms(3) by (simp_all add: s wrap_step_def unwrap_step_def kw_state_def Let_def block_simps)
  have x: "(x XOR y) XOR y = x" for x y :: "64 word" by (simp add: ac_simps)
  have "PutUint64 (Uint64 (take 8 ?e)) = take 8 ?e" using e(1) by (intro PutUint64_Uint64) simp
  then show "unwrap_step A kek n j i (wrap_step A kek n j i s) = s"
    using e l assms(3) length_get_block [OF l(2) assms(3)]
    by (simp add: s wrap_step_def unwrap_step_def Let_def block_simps x)
  have "PutUint64 (Uint64 a) = a" using l by (intro PutUint64_Uint64)
  then show "wrap_step A kek n j i (unwrap_step A kek n j i s) = s"
    using d l assms(3) length_get_block [OF l(2) assms(3)]
    by (simp add: s wrap_step_def unwrap_step_def Let_def block_simps x)
qed

text \<open>A loop of invertible steps is undone by the inverse steps in the opposite order.\<close>

lemma fold_inverse:
  assumes "\<And>x s. x \<in> set xs \<Longrightarrow> P s \<Longrightarrow> P (f x s) \<and> g x (f x s) = s" "P s"
  shows "P (fold f xs s) \<and> fold g (rev xs) (fold f xs s) = s"
  using assms
proof (induction xs arbitrary: s)
  case (Cons x xs)
  then have "P (f x s)" "g x (f x s) = s" by auto
  with Cons show ?case by simp
qed simp

lemma rounds_inverse:
  assumes "set is \<subseteq> {..<n}" "\<And>j i s. i < n \<Longrightarrow> P s \<Longrightarrow> P (f j i s) \<and> g j i (f j i s) = s" "P s"
  shows "P (fold (\<lambda>j s. fold (\<lambda>i s. f j i s) is s) js s)
     \<and> fold (\<lambda>j s. fold (\<lambda>i s. g j i s) (rev is) s) (rev js) (fold (\<lambda>j s. fold (\<lambda>i s. f j i s) is s) js s) = s"
  using assms by (intro fold_inverse) (auto intro!: fold_inverse)

definition kw_wrap_rounds :: "aes \<Rightarrow> bytes \<Rightarrow> nat \<Rightarrow> bytes \<times> bytes \<Rightarrow> bytes \<times> bytes" where
  "kw_wrap_rounds A kek n s = fold (\<lambda>j s. fold (\<lambda>i s. wrap_step A kek n j i s) [0..<n] s) [0..<6] s"

definition kw_unwrap_rounds :: "aes \<Rightarrow> bytes \<Rightarrow> nat \<Rightarrow> bytes \<times> bytes \<Rightarrow> bytes \<times> bytes" where
  "kw_unwrap_rounds A kek n s = fold (\<lambda>j s. fold (\<lambda>i s. unwrap_step A kek n j i s) (rev [0..<n]) s) (rev [0..<6]) s"

lemma kw_rounds_inverse:
  assumes "aes_laws A" "aes_key kek" "kw_state n s"
  shows "kw_state n (kw_wrap_rounds A kek n s)" "kw_unwrap_rounds A kek n (kw_wrap_rounds A kek n s) = s"
    "kw_state n (kw_unwrap_rounds A kek n s)" "kw_wrap_rounds A kek n (kw_unwrap_rounds A kek n s) = s"
proof -
  have "kw_state n (kw_wrap_rounds A kek n s) \<and> kw_unwrap_rounds A kek n (kw_wrap_rounds A kek n s) = s"
    unfolding kw_wrap_rounds_def kw_unwrap_rounds_def
    by (rule rounds_inverse [where n = n]) (use assms steps_inverse(1,2) in auto)
  then show "kw_state n (kw_wrap_rounds A kek n s)" "kw_unwrap_rounds A kek n (kw_wrap_rounds A kek n s) = s" by auto
  have "kw_state n (kw_unwrap_rounds A kek n s) \<and>
      fold (\<lambda>j s. fold (\<lambda>i s. wrap_step A kek n j i s) (rev (rev [0..<n])) s) (rev (rev [0..<6])) (kw_unwrap_rounds A kek n s) = s"
    unfolding kw_unwrap_rounds_def
    by (rule rounds_inverse [where n = n]) (use assms steps_inverse(3,4) in auto)
  then show "kw_state n (kw_unwrap_rounds A kek n s)" "kw_wrap_rounds A kek n (kw_unwrap_rounds A kek n s) = s"
    by (auto simp: kw_wrap_rounds_def)
qed

lemma aesKWWrap_Inr:
  "aesKWWrap A kek p = Inr c \<longleftrightarrow> aes_key kek \<and>
     (\<exists>n s. 2 \<le> n \<and> length p = 8 * n \<and> kw_wrap_rounds A kek n (aesKWDefaultIV, p) = s \<and> c = fst s @ snd s)"
proof -
  have "\<not> (len p < 16 \<or> len p mod 8 \<noteq> 0) \<longleftrightarrow> (\<exists>n\<ge>2. length p = 8 * n)" by (auto simp: len_def) presburger
  then show ?thesis
    by (auto simp: aesKWWrap_def kw_wrap_rounds_def Let_def split: prod.splits)
qed

lemma aesKWUnwrap_Inr:
  "aesKWUnwrap A kek c = Inr p \<longleftrightarrow> aes_key kek \<and>
     (\<exists>n. 2 \<le> n \<and> length c = 8 * n + 8 \<and> kw_unwrap_rounds A kek n (take 8 c, drop 8 c) = (aesKWDefaultIV, p))"
proof -
  have l: "\<not> (len c < 24 \<or> len c mod 8 \<noteq> 0) \<longleftrightarrow> (\<exists>n\<ge>2. length c = 8 * n + 8)" by (auto simp: len_def) presburger
  have "length c div 8 - 1 = n" if "length c = 8 * n + 8" for n using that by simp
  with l show ?thesis
    by (auto simp: aesKWUnwrap_def kw_unwrap_rounds_def Let_def split: prod.splits if_splits)
qed

lemma length_aesKWDefaultIV [simp]: "length aesKWDefaultIV = 8"
  by (simp add: aesKWDefaultIV_def)

lemma aesKW_length: "aes_laws A \<Longrightarrow> aesKWWrap A kek p = Inr c \<Longrightarrow> length c = length p + 8"
  using kw_rounds_inverse(1) [of A kek _ "(aesKWDefaultIV, p)"] unfolding aesKWWrap_Inr kw_state_def by auto

lemma aesKWUnwrap_iff:
  assumes "aes_laws A"
  shows "aesKWUnwrap A kek c = Inr p \<longleftrightarrow> aesKWWrap A kek p = Inr c"
proof
  assume "aesKWUnwrap A kek c = Inr p"
  then obtain n where n: "aes_key kek" "2 \<le> n" "length c = 8 * n + 8"
      "kw_unwrap_rounds A kek n (take 8 c, drop 8 c) = (aesKWDefaultIV, p)" unfolding aesKWUnwrap_Inr by blast
  note r = kw_rounds_inverse(3,4) [OF assms n(1), of n "(take 8 c, drop 8 c)"]
  from r n have "kw_wrap_rounds A kek n (aesKWDefaultIV, p) = (take 8 c, drop 8 c)" "length p = 8 * n"
    by (simp_all add: kw_state_def)
  with n show "aesKWWrap A kek p = Inr c" unfolding aesKWWrap_Inr by auto
next
  assume "aesKWWrap A kek p = Inr c"
  then obtain n where n: "aes_key kek" "2 \<le> n" "length p = 8 * n"
      "c = fst (kw_wrap_rounds A kek n (aesKWDefaultIV, p)) @ snd (kw_wrap_rounds A kek n (aesKWDefaultIV, p))"
    unfolding aesKWWrap_Inr by blast
  note r = kw_rounds_inverse(1,2) [OF assms n(1), of n "(aesKWDefaultIV, p)"]
  from r n have l: "length (fst (kw_wrap_rounds A kek n (aesKWDefaultIV, p))) = 8" "length c = 8 * n + 8"
    by (simp_all add: kw_state_def)
  then have "(take 8 c, drop 8 c) = kw_wrap_rounds A kek n (aesKWDefaultIV, p)" using n(4) by simp
  with r n l show "aesKWUnwrap A kek c = Inr p" unfolding aesKWUnwrap_Inr by (auto simp: kw_state_def)
qed

text \<open>A block function for evaluation: reversal, which is its own inverse.\<close>

definition sample_aes :: aes where
  "sample_aes = \<lparr>aes_Encrypt = (\<lambda>k b. rev b), aes_Decrypt = (\<lambda>k b. rev b)\<rparr>"

lemma sample_aes_laws: "aes_laws sample_aes"
  by (simp add: aes_laws_def sample_aes_def)

section \<open>Properties\<close>

text \<open>
  C6: when the block function is a permutation, the key wrap accepts exactly what it produces:
  a ciphertext unwraps to a key if and only if wrapping that key gives that ciphertext.
\<close>

theorem key_wrap_exact:
  assumes "aes_laws A"
  shows "aesKWUnwrap A kek c = Inr p \<longleftrightarrow> aesKWWrap A kek p = Inr c"
  by (rule aesKWUnwrap_iff [OF assms])

theorem key_wrap_exact_witness:
  "\<exists>c. aesKWWrap sample_aes (replicate 32 CHR ''k'') ''0123456789abcdef'' = Inr c
     \<and> aesKWUnwrap sample_aes (replicate 32 CHR ''k'') c = Inr ''0123456789abcdef''"
proof -
  let ?w = "aesKWWrap sample_aes (replicate 32 CHR ''k'') ''0123456789abcdef''"
  have "case ?w of Inl _ \<Rightarrow> False | Inr _ \<Rightarrow> True" by code_simp
  then obtain c where "?w = Inr c" by (cases ?w) auto
  with key_wrap_exact [OF sample_aes_laws] show ?thesis by blast
qed

end
