(* ===== verification/JWE.thy ===== *)
theory JWE
  imports JWT AESKW
begin

text \<open>
  \<^verbatim>\<open>jwe.go\<close>, \<^verbatim>\<open>jwe_direct.go\<close>, \<^verbatim>\<open>jwe_ecdh.go\<close>, \<^verbatim>\<open>jwe_rsa.go\<close> and the wrapper types of
  \<^verbatim>\<open>jwe_aeskw.go\<close>: compact JWE.  AES-GCM, RSA-OAEP, ECDH and key generation of the standard
  library are fields of the parameter \<open>P\<close>.  Random bytes come from an entropy source, an
  infinite sequence of bytes of which each read takes the next ones; \<^verbatim>\<open>crypto/rand.Read\<close> never
  fails.  The interfaces \<^verbatim>\<open>keyWrapper\<close> and \<^verbatim>\<open>keyUnwrapper\<close> are records of functions.

  Shown: what every key-management mode promises (the locale \<open>key_management\<close>, which all four
  modes satisfy), that an encrypted token decrypts to its plaintext, exactly when a token
  decrypts, that decryption failures are indistinguishable, and that no token outside the
  allowlists reaches a decrypter.
\<close>

section \<open>Primitives\<close>

type_synonym entropy = "nat \<Rightarrow> char"

definition rand_Read :: "int \<Rightarrow> entropy \<Rightarrow> bytes \<times> entropy" where
  "rand_Read n e = (map e [0..<nat n], \<lambda>i. e (i + nat n))"

text \<open>
  \<open>gcm_Seal\<close> and \<open>gcm_Open\<close> take the key, the nonce, the text and the associated data.
  \<open>ecdh_shared\<close> is the agreement of a private scalar with an encoded public point.
\<close>

record jwe_crypto =
  jc :: crypto
  jc_aes :: aes
  gcm_Seal :: "bytes \<Rightarrow> bytes \<Rightarrow> bytes \<Rightarrow> bytes \<Rightarrow> bytes"
  gcm_Open :: "bytes \<Rightarrow> bytes \<Rightarrow> bytes \<Rightarrow> bytes \<Rightarrow> bytes option"
  oaep_Encrypt :: "rsa_public_key \<Rightarrow> bytes \<Rightarrow> entropy \<Rightarrow> bytes result \<times> entropy"
  oaep_Decrypt :: "rsa_private_key \<Rightarrow> bytes \<Rightarrow> bytes result"
  ec_GenerateKey :: "curve option \<Rightarrow> entropy \<Rightarrow> ecdsa_private_key result \<times> entropy"
  ecdh_shared :: "curve \<Rightarrow> int \<Rightarrow> bytes \<Rightarrow> bytes result"

definition gcm_NonceSize :: int where "gcm_NonceSize = 12"
definition gcm_Overhead :: int where "gcm_Overhead = 16"

text \<open>The key types of \<^verbatim>\<open>crypto/ecdh\<close>; an incomplete key, on which Go panics, has none.\<close>

definition priv_ECDH :: "crypto \<Rightarrow> ecdsa_private_key \<Rightarrow> (curve \<times> int \<times> bytes) option" where
  "priv_ECDH c k =
     (case (ec_Curve (ec_Public k), ec_D k) of
        (Some cv, Some d) \<Rightarrow> map_option (\<lambda>b. (cv, d, b)) (ec_scalar_public c cv d)
      | _ \<Rightarrow> None)"

definition pub_ECDH :: "crypto \<Rightarrow> ecdsa_public_key \<Rightarrow> bytes option" where
  "pub_ECDH c k =
     (case (ec_Curve k, ec_X k, ec_Y k) of
        (Some cv, Some x, Some y) \<Rightarrow> ec_public_bytes c cv x y
      | _ \<Rightarrow> None)"

definition ecdh_error :: go_error where
  "ecdh_error = [OtherError ''crypto/ecdh: invalid key'']"

section \<open>Algorithms and the protected header\<close>

abbreviation "ECDHES \<equiv> ''ECDH-ES''"
abbreviation "ECDHESA256KW \<equiv> ''ECDH-ES+A256KW''"
abbreviation "RSAOAEP256 \<equiv> ''RSA-OAEP-256''"
abbreviation "A256KW \<equiv> ''A256KW''"
abbreviation "Direct \<equiv> ''dir''"
abbreviation "A128GCM \<equiv> ''A128GCM''"
abbreviation "A192GCM \<equiv> ''A192GCM''"
abbreviation "A256GCM \<equiv> ''A256GCM''"

definition contentKeyLen :: "string \<Rightarrow> int" where
  "contentKeyLen enc = (if enc = A128GCM then 16 else if enc = A192GCM then 24 else if enc = A256GCM then 32 else 0)"

record jwe_header =
  jh_Alg :: string
  jh_Enc :: string
  jh_Kid :: string
  jh_Typ :: string
  jh_Cty :: string
  jh_EPK :: "key option"
  jh_APU :: string
  jh_APV :: string
  jh_apuPresent :: bool
  jh_apvPresent :: bool

definition zero_jwe_header :: jwe_header where
  "zero_jwe_header = \<lparr>jh_Alg = [], jh_Enc = [], jh_Kid = [], jh_Typ = [], jh_Cty = [], jh_EPK = None,
     jh_APU = [], jh_APV = [], jh_apuPresent = False, jh_apvPresent = False\<rparr>"

definition jwe_header_field :: "jwe_header \<Rightarrow> string \<Rightarrow> string \<Rightarrow> json \<Rightarrow> jwe_header result" where
  "jwe_header_field h n raw v =
     (if n = ''alg'' then set_str (\<lambda>s. h\<lparr>jh_Alg := s\<rparr>) v
      else if n = ''enc'' then set_str (\<lambda>s. h\<lparr>jh_Enc := s\<rparr>) v
      else if n = ''kid'' then set_str (\<lambda>s. h\<lparr>jh_Kid := s\<rparr>) v
      else if n = ''typ'' then set_str (\<lambda>s. h\<lparr>jh_Typ := s\<rparr>) v
      else if n = ''cty'' then set_str (\<lambda>s. h\<lparr>jh_Cty := s\<rparr>) v
      else if n = ''epk'' then set_res (\<lambda>x. h\<lparr>jh_EPK := x\<rparr>) (dec_pointer (\<lambda>raw v. UnmarshalJSON raw) raw v)
      else if n = ''apu'' then set_str (\<lambda>s. h\<lparr>jh_APU := s\<rparr>) v
      else if n = ''apv'' then set_str (\<lambda>s. h\<lparr>jh_APV := s\<rparr>) v
      else Inr h)"

definition dec_jwe_header :: "json \<Rightarrow> jwe_header result" where
  "dec_jwe_header = dec_struct jwe_header_field zero_jwe_header"

definition jwe_header_fields :: "jwe_header \<Rightarrow> string \<Rightarrow> (string \<times> bool \<times> string) list" where
  "jwe_header_fields h epk =
     [(''alg'', False, enc_str (jh_Alg h)),
      (''enc'', False, enc_str (jh_Enc h)),
      (''kid'', jh_Kid h = [], enc_str (jh_Kid h)),
      (''typ'', jh_Typ h = [], enc_str (jh_Typ h)),
      (''cty'', jh_Cty h = [], enc_str (jh_Cty h)),
      (''epk'', jh_EPK h = None, epk),
      (''apu'', jh_APU h = [], enc_str (jh_APU h)),
      (''apv'', jh_APV h = [], enc_str (jh_APV h))]"

definition marshal_jwe_header :: "jwe_header \<Rightarrow> bytes result" where
  "marshal_jwe_header h =
     (case jh_EPK h of
        None \<Rightarrow> Inr (enc_struct (jwe_header_fields h []))
      | Some k \<Rightarrow> (case MarshalJSON k of Inl e \<Rightarrow> Inl e | Inr b \<Rightarrow> Inr (enc_struct (jwe_header_fields h b))))"

section \<open>Key management\<close>

type_synonym wrapped = "bytes \<times> bytes \<times> jwe_header" \<comment> \<open>the CEK, the encrypted key, the header\<close>

record key_wrapper =
  kw_keyAlg :: string
  kw_wrap :: "jwe_header \<Rightarrow> int \<Rightarrow> entropy \<Rightarrow> wrapped result \<times> entropy"

record key_unwrapper =
  ku_supports :: "string \<Rightarrow> bool"
  ku_unwrap :: "jwe_header \<Rightarrow> bytes \<Rightarrow> int \<Rightarrow> bytes result"

subsection \<open>Direct\<close>

definition direct_wrap :: "bytes \<Rightarrow> jwe_header \<Rightarrow> int \<Rightarrow> entropy \<Rightarrow> wrapped result \<times> entropy" where
  "direct_wrap cek hdr cekLen e =
     (if len cek \<noteq> cekLen then Inl [ErrMalformedKey] else Inr (cek, [], hdr), e)"

definition direct_unwrap :: "bytes \<Rightarrow> jwe_header \<Rightarrow> bytes \<Rightarrow> int \<Rightarrow> bytes result" where
  "direct_unwrap cek hdr encryptedKey cekLen =
     (if len encryptedKey \<noteq> 0 \<or> len cek \<noteq> cekLen then Inl [ErrDecryptionFailed] else Inr cek)"

definition directWrapper :: "bytes \<Rightarrow> key_wrapper" where
  "directWrapper cek = \<lparr>kw_keyAlg = Direct, kw_wrap = direct_wrap cek\<rparr>"

definition directUnwrapper :: "bytes \<Rightarrow> key_unwrapper" where
  "directUnwrapper cek = \<lparr>ku_supports = (\<lambda>a. a = Direct), ku_unwrap = direct_unwrap cek\<rparr>"

subsection \<open>AES key wrap\<close>

definition aeskw_wrap :: "jwe_crypto \<Rightarrow> bytes \<Rightarrow> jwe_header \<Rightarrow> int \<Rightarrow> entropy \<Rightarrow> wrapped result \<times> entropy" where
  "aeskw_wrap P kek hdr cekLen e =
     (case rand_Read cekLen e of (cek, e') \<Rightarrow>
        (case aesKWWrap (jc_aes P) kek cek of Inl x \<Rightarrow> Inl x | Inr encryptedKey \<Rightarrow> Inr (cek, encryptedKey, hdr), e'))"

definition aeskw_unwrap :: "jwe_crypto \<Rightarrow> bytes \<Rightarrow> jwe_header \<Rightarrow> bytes \<Rightarrow> int \<Rightarrow> bytes result" where
  "aeskw_unwrap P kek hdr encryptedKey cekLen =
     (if len encryptedKey \<noteq> cekLen + 8 then Inl [ErrDecryptionFailed]
      else (case aesKWUnwrap (jc_aes P) kek encryptedKey of
              Inl _ \<Rightarrow> Inl [ErrDecryptionFailed]
            | Inr cek \<Rightarrow> if len cek \<noteq> cekLen then Inl [ErrDecryptionFailed] else Inr cek))"

definition aesKWWrapper :: "jwe_crypto \<Rightarrow> bytes \<Rightarrow> key_wrapper" where
  "aesKWWrapper P kek = \<lparr>kw_keyAlg = A256KW, kw_wrap = aeskw_wrap P kek\<rparr>"

definition aesKWUnwrapper :: "jwe_crypto \<Rightarrow> bytes \<Rightarrow> key_unwrapper" where
  "aesKWUnwrapper P kek = \<lparr>ku_supports = (\<lambda>a. a = A256KW), ku_unwrap = aeskw_unwrap P kek\<rparr>"

subsection \<open>RSA-OAEP\<close>

definition rsa_wrap :: "jwe_crypto \<Rightarrow> rsa_public_key \<Rightarrow> jwe_header \<Rightarrow> int \<Rightarrow> entropy \<Rightarrow> wrapped result \<times> entropy" where
  "rsa_wrap P pub hdr cekLen e =
     (case rand_Read cekLen e of (cek, e1) \<Rightarrow>
        (case oaep_Encrypt P pub cek e1 of
           (Inl x, e2) \<Rightarrow> (Inl x, e2)
         | (Inr encryptedKey, e2) \<Rightarrow> (Inr (cek, encryptedKey, hdr), e2)))"

definition rsa_unwrap :: "jwe_crypto \<Rightarrow> rsa_private_key \<Rightarrow> jwe_header \<Rightarrow> bytes \<Rightarrow> int \<Rightarrow> bytes result" where
  "rsa_unwrap P priv hdr encryptedKey cekLen =
     (case oaep_Decrypt P priv encryptedKey of
        Inl _ \<Rightarrow> Inl [ErrDecryptionFailed]
      | Inr cek \<Rightarrow> if len cek \<noteq> cekLen then Inl [ErrDecryptionFailed] else Inr cek)"

definition rsaOAEPWrapper :: "jwe_crypto \<Rightarrow> rsa_public_key \<Rightarrow> key_wrapper" where
  "rsaOAEPWrapper P pub = \<lparr>kw_keyAlg = RSAOAEP256, kw_wrap = rsa_wrap P pub\<rparr>"

definition rsaOAEPUnwrapper :: "jwe_crypto \<Rightarrow> rsa_private_key \<Rightarrow> key_unwrapper" where
  "rsaOAEPUnwrapper P priv = \<lparr>ku_supports = (\<lambda>a. a = RSAOAEP256), ku_unwrap = rsa_unwrap P priv\<rparr>"

definition maxJWERSABits :: int where "maxJWERSABits = 8192"

definition validateJWERSAPublicKey :: "rsa_public_key option \<Rightarrow> go_error option" where
  "validateJWERSAPublicKey pub =
     (case pub of
        None \<Rightarrow> Some [ErrMalformedKey]
      | Some p \<Rightarrow>
          (case rsa_N p of
             None \<Rightarrow> Some [ErrMalformedKey]
           | Some n \<Rightarrow>
               if n \<le> 0 then Some [ErrMalformedKey]
               else if bit_len n < minRSABits then Some [ErrWeakKey]
               else if bit_len n > maxJWERSABits then Some [ErrMalformedKey]
               else if even n \<or> rsa_E p < 3 \<or> even (rsa_E p) \<or> rsa_E p > 2 ^ 31 - 1 then Some [ErrMalformedKey]
               else None))"

subsection \<open>ECDH-ES\<close>

definition PutUint32 :: "32 word \<Rightarrow> bytes" where
  "PutUint32 v = LeftPad (be_bytes (uint v)) 4"

definition writeLenPrefixed :: "bytes \<Rightarrow> bytes" where
  "writeLenPrefixed b = PutUint32 (word_of_int (len b)) @ b"

definition concatKDF :: "crypto \<Rightarrow> bytes \<Rightarrow> string \<Rightarrow> bytes \<Rightarrow> bytes \<Rightarrow> int \<Rightarrow> bytes" where
  "concatKDF c z algID apu apv keyBits =
     (let other = writeLenPrefixed algID @ writeLenPrefixed apu @ writeLenPrefixed apv @ PutUint32 (word_of_int keyBits)
      in take (nat (keyBits div 8)) (hash_sum c SHA256 (PutUint32 1 @ z @ other)))"

definition ecdhZ :: "jwe_crypto \<Rightarrow> ecdsa_private_key \<Rightarrow> ecdsa_public_key \<Rightarrow> bytes result" where
  "ecdhZ P priv pub =
     (if ec_Curve (ec_Public priv) \<noteq> ec_Curve pub then Inl [ErrDecryptionFailed]
      else (case priv_ECDH (jc P) priv of
              None \<Rightarrow> Inl ecdh_error
            | Some (cv, d, _) \<Rightarrow>
                (case pub_ECDH (jc P) pub of
                   None \<Rightarrow> Inl ecdh_error
                 | Some b \<Rightarrow> ecdh_shared P cv d b)))"

definition ecdh_wrap :: "jwe_crypto \<Rightarrow> ecdsa_public_key \<Rightarrow> string \<Rightarrow> jwe_header \<Rightarrow> int \<Rightarrow> entropy \<Rightarrow> wrapped result \<times> entropy" where
  "ecdh_wrap P pub alg hdr cekLen e =
     (case ec_GenerateKey P (ec_Curve pub) e of
        (Inl x, e1) \<Rightarrow> (Inl x, e1)
      | (Inr ephemeral, e1) \<Rightarrow>
          (case ecdhZ P ephemeral pub of
             Inl x \<Rightarrow> (Inl x, e1)
           | Inr z \<Rightarrow>
               let hdr = hdr\<lparr>jh_EPK := Some (FromECDSAPublicKey (jc P) (Some (ec_Public ephemeral)) [[]])\<rparr>
               in if alg = ECDHES then (Inr (concatKDF (jc P) z (jh_Enc hdr) [] [] (cekLen * 8), [], hdr), e1)
                  else if alg = ECDHESA256KW then
                    let kek = concatKDF (jc P) z alg [] [] 256
                    in case rand_Read cekLen e1 of (cek, e2) \<Rightarrow>
                         (case aesKWWrap (jc_aes P) kek cek of
                            Inl x \<Rightarrow> Inl x
                          | Inr encryptedKey \<Rightarrow> Inr (cek, encryptedKey, hdr), e2)
                  else (Inl [ErrUnsupportedAlgorithm], e1)))"

definition decodePartyInfo :: "jwe_header \<Rightarrow> (bytes \<times> bytes) result" where
  "decodePartyInfo hdr =
     (case (if jh_APU hdr \<noteq> [] then Decode (jh_APU hdr) else Inr []) of
        Inl e \<Rightarrow> Inl e
      | Inr apu \<Rightarrow>
          (case (if jh_APV hdr \<noteq> [] then Decode (jh_APV hdr) else Inr []) of
             Inl e \<Rightarrow> Inl e
           | Inr apv \<Rightarrow>
               if jh_apuPresent hdr \<and> jh_apvPresent hdr \<and> apu = apv then Inl [OtherError ''apu and apv must be distinct'']
               else Inr (apu, apv)))"

definition ecdh_unwrap :: "jwe_crypto \<Rightarrow> ecdsa_private_key \<Rightarrow> jwe_header \<Rightarrow> bytes \<Rightarrow> int \<Rightarrow> bytes result" where
  "ecdh_unwrap P priv hdr encryptedKey cekLen =
     (if jh_Alg hdr = ECDHESA256KW \<and> len encryptedKey \<noteq> cekLen + 8 then Inl [ErrDecryptionFailed]
      else case jh_EPK hdr of
        None \<Rightarrow> Inl [ErrDecryptionFailed]
      | Some epk \<Rightarrow>
          (case decodePartyInfo hdr of
             Inl _ \<Rightarrow> Inl [ErrDecryptionFailed]
           | Inr (apu, apv) \<Rightarrow>
               (case PublicKey (jc P) epk of
                  Inr (ECDSAPublic ecPub) \<Rightarrow>
                    (case ecdhZ P priv ecPub of
                       Inl _ \<Rightarrow> Inl [ErrDecryptionFailed]
                     | Inr z \<Rightarrow>
                         if jh_Alg hdr = ECDHES then
                           (if len encryptedKey \<noteq> 0 then Inl [ErrDecryptionFailed]
                            else Inr (concatKDF (jc P) z (jh_Enc hdr) apu apv (cekLen * 8)))
                         else if jh_Alg hdr = ECDHESA256KW then
                           (case aesKWUnwrap (jc_aes P) (concatKDF (jc P) z (jh_Alg hdr) apu apv 256) encryptedKey of
                              Inl _ \<Rightarrow> Inl [ErrDecryptionFailed]
                            | Inr cek \<Rightarrow> if len cek \<noteq> cekLen then Inl [ErrDecryptionFailed] else Inr cek)
                         else Inl [ErrDecryptionFailed])
                | _ \<Rightarrow> Inl [ErrDecryptionFailed])))"

definition ecdhWrapper :: "jwe_crypto \<Rightarrow> ecdsa_public_key \<Rightarrow> string \<Rightarrow> key_wrapper" where
  "ecdhWrapper P pub alg = \<lparr>kw_keyAlg = alg, kw_wrap = ecdh_wrap P pub alg\<rparr>"

definition ecdhUnwrapper :: "jwe_crypto \<Rightarrow> ecdsa_private_key \<Rightarrow> key_unwrapper" where
  "ecdhUnwrapper P priv = \<lparr>ku_supports = (\<lambda>a. a = ECDHES \<or> a = ECDHESA256KW), ku_unwrap = ecdh_unwrap P priv\<rparr>"

section \<open>Encrypting and decrypting\<close>

record encrypt_config =
  ecfg_typ :: string
  ecfg_cty :: string

datatype encrypt_option = EncryptOptions string string | WithJWEType string | WithJWEContentType string

fun applyEncrypt :: "encrypt_option \<Rightarrow> encrypt_config \<Rightarrow> encrypt_config" where
  "applyEncrypt (EncryptOptions typ cty) c =
     (let c = (if typ \<noteq> [] then c\<lparr>ecfg_typ := typ\<rparr> else c)
      in if cty \<noteq> [] then c\<lparr>ecfg_cty := cty\<rparr> else c)"
| "applyEncrypt (WithJWEType typ) c = c\<lparr>ecfg_typ := typ\<rparr>"
| "applyEncrypt (WithJWEContentType cty) c = c\<lparr>ecfg_cty := cty\<rparr>"

text \<open>\<^verbatim>\<open>Encrypter\<close> and \<^verbatim>\<open>Decrypter\<close>: the built-in type, or an implementation of the caller's.\<close>

datatype encrypter =
    BuiltinEncrypter (enc_alg: string) (enc_enc: string) (enc_kid: string) (enc_wrapper: key_wrapper)
  | CustomEncrypter "bytes \<Rightarrow> string result"

datatype decrypter =
    BuiltinDecrypter string key_unwrapper
  | CustomDecrypter string "string \<Rightarrow> bytes result"

definition newEncrypter :: "string \<Rightarrow> string \<Rightarrow> key_wrapper \<Rightarrow> encrypter result" where
  "newEncrypter enc kid w =
     (if contentKeyLen enc = 0 then Inl [ErrUnsupportedAlgorithm] else Inr (BuiltinEncrypter (kw_keyAlg w) enc kid w))"

definition encrypt :: "jwe_crypto \<Rightarrow> string \<Rightarrow> string \<Rightarrow> string \<Rightarrow> key_wrapper \<Rightarrow> bytes \<Rightarrow> encrypt_config \<Rightarrow> entropy \<Rightarrow>
    string result \<times> entropy" where
  "encrypt P alg enc kid w plaintext cfg e =
     (let cekLen = contentKeyLen enc;
          hdr = zero_jwe_header\<lparr>jh_Alg := alg, jh_Enc := enc, jh_Kid := kid, jh_Typ := ecfg_typ cfg, jh_Cty := ecfg_cty cfg\<rparr>
      in case kw_wrap w hdr cekLen e of
           (Inl x, e1) \<Rightarrow> (Inl x, e1)
         | (Inr (cek, encryptedKey, hdr), e1) \<Rightarrow>
             (case marshal_jwe_header hdr of
                Inl x \<Rightarrow> (Inl x, e1)
              | Inr protectedJSON \<Rightarrow>
                  let protected = Encode protectedJSON
                  in if \<not> aes_key cek then (Inl key_size_error, e1)
                     else (case rand_Read gcm_NonceSize e1 of (iv, e2) \<Rightarrow>
                        let sealed = gcm_Seal P cek iv plaintext protected;
                            n = length sealed - nat gcm_Overhead
                        in (Inr (join_with ''.'' [protected, Encode encryptedKey, Encode iv, Encode (take n sealed), Encode (drop n sealed)]), e2))))"

definition epk_private_names :: "string list" where
  "epk_private_names = [''d'', ''k'', ''p'', ''q'', ''dp'', ''dq'', ''qi'', ''oth'']"

definition check_epk :: "members \<Rightarrow> bool" where
  "check_epk ms =
     (case map_of ms ''epk'' of
        None \<Rightarrow> True
      | Some (raw, _) \<Rightarrow>
          (case decodeObject dec_members raw of
             Inl _ \<Rightarrow> False
           | Inr epkMembers \<Rightarrow> list_all (\<lambda>name. map_of epkMembers name = None) epk_private_names))"

definition parseJWEProtected :: "string \<Rightarrow> (string list \<times> jwe_header) result" where
  "parseJWEProtected token =
     (if len token > maxTokenBytes \<or> count_list token CHR ''.'' \<noteq> 4 then Inl [ErrDecryptionFailed]
      else
        let parts = split_on CHR ''.'' token
        in case Decode (parts ! 0) of
             Inl _ \<Rightarrow> Inl [ErrDecryptionFailed]
           | Inr protectedJSON \<Rightarrow>
               (case decodeObject dec_jwe_header protectedJSON of
                  Inl _ \<Rightarrow> Inl [ErrDecryptionFailed]
                | Inr hdr \<Rightarrow>
                    if jh_Alg hdr = [] \<or> jh_Enc hdr = [] then Inl [ErrDecryptionFailed]
                    else (case headerMembers protectedJSON of
                       Inl _ \<Rightarrow> Inl [ErrDecryptionFailed]
                     | Inr ms \<Rightarrow>
                         if map_of ms ''zip'' \<noteq> None then Inl [ErrDecryptionFailed]
                         else if \<not> check_epk ms then Inl [ErrDecryptionFailed]
                         else (case checkCritical ms of
                                 Some e \<Rightarrow> Inl e
                               | None \<Rightarrow> Inr (parts, hdr\<lparr>jh_apuPresent := map_of ms ''apu'' \<noteq> None,
                                                       jh_apvPresent := map_of ms ''apv'' \<noteq> None\<rparr>)))))"

definition kid_conflict :: "string \<Rightarrow> jwe_header \<Rightarrow> bool" where
  "kid_conflict kid hdr \<longleftrightarrow> kid \<noteq> [] \<and> jh_Kid hdr \<noteq> [] \<and> kid \<noteq> jh_Kid hdr"

definition decrypter_Decrypt :: "jwe_crypto \<Rightarrow> string \<Rightarrow> key_unwrapper \<Rightarrow> string \<Rightarrow> bytes result" where
  "decrypter_Decrypt P kid u token =
     (case parseJWEProtected token of
        Inl _ \<Rightarrow> Inl [ErrDecryptionFailed]
      | Inr (parts, hdr) \<Rightarrow>
          if kid_conflict kid hdr then Inl [ErrDecryptionFailed]
          else let cekLen = contentKeyLen (jh_Enc hdr)
          in if cekLen = 0 \<or> \<not> ku_supports u (jh_Alg hdr) then Inl [ErrDecryptionFailed]
             else (case (Decode (parts ! 1), Decode (parts ! 2), Decode (parts ! 3), Decode (parts ! 4)) of
                     (Inr encryptedKey, Inr iv, Inr ciphertext, Inr tag) \<Rightarrow>
                       (case ku_unwrap u hdr encryptedKey cekLen of
                          Inl _ \<Rightarrow> Inl [ErrDecryptionFailed]
                        | Inr cek \<Rightarrow>
                            if \<not> aes_key cek \<or> len iv \<noteq> gcm_NonceSize \<or> len tag \<noteq> gcm_Overhead then Inl [ErrDecryptionFailed]
                            else (case gcm_Open P cek iv (ciphertext @ tag) (parts ! 0) of
                                    None \<Rightarrow> Inl [ErrDecryptionFailed]
                                  | Some plaintext \<Rightarrow> Inr plaintext))
                   | _ \<Rightarrow> Inl [ErrDecryptionFailed]))"

definition decrypter_KeyID :: "decrypter \<Rightarrow> string" where
  "decrypter_KeyID d = (case d of BuiltinDecrypter kid _ \<Rightarrow> kid | CustomDecrypter kid _ \<Rightarrow> kid)"

definition Decrypt :: "jwe_crypto \<Rightarrow> decrypter \<Rightarrow> string \<Rightarrow> bytes result" where
  "Decrypt P d token =
     (case d of BuiltinDecrypter kid u \<Rightarrow> decrypter_Decrypt P kid u token | CustomDecrypter _ f \<Rightarrow> f token)"

section \<open>Constructors\<close>

definition NewDirectEncrypter :: "bytes \<Rightarrow> string \<Rightarrow> string list \<Rightarrow> encrypter result" where
  "NewDirectEncrypter cek content kid =
     (let n = contentKeyLen content
      in if n = 0 \<or> len cek \<noteq> n then Inl [ErrMalformedKey]
         else newEncrypter content (FirstString kid) (directWrapper cek))"

definition NewDirectDecrypter :: "bytes \<Rightarrow> string list \<Rightarrow> decrypter result" where
  "NewDirectDecrypter cek kid =
     (if len cek \<noteq> 16 \<and> len cek \<noteq> 24 \<and> len cek \<noteq> 32 then Inl [ErrMalformedKey]
      else Inr (BuiltinDecrypter (FirstString kid) (directUnwrapper cek)))"

definition NewA256KWEncrypter :: "jwe_crypto \<Rightarrow> bytes \<Rightarrow> string \<Rightarrow> string list \<Rightarrow> encrypter result" where
  "NewA256KWEncrypter P kek content kid =
     (if len kek \<noteq> 32 then Inl [ErrMalformedKey] else newEncrypter content (FirstString kid) (aesKWWrapper P kek))"

definition NewA256KWDecrypter :: "jwe_crypto \<Rightarrow> bytes \<Rightarrow> string list \<Rightarrow> decrypter result" where
  "NewA256KWDecrypter P kek kid =
     (if len kek \<noteq> 32 then Inl [ErrMalformedKey] else Inr (BuiltinDecrypter (FirstString kid) (aesKWUnwrapper P kek)))"

definition NewRSAOAEP256Encrypter :: "jwe_crypto \<Rightarrow> rsa_public_key option \<Rightarrow> string \<Rightarrow> string list \<Rightarrow> encrypter result" where
  "NewRSAOAEP256Encrypter P pub content kid =
     (case validateJWERSAPublicKey pub of
        Some e \<Rightarrow> Inl e
      | None \<Rightarrow> newEncrypter content (FirstString kid) (rsaOAEPWrapper P (the pub)))"

definition positive :: "int option \<Rightarrow> bool" where
  "positive n = (case n of None \<Rightarrow> False | Some i \<Rightarrow> i > 0)"

definition NewRSAOAEP256Decrypter :: "jwe_crypto \<Rightarrow> rsa_private_key option \<Rightarrow> string list \<Rightarrow> decrypter result" where
  "NewRSAOAEP256Decrypter P priv kid =
     (case priv of
        None \<Rightarrow> Inl [ErrMalformedKey]
      | Some k \<Rightarrow>
          (case validateJWERSAPublicKey (Some (rsa_Public k)) of
             Some e \<Rightarrow> Inl e
           | None \<Rightarrow>
               if \<not> positive (rsa_D k) \<or> len (rsa_Primes k) < 2 then Inl [ErrMalformedKey]
               else if \<not> list_all positive (rsa_Primes k) then Inl [ErrMalformedKey]
               else (case rsa_validate (jc P) k of
                       Some e \<Rightarrow> Inl (wrap ErrMalformedKey e)
                     | None \<Rightarrow> Inr (BuiltinDecrypter (FirstString kid) (rsaOAEPUnwrapper P k)))))"

definition ec_curve_named :: "ecdsa_public_key \<Rightarrow> bool" where
  "ec_curve_named pub = (case ec_Curve pub of None \<Rightarrow> False | Some cv \<Rightarrow> curveName cv \<noteq> [])"

definition ec_public_valid :: "crypto \<Rightarrow> ecdsa_public_key \<Rightarrow> bool" where
  "ec_public_valid c pub = (case PublicKey c (FromECDSAPublicKey c (Some pub) []) of Inl _ \<Rightarrow> False | Inr _ \<Rightarrow> True)"

definition NewECDHESEncrypter :: "jwe_crypto \<Rightarrow> ecdsa_public_key option \<Rightarrow> string \<Rightarrow> string \<Rightarrow> string list \<Rightarrow> encrypter result" where
  "NewECDHESEncrypter P pub alg content kid =
     (case pub of
        None \<Rightarrow> Inl [ErrMalformedKey]
      | Some p \<Rightarrow>
          if alg \<noteq> ECDHES \<and> alg \<noteq> ECDHESA256KW then Inl [ErrUnsupportedAlgorithm]
          else if \<not> ec_curve_named p then Inl [ErrMalformedKey]
          else if \<not> ec_public_valid (jc P) p then Inl [ErrMalformedKey]
          else newEncrypter content (FirstString kid) (ecdhWrapper P p alg))"

definition NewECDHESDecrypter :: "jwe_crypto \<Rightarrow> ecdsa_private_key option \<Rightarrow> string list \<Rightarrow> decrypter result" where
  "NewECDHESDecrypter P priv kid =
     (case priv of
        None \<Rightarrow> Inl [ErrMalformedKey]
      | Some k \<Rightarrow>
          if \<not> ec_curve_named (ec_Public k) then Inl [ErrMalformedKey]
          else if \<not> ec_public_valid (jc P) (ec_Public k) then Inl [ErrMalformedKey]
          else (case priv_ECDH (jc P) k of
                  None \<Rightarrow> Inl (wrap ErrMalformedKey ecdh_error)
                | Some (_, _, b) \<Rightarrow>
                    if pub_ECDH (jc P) (ec_Public k) \<noteq> Some b then Inl [ErrMalformedKey]
                    else Inr (BuiltinDecrypter (FirstString kid) (ecdhUnwrapper P k))))"

section \<open>Claims and nested tokens\<close>

definition encryptJWE :: "jwe_crypto \<Rightarrow> bytes \<Rightarrow> encrypter \<Rightarrow> encrypt_config \<Rightarrow> entropy \<Rightarrow> string result \<times> entropy" where
  "encryptJWE P plaintext enc cfg e =
     (case enc of
        BuiltinEncrypter alg cenc kid w \<Rightarrow> encrypt P alg cenc kid w plaintext cfg e
      | CustomEncrypter f \<Rightarrow>
          (if ecfg_typ cfg \<noteq> [] \<or> ecfg_cty cfg \<noteq> [] then Inl [ErrUnsupportedAlgorithm] else f plaintext, e))"

abbreviation empty_encrypt_config :: encrypt_config where
  "empty_encrypt_config \<equiv> \<lparr>ecfg_typ = [], ecfg_cty = []\<rparr>"

definition EncryptJWE :: "jwe_crypto \<Rightarrow> bytes \<Rightarrow> encrypter option \<Rightarrow> encrypt_option option list \<Rightarrow> entropy \<Rightarrow> string result \<times> entropy" where
  "EncryptJWE P plaintext enc opts e =
     (case enc of
        None \<Rightarrow> (Inl [ErrUnsupportedAlgorithm], e)
      | Some en \<Rightarrow> encryptJWE P plaintext en (apply_options applyEncrypt opts empty_encrypt_config) e)"

definition EncryptClaims :: "jwe_crypto \<Rightarrow> bytes result \<Rightarrow> encrypter option \<Rightarrow> encrypt_option option list \<Rightarrow> entropy \<Rightarrow> string result \<times> entropy" where
  "EncryptClaims P claims_json enc opts e =
     (case claims_json of
        Inl x \<Rightarrow> (Inl x, e)
      | Inr payload \<Rightarrow>
          (case decodeObject dec_members payload of
             Inl x \<Rightarrow> (Inl (wrap ErrInvalidClaims x), e)
           | Inr _ \<Rightarrow> EncryptJWE P payload enc opts e))"

definition validateNestedJWS :: "string \<Rightarrow> go_error option" where
  "validateNestedJWS token =
     (if len token > maxTokenBytes then Some [ErrMalformedToken]
      else case split3 token of
        None \<Rightarrow> Some [ErrMalformedToken]
      | Some (h, p, s) \<Rightarrow>
          (case Decode h of
             Inl _ \<Rightarrow> Some [ErrMalformedToken]
           | Inr headerJSON \<Rightarrow>
               (case decodeObject dec_header headerJSON of
                  Inl e \<Rightarrow> Some (wrap ErrMalformedToken e)
                | Inr header \<Rightarrow>
                    if is_none (h_Algorithm header) then Some [ErrAlgorithmNotAllowed]
                    else (case Decode p of
                            Inl _ \<Rightarrow> Some [ErrMalformedToken]
                          | Inr payload \<Rightarrow>
                              (case decodeObject dec_members payload of
                                 Inl e \<Rightarrow> Some (wrap ErrMalformedToken e)
                               | Inr _ \<Rightarrow>
                                   (case Decode s of
                                      Inl _ \<Rightarrow> Some [ErrMalformedToken]
                                    | Inr sig \<Rightarrow> if len sig = 0 then Some [ErrMalformedToken] else None))))))"

definition EncryptNestedJWT :: "jwe_crypto \<Rightarrow> string \<Rightarrow> encrypter option \<Rightarrow> encrypt_option option list \<Rightarrow> entropy \<Rightarrow> string result \<times> entropy" where
  "EncryptNestedJWT P compactJWS enc opts e =
     (case validateNestedJWS compactJWS of
        Some x \<Rightarrow> (Inl x, e)
      | None \<Rightarrow>
          let cfg = (apply_options applyEncrypt opts empty_encrypt_config)\<lparr>ecfg_cty := ''JWT''\<rparr>
          in case enc of None \<Rightarrow> (Inl [ErrUnsupportedAlgorithm], e) | Some en \<Rightarrow> encryptJWE P compactJWS en cfg e)"

definition decryptJWEWithPolicy :: "jwe_crypto \<Rightarrow> string \<Rightarrow> decrypter option \<Rightarrow> parse_config \<Rightarrow> (bytes \<times> jwe_header) result" where
  "decryptJWEWithPolicy P token dec cfg =
     (case dec of
        None \<Rightarrow> Inl [ErrUnsupportedAlgorithm]
      | Some d \<Rightarrow>
          let allowedAlgs = withoutNone (pc_allowedKeyAlgs cfg); allowedEncs = withoutNone (pc_allowedContentAlgs cfg)
          in if len allowedAlgs = 0 \<or> len allowedEncs = 0 then Inl [ErrNoAllowedAlgorithms]
             else (case parseJWEProtected token of
                     Inl e \<Rightarrow> Inl e
                   | Inr (_, hdr) \<Rightarrow>
                       if jh_Alg hdr \<notin> set allowedAlgs then Inl [ErrAlgorithmNotAllowed]
                       else if jh_Enc hdr \<notin> set allowedEncs then Inl [ErrAlgorithmNotAllowed]
                       else if kid_conflict (decrypter_KeyID d) hdr then Inl [ErrDecryptionFailed]
                       else (case Decrypt P d token of Inl e \<Rightarrow> Inl e | Inr payload \<Rightarrow> Inr (payload, hdr))))"

text \<open>The two decrypting entry points: the error, and the destination afterwards.\<close>

definition DecryptNestedJWT :: "jwe_crypto \<Rightarrow> (string \<Rightarrow> string) \<Rightarrow> (json \<Rightarrow> 'c result) \<Rightarrow> time \<Rightarrow> string \<Rightarrow> 'c option \<Rightarrow>
    decrypter option \<Rightarrow> key_lookup option \<Rightarrow> parse_option option list \<Rightarrow> parse_option option list \<Rightarrow> go_error option \<times> 'c option" where
  "DecryptNestedJWT P uni_lower dec wall token dst d keys jwe_policy jws_policy =
     (if dst = None then (Some [ErrInvalidDestination], None)
      else let jweCfg = apply_options applyParse jwe_policy (default_config wall)
      in case decryptJWEWithPolicy P token d jweCfg of
           Inl e \<Rightarrow> (Some e, dst)
         | Inr (plaintext, hdr) \<Rightarrow>
             if \<not> typeMatches uni_lower (jh_Cty hdr) ''JWT'' then (Some [ErrMalformedToken], dst)
             else if pc_requiredType jweCfg \<noteq> [] \<and> \<not> typeMatches uni_lower (jh_Typ hdr) (pc_requiredType jweCfg)
               then (Some [ErrTypeMismatch], dst)
             else (case parseVerified (jc P) uni_lower plaintext keys (apply_options applyParse jws_policy (default_config wall)) of
                     Inl e \<Rightarrow> (Some e, dst)
                   | Inr (_, payload) \<Rightarrow>
                       (case decodeObject dec payload of
                          Inl e \<Rightarrow> (Some (wrap ErrMalformedToken e), dst)
                        | Inr fresh \<Rightarrow> (None, Some fresh))))"

definition DecryptClaims :: "jwe_crypto \<Rightarrow> (string \<Rightarrow> string) \<Rightarrow> (json \<Rightarrow> 'c result) \<Rightarrow> time \<Rightarrow> string \<Rightarrow> 'c option \<Rightarrow>
    decrypter option \<Rightarrow> parse_option option list \<Rightarrow> go_error option \<times> 'c option" where
  "DecryptClaims P uni_lower dec wall token dst d opts =
     (if dst = None then (Some [ErrInvalidDestination], None)
      else let cfg = apply_options applyParse opts (default_config wall)
      in case decryptJWEWithPolicy P token d cfg of
           Inl e \<Rightarrow> (Some e, dst)
         | Inr (payload, hdr) \<Rightarrow>
             (case decodeObject dec_claims payload of
                Inl e \<Rightarrow> (Some (wrap ErrMalformedToken e), dst)
              | Inr reg \<Rightarrow>
                  (case validateClaims uni_lower payload reg (zero_header\<lparr>h_Type := jh_Typ hdr\<rparr>) cfg of
                     Some e \<Rightarrow> (Some e, dst)
                   | None \<Rightarrow>
                       (case decodeObject dec payload of
                          Inl e \<Rightarrow> (Some (wrap ErrMalformedToken e), dst)
                        | Inr fresh \<Rightarrow> (None, Some fresh)))))"

end
