(* ===== verification/JWEProofs.thy ===== *)
theory JWEProofs
  imports JWE
begin

text \<open>
  The proofs about compact JWE: the protected header survives its encoding, every
  key-management mode of the package satisfies the contract \<open>key_management\<close>, and so do
  the tokens built on them.
\<close>

section \<open>The protected header\<close>

definition epk_servable :: "key \<Rightarrow> bool" where
  "epk_servable k \<longleftrightarrow> Kty k \<noteq> KeyTypeOct \<and> k_k k = [] \<and> checkCanonical k = None \<and> key_valid_utf8 k"

definition epk_json :: "key \<Rightarrow> bytes" where
  "epk_json k = enc_struct (jwk_fields (key_to_jwk k))"

definition epk_members :: "key \<Rightarrow> members" where
  "epk_members k = struct_members (jwk_values (key_to_jwk k))"

lemma epk_servable:
  assumes "epk_servable k"
  shows "MarshalJSON k = Inr (epk_json k)" "UnmarshalJSON (epk_json k) = Inr k"
    "reads_as 2 (epk_json k) (JObj (epk_members k))"
    "decodeObject dec_members (epk_json k) = Inr (epk_members k)"
proof -
  have k: "Kty k \<noteq> KeyTypeOct" "k_k k = []" "checkCanonical k = None" "key_valid_utf8 k"
    using assms by (auto simp: epk_servable_def)
  show m: "MarshalJSON k = Inr (epk_json k)" using k(1) by (simp add: MarshalJSON_def epk_json_def)
  have "k\<lparr>k_k := []\<rparr> = k" using k(2) by simp
  then show "UnmarshalJSON (epk_json k) = Inr k"
    using UnmarshalJSON_MarshalJSON_eq [OF m key_to_jwk_valid [OF k(4)]] k(3) by (simp add: jwk_to_key_to_jwk)
  show r: "reads_as 2 (epk_json k) (JObj (epk_members k))"
    using jwk_reads_as [OF key_to_jwk_valid [OF k(4)]] by (simp add: epk_json_def epk_members_def)
  show "decodeObject dec_members (epk_json k) = Inr (epk_members k)"
    using decodeObject_reads_as [OF r, of dec_members] by (simp add: epk_json_def enc_struct_hd max_depth_def)
qed

lemma epk_members_public: "list_all (\<lambda>name. map_of (epk_members k) name = None) epk_private_names"
proof -
  have "''k'' \<notin> fst ` set (epk_members k)"
    by (auto simp: epk_members_def jwk_values_def key_to_jwk_fields)
  moreover have "fst ` set (epk_members k) \<subseteq> {''kty'', ''kid'', ''use'', ''key_ops'', ''alg'', ''n'', ''e'', ''crv'', ''x'', ''y'', ''k''}"
    using struct_members_names [of "jwk_values (key_to_jwk k)"] by (auto simp: epk_members_def jwk_values_def)
  ultimately show ?thesis by (auto simp: epk_private_names_def map_of_eq_None_iff)
qed

definition jwe_values :: "jwe_header \<Rightarrow> (string \<times> bool \<times> string \<times> json) list" where
  "jwe_values h =
     [(''alg'', False, enc_str (jh_Alg h), JStr (jh_Alg h)),
      (''enc'', False, enc_str (jh_Enc h), JStr (jh_Enc h)),
      (''kid'', jh_Kid h = [], enc_str (jh_Kid h), JStr (jh_Kid h)),
      (''typ'', jh_Typ h = [], enc_str (jh_Typ h), JStr (jh_Typ h)),
      (''cty'', jh_Cty h = [], enc_str (jh_Cty h), JStr (jh_Cty h)),
      (''epk'', jh_EPK h = None, epk_json (the (jh_EPK h)), JObj (epk_members (the (jh_EPK h)))),
      (''apu'', jh_APU h = [], enc_str (jh_APU h), JStr (jh_APU h)),
      (''apv'', jh_APV h = [], enc_str (jh_APV h), JStr (jh_APV h))]"

definition emittable :: "jwe_header \<Rightarrow> bool" where
  "emittable h \<longleftrightarrow> valid_utf8 (jh_Alg h) \<and> valid_utf8 (jh_Enc h) \<and> valid_utf8 (jh_Kid h) \<and> valid_utf8 (jh_Typ h)
     \<and> valid_utf8 (jh_Cty h) \<and> valid_utf8 (jh_APU h) \<and> valid_utf8 (jh_APV h) \<and> (\<forall>k. jh_EPK h = Some k \<longrightarrow> epk_servable k)"

lemma marshal_emittable:
  "emittable h \<Longrightarrow> marshal_jwe_header h = Inr (enc_struct (map (\<lambda>(n, om, raw, v). (n, om, raw)) (jwe_values h)))"
  by (cases "jh_EPK h") (auto simp: emittable_def marshal_jwe_header_def jwe_values_def jwe_header_fields_def
      epk_servable(1) enc_struct_def)

lemma jwe_reads_as:
  assumes "emittable h"
  shows "reads_as 3 (enc_struct (map (\<lambda>(n, om, raw, v). (n, om, raw)) (jwe_values h))) (JObj (struct_members (jwe_values h)))"
proof -
  have s: "reads_as 2 (enc_str s) (JStr s)" if "valid_utf8 s" for s
    by (rule reads_as_mono [OF reads_as_str [OF that]]) simp
  have k: "jh_EPK h = None \<or> reads_as 2 (epk_json (the (jh_EPK h))) (JObj (epk_members (the (jh_EPK h))))"
    using assms epk_servable(3) by (cases "jh_EPK h") (auto simp: emittable_def)
  have "reads_as (2 + 1) (enc_struct (map (\<lambda>(n, om, raw, v). (n, om, raw)) (jwe_values h))) (JObj (struct_members (jwe_values h)))"
  proof (rule reads_as_struct)
    fix n om raw v
    assume "(n, om, raw, v) \<in> set (jwe_values h)"
    then show "valid_utf8 n \<and> (\<not> om \<longrightarrow> reads_as 2 raw v)"
      using assms s k unfolding jwe_values_def emittable_def
      by (auto intro!: valid_utf8_ASCII simp: isASCII_def)
  qed (simp_all add: jwe_values_def)
  then show ?thesis by simp
qed

lemma jwe_optional_field:
  "jh_Kid r = [] \<Longrightarrow> dec_fields jwe_header_field r (struct_members ((''kid'', s = [], raw, JStr s) # fs)) =
     dec_fields jwe_header_field (r\<lparr>jh_Kid := s\<rparr>) (struct_members fs)"
  "jh_Typ r = [] \<Longrightarrow> dec_fields jwe_header_field r (struct_members ((''typ'', s = [], raw, JStr s) # fs)) =
     dec_fields jwe_header_field (r\<lparr>jh_Typ := s\<rparr>) (struct_members fs)"
  "jh_Cty r = [] \<Longrightarrow> dec_fields jwe_header_field r (struct_members ((''cty'', s = [], raw, JStr s) # fs)) =
     dec_fields jwe_header_field (r\<lparr>jh_Cty := s\<rparr>) (struct_members fs)"
  "jh_APU r = [] \<Longrightarrow> dec_fields jwe_header_field r (struct_members ((''apu'', s = [], raw, JStr s) # fs)) =
     dec_fields jwe_header_field (r\<lparr>jh_APU := s\<rparr>) (struct_members fs)"
  "jh_APV r = [] \<Longrightarrow> dec_fields jwe_header_field r (struct_members ((''apv'', s = [], raw, JStr s) # fs)) =
     dec_fields jwe_header_field (r\<lparr>jh_APV := s\<rparr>) (struct_members fs)"
  by (cases r; auto simp: jwe_header_field_def set_str_def)+

lemma jwe_other_fields:
  "dec_fields jwe_header_field r (struct_members ((''alg'', False, raw, JStr s) # fs)) =
     dec_fields jwe_header_field (r\<lparr>jh_Alg := s\<rparr>) (struct_members fs)"
  "dec_fields jwe_header_field r (struct_members ((''enc'', False, raw, JStr s) # fs)) =
     dec_fields jwe_header_field (r\<lparr>jh_Enc := s\<rparr>) (struct_members fs)"
  "jh_EPK r = None \<Longrightarrow> (\<And>k. epk = Some k \<Longrightarrow> epk_servable k) \<Longrightarrow> dec_fields jwe_header_field r
     (struct_members ((''epk'', epk = None, epk_json (the epk), JObj (epk_members (the epk))) # fs)) =
     dec_fields jwe_header_field (r\<lparr>jh_EPK := epk\<rparr>) (struct_members fs)"
  by (cases r; cases epk; auto simp: jwe_header_field_def set_str_def set_res_def dec_pointer_def epk_servable(2))+

lemma jwe_emitted:
  assumes "emittable h" "\<not> jh_apuPresent h" "\<not> jh_apvPresent h"
  shows "dec_jwe_header (JObj (struct_members (jwe_values h))) = Inr h"
  using assms by (cases h) (simp add: emittable_def dec_jwe_header_def jwe_values_def jwe_optional_field jwe_other_fields
      zero_jwe_header_def del: struct_members.simps(2))

lemma jwe_members_absent:
  assumes "emittable h"
  shows "map_of (struct_members (jwe_values h)) ''zip'' = None" "map_of (struct_members (jwe_values h)) ''crit'' = None"
    "jh_APU h = [] \<Longrightarrow> map_of (struct_members (jwe_values h)) ''apu'' = None"
    "jh_APV h = [] \<Longrightarrow> map_of (struct_members (jwe_values h)) ''apv'' = None"
    "check_epk (struct_members (jwe_values h))"
proof -
  show "map_of (struct_members (jwe_values h)) ''zip'' = None" "map_of (struct_members (jwe_values h)) ''crit'' = None"
    "jh_APU h = [] \<Longrightarrow> map_of (struct_members (jwe_values h)) ''apu'' = None"
    "jh_APV h = [] \<Longrightarrow> map_of (struct_members (jwe_values h)) ''apv'' = None"
    by (auto simp: map_of_eq_None_iff jwe_values_def)
  have e: "map_of (struct_members (jwe_values h)) ''epk'' =
      (case jh_EPK h of None \<Rightarrow> None | Some k \<Rightarrow> Some (epk_json k, JObj (epk_members k)))"
    by (cases "jh_EPK h") (simp_all add: jwe_values_def)
  show "check_epk (struct_members (jwe_values h))"
    using assms epk_servable(4) epk_members_public unfolding check_epk_def e
    by (auto simp: emittable_def split: option.splits)
qed

definition jwe_token :: "bytes \<Rightarrow> bytes \<Rightarrow> bytes \<Rightarrow> bytes \<Rightarrow> bytes \<Rightarrow> string" where
  "jwe_token hj ek iv ct tag = join_with ''.'' [Encode hj, Encode ek, Encode iv, Encode ct, Encode tag]"

lemma split_jwe_token: "split_on CHR ''.'' (jwe_token hj ek iv ct tag) = [Encode hj, Encode ek, Encode iv, Encode ct, Encode tag]"
  unfolding jwe_token_def by (rule split_on_join) auto

lemma count_jwe_token: "count_list (jwe_token hj ek iv ct tag) CHR ''.'' = 4"
  using length_split_on [of "CHR ''.''" "jwe_token hj ek iv ct tag"] by (simp add: split_jwe_token)

text \<open>The protected headers that are taken, and the token parts they come with.\<close>

definition protected_accepted :: "bytes \<Rightarrow> jwe_header \<Rightarrow> bool" where
  "protected_accepted hj hdr \<longleftrightarrow>
     (\<exists>h ms. decodeObject dec_jwe_header hj = Inr h \<and> decodeObject dec_members hj = Inr ms
        \<and> jh_Alg h \<noteq> [] \<and> jh_Enc h \<noteq> [] \<and> ''zip'' \<notin> fst ` set ms \<and> ''crit'' \<notin> fst ` set ms \<and> check_epk ms
        \<and> hdr = h\<lparr>jh_apuPresent := ''apu'' \<in> fst ` set ms, jh_apvPresent := ''apv'' \<in> fst ` set ms\<rparr>)"

lemma map_of_not_None: "map_of ms n \<noteq> None \<longleftrightarrow> n \<in> fst ` set ms"
  by (simp add: map_of_eq_None_iff)

lemma parseJWEProtected_Inr:
  "parseJWEProtected token = Inr (parts, hdr) \<longleftrightarrow>
     len token \<le> maxTokenBytes \<and> count_list token CHR ''.'' = 4 \<and> parts = split_on CHR ''.'' token
     \<and> (\<exists>hj. parts ! 0 = Encode hj \<and> protected_accepted hj hdr)"
  unfolding parseJWEProtected_def protected_accepted_def headerMembers_def checkCritical_eq Let_def map_of_not_None
  by (auto simp: Decode_iff map_of_eq_None_iff not_less split: if_splits option.splits sum.splits)

lemma parse_emitted:
  assumes "emittable h" "\<not> jh_apuPresent h" "\<not> jh_apvPresent h" "jh_APU h = []" "jh_APV h = []" "jh_Alg h \<noteq> []" "jh_Enc h \<noteq> []"
  shows "\<exists>hj. marshal_jwe_header h = Inr hj \<and> protected_accepted hj h"
proof -
  let ?hj = "enc_struct (map (\<lambda>(n, om, raw, v). (n, om, raw)) (jwe_values h))"
  note d = decodeObject_reads_as [OF jwe_reads_as [OF assms(1)] _ enc_struct_hd]
  note a = jwe_members_absent [OF assms(1)]
  have "decodeObject dec_jwe_header ?hj = Inr h" using d [of dec_jwe_header] jwe_emitted [OF assms(1-3)] by (simp add: max_depth_def)
  moreover have "decodeObject dec_members ?hj = Inr (struct_members (jwe_values h))" using d [of dec_members] by (simp add: max_depth_def)
  moreover have "h = h\<lparr>jh_apuPresent := False, jh_apvPresent := False\<rparr>" using assms(2,3) by (cases h) simp
  ultimately have "protected_accepted ?hj h"
    using assms a(1,2,5) a(3) [OF assms(4)] a(4) [OF assms(5)]
    unfolding protected_accepted_def by (auto simp: map_of_eq_None_iff)
  with marshal_emittable [OF assms(1)] show ?thesis by blast
qed

section \<open>The contract of a key-management mode\<close>

definition sealed_token :: "bytes \<Rightarrow> bytes \<Rightarrow> bytes \<Rightarrow> bytes \<Rightarrow> string" where
  "sealed_token hj ek iv sealed = jwe_token hj ek iv (take (length sealed - 16) sealed) (drop (length sealed - 16) sealed)"

lemma encrypt_Inr:
  assumes "encrypt P alg enc kid w plaintext cfg e = (Inr token, e')"
  shows "\<exists>cek ek hdr e1 hj iv.
     kw_wrap w (zero_jwe_header\<lparr>jh_Alg := alg, jh_Enc := enc, jh_Kid := kid, jh_Typ := ecfg_typ cfg, jh_Cty := ecfg_cty cfg\<rparr>)
       (contentKeyLen enc) e = (Inr (cek, ek, hdr), e1)
     \<and> marshal_jwe_header hdr = Inr hj \<and> aes_key cek \<and> rand_Read gcm_NonceSize e1 = (iv, e')
     \<and> token = sealed_token hj ek iv (gcm_Seal P cek iv plaintext (Encode hj))"
proof -
  let ?w = "kw_wrap w (zero_jwe_header\<lparr>jh_Alg := alg, jh_Enc := enc, jh_Kid := kid, jh_Typ := ecfg_typ cfg, jh_Cty := ecfg_cty cfg\<rparr>)
       (contentKeyLen enc) e"
  obtain r e1 where r: "?w = (r, e1)" by (cases ?w)
  with assms obtain cek ek hdr where i: "r = Inr (cek, ek, hdr)"
    by (cases r) (auto simp: encrypt_def Let_def)
  with r assms obtain hj where hj: "marshal_jwe_header hdr = Inr hj"
    by (cases "marshal_jwe_header hdr") (auto simp: encrypt_def Let_def)
  with r i assms have k: "aes_key cek" by (auto simp: encrypt_def Let_def split: if_splits)
  obtain iv e2 where iv: "rand_Read gcm_NonceSize e1 = (iv, e2)" by (cases "rand_Read gcm_NonceSize e1")
  have o: "nat gcm_Overhead = 16" by (simp add: gcm_Overhead_def)
  have "token = sealed_token hj ek iv (gcm_Seal P cek iv plaintext (Encode hj))" "e2 = e'"
    using assms by (simp_all only: encrypt_def Let_def r i hj k iv o prod.case sum.case if_True if_False not_True_eq_False
        sealed_token_def jwe_token_def prod.inject sum.inject)
  with r i hj k iv show ?thesis by blast
qed

definition fresh_header :: "key_wrapper \<Rightarrow> jwe_header \<Rightarrow> bool" where
  "fresh_header w hdr \<longleftrightarrow> jh_Alg hdr = kw_keyAlg w \<and> jh_EPK hdr = None \<and> jh_APU hdr = [] \<and> jh_APV hdr = []
     \<and> \<not> jh_apuPresent hdr \<and> \<not> jh_apvPresent hdr"

definition gcm_laws :: "jwe_crypto \<Rightarrow> bool" where
  "gcm_laws P \<longleftrightarrow> (\<forall>k iv p a. aes_key k \<and> len iv = 12 \<longrightarrow>
     length (gcm_Seal P k iv p a) = length p + 16 \<and> gcm_Open P k iv (gcm_Seal P k iv p a) a = Some p)"

lemma contentKeyLen_range: "contentKeyLen enc \<noteq> 0 \<Longrightarrow> contentKeyLen enc \<in> {16, 24, 32} \<and> enc \<noteq> [] \<and> valid_utf8 enc"
  by (auto simp: contentKeyLen_def isASCII_def intro!: valid_utf8_ASCII split: if_splits)

lemma decrypter_Decrypt_token:
  assumes "protected_accepted hj hdr" "len (jwe_token hj ek iv ct tag) \<le> maxTokenBytes" "\<not> kid_conflict kid hdr"
    "contentKeyLen (jh_Enc hdr) \<noteq> 0" "ku_supports u (jh_Alg hdr)" "ku_unwrap u hdr ek (contentKeyLen (jh_Enc hdr)) = Inr cek"
    "aes_key cek" "len iv = gcm_NonceSize" "len tag = gcm_Overhead" "gcm_Open P cek iv (ct @ tag) (Encode hj) = Some pt"
  shows "decrypter_Decrypt P kid u (jwe_token hj ek iv ct tag) = Inr pt"
proof -
  have "parseJWEProtected (jwe_token hj ek iv ct tag) = Inr ([Encode hj, Encode ek, Encode iv, Encode ct, Encode tag], hdr)"
    using assms(1,2) by (auto simp: parseJWEProtected_Inr split_jwe_token count_jwe_token)
  then show ?thesis using assms(3-) by (simp add: decrypter_Decrypt_def Let_def)
qed

lemma parse_sealed:
  assumes "protected_accepted hj hdr" "len (sealed_token hj ek iv b) \<le> maxTokenBytes"
  shows "\<exists>parts. parseJWEProtected (sealed_token hj ek iv b) = Inr (parts, hdr)"
  using assms unfolding sealed_token_def by (auto simp: parseJWEProtected_Inr split_jwe_token count_jwe_token)

text \<open>
  A wrapper and an unwrapper that belong together, under the condition \<open>ok\<close> on keys and
  primitives: the unwrapper takes the wrapper's algorithm and recovers the content key from
  what the wrapper put into the token.
\<close>

locale key_management =
  fixes w :: key_wrapper and u :: key_unwrapper and ok :: bool
  assumes supported: "ok \<Longrightarrow> ku_supports u (kw_keyAlg w) \<and> kw_keyAlg w \<noteq> [] \<and> valid_utf8 (kw_keyAlg w)"
    and wrap_header: "ok \<Longrightarrow> jh_EPK hdr = None \<Longrightarrow> kw_wrap w hdr n e = (Inr (cek, ek, hdr'), e') \<Longrightarrow>
      hdr' = hdr\<lparr>jh_EPK := jh_EPK hdr'\<rparr> \<and> (\<forall>k. jh_EPK hdr' = Some k \<longrightarrow> epk_servable k)"
    and unwrap_wrap: "ok \<Longrightarrow> fresh_header w hdr \<Longrightarrow> n \<in> {16, 24, 32} \<Longrightarrow>
      kw_wrap w hdr n e = (Inr (cek, ek, hdr'), e') \<Longrightarrow> ku_unwrap u hdr' ek n = Inr cek"
begin

lemma encrypt_decrypt:
  assumes "ok" "gcm_laws P" "contentKeyLen enc \<noteq> 0"
    and e: "encrypt P (kw_keyAlg w) enc kid w plaintext cfg e = (Inr token, e')"
    and "valid_utf8 kid" "valid_utf8 (ecfg_typ cfg)" "valid_utf8 (ecfg_cty cfg)"
    and "len token \<le> maxTokenBytes" "dkid = [] \<or> kid = [] \<or> dkid = kid"
  shows "decrypter_Decrypt P dkid u token = Inr plaintext"
    "\<exists>parts hdr. parseJWEProtected token = Inr (parts, hdr) \<and> jh_Alg hdr = kw_keyAlg w \<and> jh_Enc hdr = enc \<and> jh_Kid hdr = kid
       \<and> jh_Typ hdr = ecfg_typ cfg \<and> jh_Cty hdr = ecfg_cty cfg"
proof -
  define h0 where "h0 = zero_jwe_header\<lparr>jh_Alg := kw_keyAlg w, jh_Enc := enc, jh_Kid := kid, jh_Typ := ecfg_typ cfg, jh_Cty := ecfg_cty cfg\<rparr>"
  have fields: "jh_Alg h0 = kw_keyAlg w" "jh_Enc h0 = enc" "jh_Kid h0 = kid" "jh_Typ h0 = ecfg_typ cfg" "jh_Cty h0 = ecfg_cty cfg"
    "jh_EPK h0 = None" "jh_APU h0 = []" "jh_APV h0 = []" "\<not> jh_apuPresent h0" "\<not> jh_apvPresent h0"
    by (simp_all add: h0_def zero_jwe_header_def)
  obtain cek ek hdr e1 hj iv where
    wr: "kw_wrap w h0 (contentKeyLen enc) e = (Inr (cek, ek, hdr), e1)" and hj: "marshal_jwe_header hdr = Inr hj" and cek: "aes_key cek"
    and iv: "rand_Read gcm_NonceSize e1 = (iv, e')" and tok: "token = sealed_token hj ek iv (gcm_Seal P cek iv plaintext (Encode hj))"
    using encrypt_Inr [OF e] unfolding h0_def [symmetric] by blast
  have fresh: "fresh_header w h0" by (simp add: fresh_header_def fields)
  note n = contentKeyLen_range [OF assms(3)] and s = supported [OF assms(1)]
  define epk where "epk = jh_EPK hdr"
  have h: "hdr = h0\<lparr>jh_EPK := epk\<rparr>" "\<forall>k. epk = Some k \<longrightarrow> epk_servable k"
    unfolding epk_def using wrap_header [OF assms(1) fields(6) wr] by blast+
  have em: "emittable hdr" using h n s assms(5-7) by (simp add: emittable_def fields valid_utf8_ASCII)
  have acc: "protected_accepted hj hdr"
    using parse_emitted [OF em] hj h(1) n s by (auto simp: fields)
  have len_iv: "len iv = 12" using iv by (auto simp: rand_Read_def gcm_NonceSize_def len_def)
  let ?s = "gcm_Seal P cek iv plaintext (Encode hj)"
  have g: "length ?s = length plaintext + 16" "gcm_Open P cek iv ?s (Encode hj) = Some plaintext"
    using assms(2) cek len_iv by (auto simp: gcm_laws_def)
  show "\<exists>parts hdr. parseJWEProtected token = Inr (parts, hdr) \<and> jh_Alg hdr = kw_keyAlg w \<and> jh_Enc hdr = enc \<and> jh_Kid hdr = kid
      \<and> jh_Typ hdr = ecfg_typ cfg \<and> jh_Cty hdr = ecfg_cty cfg"
  proof -
    obtain parts where "parseJWEProtected token = Inr (parts, hdr)" using parse_sealed [OF acc] assms(8) unfolding tok by blast
    then show ?thesis using h(1) by (auto simp: fields)
  qed
  show "decrypter_Decrypt P dkid u token = Inr plaintext"
    unfolding tok sealed_token_def
  proof (rule decrypter_Decrypt_token [OF acc])
    show "ku_unwrap u hdr ek (contentKeyLen (jh_Enc hdr)) = Inr cek"
      using unwrap_wrap [OF assms(1) fresh _ wr] n h(1) by (simp add: fields)
  qed (use assms(8,9) tok h(1) s assms(3) cek g len_iv fields in
      \<open>auto simp: sealed_token_def kid_conflict_def gcm_NonceSize_def gcm_Overhead_def len_def\<close>)
qed

end

section \<open>The four modes\<close>

lemma rand_Read_length: "rand_Read n e = (b, e') \<Longrightarrow> 0 \<le> n \<Longrightarrow> len b = n"
  by (auto simp: rand_Read_def len_def)

interpretation dir: key_management "directWrapper cek" "directUnwrapper cek" True for cek
  by unfold_locales (auto simp: directWrapper_def directUnwrapper_def direct_wrap_def direct_unwrap_def isASCII_def
      intro!: valid_utf8_ASCII split: if_splits)

lemma aeskw_unwrap_wrap:
  assumes "aes_laws (jc_aes P)" "rand_Read n e = (cek, e')" "0 \<le> n" "aesKWWrap (jc_aes P) kek cek = Inr ek"
  shows "aesKWUnwrap (jc_aes P) kek ek = Inr cek" "len ek = n + 8" "len cek = n"
  using assms aesKWUnwrap_iff [OF assms(1)] aesKW_length [OF assms(1,4)] rand_Read_length [OF assms(2,3)]
  by (auto simp: len_def)

interpretation akw: key_management "aesKWWrapper P kek" "aesKWUnwrapper P kek" "aes_laws (jc_aes P)" for P kek
proof
  fix hdr n e cek ek hdr' e'
  assume "aes_laws (jc_aes P)" "n \<in> {16, 24, 32 :: int}" "kw_wrap (aesKWWrapper P kek) hdr n e = (Inr (cek, ek, hdr'), e')"
  then show "ku_unwrap (aesKWUnwrapper P kek) hdr' ek n = Inr cek"
    using aeskw_unwrap_wrap [of P n e cek e' kek ek]
    by (auto simp: aesKWWrapper_def aesKWUnwrapper_def aeskw_wrap_def aeskw_unwrap_def split: sum.splits prod.splits)
qed (auto simp: aesKWWrapper_def aesKWUnwrapper_def aeskw_wrap_def isASCII_def intro!: valid_utf8_ASCII
    split: sum.splits prod.splits)

definition oaep_pair :: "jwe_crypto \<Rightarrow> rsa_public_key \<Rightarrow> rsa_private_key \<Rightarrow> bool" where
  "oaep_pair P pub priv \<longleftrightarrow> (\<forall>m e ct e'. oaep_Encrypt P pub m e = (Inr ct, e') \<longrightarrow> oaep_Decrypt P priv ct = Inr m)"

interpretation rsa: key_management "rsaOAEPWrapper P pub" "rsaOAEPUnwrapper P priv" "oaep_pair P pub priv" for P pub priv
proof
  fix hdr n e cek ek hdr' e'
  assume "oaep_pair P pub priv" "n \<in> {16, 24, 32 :: int}" "kw_wrap (rsaOAEPWrapper P pub) hdr n e = (Inr (cek, ek, hdr'), e')"
  then obtain e1 where "rand_Read n e = (cek, e1)" "oaep_Encrypt P pub cek e1 = (Inr ek, e')" "oaep_Decrypt P priv ek = Inr cek" "0 \<le> n"
    unfolding oaep_pair_def
    by (auto simp: rsaOAEPWrapper_def rsa_wrap_def split: sum.splits prod.splits)
  then show "ku_unwrap (rsaOAEPUnwrapper P priv) hdr' ek n = Inr cek"
    using rand_Read_length by (simp add: rsaOAEPUnwrapper_def rsa_unwrap_def)
qed (auto simp: rsaOAEPWrapper_def rsaOAEPUnwrapper_def rsa_wrap_def isASCII_def intro!: valid_utf8_ASCII
    split: sum.splits prod.splits)

text \<open>A point with its uncompressed encoding, which \<^verbatim>\<open>crypto/ecdsa\<close> parses back.\<close>

definition ec_encoded :: "crypto \<Rightarrow> ecdsa_public_key \<Rightarrow> bool" where
  "ec_encoded c q \<longleftrightarrow> (\<exists>cv x y bx by'. q = \<lparr>ec_Curve = Some cv, ec_X = Some x, ec_Y = Some y\<rparr> \<and> curveName cv \<noteq> []
     \<and> len bx = coord_size cv \<and> len by' = coord_size cv
     \<and> ec_public_bytes c cv x y = Some ([chr 4] @ bx @ by') \<and> ec_parse_uncompressed c cv ([chr 4] @ bx @ by') = Some (x, y))"

lemma curve_named:
  assumes "curveName cv \<noteq> []"
  shows "curveByName (curveName cv) = Some cv" "0 < coord_size cv" "valid_utf8 (curveName cv)"
  using assms by (cases cv; auto simp: curveName_def curveByName_def coord_size_def isASCII_def intro!: valid_utf8_ASCII)+

lemma FromECDSAPublicKey_encoded:
  assumes "ec_encoded c q" "valid_utf8 (FirstString kid)"
  shows "PublicKey c (FromECDSAPublicKey c (Some q) kid) = Inr (ECDSAPublic q)" "epk_servable (FromECDSAPublicKey c (Some q) kid)"
proof -
  obtain cv x y bx by' where q: "q = \<lparr>ec_Curve = Some cv, ec_X = Some x, ec_Y = Some y\<rparr>" "curveName cv \<noteq> []"
      "len bx = coord_size cv" "len by' = coord_size cv"
      "ec_public_bytes c cv x y = Some ([chr 4] @ bx @ by')" "ec_parse_uncompressed c cv ([chr 4] @ bx @ by') = Some (x, y)"
    using assms(1) unfolding ec_encoded_def by blast
  have l: "nat (coord_size cv) = length bx" "nat (1 + coord_size cv) = Suc (length bx)" "bx \<noteq> []" "by' \<noteq> []"
    using q(3,4) curve_named(2) [OF q(2)] by (auto simp: len_def)
  have k: "FromECDSAPublicKey c (Some q) kid =
      zero_key\<lparr>Kty := KeyTypeEC, Kid := FirstString kid, k_crv := curveName cv, k_x := bx, k_y := by'\<rparr>"
    using q l by (simp add: FromECDSAPublicKey_def Let_def len_def)
  show "PublicKey c (FromECDSAPublicKey c (Some q) kid) = Inr (ECDSAPublic q)"
    unfolding k using q l curve_named [OF q(2)] by (simp add: PublicKey_def ec_PublicKey_def len_def)
  show "epk_servable (FromECDSAPublicKey c (Some q) kid)"
    using q(3,4) curve_named [OF q(2)] assms(2)
    by (simp add: k epk_servable_def zero_key_def checkCanonical_def checkMaterial_def key_valid_utf8_def isASCII_def valid_utf8_ASCII)
qed

text \<open>
  The recipient's key pair: generated keys are well-formed points of the recipient's curve and
  Diffie-Hellman gives both sides the same secret; SHA-256 digests have 32 bytes.
\<close>

definition ecdh_pair :: "jwe_crypto \<Rightarrow> ecdsa_public_key \<Rightarrow> ecdsa_private_key \<Rightarrow> bool" where
  "ecdh_pair P pub priv \<longleftrightarrow> (\<forall>m. len (hash_sum (jc P) SHA256 m) = 32) \<and> aes_laws (jc_aes P)
     \<and> (\<forall>e eph e'. ec_GenerateKey P (ec_Curve pub) e = (Inr eph, e') \<longrightarrow>
          ec_encoded (jc P) (ec_Public eph)
          \<and> (\<forall>z. ecdhZ P eph pub = Inr z \<longrightarrow> ecdhZ P priv (ec_Public eph) = Inr z))"

lemma ecdh_wrap_Inr:
  assumes "ecdh_wrap P pub alg hdr n e = (Inr (cek, ek, hdr'), e')"
  shows "\<exists>eph e1 z. ec_GenerateKey P (ec_Curve pub) e = (Inr eph, e1) \<and> ecdhZ P eph pub = Inr z
     \<and> hdr' = hdr\<lparr>jh_EPK := Some (FromECDSAPublicKey (jc P) (Some (ec_Public eph)) [[]])\<rparr>
     \<and> (alg = ECDHES \<and> ek = [] \<and> cek = concatKDF (jc P) z (jh_Enc hdr) [] [] (n * 8)
        \<or> alg = ECDHESA256KW \<and> rand_Read n e1 = (cek, e') \<and> aesKWWrap (jc_aes P) (concatKDF (jc P) z alg [] [] 256) cek = Inr ek)"
proof -
  obtain r e1 where g: "ec_GenerateKey P (ec_Curve pub) e = (r, e1)" by (cases "ec_GenerateKey P (ec_Curve pub) e")
  with assms obtain eph where r: "r = Inr eph" by (cases r) (auto simp: ecdh_wrap_def)
  with g assms obtain z where z: "ecdhZ P eph pub = Inr z" by (cases "ecdhZ P eph pub") (auto simp: ecdh_wrap_def)
  with g r assms show ?thesis
    by (auto simp: ecdh_wrap_def Let_def split: if_splits sum.splits prod.splits)
qed

interpretation ecdh: key_management "ecdhWrapper P pub alg" "ecdhUnwrapper P priv"
    "ecdh_pair P pub priv \<and> (alg = ECDHES \<or> alg = ECDHESA256KW)" for P pub alg priv
proof
  show "ecdh_pair P pub priv \<and> (alg = ECDHES \<or> alg = ECDHESA256KW) \<Longrightarrow>
    ku_supports (ecdhUnwrapper P priv) (kw_keyAlg (ecdhWrapper P pub alg))
    \<and> kw_keyAlg (ecdhWrapper P pub alg) \<noteq> [] \<and> valid_utf8 (kw_keyAlg (ecdhWrapper P pub alg))"
    by (auto simp: ecdhWrapper_def ecdhUnwrapper_def isASCII_def intro!: valid_utf8_ASCII)
next
  fix hdr n e cek ek hdr' e'
  assume ok: "ecdh_pair P pub priv \<and> (alg = ECDHES \<or> alg = ECDHESA256KW)"
    and w: "kw_wrap (ecdhWrapper P pub alg) hdr n e = (Inr (cek, ek, hdr'), e')"
  from w have w': "ecdh_wrap P pub alg hdr n e = (Inr (cek, ek, hdr'), e')" by (simp add: ecdhWrapper_def)
  obtain eph e1 z where g: "ec_GenerateKey P (ec_Curve pub) e = (Inr eph, e1)" "ecdhZ P eph pub = Inr z"
      "hdr' = hdr\<lparr>jh_EPK := Some (FromECDSAPublicKey (jc P) (Some (ec_Public eph)) [[]])\<rparr>"
      "alg = ECDHES \<and> ek = [] \<and> cek = concatKDF (jc P) z (jh_Enc hdr) [] [] (n * 8)
        \<or> alg = ECDHESA256KW \<and> rand_Read n e1 = (cek, e') \<and> aesKWWrap (jc_aes P) (concatKDF (jc P) z alg [] [] 256) cek = Inr ek"
    using ecdh_wrap_Inr [OF w'] by blast
  have v: "valid_utf8 (FirstString [[]])" by (simp add: FirstString_def valid_utf8_ASCII)
  have p: "ec_encoded (jc P) (ec_Public eph)" "ecdhZ P priv (ec_Public eph) = Inr z" "aes_laws (jc_aes P)"
    using ok g(1,2) by (auto simp: ecdh_pair_def)
  note f = FromECDSAPublicKey_encoded [OF p(1) v]
  show "hdr' = hdr\<lparr>jh_EPK := jh_EPK hdr'\<rparr> \<and> (\<forall>k. jh_EPK hdr' = Some k \<longrightarrow> epk_servable k)"
    using g(3) f(2) by simp
  assume fr: "fresh_header (ecdhWrapper P pub alg) hdr" and n: "n \<in> {16, 24, 32}"
  have d: "decodePartyInfo hdr' = Inr ([], [])" "jh_Alg hdr' = alg" "jh_Enc hdr' = jh_Enc hdr"
    using fr g(3) by (simp_all add: decodePartyInfo_def fresh_header_def ecdhWrapper_def)
  show "ku_unwrap (ecdhUnwrapper P priv) hdr' ek n = Inr cek"
    using g(3,4) d f(1) p(2) aeskw_unwrap_wrap [OF p(3), of n e1 cek e' _ ek] n
    by (auto simp: ecdhUnwrapper_def ecdh_unwrap_def)
qed

text \<open>
  An encrypter and a decrypter for the same recipient, made by the constructors of one mode from
  keys that belong together.
\<close>

inductive recipient :: "jwe_crypto \<Rightarrow> encrypter \<Rightarrow> decrypter \<Rightarrow> bool" for P where
  direct: "NewDirectEncrypter cek enc kid = Inr en \<Longrightarrow> NewDirectDecrypter cek dkid = Inr d \<Longrightarrow> recipient P en d"
| a256kw: "aes_laws (jc_aes P) \<Longrightarrow> NewA256KWEncrypter P kek enc kid = Inr en \<Longrightarrow> NewA256KWDecrypter P kek dkid = Inr d \<Longrightarrow>
     recipient P en d"
| rsaoaep: "oaep_pair P pub priv \<Longrightarrow> NewRSAOAEP256Encrypter P (Some pub) enc kid = Inr en \<Longrightarrow>
     NewRSAOAEP256Decrypter P (Some priv) dkid = Inr d \<Longrightarrow> recipient P en d"
| ecdhes: "ecdh_pair P pub priv \<Longrightarrow> NewECDHESEncrypter P (Some pub) alg enc kid = Inr en \<Longrightarrow>
     NewECDHESDecrypter P (Some priv) dkid = Inr d \<Longrightarrow> recipient P en d"

lemma newEncrypter_Inr:
  "newEncrypter enc kid w = Inr en \<longleftrightarrow> contentKeyLen enc \<noteq> 0 \<and> en = BuiltinEncrypter (kw_keyAlg w) enc kid w"
  by (auto simp: newEncrypter_def)

lemma recipient_key_management:
  assumes "recipient P en d"
  shows "\<exists>w u enc kid dkid. en = BuiltinEncrypter (kw_keyAlg w) enc kid w \<and> d = BuiltinDecrypter dkid u
     \<and> contentKeyLen enc \<noteq> 0 \<and> key_management w u True"
  using assms
proof cases
  case (direct cek enc kid dkid)
  then show ?thesis using dir.key_management_axioms
    by (auto simp: NewDirectEncrypter_def NewDirectDecrypter_def newEncrypter_Inr Let_def split: if_splits)
next
  case (a256kw kek enc kid dkid)
  then show ?thesis using akw.key_management_axioms [of P kek]
    by (auto simp: NewA256KWEncrypter_def NewA256KWDecrypter_def newEncrypter_Inr split: if_splits)
next
  case (rsaoaep pub priv enc kid dkid)
  then show ?thesis using rsa.key_management_axioms [of P pub priv]
    by (auto simp: NewRSAOAEP256Encrypter_def NewRSAOAEP256Decrypter_def newEncrypter_Inr split: if_splits option.splits)
next
  case (ecdhes pub priv alg enc kid dkid)
  then show ?thesis using ecdh.key_management_axioms [where P = P and pub = pub and priv = priv and alg = alg]
    by (auto simp: NewECDHESEncrypter_def NewECDHESDecrypter_def newEncrypter_Inr split: if_splits option.splits)
qed

section \<open>The policy\<close>

definition jwe_permitted :: "parse_config \<Rightarrow> string \<Rightarrow> jwe_header \<Rightarrow> bool" where
  "jwe_permitted cfg token hdr \<longleftrightarrow>
     (\<exists>hj parts. parseJWEProtected token = Inr (parts, hdr) \<and> parts ! 0 = Encode hj \<and> protected_accepted hj hdr)
     \<and> jh_Alg hdr \<in> set (withoutNone (pc_allowedKeyAlgs cfg)) \<and> jh_Enc hdr \<in> set (withoutNone (pc_allowedContentAlgs cfg))"

lemma jwe_permitted_iff:
  "jwe_permitted cfg token hdr \<longleftrightarrow> (\<exists>parts. parseJWEProtected token = Inr (parts, hdr))
     \<and> jh_Alg hdr \<in> set (withoutNone (pc_allowedKeyAlgs cfg)) \<and> jh_Enc hdr \<in> set (withoutNone (pc_allowedContentAlgs cfg))"
  unfolding jwe_permitted_def by (auto simp: parseJWEProtected_Inr)

lemma decryptJWEWithPolicy_Inr:
  "decryptJWEWithPolicy P token dec cfg = Inr (payload, hdr) \<longleftrightarrow>
     (\<exists>d. dec = Some d \<and> jwe_permitted cfg token hdr \<and> \<not> kid_conflict (decrypter_KeyID d) hdr \<and> Decrypt P d token = Inr payload)"
  unfolding jwe_permitted_iff decryptJWEWithPolicy_def Let_def
  by (auto split: option.splits sum.splits if_splits)

section \<open>Tokens of an encrypter\<close>

definition encrypt_cfg :: "encrypt_option option list \<Rightarrow> encrypt_config" where
  "encrypt_cfg opts = apply_options applyEncrypt opts empty_encrypt_config"

lemma recipient_token:
  assumes "recipient P en d" "gcm_laws P" "encryptJWE P plaintext en cfg e = (Inr token, e')" "len token \<le> maxTokenBytes"
    "valid_utf8 (enc_kid en)" "valid_utf8 (ecfg_typ cfg)" "valid_utf8 (ecfg_cty cfg)"
    "decrypter_KeyID d \<in> {[], enc_kid en} \<or> enc_kid en = []"
  shows "Decrypt P d token = Inr plaintext"
    "\<exists>parts hdr. parseJWEProtected token = Inr (parts, hdr) \<and> jh_Alg hdr = enc_alg en \<and> jh_Enc hdr = enc_enc en
       \<and> jh_Kid hdr = enc_kid en \<and> jh_Typ hdr = ecfg_typ cfg \<and> jh_Cty hdr = ecfg_cty cfg"
proof -
  obtain w u enc kid dkid where r: "en = BuiltinEncrypter (kw_keyAlg w) enc kid w" "d = BuiltinDecrypter dkid u"
      "contentKeyLen enc \<noteq> 0" "key_management w u True"
    using recipient_key_management [OF assms(1)] by blast
  have e: "encrypt P (kw_keyAlg w) enc kid w plaintext cfg e = (Inr token, e')"
    using assms(3) by (simp add: r(1) encryptJWE_def)
  have k: "dkid = [] \<or> kid = [] \<or> dkid = kid" using assms(8) by (auto simp: r(1,2) decrypter_KeyID_def)
  have v: "valid_utf8 kid" using assms(5) by (simp add: r(1))
  note * = key_management.encrypt_decrypt [OF r(4) TrueI assms(2) r(3) e v assms(6,7,4) k]
  from *(1) show "Decrypt P d token = Inr plaintext" by (simp add: r(2) Decrypt_def)
  from *(2) show "\<exists>parts hdr. parseJWEProtected token = Inr (parts, hdr) \<and> jh_Alg hdr = enc_alg en \<and> jh_Enc hdr = enc_enc en
       \<and> jh_Kid hdr = enc_kid en \<and> jh_Typ hdr = ecfg_typ cfg \<and> jh_Cty hdr = ecfg_cty cfg"
    by (simp add: r(1))
qed

lemma decrypter_Decrypt_Inr:
  "decrypter_Decrypt P kid u token = Inr plaintext \<longleftrightarrow>
     (\<exists>hj hdr ek iv ct tag cek. token = jwe_token hj ek iv ct tag \<and> len token \<le> maxTokenBytes \<and> protected_accepted hj hdr
        \<and> \<not> kid_conflict kid hdr \<and> contentKeyLen (jh_Enc hdr) \<noteq> 0 \<and> ku_supports u (jh_Alg hdr)
        \<and> ku_unwrap u hdr ek (contentKeyLen (jh_Enc hdr)) = Inr cek \<and> aes_key cek
        \<and> len iv = gcm_NonceSize \<and> len tag = gcm_Overhead \<and> gcm_Open P cek iv (ct @ tag) (Encode hj) = Some plaintext)"
  (is "?l \<longleftrightarrow> ?r")
proof
  assume l: ?l
  then obtain parts hdr where p: "parseJWEProtected token = Inr (parts, hdr)"
    by (cases "parseJWEProtected token") (auto simp: decrypter_Decrypt_def)
  then obtain hj where hj: "len token \<le> maxTokenBytes" "count_list token CHR ''.'' = 4" "parts = split_on CHR ''.'' token"
      "parts ! 0 = Encode hj" "protected_accepted hj hdr" unfolding parseJWEProtected_Inr by blast
  from l p obtain ek iv ct tag cek where d: "parts ! 1 = Encode ek" "parts ! 2 = Encode iv" "parts ! 3 = Encode ct" "parts ! 4 = Encode tag"
      "\<not> kid_conflict kid hdr" "contentKeyLen (jh_Enc hdr) \<noteq> 0" "ku_supports u (jh_Alg hdr)"
      "ku_unwrap u hdr ek (contentKeyLen (jh_Enc hdr)) = Inr cek" "aes_key cek" "len iv = gcm_NonceSize" "len tag = gcm_Overhead"
      "gcm_Open P cek iv (ct @ tag) (Encode hj) = Some plaintext"
    unfolding decrypter_Decrypt_def Let_def hj(4)
    by (auto simp: Decode_iff hj(4) split: if_splits sum.splits option.splits)
  have "length parts = 5" using length_split_on [of "CHR ''.''" token] hj(2,3) by simp
  then have "parts = [Encode hj, Encode ek, Encode iv, Encode ct, Encode tag]"
    using hj(4) d(1-4) by (auto simp: eval_nat_numeral length_Suc_conv)
  then have "token = jwe_token hj ek iv ct tag"
    using join_split_on [of "CHR ''.''" token] hj(3) by (simp add: jwe_token_def)
  with hj d show ?r by blast
next
  assume ?r
  then show ?l using decrypter_Decrypt_token by blast
qed

definition sample_jwe :: jwe_crypto where
  "sample_jwe = \<lparr>jc = sample_crypto, jc_aes = sample_aes, gcm_Seal = (\<lambda>k iv p a. p @ replicate 16 CHR ''t''),
     gcm_Open = (\<lambda>k iv c a. if drop (length c - 16) c = replicate 16 CHR ''t'' then Some (take (length c - 16) c) else None),
     oaep_Encrypt = (\<lambda>k m e. (Inr m, e)), oaep_Decrypt = (\<lambda>k c. Inr c), ec_GenerateKey = (\<lambda>cv e. (Inl [], e)),
     ecdh_shared = (\<lambda>cv d b. Inl [])\<rparr>"

lemma sample_gcm_laws: "gcm_laws sample_jwe"
  by (simp add: gcm_laws_def sample_jwe_def)

abbreviation "sample_kek \<equiv> ''0123456789abcdef0123456789abcdef''"

definition sample_encrypter :: encrypter where
  "sample_encrypter = BuiltinEncrypter A256KW A128GCM ''k1'' (aesKWWrapper sample_jwe sample_kek)"

definition sample_decrypter :: decrypter where
  "sample_decrypter = BuiltinDecrypter ''k1'' (aesKWUnwrapper sample_jwe sample_kek)"

lemma sample_recipient: "recipient sample_jwe sample_encrypter sample_decrypter"
proof (rule recipient.a256kw)
  show "aes_laws (jc_aes sample_jwe)" by (simp add: sample_jwe_def sample_aes_laws)
  show "NewA256KWEncrypter sample_jwe sample_kek A128GCM [''k1''] = Inr sample_encrypter"
    by (simp add: NewA256KWEncrypter_def newEncrypter_def contentKeyLen_def sample_encrypter_def FirstString_def len_def aesKWWrapper_def)
  show "NewA256KWDecrypter sample_jwe sample_kek [''k1''] = Inr sample_decrypter"
    by (simp add: NewA256KWDecrypter_def sample_decrypter_def FirstString_def len_def)
qed

text \<open>A nested token under the policies of its recipient.\<close>

lemma nested_token_decrypts:
  assumes "recipient P en d" "gcm_laws P" "EncryptNestedJWT P jws (Some en) opts e = (Inr token, e')"
    "len token \<le> maxTokenBytes" "valid_utf8 (enc_kid en)" "valid_utf8 (ecfg_typ (encrypt_cfg opts))"
    "decrypter_KeyID d \<in> {[], enc_kid en} \<or> enc_kid en = []"
    and cfg: "jwe_cfg = apply_options applyParse jwe_policy (default_config wall)"
    and "enc_alg en \<in> set (withoutNone (pc_allowedKeyAlgs jwe_cfg))" "enc_enc en \<in> set (withoutNone (pc_allowedContentAlgs jwe_cfg))"
    and "pc_requiredType jwe_cfg = [] \<or> typeMatches uni_lower (ecfg_typ (encrypt_cfg opts)) (pc_requiredType jwe_cfg)"
    and "parseVerified (jc P) uni_lower jws keys (apply_options applyParse jws_policy (default_config wall)) = Inr (h, payload)"
    and "decodeObject dec payload = Inr c"
  shows "DecryptNestedJWT P uni_lower dec wall token (Some c0) (Some d) keys jwe_policy jws_policy = (None, Some c)"
proof -
  have e: "encryptJWE P jws en ((encrypt_cfg opts)\<lparr>ecfg_cty := ''JWT''\<rparr>) e = (Inr token, e')"
    using assms(3) by (auto simp: EncryptNestedJWT_def encrypt_cfg_def Let_def split: option.splits)
  have v: "valid_utf8 (ecfg_typ ((encrypt_cfg opts)\<lparr>ecfg_cty := ''JWT''\<rparr>))" "valid_utf8 (ecfg_cty ((encrypt_cfg opts)\<lparr>ecfg_cty := ''JWT''\<rparr>))"
    using assms(6) by (simp_all add: valid_utf8_ASCII isASCII_def)
  note t = recipient_token [OF assms(1,2) e assms(4,5) v assms(7)]
  obtain parts hdr where hdr: "parseJWEProtected token = Inr (parts, hdr)" "jh_Alg hdr = enc_alg en" "jh_Enc hdr = enc_enc en"
      "jh_Kid hdr = enc_kid en" "jh_Cty hdr = ''JWT''" "jh_Typ hdr = ecfg_typ (encrypt_cfg opts)" using t(2) by auto
  have "\<not> kid_conflict (decrypter_KeyID d) hdr" using assms(7) hdr(4) by (auto simp: kid_conflict_def)
  moreover have "jwe_permitted jwe_cfg token hdr" using hdr assms(9,10) unfolding jwe_permitted_iff by auto
  ultimately have "decryptJWEWithPolicy P token (Some d) jwe_cfg = Inr (jws, hdr)"
    using t(1) unfolding decryptJWEWithPolicy_Inr by blast
  then show ?thesis
    using assms(11-13) hdr(5,6) by (auto simp: DecryptNestedJWT_def cfg [symmetric] typeMatches_def)
qed

section \<open>Properties\<close>

text \<open>
  C3: a message encrypted for a recipient decrypts to itself, in every key-management mode (direct
  key, A256KW, RSA-OAEP-256, ECDH-ES and ECDH-ES+A256KW), for every content algorithm, key id and
  header option and whatever the random source yields, provided the primitives keep their
  contracts and the token stays within the size limit.
\<close>

theorem jwe_roundtrip:
  assumes "recipient P en d" "gcm_laws P" "EncryptJWE P plaintext (Some en) opts e = (Inr token, e')"
    "len token \<le> maxTokenBytes" "valid_utf8 (enc_kid en)"
    "valid_utf8 (ecfg_typ (encrypt_cfg opts))" "valid_utf8 (ecfg_cty (encrypt_cfg opts))"
    "decrypter_KeyID d \<in> {[], enc_kid en} \<or> enc_kid en = []"
  shows "Decrypt P d token = Inr plaintext"
proof (rule recipient_token(1) [OF assms(1,2) _ assms(4-8)])
  show "encryptJWE P plaintext en (encrypt_cfg opts) e = (Inr token, e')"
    using assms(3) by (simp add: EncryptJWE_def encrypt_cfg_def)
qed

definition sample_opts :: "encrypt_option option list" where
  "sample_opts = [Some (WithJWEType ''JOSE'')]"

theorem jwe_roundtrip_witness:
  "\<exists>token e'. EncryptJWE sample_jwe ''hello'' (Some sample_encrypter) sample_opts (\<lambda>_. CHR ''r'') = (Inr token, e')
     \<and> Decrypt sample_jwe sample_decrypter token = Inr ''hello''"
proof -
  let ?r = "EncryptJWE sample_jwe ''hello'' (Some sample_encrypter) sample_opts (\<lambda>_. CHR ''r'')"
  have c: "case fst ?r of Inl _ \<Rightarrow> False | Inr token \<Rightarrow> len token \<le> maxTokenBytes" by code_simp
  then obtain token e' where r: "?r = (Inr token, e')" by (cases ?r) (auto split: sum.splits)
  have "len token \<le> maxTokenBytes" using c r by simp
  moreover have "valid_utf8 (enc_kid sample_encrypter)" by code_simp
  moreover have "valid_utf8 (ecfg_typ (encrypt_cfg sample_opts))" by code_simp
  moreover have "valid_utf8 (ecfg_cty (encrypt_cfg sample_opts))" by code_simp
  moreover have "decrypter_KeyID sample_decrypter \<in> {[], enc_kid sample_encrypter} \<or> enc_kid sample_encrypter = []"
    by (simp add: decrypter_KeyID_def sample_decrypter_def sample_encrypter_def)
  ultimately show ?thesis using jwe_roundtrip [OF sample_recipient sample_gcm_laws r] r by blast
qed

text \<open>
  C2: a token decrypts to a plaintext exactly when it is the canonical encoding of an acceptable
  protected header (no \<^verbatim>\<open>crit\<close>, no \<^verbatim>\<open>zip\<close>, no private ephemeral key) and four byte strings, its
  algorithms are supported, its encrypted key unwraps to a content key, and AES-GCM opens the
  ciphertext and tag under that key with the encoded header as associated data.
\<close>

theorem jwe_decrypt_exact:
  "decrypter_Decrypt P kid u token = Inr plaintext \<longleftrightarrow>
     (\<exists>hj hdr ek iv ct tag cek. token = jwe_token hj ek iv ct tag \<and> len token \<le> maxTokenBytes \<and> protected_accepted hj hdr
        \<and> \<not> kid_conflict kid hdr \<and> contentKeyLen (jh_Enc hdr) \<noteq> 0 \<and> ku_supports u (jh_Alg hdr)
        \<and> ku_unwrap u hdr ek (contentKeyLen (jh_Enc hdr)) = Inr cek \<and> aes_key cek
        \<and> len iv = gcm_NonceSize \<and> len tag = gcm_Overhead \<and> gcm_Open P cek iv (ct @ tag) (Encode hj) = Some plaintext)"
  by (rule decrypter_Decrypt_Inr)

text \<open>
  every failing decryption of a built-in decrypter returns the one generic error: malformed
  tokens, unknown algorithms, bad keys and bad tags cannot be told apart.
\<close>

theorem jwe_failures_uniform:
  assumes "decrypter_Decrypt P kid u token = Inl err"
  shows "err = [ErrDecryptionFailed]"
  using assms unfolding decrypter_Decrypt_def Let_def
  by (auto split: if_splits sum.splits option.splits prod.splits)

theorem jwe_failures_uniform_witness:
  "case decrypter_Decrypt sample_jwe [] (directUnwrapper sample_kek) ''a.b.c.d'' of Inl err \<Rightarrow> err = [ErrDecryptionFailed] | Inr _ \<Rightarrow> False"
proof -
  have "case decrypter_Decrypt sample_jwe [] (directUnwrapper sample_kek) ''a.b.c.d'' of Inl err \<Rightarrow> True | Inr _ \<Rightarrow> False" by code_simp
  then show ?thesis using jwe_failures_uniform by (auto split: sum.splits)
qed

text \<open>
  a decrypter, built in or the caller's, is only consulted for a well-formed token whose
  \<^verbatim>\<open>alg\<close> and \<^verbatim>\<open>enc\<close> are both allowed and neither of them \<^verbatim>\<open>none\<close>: for any other token the outcome is the same
  whatever the decrypter does.
\<close>

theorem jwe_policy_before_decrypter:
  assumes "\<nexists>hdr. jwe_permitted cfg token hdr"
  shows "decryptJWEWithPolicy P token (Some d) cfg = decryptJWEWithPolicy Q token (Some d') cfg"
proof (cases "parseJWEProtected token")
  case (Inl e)
  then show ?thesis by (simp add: decryptJWEWithPolicy_def Let_def)
next
  case (Inr q)
  then obtain parts hdr where q: "parseJWEProtected token = Inr (parts, hdr)" by (cases q) auto
  with assms have "jh_Alg hdr \<notin> set (withoutNone (pc_allowedKeyAlgs cfg)) \<or> jh_Enc hdr \<notin> set (withoutNone (pc_allowedContentAlgs cfg))"
    unfolding jwe_permitted_iff by blast
  with q show ?thesis by (auto simp: decryptJWEWithPolicy_def Let_def)
qed

theorem jwe_policy_before_decrypter_witness:
  "decryptJWEWithPolicy sample_jwe ''a.b.c.d.e'' (Some sample_decrypter) (default_config 0)
   = decryptJWEWithPolicy sample_jwe ''a.b.c.d.e'' (Some (CustomDecrypter [] (\<lambda>_. Inr ''forged''))) (default_config 0)"
  by (rule jwe_policy_before_decrypter) (simp add: jwe_permitted_def default_config_def withoutNone_def)

definition claims_decrypted :: "jwe_crypto \<Rightarrow> (string \<Rightarrow> string) \<Rightarrow> (json \<Rightarrow> 'c result) \<Rightarrow> parse_config \<Rightarrow> string \<Rightarrow> decrypter option \<Rightarrow> 'c \<Rightarrow> bool" where
  "claims_decrypted P uni_lower dec cfg token dec_opt c \<longleftrightarrow>
     (\<exists>payload hdr reg.
        (\<exists>d. dec_opt = Some d \<and> jwe_permitted cfg token hdr \<and> \<not> kid_conflict (decrypter_KeyID d) hdr \<and> Decrypt P d token = Inr payload)
        \<and> decodeObject dec_claims payload = Inr reg
        \<and> claims_valid uni_lower payload reg (zero_header\<lparr>h_Type := jh_Typ hdr\<rparr>) cfg \<and> decodeObject dec payload = Inr c)"

text \<open>
  \<^verbatim>\<open>DecryptClaims\<close> succeeds exactly when the policy permits the token, the decrypter
  returns its payload, the registered claims in it satisfy every configured rule and it
  decodes into the destination; any failure leaves the destination as it was.
\<close>

theorem decrypt_claims_exact:
  "let cfg = apply_options applyParse opts (default_config wall)
   in case DecryptClaims P uni_lower dec wall token (Some c0) d opts of
        (None, dst) \<Rightarrow> (\<exists>c. dst = Some c \<and> claims_decrypted P uni_lower dec cfg token d c)
      | (Some err, dst) \<Rightarrow> dst = Some c0 \<and> (\<nexists>c. claims_decrypted P uni_lower dec cfg token d c)"
  unfolding claims_decrypted_def decryptJWEWithPolicy_Inr [symmetric] DecryptClaims_def Let_def
  by (cases "decryptJWEWithPolicy P token d (apply_options applyParse opts (default_config wall))")
    (auto simp: validateClaims_None [symmetric] split: sum.splits option.splits prod.splits)

definition nested_decrypted :: "jwe_crypto \<Rightarrow> (string \<Rightarrow> string) \<Rightarrow> (json \<Rightarrow> 'c result) \<Rightarrow> parse_config \<Rightarrow> parse_config \<Rightarrow> string \<Rightarrow>
    decrypter option \<Rightarrow> key_lookup option \<Rightarrow> 'c \<Rightarrow> bool" where
  "nested_decrypted P uni_lower dec jwe_cfg jws_cfg token dec_opt keys c \<longleftrightarrow>
     (\<exists>jws hdr h payload.
        (\<exists>d. dec_opt = Some d \<and> jwe_permitted jwe_cfg token hdr \<and> \<not> kid_conflict (decrypter_KeyID d) hdr \<and> Decrypt P d token = Inr jws)
        \<and> typeMatches uni_lower (jh_Cty hdr) ''JWT''
        \<and> (pc_requiredType jwe_cfg = [] \<or> typeMatches uni_lower (jh_Typ hdr) (pc_requiredType jwe_cfg))
        \<and> parseVerified (jc P) uni_lower jws keys jws_cfg = Inr (h, payload) \<and> decodeObject dec payload = Inr c)"

text \<open>
  \<^verbatim>\<open>DecryptNestedJWT\<close> succeeds exactly when both layers do: the JWE policy permits the outer
  token, which declares a nested JWT and decrypts, and what it decrypts to is a signed token
  that \<^verbatim>\<open>Parse\<close> accepts under the JWS policy; any failure leaves the destination as it was.
\<close>

theorem nested_needs_both_layers:
  "let jwe_cfg = apply_options applyParse jwe_policy (default_config wall);
       jws_cfg = apply_options applyParse jws_policy (default_config wall)
   in case DecryptNestedJWT P uni_lower dec wall token (Some c0) d keys jwe_policy jws_policy of
        (None, dst) \<Rightarrow> (\<exists>c. dst = Some c \<and> nested_decrypted P uni_lower dec jwe_cfg jws_cfg token d keys c)
      | (Some err, dst) \<Rightarrow> dst = Some c0 \<and> (\<nexists>c. nested_decrypted P uni_lower dec jwe_cfg jws_cfg token d keys c)"
  unfolding nested_decrypted_def decryptJWEWithPolicy_Inr [symmetric] DecryptNestedJWT_def Let_def
  by (cases "decryptJWEWithPolicy P token d (apply_options applyParse jwe_policy (default_config wall))")
    (auto split: sum.splits option.splits prod.splits)

text \<open>
  C25: signing, encrypting, decrypting and verifying compose: a signed token that \<^verbatim>\<open>Parse\<close>
  accepts, encrypted for a recipient as a nested JWT, is decrypted and verified by that
  recipient, under any policy that allows the algorithms used and requires no type or the one
  it was given, to the claims it carries.
\<close>

theorem nested_roundtrip:
  assumes "recipient P en d" "gcm_laws P" "EncryptNestedJWT P jws (Some en) opts e = (Inr token, e')"
    "len token \<le> maxTokenBytes" "valid_utf8 (enc_kid en)" "valid_utf8 (ecfg_typ (encrypt_cfg opts))"
    "decrypter_KeyID d \<in> {[], enc_kid en} \<or> enc_kid en = []"
    and cfg: "jwe_cfg = apply_options applyParse jwe_policy (default_config wall)"
    and "enc_alg en \<in> set (withoutNone (pc_allowedKeyAlgs jwe_cfg))" "enc_enc en \<in> set (withoutNone (pc_allowedContentAlgs jwe_cfg))"
    and "pc_requiredType jwe_cfg = [] \<or> typeMatches uni_lower (ecfg_typ (encrypt_cfg opts)) (pc_requiredType jwe_cfg)"
    and "parseVerified (jc P) uni_lower jws keys (apply_options applyParse jws_policy (default_config wall)) = Inr (h, payload)"
    and "decodeObject dec payload = Inr c"
  shows "DecryptNestedJWT P uni_lower dec wall token (Some c0) (Some d) keys jwe_policy jws_policy = (None, Some c)"
  by (rule nested_token_decrypts [OF assms])

definition sample_jwe_policy :: "parse_option option list" where
  "sample_jwe_policy = [Some (WithAllowedKeyAlgorithms [A256KW]), Some (WithAllowedContentAlgorithms [A128GCM])]"

theorem nested_roundtrip_witness:
  "\<exists>token e'. EncryptNestedJWT sample_jwe sample_hmac_token (Some sample_encrypter) [] (\<lambda>_. CHR ''r'') = (Inr token, e')
     \<and> DecryptNestedJWT sample_jwe id dec_members 0 token (Some [(''old'', [], JNull)]) (Some sample_decrypter)
         (Some (static_Lookup (FromHMACSecret sample_secret [''k1'']))) sample_jwe_policy [Some (WithAllowedAlgorithms [HS256])]
       = (None, Some [])"
proof -
  let ?r = "EncryptNestedJWT sample_jwe sample_hmac_token (Some sample_encrypter) [] (\<lambda>_. CHR ''r'')"
  have c: "case fst ?r of Inl _ \<Rightarrow> False | Inr token \<Rightarrow> len token \<le> maxTokenBytes" by code_simp
  then obtain token e' where r: "?r = (Inr token, e')" by (cases ?r) (auto split: sum.splits)
  have cfg: "apply_options applyParse [Some (WithAllowedAlgorithms [HS256])] (default_config 0) = sample_config HS256"
    by (simp add: apply_options_def sample_config_def default_config_def)
  have jc: "jc sample_jwe = sample_crypto" by (simp add: sample_jwe_def)
  have "DecryptNestedJWT sample_jwe id dec_members 0 token (Some [(''old'', [], JNull)]) (Some sample_decrypter)
         (Some (static_Lookup (FromHMACSecret sample_secret [''k1'']))) sample_jwe_policy [Some (WithAllowedAlgorithms [HS256])]
       = (None, Some [])"
  proof (rule nested_roundtrip [where jwe_cfg = "apply_options applyParse sample_jwe_policy (default_config 0)",
        OF sample_recipient sample_gcm_laws r _ _ _ _ refl])
    show "len token \<le> maxTokenBytes" using c r by simp
    show "valid_utf8 (enc_kid sample_encrypter)" "valid_utf8 (ecfg_typ (encrypt_cfg []))" by code_simp+
    show "decrypter_KeyID sample_decrypter \<in> {[], enc_kid sample_encrypter} \<or> enc_kid sample_encrypter = []"
      by (simp add: decrypter_KeyID_def sample_decrypter_def sample_encrypter_def)
    show "decodeObject dec_members ''{}'' = Inr []" by code_simp
    show "parseVerified (jc sample_jwe) id sample_hmac_token (Some (static_Lookup (FromHMACSecret sample_secret [''k1''])))
        (apply_options applyParse [Some (WithAllowedAlgorithms [HS256])] (default_config 0))
      = Inr (sign_header (HmacSigner HS256 sample_secret ''k1'' SHA256) [], ''{}'')"
      unfolding cfg jc by (rule sample_hmac_token_accepted)
    show "enc_alg sample_encrypter \<in> set (withoutNone (pc_allowedKeyAlgs (apply_options applyParse sample_jwe_policy (default_config 0))))"
      "enc_enc sample_encrypter \<in> set (withoutNone (pc_allowedContentAlgs (apply_options applyParse sample_jwe_policy (default_config 0))))"
      by code_simp+
    have "pc_requiredType (apply_options applyParse sample_jwe_policy (default_config 0)) = []" by code_simp
    then show "pc_requiredType (apply_options applyParse sample_jwe_policy (default_config 0)) = []
      \<or> typeMatches id (ecfg_typ (encrypt_cfg [])) (pc_requiredType (apply_options applyParse sample_jwe_policy (default_config 0)))" by blast
  qed
  with r show ?thesis by blast
qed

end
