(* ===== verification/IDToken.thy ===== *)
theory IDToken
  imports Claims
begin

text \<open>
  \<^verbatim>\<open>atclaims.go\<close> and \<^verbatim>\<open>idtoken.go\<close>: the RFC 9068 access-token profile, the OpenID Connect ID-token
  profile with its relying-party checks, and the claim structs of the providers.  An embedded
  struct is a field of the record whose members are read from the same JSON object.

  Shown: which claim sets each validation accepts, with which error it refuses the others,
  that an accepted hash claim is the half-hash of the value it binds, and that the members of
  an ID token reach the embedded structs they belong to.
\<close>

section \<open>The access-token profile\<close>

text \<open>An embedded struct: the member goes to the field function of the embedded type.\<close>

definition embedded :: "('e \<Rightarrow> string \<Rightarrow> string \<Rightarrow> json \<Rightarrow> 'e result) \<Rightarrow> 'e \<Rightarrow> ('e \<Rightarrow> 's) \<Rightarrow>
    string \<Rightarrow> string \<Rightarrow> json \<Rightarrow> 's result" where
  "embedded field e upd n raw v = set_res upd (field e n raw v)"

record access_token_claims =
  at_Registered :: registered_claims
  ClientID :: string
  Scope :: string
  at_AuthTime :: "time option"
  at_ACR :: string
  at_AMR :: "string list"
  at_Groups :: "string list"
  at_Roles :: "string list"
  Entitlements :: "string list"

definition access_token_field :: "access_token_claims \<Rightarrow> string \<Rightarrow> string \<Rightarrow> json \<Rightarrow> access_token_claims result" where
  "access_token_field r n raw v =
     (if n = ''client_id'' then set_str (\<lambda>x. r\<lparr>ClientID := x\<rparr>) v
      else if n = ''scope'' then set_str (\<lambda>x. r\<lparr>Scope := x\<rparr>) v
      else if n = ''auth_time'' then set_res (\<lambda>x. r\<lparr>at_AuthTime := x\<rparr>) (dec_date raw v)
      else if n = ''acr'' then set_str (\<lambda>x. r\<lparr>at_ACR := x\<rparr>) v
      else if n = ''amr'' then set_strs (\<lambda>x. r\<lparr>at_AMR := x\<rparr>) v
      else if n = ''groups'' then set_strs (\<lambda>x. r\<lparr>at_Groups := x\<rparr>) v
      else if n = ''roles'' then set_strs (\<lambda>x. r\<lparr>at_Roles := x\<rparr>) v
      else if n = ''entitlements'' then set_strs (\<lambda>x. r\<lparr>Entitlements := x\<rparr>) v
      else embedded claims_field (at_Registered r) (\<lambda>x. r\<lparr>at_Registered := x\<rparr>) n raw v)"

definition zero_access_token :: access_token_claims where
  "zero_access_token = \<lparr>at_Registered = zero_claims, ClientID = [], Scope = [], at_AuthTime = None, at_ACR = [],
     at_AMR = [], at_Groups = [], at_Roles = [], Entitlements = []\<rparr>"

definition AccessTokenType :: string where "AccessTokenType = ''at+jwt''"

definition audience_values :: "audience \<Rightarrow> string list" where
  "audience_values a = (case a of None \<Rightarrow> [] | Some vs \<Rightarrow> vs)"

text \<open>The names in the error message, in the order the checks stand in.\<close>

definition at_missing :: "access_token_claims \<Rightarrow> string list" where
  "at_missing claims =
     (let r = at_Registered claims
      in (if Issuer r = [] then [''iss''] else [])
         @ (if ExpiresAt r = None then [''exp''] else [])
         @ (if len (audience_values (Audience r)) = 0 then [''aud''] else [])
         @ (if Subject r = [] then [''sub''] else [])
         @ (if ClientID claims = [] then [''client_id''] else [])
         @ (if IssuedAt r = None then [''iat''] else [])
         @ (if ID r = [] then [''jti''] else []))"

fun check_audiences :: "(string \<Rightarrow> go_url option) \<Rightarrow> string list \<Rightarrow> go_error option" where
  "check_audiences parse_url [] = None"
| "check_audiences parse_url (a # as) =
     (if a = [] then Some [ErrInvalidClaim]
      else (case ValidateStringOrURI parse_url a of Some e \<Rightarrow> Some e | None \<Rightarrow> check_audiences parse_url as))"

definition ValidateAccessTokenClaims :: "(string \<Rightarrow> go_url option) \<Rightarrow> access_token_claims \<Rightarrow> go_error option" where
  "ValidateAccessTokenClaims parse_url claims =
     (if len (at_missing claims) > 0 then Some [ErrMissingClaim]
      else (case ValidateStringOrURI parse_url (Issuer (at_Registered claims)) of
              Some e \<Rightarrow> Some e
            | None \<Rightarrow>
                (case ValidateStringOrURI parse_url (Subject (at_Registered claims)) of
                   Some e \<Rightarrow> Some e
                 | None \<Rightarrow> check_audiences parse_url (audience_values (Audience (at_Registered claims))))))"

section \<open>OpenID Connect standard claims\<close>

definition Bool_UnmarshalJSON :: "bytes \<Rightarrow> bool result" where
  "Bool_UnmarshalJSON data =
     (let s = trim_space data
      in if s = ''true'' \<or> s = [CHR 0x22] @ ''true'' @ [CHR 0x22] then Inr True
         else if s = ''false'' \<or> s = [CHR 0x22] @ ''false'' @ [CHR 0x22] then Inr False
         else Inl [OtherError ''is not an OIDC boolean''])"

text \<open>A Go \<^verbatim>\<open>int\<close>: a number literal with neither fraction nor exponent, within 64 bits.\<close>

fun dec_int :: "json \<Rightarrow> int result" where
  "dec_int (JNum lit) =
     (let neg = (lit \<noteq> [] \<and> hd lit = CHR ''-''); ds = (if neg then tl lit else lit);
          n = (if neg then - digits_val ds else digits_val ds)
      in if list_all isDigit ds \<and> - (2 ^ 63) \<le> n \<and> n < 2 ^ 63 then Inr n else Inl [JSONError])"
| "dec_int JNull = Inr 0"
| "dec_int _ = Inl [JSONError]"

record address =
  Formatted :: string
  StreetAddress :: string
  Locality :: string
  Region :: string
  PostalCode :: string
  Country :: string

definition zero_address :: address where
  "zero_address = \<lparr>Formatted = [], StreetAddress = [], Locality = [], Region = [], PostalCode = [],
     Country = []\<rparr>"

definition address_field :: "address \<Rightarrow> string \<Rightarrow> string \<Rightarrow> json \<Rightarrow> address result" where
  "address_field r n raw v =
     (if n = ''formatted'' then set_str (\<lambda>x. r\<lparr>Formatted := x\<rparr>) v
      else if n = ''street_address'' then set_str (\<lambda>x. r\<lparr>StreetAddress := x\<rparr>) v
      else if n = ''locality'' then set_str (\<lambda>x. r\<lparr>Locality := x\<rparr>) v
      else if n = ''region'' then set_str (\<lambda>x. r\<lparr>Region := x\<rparr>) v
      else if n = ''postal_code'' then set_str (\<lambda>x. r\<lparr>PostalCode := x\<rparr>) v
      else if n = ''country'' then set_str (\<lambda>x. r\<lparr>Country := x\<rparr>) v
      else Inr r)"

record standard_claims =
  Name :: string
  GivenName :: string
  FamilyName :: string
  MiddleName :: string
  Nickname :: string
  PreferredUsername :: string
  Profile :: string
  Picture :: string
  Website :: string
  Email :: string
  EmailVerified :: "bool option"
  Gender :: string
  Birthdate :: string
  ZoneInfo :: string
  Locale :: string
  PhoneNumber :: string
  PhoneNumberVerified :: "bool option"
  Address :: "address option"
  UpdatedAt :: "time option"
  Nonce :: string

definition zero_standard :: standard_claims where
  "zero_standard = \<lparr>Name = [], GivenName = [], FamilyName = [], MiddleName = [], Nickname = [],
     PreferredUsername = [], Profile = [], Picture = [], Website = [], Email = [],
     EmailVerified = None, Gender = [], Birthdate = [], ZoneInfo = [], Locale = [],
     PhoneNumber = [], PhoneNumberVerified = None, Address = None, UpdatedAt = None,
     Nonce = []\<rparr>"

definition standard_field :: "standard_claims \<Rightarrow> string \<Rightarrow> string \<Rightarrow> json \<Rightarrow> standard_claims result" where
  "standard_field r n raw v =
     (if n = ''name'' then set_str (\<lambda>x. r\<lparr>Name := x\<rparr>) v
      else if n = ''given_name'' then set_str (\<lambda>x. r\<lparr>GivenName := x\<rparr>) v
      else if n = ''family_name'' then set_str (\<lambda>x. r\<lparr>FamilyName := x\<rparr>) v
      else if n = ''middle_name'' then set_str (\<lambda>x. r\<lparr>MiddleName := x\<rparr>) v
      else if n = ''nickname'' then set_str (\<lambda>x. r\<lparr>Nickname := x\<rparr>) v
      else if n = ''preferred_username'' then set_str (\<lambda>x. r\<lparr>PreferredUsername := x\<rparr>) v
      else if n = ''profile'' then set_str (\<lambda>x. r\<lparr>Profile := x\<rparr>) v
      else if n = ''picture'' then set_str (\<lambda>x. r\<lparr>Picture := x\<rparr>) v
      else if n = ''website'' then set_str (\<lambda>x. r\<lparr>Website := x\<rparr>) v
      else if n = ''email'' then set_str (\<lambda>x. r\<lparr>Email := x\<rparr>) v
      else if n = ''email_verified'' then set_res (\<lambda>x. r\<lparr>EmailVerified := x\<rparr>) (dec_pointer (\<lambda>raw v. Bool_UnmarshalJSON raw) raw v)
      else if n = ''gender'' then set_str (\<lambda>x. r\<lparr>Gender := x\<rparr>) v
      else if n = ''birthdate'' then set_str (\<lambda>x. r\<lparr>Birthdate := x\<rparr>) v
      else if n = ''zoneinfo'' then set_str (\<lambda>x. r\<lparr>ZoneInfo := x\<rparr>) v
      else if n = ''locale'' then set_str (\<lambda>x. r\<lparr>Locale := x\<rparr>) v
      else if n = ''phone_number'' then set_str (\<lambda>x. r\<lparr>PhoneNumber := x\<rparr>) v
      else if n = ''phone_number_verified'' then set_res (\<lambda>x. r\<lparr>PhoneNumberVerified := x\<rparr>) (dec_pointer (\<lambda>raw v. Bool_UnmarshalJSON raw) raw v)
      else if n = ''address'' then set_res (\<lambda>x. r\<lparr>Address := x\<rparr>) (dec_pointer (\<lambda>raw v. dec_struct address_field zero_address v) raw v)
      else if n = ''updated_at'' then set_res (\<lambda>x. r\<lparr>UpdatedAt := x\<rparr>) (dec_date raw v)
      else if n = ''nonce'' then set_str (\<lambda>x. r\<lparr>Nonce := x\<rparr>) v
      else Inr r)"

section \<open>ID tokens\<close>

record id_token_claims =
  id_Registered :: registered_claims
  id_Standard :: standard_claims
  AuthorizedParty :: string
  AccessTokenHash :: string
  CodeHash :: string
  id_AuthTime :: "time option"
  id_ACR :: string
  id_AMR :: "string list"

definition zero_id_token :: id_token_claims where
  "zero_id_token = \<lparr>id_Registered = zero_claims, id_Standard = zero_standard, AuthorizedParty = [],
     AccessTokenHash = [], CodeHash = [], id_AuthTime = None, id_ACR = [], id_AMR = []\<rparr>"

definition registered_names :: "string list" where
  "registered_names = [''iss'', ''sub'', ''aud'', ''exp'', ''nbf'', ''iat'', ''jti'', ''cnf'']"

definition id_token_field :: "id_token_claims \<Rightarrow> string \<Rightarrow> string \<Rightarrow> json \<Rightarrow> id_token_claims result" where
  "id_token_field r n raw v =
     (if n = ''azp'' then set_str (\<lambda>x. r\<lparr>AuthorizedParty := x\<rparr>) v
      else if n = ''at_hash'' then set_str (\<lambda>x. r\<lparr>AccessTokenHash := x\<rparr>) v
      else if n = ''c_hash'' then set_str (\<lambda>x. r\<lparr>CodeHash := x\<rparr>) v
      else if n = ''auth_time'' then set_res (\<lambda>x. r\<lparr>id_AuthTime := x\<rparr>) (dec_date raw v)
      else if n = ''acr'' then set_str (\<lambda>x. r\<lparr>id_ACR := x\<rparr>) v
      else if n = ''amr'' then set_strs (\<lambda>x. r\<lparr>id_AMR := x\<rparr>) v
      else if n \<in> set registered_names then embedded claims_field (id_Registered r) (\<lambda>x. r\<lparr>id_Registered := x\<rparr>) n raw v
      else embedded standard_field (id_Standard r) (\<lambda>x. r\<lparr>id_Standard := x\<rparr>) n raw v)"

definition id_missing :: "id_token_claims \<Rightarrow> string list" where
  "id_missing claims =
     (let r = id_Registered claims; aud = audience_values (Audience r)
      in (if Issuer r = [] then [''iss''] else [])
         @ (if Subject r = [] then [''sub''] else [])
         @ (if len aud = 0 then [''aud''] else [])
         @ (if ExpiresAt r = None then [''exp''] else [])
         @ (if IssuedAt r = None then [''iat''] else [])
         @ (if len aud > 1 \<and> AuthorizedParty claims = [] then [''azp''] else []))"

definition check_azp :: "(string \<Rightarrow> go_url option) \<Rightarrow> id_token_claims \<Rightarrow> go_error option" where
  "check_azp parse_url claims =
     (if AuthorizedParty claims = [] then None
      else (case ValidateStringOrURI parse_url (AuthorizedParty claims) of
              Some e \<Rightarrow> Some e
            | None \<Rightarrow> if \<not> Has (Audience (id_Registered claims)) (AuthorizedParty claims) then Some [ErrInvalidClaim] else None))"

text \<open>
  The two hash claims are visited in the order of a Go map, which is not specified; the error
  does not depend on it.
\<close>

fun check_hashes :: "string list \<Rightarrow> go_error option" where
  "check_hashes [] = None"
| "check_hashes (v # vs) =
     (if v = [] then check_hashes vs
      else (case Decode v of
              Inl _ \<Rightarrow> Some [ErrInvalidClaim]
            | Inr decoded \<Rightarrow> if len decoded = 0 then Some [ErrInvalidClaim] else check_hashes vs))"

definition ValidateIDTokenClaims :: "(string \<Rightarrow> go_url option) \<Rightarrow> id_token_claims \<Rightarrow> go_error option" where
  "ValidateIDTokenClaims parse_url claims =
     (if len (id_missing claims) > 0 then Some [ErrMissingClaim]
      else (case ValidateStringOrURI parse_url (Issuer (id_Registered claims)) of
              Some e \<Rightarrow> Some e
            | None \<Rightarrow>
         (case ValidateStringOrURI parse_url (Subject (id_Registered claims)) of
            Some e \<Rightarrow> Some e
          | None \<Rightarrow>
         (case check_audiences parse_url (audience_values (Audience (id_Registered claims))) of
            Some e \<Rightarrow> Some e
          | None \<Rightarrow>
         (case check_azp parse_url claims of
            Some e \<Rightarrow> Some e
          | None \<Rightarrow>
         (case check_hashes [AccessTokenHash claims, CodeHash claims] of
            Some e \<Rightarrow> Some e
          | None \<Rightarrow> if [] \<in> set (id_AMR claims) then Some [ErrInvalidClaim] else None))))))"

record id_token_context =
  ctx_ClientID :: string
  TrustedAudiences :: "string list"
  ExpectedNonce :: string
  RequireNonce :: bool
  AccessToken :: string
  AuthorizationCode :: string
  SigningAlgorithm :: alg

definition oidcHashAlgorithm :: "alg \<Rightarrow> hash option" where
  "oidcHashAlgorithm a =
     (if a \<in> {HS256, RS256, PS256, ES256} then Some SHA256
      else if a \<in> {HS384, RS384, PS384, ES384} then Some SHA384
      else if a \<in> {HS512, RS512, PS512, ES512, Ed25519, EdDSA} then Some SHA512
      else None)"

definition half_hash :: "crypto \<Rightarrow> hash \<Rightarrow> string \<Rightarrow> string" where
  "half_hash c h value = (let digest = hash_sum c h value in Encode (take (length digest div 2) digest))"

definition validateOIDCHash :: "crypto \<Rightarrow> string \<Rightarrow> string \<Rightarrow> alg \<Rightarrow> go_error option" where
  "validateOIDCHash c claim value a =
     (if claim = [] then None
      else if value = [] then Some [ErrInvalidClaim]
      else (case oidcHashAlgorithm a of
              None \<Rightarrow> Some [ErrUnsupportedAlgorithm]
            | Some h \<Rightarrow>
                if \<not> hash_available c h then Some [ErrUnsupportedAlgorithm]
                else if claim \<noteq> half_hash c h value then Some [ErrInvalidClaim] else None))"

definition ValidateIDTokenForContext :: "crypto \<Rightarrow> (string \<Rightarrow> go_url option) \<Rightarrow> id_token_claims \<Rightarrow> id_token_context \<Rightarrow> go_error option" where
  "ValidateIDTokenForContext c parse_url claims validation =
     (case ValidateIDTokenClaims parse_url claims of
        Some e \<Rightarrow> Some e
      | None \<Rightarrow>
          let aud = Audience (id_Registered claims); trusted = ctx_ClientID validation # TrustedAudiences validation
          in if ctx_ClientID validation = [] then Some [ErrInvalidClaim]
             else if \<not> Has aud (ctx_ClientID validation) then Some [ErrAudienceMismatch]
             else if \<not> list_all (\<lambda>a. a \<in> set trusted) (audience_values aud) then Some [ErrAudienceMismatch]
             else if AuthorizedParty claims \<noteq> [] \<and> AuthorizedParty claims \<noteq> ctx_ClientID validation then Some [ErrInvalidClaim]
             else if len (audience_values aud) > 1 \<and> AuthorizedParty claims \<noteq> ctx_ClientID validation then Some [ErrInvalidClaim]
             else if (RequireNonce validation \<or> ExpectedNonce validation \<noteq> []) \<and>
                     (Nonce (id_Standard claims) = [] \<or> Nonce (id_Standard claims) \<noteq> ExpectedNonce validation) then
               Some [ErrInvalidClaim]
             else (case validateOIDCHash c (AccessTokenHash claims) (AccessToken validation) (SigningAlgorithm validation) of
                     Some e \<Rightarrow> Some e
                   | None \<Rightarrow> validateOIDCHash c (CodeHash claims) (AuthorizationCode validation) (SigningAlgorithm validation)))"

section \<open>Provider claims\<close>

record google_claims =
  HostedDomain :: string
  google_AuthorizedParty :: string
  google_AccessTokenHash :: string

definition zero_google :: google_claims where
  "zero_google = \<lparr>HostedDomain = [], google_AuthorizedParty = [], google_AccessTokenHash = []\<rparr>"

definition google_field :: "google_claims \<Rightarrow> string \<Rightarrow> string \<Rightarrow> json \<Rightarrow> google_claims result" where
  "google_field r n raw v =
     (if n = ''hd'' then set_str (\<lambda>x. r\<lparr>HostedDomain := x\<rparr>) v
      else if n = ''azp'' then set_str (\<lambda>x. r\<lparr>google_AuthorizedParty := x\<rparr>) v
      else if n = ''at_hash'' then set_str (\<lambda>x. r\<lparr>google_AccessTokenHash := x\<rparr>) v
      else Inr r)"

record okta_claims =
  okta_Version :: int
  okta_AuthTime :: "time option"
  okta_AMR :: "string list"
  okta_IDP :: string
  okta_Groups :: "string list"

definition zero_okta :: okta_claims where
  "zero_okta = \<lparr>okta_Version = 0, okta_AuthTime = None, okta_AMR = [], okta_IDP = [],
     okta_Groups = []\<rparr>"

definition okta_field :: "okta_claims \<Rightarrow> string \<Rightarrow> string \<Rightarrow> json \<Rightarrow> okta_claims result" where
  "okta_field r n raw v =
     (if n = ''ver'' then set_res (\<lambda>x. r\<lparr>okta_Version := x\<rparr>) (dec_int v)
      else if n = ''auth_time'' then set_res (\<lambda>x. r\<lparr>okta_AuthTime := x\<rparr>) (dec_date raw v)
      else if n = ''amr'' then set_strs (\<lambda>x. r\<lparr>okta_AMR := x\<rparr>) v
      else if n = ''idp'' then set_str (\<lambda>x. r\<lparr>okta_IDP := x\<rparr>) v
      else if n = ''groups'' then set_strs (\<lambda>x. r\<lparr>okta_Groups := x\<rparr>) v
      else Inr r)"

record entra_claims =
  TenantID :: string
  ObjectID :: string
  UPN :: string
  entra_Roles :: "string list"
  entra_Groups :: "string list"
  AppID :: string
  entra_Version :: string
  UniqueName :: string
  IdentityProvider :: string
  SessionID :: string
  TokenID :: string

definition zero_entra :: entra_claims where
  "zero_entra = \<lparr>TenantID = [], ObjectID = [], UPN = [], entra_Roles = [], entra_Groups = [],
     AppID = [], entra_Version = [], UniqueName = [], IdentityProvider = [],
     SessionID = [], TokenID = []\<rparr>"

definition entra_field :: "entra_claims \<Rightarrow> string \<Rightarrow> string \<Rightarrow> json \<Rightarrow> entra_claims result" where
  "entra_field r n raw v =
     (if n = ''tid'' then set_str (\<lambda>x. r\<lparr>TenantID := x\<rparr>) v
      else if n = ''oid'' then set_str (\<lambda>x. r\<lparr>ObjectID := x\<rparr>) v
      else if n = ''upn'' then set_str (\<lambda>x. r\<lparr>UPN := x\<rparr>) v
      else if n = ''roles'' then set_strs (\<lambda>x. r\<lparr>entra_Roles := x\<rparr>) v
      else if n = ''groups'' then set_strs (\<lambda>x. r\<lparr>entra_Groups := x\<rparr>) v
      else if n = ''appid'' then set_str (\<lambda>x. r\<lparr>AppID := x\<rparr>) v
      else if n = ''ver'' then set_str (\<lambda>x. r\<lparr>entra_Version := x\<rparr>) v
      else if n = ''unique_name'' then set_str (\<lambda>x. r\<lparr>UniqueName := x\<rparr>) v
      else if n = ''idp'' then set_str (\<lambda>x. r\<lparr>IdentityProvider := x\<rparr>) v
      else if n = ''sid'' then set_str (\<lambda>x. r\<lparr>SessionID := x\<rparr>) v
      else if n = ''uti'' then set_str (\<lambda>x. r\<lparr>TokenID := x\<rparr>) v
      else Inr r)"

record 'p provider_token =
  pt_Registered :: registered_claims
  pt_Standard :: standard_claims
  pt_Provider :: 'p

text \<open>The ready-made ID tokens embed the three claim sets, whose member names are disjoint.\<close>

definition standard_names :: "string list" where
  "standard_names = [''name'', ''given_name'', ''family_name'', ''middle_name'', ''nickname'', ''preferred_username'',
     ''profile'', ''picture'', ''website'', ''email'', ''email_verified'', ''gender'', ''birthdate'', ''zoneinfo'',
     ''locale'', ''phone_number'', ''phone_number_verified'', ''address'', ''updated_at'', ''nonce'']"

definition provider_field :: "('p \<Rightarrow> string \<Rightarrow> string \<Rightarrow> json \<Rightarrow> 'p result) \<Rightarrow>
    'p provider_token \<Rightarrow> string \<Rightarrow> string \<Rightarrow> json \<Rightarrow> 'p provider_token result" where
  "provider_field field r n raw v =
     (if n \<in> set registered_names then embedded claims_field (pt_Registered r) (\<lambda>x. r\<lparr>pt_Registered := x\<rparr>) n raw v
      else if n \<in> set standard_names then embedded standard_field (pt_Standard r) (\<lambda>x. r\<lparr>pt_Standard := x\<rparr>) n raw v
      else embedded field (pt_Provider r) (\<lambda>x. r\<lparr>pt_Provider := x\<rparr>) n raw v)"

definition GoogleIDToken :: "json \<Rightarrow> google_claims provider_token result" where
  "GoogleIDToken = dec_struct (provider_field google_field) \<lparr>pt_Registered = zero_claims, pt_Standard = zero_standard, pt_Provider = zero_google\<rparr>"

definition OktaIDToken :: "json \<Rightarrow> okta_claims provider_token result" where
  "OktaIDToken = dec_struct (provider_field okta_field) \<lparr>pt_Registered = zero_claims, pt_Standard = zero_standard, pt_Provider = zero_okta\<rparr>"

definition EntraIDToken :: "json \<Rightarrow> entra_claims provider_token result" where
  "EntraIDToken = dec_struct (provider_field entra_field) \<lparr>pt_Registered = zero_claims, pt_Standard = zero_standard, pt_Provider = zero_entra\<rparr>"

section \<open>Lemmas\<close>

lemma ValidateStringOrURI_error: "ValidateStringOrURI p s = Some e \<Longrightarrow> e = [ErrInvalidClaim]"
  by (auto simp: ValidateStringOrURI_def Let_def split: if_splits option.splits)

lemma check_audiences_None:
  "check_audiences p as = None \<longleftrightarrow> (\<forall>a\<in>set as. a \<noteq> [] \<and> ValidateStringOrURI p a = None)"
  by (induction p as rule: check_audiences.induct) (auto split: option.splits)

lemma check_audiences_error: "check_audiences p as = Some e \<Longrightarrow> e = [ErrInvalidClaim]"
  by (induction p as rule: check_audiences.induct) (auto dest: ValidateStringOrURI_error split: option.splits if_splits)

lemma check_azp_None:
  "check_azp p cl = None \<longleftrightarrow> (AuthorizedParty cl = [] \<or>
     (ValidateStringOrURI p (AuthorizedParty cl) = None \<and> AuthorizedParty cl \<in> set (audience_values (Audience (id_Registered cl)))))"
  by (auto simp: check_azp_def Has_def audience_values_def split: option.splits)

lemma check_azp_error: "check_azp p cl = Some e \<Longrightarrow> e = [ErrInvalidClaim]"
  by (auto simp: check_azp_def dest: ValidateStringOrURI_error split: option.splits if_splits)

lemma check_hashes_None:
  "check_hashes vs = None \<longleftrightarrow> (\<forall>v\<in>set vs. v = [] \<or> (\<exists>b. b \<noteq> [] \<and> v = Encode b))"
proof (induction vs)
  case (Cons v vs)
  have "(\<exists>b. b \<noteq> [] \<and> v = Encode b) \<longleftrightarrow> (\<exists>b. Decode v = Inr b \<and> b \<noteq> [])" by (metis b64.decode_iff)
  then show ?case using Cons by (auto split: sum.splits)
qed simp

lemma check_hashes_error: "check_hashes vs = Some e \<Longrightarrow> e = [ErrInvalidClaim]"
  by (induction vs) (auto split: sum.splits if_splits)

lemmas id_check_errors = ValidateStringOrURI_error check_audiences_error check_azp_error check_hashes_error

lemma validateOIDCHash_None:
  "validateOIDCHash c claim value a = None \<longleftrightarrow>
     claim = [] \<or> (value \<noteq> [] \<and> (\<exists>h. oidcHashAlgorithm a = Some h \<and> hash_available c h \<and> claim = half_hash c h value))"
  by (auto simp: validateOIDCHash_def split: option.splits)


subsection \<open>Embedded registered claims\<close>

text \<open>
  A claims type embeds the registered claims when decoding one member does to the embedded
  record what the decoder of the registered claims does.  Then whole objects decode alike.
\<close>

locale embeds_registered =
  fixes field :: "'s \<Rightarrow> string \<Rightarrow> string \<Rightarrow> json \<Rightarrow> 's result" and registered :: "'s \<Rightarrow> registered_claims" and zero :: 's
  assumes field_registered: "field r n raw v = Inr r' \<Longrightarrow> claims_field (registered r) n raw v = Inr (registered r')"
    and zero_registered: "registered zero = zero_claims"
begin

lemma dec_fields_registered: "dec_fields field r ms = Inr r' \<Longrightarrow> dec_fields claims_field (registered r) ms = Inr (registered r')"
proof (induction ms arbitrary: r)
  case (Cons m ms)
  obtain n raw v where m: "m = (n, raw, v)" by (cases m)
  with Cons.prems obtain r1 where r1: "field r n raw v = Inr r1" "dec_fields field r1 ms = Inr r'" by (auto split: sum.splits)
  then show ?case using field_registered [OF r1(1)] Cons.IH m by simp
qed simp

lemma dec_struct_registered: "dec_struct field zero v = Inr r \<Longrightarrow> dec_claims v = Inr (registered r)"
  using dec_fields_registered [of zero] zero_registered by (cases v) (auto simp: dec_claims_def)

end

lemma claims_field_other: "n \<notin> set registered_names \<Longrightarrow> claims_field r n raw v = Inr r"
  by (simp add: claims_field_def registered_names_def)

lemma embedded_Inr: "embedded field e upd n raw v = Inr r \<longleftrightarrow> (\<exists>x. field e n raw v = Inr x \<and> r = upd x)"
  by (auto simp: embedded_def set_res_def split: sum.splits)

lemma set_res_Inr: "set_res upd x = Inr r \<longleftrightarrow> (\<exists>y. x = Inr y \<and> r = upd y)"
  by (auto simp: set_res_def split: sum.splits)

lemma set_str_Inr: "set_str upd v = Inr r \<Longrightarrow> \<exists>s. r = upd s"
  by (auto simp: set_str_def split: sum.splits)

lemma set_strs_Inr: "set_strs upd v = Inr r \<Longrightarrow> \<exists>ss. r = upd ss"
  by (auto simp: set_strs_def split: sum.splits option.splits)

interpretation at: embeds_registered access_token_field at_Registered zero_access_token
proof
  fix r n raw v r' assume "access_token_field r n raw v = Inr r'"
  then show "claims_field (at_Registered r) n raw v = Inr (at_Registered r')"
    by (auto simp: access_token_field_def embedded_Inr set_res_Inr claims_field_other registered_names_def
        dest!: set_str_Inr set_strs_Inr split: if_splits)
qed (simp add: zero_access_token_def)

interpretation idt: embeds_registered id_token_field id_Registered zero_id_token
proof
  fix r n raw v r' assume f: "id_token_field r n raw v = Inr r'"
  show "claims_field (id_Registered r) n raw v = Inr (id_Registered r')"
  proof (cases "n \<in> set registered_names")
    case True
    then have "n \<notin> {''azp'', ''at_hash'', ''c_hash'', ''auth_time'', ''acr'', ''amr''}"
      by (auto simp: registered_names_def)
    with True f show ?thesis by (auto simp: id_token_field_def embedded_Inr)
  next
    case False
    with f show ?thesis
      by (auto simp: id_token_field_def embedded_Inr set_res_Inr claims_field_other
          dest!: set_str_Inr set_strs_Inr split: if_splits)
  qed
qed (simp add: zero_id_token_def)

lemma provider_field_registered:
  "provider_field field r n raw v = Inr r' \<Longrightarrow> claims_field (pt_Registered r) n raw v = Inr (pt_Registered r')"
  by (auto simp: provider_field_def embedded_Inr claims_field_other split: if_splits)

interpretation google: embeds_registered "provider_field google_field" pt_Registered
    "\<lparr>pt_Registered = zero_claims, pt_Standard = zero_standard, pt_Provider = zero_google\<rparr>"
  by unfold_locales (simp_all add: provider_field_registered)

interpretation okta: embeds_registered "provider_field okta_field" pt_Registered
    "\<lparr>pt_Registered = zero_claims, pt_Standard = zero_standard, pt_Provider = zero_okta\<rparr>"
  by unfold_locales (simp_all add: provider_field_registered)

interpretation entra: embeds_registered "provider_field entra_field" pt_Registered
    "\<lparr>pt_Registered = zero_claims, pt_Standard = zero_standard, pt_Provider = zero_entra\<rparr>"
  by unfold_locales (simp_all add: provider_field_registered)

section \<open>Properties\<close>

definition valid_identifiers :: "(string \<Rightarrow> go_url option) \<Rightarrow> registered_claims \<Rightarrow> bool" where
  "valid_identifiers p r \<longleftrightarrow>
     list_all (\<lambda>s. s \<noteq> [] \<and> ValidateStringOrURI p s = None) (Issuer r # Subject r # audience_values (Audience r))"

text \<open>
  the access-token profile is missing a claim exactly when one of \<^verbatim>\<open>iss\<close>, \<^verbatim>\<open>exp\<close>, \<^verbatim>\<open>aud\<close>, \<^verbatim>\<open>sub\<close>,
  \<^verbatim>\<open>client_id\<close>, \<^verbatim>\<open>iat\<close> and \<^verbatim>\<open>jti\<close> is absent or empty; a complete claim set is accepted exactly when its issuer,
  subject and every audience are non-empty StringOrURI values.
\<close>

theorem access_token_profile_exact:
  "ValidateAccessTokenClaims p cl =
     (let r = at_Registered cl
      in if [] \<in> {Issuer r, Subject r, ClientID cl, ID r} \<or> audience_values (Audience r) = []
            \<or> None \<in> {ExpiresAt r, IssuedAt r} then Some [ErrMissingClaim]
         else if valid_identifiers p r then None else Some [ErrInvalidClaim])"
proof -
  let ?r = "at_Registered cl"
  have m: "len (at_missing cl) > 0 \<longleftrightarrow> [] \<in> {Issuer ?r, Subject ?r, ClientID cl, ID ?r}
      \<or> audience_values (Audience ?r) = [] \<or> None \<in> {ExpiresAt ?r, IssuedAt ?r}"
    by (auto simp: at_missing_def Let_def len_def)
  have e: "check_audiences p (audience_values (Audience ?r)) = None \<or>
      check_audiences p (audience_values (Audience ?r)) = Some [ErrInvalidClaim]"
    using check_audiences_error by (metis not_Some_eq)
  show ?thesis
  proof (cases "len (at_missing cl) > 0")
    case True
    with m show ?thesis by (simp add: ValidateAccessTokenClaims_def Let_def)
  next
    case False
    then have "Issuer ?r \<noteq> []" "Subject ?r \<noteq> []" using m by auto
    then show ?thesis
      using False m e check_audiences_None [of p "audience_values (Audience ?r)"]
      by (auto simp: ValidateAccessTokenClaims_def Let_def valid_identifiers_def list_all_iff
          dest: ValidateStringOrURI_error split: option.splits)
  qed
qed

text \<open>
  a complete ID token is accepted exactly when its identifiers are non-empty StringOrURI
  values, \<^verbatim>\<open>azp\<close>, if any, is one of its audiences, its hash claims, if any, are the base64url
  encoding of some bytes and no authentication method is empty; a token for several
  audiences without \<^verbatim>\<open>azp\<close> is incomplete.
\<close>

theorem id_token_profile_exact:
  "ValidateIDTokenClaims p cl =
     (let r = id_Registered cl; aud = audience_values (Audience r); azp = AuthorizedParty cl
      in if [] \<in> {Issuer r, Subject r} \<or> aud = [] \<or> None \<in> {ExpiresAt r, IssuedAt r} \<or> (1 < length aud \<and> azp = [])
         then Some [ErrMissingClaim]
         else if valid_identifiers p r \<and> azp \<in> insert [] (set (filter (\<lambda>s. ValidateStringOrURI p s = None) aud))
            \<and> {AccessTokenHash cl, CodeHash cl} \<subseteq> insert [] (Encode ` {b. b \<noteq> []}) \<and> [] \<notin> set (id_AMR cl)
         then None else Some [ErrInvalidClaim])"
proof -
  let ?r = "id_Registered cl" and ?hs = "[AccessTokenHash cl, CodeHash cl]"
  let ?aud = "audience_values (Audience ?r)"
  have m: "len (id_missing cl) > 0 \<longleftrightarrow> [] \<in> {Issuer ?r, Subject ?r} \<or> ?aud = []
      \<or> None \<in> {ExpiresAt ?r, IssuedAt ?r} \<or> (1 < length ?aud \<and> AuthorizedParty cl = [])"
    by (auto simp: id_missing_def Let_def len_def)
  have h: "check_hashes ?hs = None \<longleftrightarrow> {AccessTokenHash cl, CodeHash cl} \<subseteq> insert [] (Encode ` {b. b \<noteq> []})"
    unfolding check_hashes_None by auto
  have z: "check_azp p cl = None \<longleftrightarrow> AuthorizedParty cl \<in> insert [] (set (filter (\<lambda>s. ValidateStringOrURI p s = None) ?aud))"
    unfolding check_azp_None by auto
  show ?thesis
  proof (cases "len (id_missing cl) > 0")
    case True
    with m show ?thesis by (simp add: ValidateIDTokenClaims_def Let_def)
  next
    case False
    then have ne: "Issuer ?r \<noteq> []" "Subject ?r \<noteq> []" using m by auto
    have v: "valid_identifiers p ?r \<longleftrightarrow> ValidateStringOrURI p (Issuer ?r) = None \<and> ValidateStringOrURI p (Subject ?r) = None
        \<and> check_audiences p ?aud = None"
      using ne by (simp add: valid_identifiers_def check_audiences_None list_all_iff)
    have "ValidateIDTokenClaims p cl =
      (if valid_identifiers p ?r \<and> check_azp p cl = None \<and> check_hashes ?hs = None \<and> [] \<notin> set (id_AMR cl)
       then None else Some [ErrInvalidClaim])"
      using False unfolding ValidateIDTokenClaims_def v by (auto simp del: check_hashes.simps dest: id_check_errors split: option.splits)
    with False m h z show ?thesis by (simp add: Let_def)
  qed
qed

text \<open>
  C30: a relying party accepts an ID token exactly when it has the ID-token profile, names the
  client among its audiences and no audience the client does not trust, was issued to the
  client (\<^verbatim>\<open>azp\<close>, which only a token for the client alone may omit), carries the expected nonce
  when one is expected or required, and each hash claim it has is the half-hash, under the
  hash of the signing algorithm, of the access token or code received with it.
\<close>

theorem id_token_context_exact:
  "ValidateIDTokenForContext c p cl v = None \<longleftrightarrow>
     (let client = ctx_ClientID v; aud = audience_values (Audience (id_Registered cl));
          binds = (\<lambda>claim value. claim = [] \<or> value \<noteq> [] \<and>
            (\<exists>h. oidcHashAlgorithm (SigningAlgorithm v) = Some h \<and> hash_available c h \<and> claim = half_hash c h value))
      in ValidateIDTokenClaims p cl = None \<and> client \<noteq> []
         \<and> client \<in> set aud \<and> set aud \<subseteq> insert client (set (TrustedAudiences v))
         \<and> (AuthorizedParty cl = client \<or> AuthorizedParty cl = [] \<and> aud = [client])
         \<and> (\<not> RequireNonce v \<and> ExpectedNonce v = [] \<or>
            ExpectedNonce v \<noteq> [] \<and> Nonce (id_Standard cl) = ExpectedNonce v)
         \<and> binds (AccessTokenHash cl) (AccessToken v) \<and> binds (CodeHash cl) (AuthorizationCode v))"
proof -
  let ?aud = "audience_values (Audience (id_Registered cl))"
  have has: "Has (Audience (id_Registered cl)) x \<longleftrightarrow> x \<in> set ?aud" for x
    by (auto simp: Has_def audience_values_def split: option.splits)
  have one: "(azp = [] \<or> azp = k) \<and> (\<not> len ?aud > 1 \<or> azp = k) \<longleftrightarrow> azp = k \<or> azp = [] \<and> ?aud = [k]" if "k \<in> set ?aud" for azp k
    using that by (cases ?aud) (auto simp: len_def)
  have all: "list_all (\<lambda>a. a \<in> set (ctx_ClientID v # TrustedAudiences v)) ?aud \<longleftrightarrow> set ?aud \<subseteq> insert (ctx_ClientID v) (set (TrustedAudiences v))"
    by (auto simp: list_all_iff)
  have "ValidateIDTokenForContext c p cl v = None \<longleftrightarrow>
     ValidateIDTokenClaims p cl = None \<and> ctx_ClientID v \<noteq> [] \<and> ctx_ClientID v \<in> set ?aud
     \<and> list_all (\<lambda>a. a \<in> set (ctx_ClientID v # TrustedAudiences v)) ?aud
     \<and> ((AuthorizedParty cl = [] \<or> AuthorizedParty cl = ctx_ClientID v) \<and> (\<not> len ?aud > 1 \<or> AuthorizedParty cl = ctx_ClientID v))
     \<and> (\<not> RequireNonce v \<and> ExpectedNonce v = [] \<or> Nonce (id_Standard cl) \<noteq> [] \<and> Nonce (id_Standard cl) = ExpectedNonce v)
     \<and> validateOIDCHash c (AccessTokenHash cl) (AccessToken v) (SigningAlgorithm v) = None
     \<and> validateOIDCHash c (CodeHash cl) (AuthorizationCode v) (SigningAlgorithm v) = None"
    unfolding ValidateIDTokenForContext_def Let_def has by (auto split: option.split if_splits)
  moreover have "n \<noteq> [] \<and> n = e \<longleftrightarrow> e \<noteq> [] \<and> n = e" for n e :: string by blast
  ultimately show ?thesis
    unfolding Let_def all validateOIDCHash_None
    by (cases "ctx_ClientID v \<in> set ?aud") (simp_all only: one simp_thms)
qed

definition sample_id_token :: id_token_claims where
  "sample_id_token = zero_id_token\<lparr>id_Registered := zero_claims\<lparr>Issuer := ''i'', Subject := ''s'', Audience := Some [''c''],
     ExpiresAt := Some 5, IssuedAt := Some 1\<rparr>, AccessTokenHash := ''YQ''\<rparr>"

definition sample_context :: id_token_context where
  "sample_context = \<lparr>ctx_ClientID = ''c'', TrustedAudiences = [], ExpectedNonce = [], RequireNonce = False,
     AccessToken = ''ab'', AuthorizationCode = [], SigningAlgorithm = HS256\<rparr>"

theorem id_token_context_exact_witness:
  "ValidateIDTokenForContext sample_crypto (\<lambda>_. None) sample_id_token sample_context = None"
proof -
  have h: "half_hash sample_crypto SHA256 ''ab'' = ''YQ''" by code_simp
  have "ValidateIDTokenClaims (\<lambda>_. None) sample_id_token = None" by code_simp
  then show ?thesis
    using h unfolding id_token_context_exact
    by (simp add: sample_id_token_def sample_context_def zero_id_token_def zero_claims_def audience_values_def
        oidcHashAlgorithm_def sample_crypto_def)
qed

text \<open>
  a claims struct that embeds the registered claims, decoded from a payload, holds exactly
  the registered claims that \<^verbatim>\<open>Parse\<close> decodes from that payload and validates.
\<close>

theorem embedded_claims_are_validated_claims:
  "dec_struct access_token_field zero_access_token v = Inr a \<Longrightarrow>
   dec_struct id_token_field zero_id_token v = Inr i \<Longrightarrow>
   GoogleIDToken v = Inr g \<Longrightarrow> OktaIDToken v = Inr k \<Longrightarrow> EntraIDToken v = Inr e \<Longrightarrow>
   {Inr (at_Registered a), Inr (id_Registered i), Inr (pt_Registered g), Inr (pt_Registered k), Inr (pt_Registered e)}
   = {dec_claims v}"
  using at.dec_struct_registered idt.dec_struct_registered google.dec_struct_registered
    okta.dec_struct_registered entra.dec_struct_registered
  unfolding GoogleIDToken_def OktaIDToken_def EntraIDToken_def by (metis insert_absorb2)

lemmas claim_struct_defs = access_token_field_def id_token_field_def provider_field_def embedded_def set_res_def set_str_def
  registered_names_def claims_field_def zero_access_token_def zero_id_token_def GoogleIDToken_def OktaIDToken_def EntraIDToken_def

theorem embedded_claims_are_validated_claims_witness:
  "dec_claims (JObj [(''iss'', [CHR 0x22, CHR ''a'', CHR 0x22], JStr ''a'')]) = Inr (zero_claims\<lparr>Issuer := ''a''\<rparr>)"
proof -
  let ?v = "JObj [(''iss'', [CHR 0x22, CHR ''a'', CHR 0x22], JStr ''a'')]" and ?r = "zero_claims\<lparr>Issuer := ''a''\<rparr>"
  have "dec_struct access_token_field zero_access_token ?v = Inr (zero_access_token\<lparr>at_Registered := ?r\<rparr>)"
    "dec_struct id_token_field zero_id_token ?v = Inr (zero_id_token\<lparr>id_Registered := ?r\<rparr>)"
    "GoogleIDToken ?v = Inr \<lparr>pt_Registered = ?r, pt_Standard = zero_standard, pt_Provider = zero_google\<rparr>"
    "OktaIDToken ?v = Inr \<lparr>pt_Registered = ?r, pt_Standard = zero_standard, pt_Provider = zero_okta\<rparr>"
    "EntraIDToken ?v = Inr \<lparr>pt_Registered = ?r, pt_Standard = zero_standard, pt_Provider = zero_entra\<rparr>"
    by (simp_all add: claim_struct_defs)
  from embedded_claims_are_validated_claims [OF this] show ?thesis by simp
qed

end
