(* ===== verification/GoMap.thy ===== *)
theory GoMap
  imports JWT_Prelude "HOL-Library.List_Lexorder" "HOL-Library.Char_ord"
begin

text \<open>
  Go maps with string keys, as association lists in the order of their keys.  The order of
  strings is the one of \<^verbatim>\<open>strings.Compare\<close>, which is also the order in which \<^verbatim>\<open>encoding/json\<close>
  emits the members of a map.  In this form two maps with the same entries are equal
  (\<open>ordered_unique\<close>), so a model may iterate over one in any order it likes to show that the
  order does not matter.
\<close>

text \<open>Assignment to a map.\<close>

fun map_put :: "string \<Rightarrow> 'v \<Rightarrow> (string \<times> 'v) list \<Rightarrow> (string \<times> 'v) list" where
  "map_put k v [] = [(k, v)]"
| "map_put k v ((k', v') # m) =
     (if k < k' then (k, v) # (k', v') # m else if k = k' then (k, v) # m else (k', v') # map_put k v m)"

abbreviation ordered :: "(string \<times> 'v) list \<Rightarrow> bool" where
  "ordered m \<equiv> sorted_wrt (<) (map fst m)"

section \<open>Lemmas\<close>

lemma map_put_keys [simp]: "fst ` set (map_put k v m) = insert k (fst ` set m)"
  by (induction k v m rule: map_put.induct) auto

lemma set_map_put: "set (map_put k v m) \<subseteq> insert (k, v) (set m)"
  by (induction k v m rule: map_put.induct) auto

lemma map_of_map_put [simp]: "map_of (map_put k v m) = (map_of m)(k \<mapsto> v)"
  by (induction k v m rule: map_put.induct) (auto simp: fun_eq_iff)

lemma map_put_ordered: "ordered m \<Longrightarrow> ordered (map_put k v m)"
proof (induction k v m rule: map_put.induct)
  case (2 k v k' v' m)
  have "\<forall>x \<in> fst ` set (map_put k v m). k' < x" if "\<not> k < k'" "k \<noteq> k'"
    using 2(2) that by auto
  with 2 show ?case by auto
qed simp

lemma ordered_distinct: "ordered m \<Longrightarrow> distinct (map fst m)"
  by (simp add: strict_sorted_iff)

lemma alist_rebuild: "distinct (map fst m) \<Longrightarrow> map (\<lambda>k. (k, the (map_of m k))) (map fst m) = m"
  by (intro nth_equalityI) (simp_all add: prod_eq_iff map_of_is_SomeI [of m "fst (m ! i)" "snd (m ! i)" for i])

lemma ordered_unique:
  assumes "ordered m" "ordered n" "map_of m = map_of n"
  shows "m = n"
proof -
  have "fst ` set m = fst ` set n" using assms(3) by (simp add: dom_map_of_conv_image_fst [symmetric])
  then have k: "map fst m = map fst n" by (intro strict_sorted_equal) (use assms in simp_all)
  from alist_rebuild [of m] alist_rebuild [of n] show ?thesis using assms k ordered_distinct by metis
qed

lemma map_put_last: "\<forall>k' \<in> fst ` set m. k' < k \<Longrightarrow> map_put k v m = m @ [(k, v)]"
  by (induction m) (auto dest: less_not_sym)

lemma fold_map_put_append:
  "sorted_wrt (<) (map fst (acc @ m)) \<Longrightarrow> fold (\<lambda>(k, v) m. map_put k v m) m acc = acc @ m"
proof (induction m arbitrary: acc)
  case (Cons x m)
  obtain k v where x: "x = (k, v)" by (cases x)
  have "\<forall>k' \<in> fst ` set acc. k' < k" using Cons.prems by (auto simp: sorted_wrt_append x)
  then have "map_put k v acc = acc @ [(k, v)]" by (rule map_put_last)
  with Cons.IH [of "acc @ [(k, v)]"] Cons.prems show ?case by (simp add: x)
qed simp

lemma fold_map_put_ordered: "ordered acc \<Longrightarrow> ordered (fold (\<lambda>(k, v) m. map_put k v m) m acc)"
  by (induction m arbitrary: acc) (auto simp: map_put_ordered split: prod.splits)

lemma map_of_fold_map_put:
  "distinct (map fst m) \<Longrightarrow> map_of (fold (\<lambda>(k, v) m. map_put k v m) m acc) = map_of acc ++ map_of m"
proof (induction m arbitrary: acc)
  case (Cons x m)
  obtain k v where x: "x = (k, v)" by (cases x)
  with Cons.prems have "map_of m k = None" by (simp add: map_of_eq_None_iff)
  with Cons x show ?case by (auto simp: fun_eq_iff map_add_def split: option.splits)
qed simp

lemma fold_map_put_insert:
  assumes "ordered m" "k \<notin> fst ` set m"
  shows "fold (\<lambda>(k, v) m. map_put k v m) m [(k, v)] = map_put k v m"
proof (rule ordered_unique)
  show "ordered (fold (\<lambda>(k, v) m. map_put k v m) m [(k, v)])" by (rule fold_map_put_ordered) simp
  show "ordered (map_put k v m)" by (rule map_put_ordered [OF assms(1)])
  show "map_of (fold (\<lambda>(k, v) m. map_put k v m) m [(k, v)]) = map_of (map_put k v m)"
    using assms(2) unfolding map_of_fold_map_put [OF ordered_distinct [OF assms(1)]]
    by (auto simp: fun_eq_iff map_add_def map_of_eq_None_iff [symmetric] split: option.splits)
qed

lemma filter_map_put: "k \<notin> fst ` set m \<Longrightarrow> filter (\<lambda>x. fst x \<noteq> k) (map_put k v m) = m"
  by (induction k v m rule: map_put.induct) (auto intro: filter_True)

end
