(* ===== verification/MediaType.thy ===== *)
theory MediaType
  imports Claims
begin

text \<open>
  \<^verbatim>\<open>mime.ParseMediaType\<close> of the standard library, as far as its error goes: \<^verbatim>\<open>cmw.go\<close> asks it
  whether a media type with parameters is well formed and drops what it returns.  The
  parameters are kept in the order read; Go keeps the names with a star in maps of their own,
  but a name decides which map it goes to, so that a name seen before is found in either form.

  Shown: a list of parameters with token values is accepted exactly when no name, up to case,
  is given two different values.
\<close>

section \<open>Tokens and values\<close>

definition isTSpecial :: "char \<Rightarrow> bool" where
  "isTSpecial c \<longleftrightarrow> c \<in> set ''()<>@,;:/[]?='' \<or> c = CHR 0x5C \<or> c = CHR 0x22"

definition isTokenChar :: "char \<Rightarrow> bool" where
  "isTokenChar c \<longleftrightarrow> 32 < ord c \<and> ord c < 127 \<and> \<not> isTSpecial c"

definition consumeToken :: "string \<Rightarrow> string \<times> string" where
  "consumeToken v = (takeWhile isTokenChar v, dropWhile isTokenChar v)"

text \<open>The rest of a quoted string; a backslash before anything but a special is kept.\<close>

fun consume_quoted :: "string \<Rightarrow> (string \<times> string) option" where
  "consume_quoted [] = None"
| "consume_quoted (c # s) =
     (if c = CHR 0x22 then Some ([], s)
      else if c = CHR 0x5C \<and> s \<noteq> [] \<and> isTSpecial (hd s) then
        (case s of [] \<Rightarrow> None | d # r \<Rightarrow> map_option (apfst ((#) d)) (consume_quoted r))
      else if c = chr 13 \<or> c = chr 10 then None
      else map_option (apfst ((#) c)) (consume_quoted s))"

definition consumeValue :: "string \<Rightarrow> string \<times> string" where
  "consumeValue v =
     (if v = [] then ([], [])
      else if hd v \<noteq> CHR 0x22 then consumeToken v
      else (case consume_quoted (tl v) of None \<Rightarrow> ([], v) | Some r \<Rightarrow> r))"

text \<open>\<^verbatim>\<open>strings.TrimLeftFunc(v, unicode.IsSpace)\<close>.\<close>

definition trim_left_space :: "string \<Rightarrow> string" where
  "trim_left_space s = strip_prefixes (length s) space_runes s"

text \<open>No parameter is the empty name in Go; here it is \<^const>\<open>None\<close>.\<close>

definition consumeMediaParam :: "string \<Rightarrow> (string \<times> string \<times> string) option" where
  "consumeMediaParam v =
     (let rest = trim_left_space v
      in if \<not> has_prefix rest '';'' then None
         else (case consumeToken (trim_left_space (tl rest)) of (param, rest1) \<Rightarrow>
           let name = map ascii_lower param; rest2 = trim_left_space rest1
           in if name = [] \<or> \<not> has_prefix rest2 ''='' then None
              else let rest3 = trim_left_space (tl rest2)
                   in (case consumeValue rest3 of (value, rest4) \<Rightarrow>
                         if value = [] \<and> rest4 = rest3 then None else Some (name, value, rest4))))"

section \<open>Termination\<close>

lemma strip_prefixes_length: "length (strip_prefixes n ps s) \<le> length s"
proof (induction n ps s rule: strip_prefixes.induct)
  case (2 n ps s)
  then show ?case by (fastforce split: option.splits intro: order_trans)
qed simp

lemma trim_left_space_length: "length (trim_left_space s) \<le> length s"
  by (simp add: trim_left_space_def strip_prefixes_length)

lemma consume_quoted_length: "consume_quoted s = Some (x, r) \<Longrightarrow> length r < length s"
proof (induction s arbitrary: x r rule: consume_quoted.induct)
  case (2 c s)
  then show ?case by (fastforce split: if_splits list.splits)
qed simp

lemma consumeValue_length: "length (snd (consumeValue v)) \<le> length v"
proof (cases "consume_quoted (tl v)")
  case None
  then show ?thesis by (auto simp: consumeValue_def consumeToken_def length_dropWhile_le)
next
  case (Some p)
  then have "length (snd p) < length (tl v)" using consume_quoted_length [of "tl v" "fst p" "snd p"] by simp
  with Some show ?thesis by (auto simp: consumeValue_def consumeToken_def length_dropWhile_le)
qed

lemma consumeMediaParam_length:
  assumes "consumeMediaParam v = Some (key, val, rest)"
  shows "length rest < length v"
proof -
  let ?r = "trim_left_space v"
  let ?r1 = "snd (consumeToken (trim_left_space (tl ?r)))"
  let ?r3 = "trim_left_space (tl (trim_left_space ?r1))"
  have s: "?r \<noteq> []" "rest = snd (consumeValue ?r3)"
    using assms by (auto simp: consumeMediaParam_def Let_def has_prefix_def split: prod.splits if_splits)
  have "length rest \<le> length ?r3" using s(2) consumeValue_length by simp
  also have "\<dots> \<le> length ?r1" using trim_left_space_length [of "tl (trim_left_space ?r1)"] trim_left_space_length [of ?r1] by simp
  also have "\<dots> \<le> length (tl ?r)"
    using trim_left_space_length [of "tl ?r"] by (auto simp: consumeToken_def intro: order_trans [OF length_dropWhile_le])
  also have "\<dots> < length v" using s(1) trim_left_space_length [of v] by (cases ?r) auto
  finally show ?thesis .
qed

section \<open>The parser\<close>

function media_params :: "(string \<times> string) list \<Rightarrow> string \<Rightarrow> bool" where
  "media_params seen v =
     (let v1 = trim_left_space v
      in if v1 = [] then True
         else (case consumeMediaParam v1 of
                 None \<Rightarrow> trim_space v1 = '';''
               | Some (key, val, rest) \<Rightarrow>
                   if (case map_of seen key of None \<Rightarrow> False | Some old \<Rightarrow> old \<noteq> val) then False
                   else media_params ((key, val) # seen) rest))"
  by pat_completeness auto
termination
  by (relation "measure (\<lambda>(seen, v). length v)")
    (auto dest!: consumeMediaParam_length intro: less_le_trans [OF _ trim_left_space_length])

declare media_params.simps [simp del]

definition checkMediaTypeDisposition :: "string \<Rightarrow> bool" where
  "checkMediaTypeDisposition s =
     (case consumeToken s of (typ, rest) \<Rightarrow>
        if typ = [] then False
        else if rest = [] then True
        else if \<not> has_prefix rest ''/'' then False
        else (case consumeToken (tl rest) of (subtype, rest1) \<Rightarrow> subtype \<noteq> [] \<and> rest1 = []))"

definition ParseMediaType :: "(string \<Rightarrow> string) \<Rightarrow> string \<Rightarrow> bool" where
  "ParseMediaType uni_lower v =
     (let base = fst (cut CHR '';'' v)
      in checkMediaTypeDisposition (trim_space (to_lower uni_lower base)) \<and> media_params [] (drop (length base) v))"

section \<open>Parameters with token values\<close>

definition token_text :: "string \<Rightarrow> bool" where
  "token_text s \<longleftrightarrow> s \<noteq> [] \<and> list_all isTokenChar s"

definition param_text :: "string \<times> string \<Rightarrow> string" where
  "param_text p = '';'' @ fst p @ ''='' @ snd p"

definition params_text :: "(string \<times> string) list \<Rightarrow> string" where
  "params_text ps = concat (map param_text ps)"

definition lower_name :: "string \<times> string \<Rightarrow> string \<times> string" where
  "lower_name p = (map ascii_lower (fst p), snd p)"

lemma token_char_graphic: "isTokenChar c \<Longrightarrow> graphic c"
  by (auto simp: isTokenChar_def graphic_def)

lemma not_token [simp]: "\<not> isTokenChar CHR '';''" "\<not> isTokenChar CHR ''=''" "\<not> isTokenChar CHR ''/''" "\<not> isTokenChar CHR 0x22"
  by (simp_all add: isTokenChar_def isTSpecial_def)

lemma separator_graphic [simp]: "graphic CHR '';''" "graphic CHR ''=''"
  by (simp_all add: graphic_def)

lemma trim_left_graphic: "(s \<noteq> [] \<Longrightarrow> graphic (hd s)) \<Longrightarrow> trim_left_space s = s"
  unfolding trim_left_space_def using space_runes_ends by (intro strip_prefixes_graphic) auto

lemma trim_left_token: "token_text t \<Longrightarrow> trim_left_space (t @ s) = t @ s"
  by (rule trim_left_graphic) (cases t; auto simp: token_text_def token_char_graphic)

lemma consumeToken_reads: "list_all isTokenChar t \<Longrightarrow> (s \<noteq> [] \<Longrightarrow> \<not> isTokenChar (hd s)) \<Longrightarrow> consumeToken (t @ s) = (t, s)"
  by (cases s) (auto simp: consumeToken_def list_all_iff)

lemma param_reads:
  assumes "token_text k" "token_text v" "s \<noteq> [] \<Longrightarrow> \<not> isTokenChar (hd s)"
  shows "consumeMediaParam (param_text (k, v) @ s) = Some (map ascii_lower k, v, s)"
proof -
  have t: "trim_left_space (c # x) = c # x" if "graphic c" for c x by (rule trim_left_graphic) (simp add: that)
  have k: "consumeToken (k @ CHR ''='' # v @ s) = (k, CHR ''='' # v @ s)"
    using assms(1) by (intro consumeToken_reads) (simp_all add: token_text_def)
  have "v \<noteq> []" "hd (v @ s) \<noteq> CHR 0x22" using assms(2) by (cases v; auto simp: token_text_def)+
  moreover have "consumeToken (v @ s) = (v, s)" using assms(2,3) by (intro consumeToken_reads) (simp_all add: token_text_def)
  ultimately have "consumeValue (v @ s) = (v, s)" by (simp add: consumeValue_def)
  then show ?thesis
    using assms(1) \<open>v \<noteq> []\<close> k trim_left_token [OF assms(1), of "CHR ''='' # v @ s"] trim_left_token [OF assms(2), of s]
    by (simp add: consumeMediaParam_def param_text_def Let_def t has_prefix_def token_text_def)
qed

lemma params_head: "params_text ps \<noteq> [] \<Longrightarrow> hd (params_text ps) = CHR '';''"
  by (cases ps) (simp_all add: params_text_def param_text_def)

lemma single_valued_insert_map_of:
  assumes "single_valued (set seen)"
  shows "single_valued (insert (k, v) (set seen)) \<longleftrightarrow> \<not> (\<exists>old. map_of seen k = Some old \<and> old \<noteq> v)"
proof -
  have m: "map_of seen k = Some old \<longleftrightarrow> (k, old) \<in> set seen" for old
  proof
    assume "(k, old) \<in> set seen"
    then obtain w where "map_of seen k = Some w" by (metis map_of_eq_None_iff not_None_eq image_eqI fst_conv)
    with \<open>(k, old) \<in> set seen\<close> assms show "map_of seen k = Some old" by (metis map_of_SomeD single_valuedD)
  qed (rule map_of_SomeD)
  show ?thesis using assms unfolding m single_valued_def by auto
qed

lemma params_accepted:
  assumes "list_all (\<lambda>p. token_text (fst p) \<and> token_text (snd p)) ps" "single_valued (set seen)"
  shows "media_params seen (params_text ps) \<longleftrightarrow> single_valued (set seen \<union> set (map lower_name ps))"
  using assms
proof (induction ps arbitrary: seen)
  case Nil
  then show ?case by (simp add: params_text_def media_params.simps trim_left_space_def)
next
  case (Cons p ps)
  obtain k v where p: "p = (k, v)" by (cases p)
  have t: "trim_left_space (params_text (p # ps)) = params_text (p # ps)" "params_text (p # ps) \<noteq> []"
    by (auto simp: params_text_def param_text_def intro!: trim_left_graphic)
  have "consumeMediaParam (param_text (k, v) @ params_text ps) = Some (map ascii_lower k, v, params_text ps)"
    using Cons.prems(1) params_head [of ps] by (intro param_reads) (auto simp: p)
  then have c: "consumeMediaParam (params_text (p # ps)) = Some (map ascii_lower k, v, params_text ps)"
    by (simp add: params_text_def p)
  let ?l = "map ascii_lower k"
  have step: "media_params seen (params_text (p # ps)) \<longleftrightarrow>
      \<not> (\<exists>old. map_of seen ?l = Some old \<and> old \<noteq> v) \<and> media_params ((?l, v) # seen) (params_text ps)"
    using c t by (simp add: media_params.simps [of seen "params_text (p # ps)"] split: option.split)
  show ?case
  proof (cases "\<exists>old. map_of seen ?l = Some old \<and> old \<noteq> v")
    case True
    then have "\<not> single_valued (insert (?l, v) (set seen))" using single_valued_insert_map_of [OF Cons.prems(2)] by blast
    then have "\<not> single_valued (set seen \<union> set (map lower_name (p # ps)))"
      by (auto simp: p lower_name_def dest: single_valued_subset [rotated])
    with True step show ?thesis by simp
  next
    case False
    then have "single_valued (set ((?l, v) # seen))" using single_valued_insert_map_of [OF Cons.prems(2)] by simp
    from Cons.IH [OF _ this] Cons.prems(1) False show ?thesis unfolding step by (simp add: p lower_name_def)
  qed
qed

lemma token_char_lower:
  assumes "isTokenChar c"
  shows "isTokenChar (ascii_lower c)"
proof (cases "isUpper c")
  case True
  then have o: "ord (ascii_lower c) = ord c + 32" "65 \<le> ord c" "ord c \<le> 90"
    by (auto simp: ascii_lower_def isUpper_def intro!: ord_chr)
  then have "isAlpha (ascii_lower c)" by (simp add: isAlpha_def)
  moreover have "\<not> isTSpecial d" if "isAlpha d" for d
    using that by (auto simp: isTSpecial_def isAlpha_def)
  ultimately show ?thesis using o by (simp add: isTokenChar_def)
qed (simp add: ascii_lower_def assms)

lemma token_lower: "list_all isTokenChar t \<Longrightarrow> list_all isTokenChar (map ascii_lower t)"
  by (simp add: list_all_iff token_char_lower)

lemma token_ascii: "isTokenChar c \<Longrightarrow> isASCII c"
  by (simp add: isTokenChar_def isASCII_def)

lemma disposition_accepted:
  assumes "token_text t" "token_text u"
  shows "checkMediaTypeDisposition (t @ CHR ''/'' # u)"
proof -
  have "consumeToken (t @ CHR ''/'' # u) = (t, CHR ''/'' # u)" "consumeToken (u @ []) = (u, [])"
    using assms by (intro consumeToken_reads; simp add: token_text_def)+
  then show ?thesis using assms by (simp add: checkMediaTypeDisposition_def has_prefix_def token_text_def)
qed

lemma media_type_accepted:
  assumes "token_text t" "token_text u" "list_all (\<lambda>p. token_text (fst p) \<and> token_text (snd p)) ps"
  shows "ParseMediaType uni_lower (t @ CHR ''/'' # u @ params_text ps) \<longleftrightarrow> single_valued (set (map lower_name ps))"
proof -
  let ?b = "t @ CHR ''/'' # u"
  have tk: "list_all isTokenChar t" "list_all isTokenChar u" "t \<noteq> []" "u \<noteq> []" using assms(1,2) by (auto simp: token_text_def)
  have n: "CHR '';'' \<notin> set ?b" using tk by (auto simp: list_all_iff)
  have b: "fst (cut CHR '';'' (?b @ params_text ps)) = ?b"
  proof (cases "params_text ps")
    case (Cons c s)
    then have "c = CHR '';''" using params_head [of ps] by simp
    moreover have "takeWhile (\<lambda>x. x \<noteq> CHR '';'') (?b @ CHR '';'' # s) = ?b" using n by (subst takeWhile_append2) auto
    ultimately show ?thesis using Cons by (simp add: cut_def)
  qed (use n in \<open>simp add: cut_def\<close>)
  have "list_all isASCII ?b" using tk token_ascii by (auto simp: list_all_iff isASCII_def)
  moreover have "ascii_lower CHR ''/'' = CHR ''/''" by (simp add: ascii_lower_def isUpper_def)
  ultimately have l: "to_lower uni_lower ?b = map ascii_lower t @ CHR ''/'' # map ascii_lower u" by (simp add: to_lower_def)
  have g: "graphic c" if "c \<in> set (map ascii_lower t @ map ascii_lower u)" for c
    using that token_lower [OF tk(1)] token_lower [OF tk(2)] token_char_graphic by (auto simp: list_all_iff)
  then have "trim_space (to_lower uni_lower ?b) = to_lower uni_lower ?b"
    using tk unfolding l by (intro trim_space_graphic) (auto simp: hd_map last_map)
  moreover have "checkMediaTypeDisposition (to_lower uni_lower ?b)"
    unfolding l by (rule disposition_accepted) (use tk token_lower in \<open>auto simp: token_text_def\<close>)
  ultimately show ?thesis
    using b params_accepted [OF assms(3), of "[]"] by (simp add: ParseMediaType_def Let_def)
qed

end
