(* ===== verification/CMW.thy ===== *)
theory CMW
  imports IDToken JWT GoMap MediaType
begin

text \<open>
  \<^verbatim>\<open>cmw.go\<close>: RATS conceptual message wrappers.  A \<^verbatim>\<open>CMW\<close> struct has two pointers, so that the
  type also holds the values with none or both of them set.  A Go map from labels is a list
  of pairs in the order of the labels, the order in which \<^verbatim>\<open>json.Marshal\<close> emits it; every
  error of the file wraps \<^verbatim>\<open>ErrInvalidClaim\<close>, so the order in which a loop over a map meets the
  first one does not show.  \<^verbatim>\<open>url.Parse\<close> and the
  Unicode lower-case tables are parameters.

  Shown: what is parsed is valid and bounded in depth; a valid message is emitted, and is read
  back exactly when no record in it has an empty value; and the round trip through a signed
  token.
\<close>

section \<open>Messages\<close>

definition CMWClaimName :: string where "CMWClaimName = ''cmw''"
definition CMWContentType :: string where "CMWContentType = ''application/cmw+json''"
definition cmwCollectionTypeKey :: string where "cmwCollectionTypeKey = ''__cmwc_t''"
definition maxCMWDepth :: int where "maxCMWDepth = 16"

type_synonym cmw_indicator = "32 word"

record cmw_record =
  rec_Type :: string
  rec_Value :: bytes
  rec_Indicator :: "cmw_indicator option"

datatype cmw = CMW (cmw_Record: "cmw_record option") (cmw_Collection: "cmw_collection option")
  and cmw_collection = CMWCollection (col_Type: string) (col_Members: "(string \<times> cmw) list")

record cmw_env =
  ce_lower :: "string \<Rightarrow> string"
  ce_parse_url :: "string \<Rightarrow> go_url option"

definition cmwErr :: go_error where "cmwErr = [ErrInvalidClaim]"

section \<open>Patterns\<close>

definition isAlnum :: "char \<Rightarrow> bool" where
  "isAlnum c \<longleftrightarrow> isUpper c \<or> isLower c \<or> isDigit c"

definition media_name_part :: "string \<Rightarrow> bool" where
  "media_name_part s \<longleftrightarrow> s \<noteq> [] \<and> isAlnum (hd s)
     \<and> list_all (\<lambda>c. isAlnum c \<or> c \<in> set ''!#$&^_.+-'') (tl s) \<and> len (tl s) \<le> 126"

definition cmwMediaName :: "string \<Rightarrow> bool" where
  "cmwMediaName s \<longleftrightarrow> (case split_on CHR ''/'' s of [a, b] \<Rightarrow> media_name_part a \<and> media_name_part b | _ \<Rightarrow> False)"

definition cmwBase64URL :: "string \<Rightarrow> bool" where
  "cmwBase64URL s \<longleftrightarrow> s \<noteq> [] \<and> list_all (\<lambda>c. isAlnum c \<or> c = CHR ''_'' \<or> c = CHR ''-'') s"

definition oid_arc :: "string \<Rightarrow> bool" where
  "oid_arc s \<longleftrightarrow> s = ''0'' \<or> (s \<noteq> [] \<and> isDigit (hd s) \<and> hd s \<noteq> CHR ''0'' \<and> list_all isDigit (tl s))"

definition cmwOIDPattern :: "string \<Rightarrow> bool" where
  "cmwOIDPattern s \<longleftrightarrow> hd (split_on CHR ''.'' s) \<in> {''0'', ''1'', ''2''} \<and> list_all oid_arc (tl (split_on CHR ''.'' s))"

definition validateCMWMediaType :: "cmw_env \<Rightarrow> string \<Rightarrow> go_error option" where
  "validateCMWMediaType E mediaType =
     (case cut CHR '';'' mediaType of (name, _, hasParams) \<Rightarrow>
        if \<not> cmwMediaName (trim_right name '' '') then Some cmwErr
        else if hasParams \<and> \<not> ParseMediaType (ce_lower E) mediaType then Some cmwErr
        else None)"

definition validateCMWCollectionType :: "cmw_env \<Rightarrow> string \<Rightarrow> go_error option" where
  "validateCMWCollectionType E value =
     (if cmwOIDPattern value then None
      else if CHR '':'' \<in> set value \<and> ValidateStringOrURI (ce_parse_url E) value = None then None
      else Some cmwErr)"

section \<open>Validation and emission\<close>

fun cmw_validate :: "cmw_env \<Rightarrow> int \<Rightarrow> cmw \<Rightarrow> go_error option"
  and col_validate :: "cmw_env \<Rightarrow> int \<Rightarrow> cmw_collection \<Rightarrow> go_error option"
  and validate_members :: "cmw_env \<Rightarrow> int \<Rightarrow> (string \<times> cmw) list \<Rightarrow> go_error option" where
  "cmw_validate E depth (CMW r col) =
     (if depth > maxCMWDepth then Some cmwErr
      else case r of
        Some record \<Rightarrow> if col \<noteq> None then Some cmwErr else validateCMWMediaType E (rec_Type record)
      | None \<Rightarrow> (case col of Some collection \<Rightarrow> col_validate E depth collection | None \<Rightarrow> Some cmwErr))"
| "col_validate E depth (CMWCollection typ ms) =
     (case (if typ \<noteq> [] then validateCMWCollectionType E typ else None) of
        Some e \<Rightarrow> Some e
      | None \<Rightarrow> if len ms = 0 then Some cmwErr else validate_members E depth ms)"
| "validate_members E depth [] = None"
| "validate_members E depth ((label, member) # ms) =
     (if label = cmwCollectionTypeKey then Some cmwErr
      else case cmw_validate E (depth + 1) member of
        Some e \<Rightarrow> Some e
      | None \<Rightarrow> validate_members E depth ms)"

definition Validate :: "cmw_env \<Rightarrow> cmw \<Rightarrow> go_error option" where
  "Validate E c = cmw_validate E 0 c"

definition marshal_record :: "cmw_record \<Rightarrow> bytes" where
  "marshal_record r = enc_array ([enc_str (rec_Type r), enc_str (b64_encode (rec_Value r))]
     @ (case rec_Indicator r of None \<Rightarrow> [] | Some ind \<Rightarrow> [FormatInt (uint ind)]))"

text \<open>
  Members are emitted by their own \<^verbatim>\<open>MarshalJSON\<close>, which validates them again, from depth 0.
  \<^verbatim>\<open>marshal\<close> dereferences \<^verbatim>\<open>Collection\<close> when there is no record.
\<close>

fun cmw_marshal :: "cmw_env \<Rightarrow> cmw \<Rightarrow> bytes result"
  and marshal_members :: "cmw_env \<Rightarrow> (string \<times> cmw) list \<Rightarrow> (string \<times> bytes) list \<Rightarrow> bytes result" where
  "cmw_marshal E (CMW r col) =
     (case r of
        Some record \<Rightarrow> Inr (marshal_record record)
      | None \<Rightarrow>
          (case col of
             None \<Rightarrow> Inl [OtherError ''nil pointer dereference'']
           | Some (CMWCollection typ ms) \<Rightarrow>
               marshal_members E ms (if typ \<noteq> [] then [(cmwCollectionTypeKey, enc_str typ)] else [])))"
| "marshal_members E [] out = Inr (enc_object out)"
| "marshal_members E ((label, member) # ms) out =
     (case Validate E member of
        Some e \<Rightarrow> Inl e
      | None \<Rightarrow>
          (case cmw_marshal E member of
             Inl e \<Rightarrow> Inl e
           | Inr raw \<Rightarrow> marshal_members E ms (map_put label raw out)))"

definition CMW_MarshalJSON :: "cmw_env \<Rightarrow> cmw \<Rightarrow> bytes result" where
  "CMW_MarshalJSON E c = (case Validate E c of Some e \<Rightarrow> Inl e | None \<Rightarrow> cmw_marshal E c)"

section \<open>Parsing\<close>

text \<open>\<^verbatim>\<open>uint32\<close>: a literal with neither sign, fraction nor exponent, within 32 bits; null is 0.\<close>

fun dec_uint32 :: "json \<Rightarrow> 32 word result" where
  "dec_uint32 (JNum lit) =
     (if list_all isDigit lit \<and> digits_val lit < 2 ^ 32 then Inr (word_of_int (digits_val lit)) else Inl [JSONError])"
| "dec_uint32 JNull = Inr 0"
| "dec_uint32 _ = Inl [JSONError]"

fun dec_values :: "json \<Rightarrow> string list result" where
  "dec_values (JArr vs) = Inr (map fst vs)"
| "dec_values JNull = Inr []"
| "dec_values _ = Inl [JSONError]"

definition record_indicator :: "string list \<Rightarrow> cmw_indicator option result" where
  "record_indicator elems =
     (if len elems = 3 then
        (case decodeStrict dec_uint32 (elems ! 2) of Inl _ \<Rightarrow> Inl cmwErr | Inr n \<Rightarrow> Inr (Some n))
      else Inr None)"

definition parseCMWRecord :: "cmw_env \<Rightarrow> bytes \<Rightarrow> cmw_record result" where
  "parseCMWRecord E data =
     (case decodeStrict dec_values data of
        Inl _ \<Rightarrow> Inl cmwErr
      | Inr elems \<Rightarrow>
          if len elems < 2 \<or> len elems > 3 then Inl cmwErr
          else case decodeStrict dec_string (elems ! 0) of
            Inl _ \<Rightarrow> Inl cmwErr
          | Inr mediaType \<Rightarrow>
              (case validateCMWMediaType E mediaType of
                 Some e \<Rightarrow> Inl e
               | None \<Rightarrow>
                   (case decodeStrict dec_string (elems ! 1) of
                      Inl _ \<Rightarrow> Inl cmwErr
                    | Inr encoded \<Rightarrow>
                        if \<not> cmwBase64URL encoded then Inl cmwErr
                        else (case base64_decode False encoded of
                                Inl _ \<Rightarrow> Inl cmwErr
                              | Inr v \<Rightarrow>
                                  (case record_indicator elems of
                                     Inl e \<Rightarrow> Inl e
                                   | Inr ind \<Rightarrow> Inr \<lparr>rec_Type = mediaType, rec_Value = v, rec_Indicator = ind\<rparr>)))))"

text \<open>The loop over the members; \<open>parse\<close> is \<^verbatim>\<open>parseCMW\<close> one level deeper.\<close>

fun collect_members :: "cmw_env \<Rightarrow> (bytes \<Rightarrow> cmw result) \<Rightarrow> members \<Rightarrow> string \<Rightarrow> (string \<times> cmw) list \<Rightarrow>
    (string \<times> (string \<times> cmw) list) result" where
  "collect_members E parse [] typ acc = Inr (typ, acc)"
| "collect_members E parse ((label, raw, _) # ms) typ acc =
     (if label = cmwCollectionTypeKey then
        (case decodeStrict dec_string raw of
           Inl _ \<Rightarrow> Inl cmwErr
         | Inr typ' \<Rightarrow>
             (case validateCMWCollectionType E typ' of
                Some e \<Rightarrow> Inl e
              | None \<Rightarrow> collect_members E parse ms typ' acc))
      else (case parse raw of
              Inl e \<Rightarrow> Inl e
            | Inr member \<Rightarrow> collect_members E parse ms typ (map_put label member acc)))"

definition parseCMWCollection :: "cmw_env \<Rightarrow> (bytes \<Rightarrow> cmw result) \<Rightarrow> bytes \<Rightarrow> cmw_collection result" where
  "parseCMWCollection E parse data =
     (case decodeStrict dec_members data of
        Inl _ \<Rightarrow> Inl cmwErr
      | Inr ms \<Rightarrow>
          (case collect_members E parse ms [] [] of
             Inl e \<Rightarrow> Inl e
           | Inr (typ, out) \<Rightarrow> if len out = 0 then Inl cmwErr else Inr (CMWCollection typ out)))"

function parseCMW :: "cmw_env \<Rightarrow> int \<Rightarrow> bytes \<Rightarrow> cmw result" where
  "parseCMW E depth data =
     (if depth > maxCMWDepth then Inl cmwErr
      else
        let trimmed = trim_left data [chr 32, chr 9, chr 13, chr 10]
        in if trimmed = [] then Inl cmwErr
           else if trimmed ! 0 = CHR ''['' then
             (case parseCMWRecord E data of Inl e \<Rightarrow> Inl e | Inr record \<Rightarrow> Inr (CMW (Some record) None))
           else if trimmed ! 0 = CHR ''{'' then
             (case parseCMWCollection E (\<lambda>raw. parseCMW E (depth + 1) raw) data of
                Inl e \<Rightarrow> Inl e | Inr collection \<Rightarrow> Inr (CMW None (Some collection)))
           else Inl cmwErr)"
  by pat_completeness auto
termination by (relation "measure (\<lambda>(E, depth, data). nat (maxCMWDepth + 1 - depth))") auto

declare parseCMW.simps [simp del]

definition ParseCMW :: "cmw_env \<Rightarrow> bytes \<Rightarrow> cmw result" where
  "ParseCMW E data = parseCMW E 0 data"

text \<open>\<^verbatim>\<open>UnmarshalJSON\<close>: the error and the value of the receiver afterwards.\<close>

definition CMW_UnmarshalJSON :: "cmw_env \<Rightarrow> cmw \<Rightarrow> bytes \<Rightarrow> go_error option \<times> cmw" where
  "CMW_UnmarshalJSON E c data = (case ParseCMW E data of Inl e \<Rightarrow> (Some e, c) | Inr parsed \<Rightarrow> (None, parsed))"

section \<open>Claims and signed messages\<close>

record cmw_claims =
  cc_Registered :: registered_claims
  cc_CMW :: "cmw option"

definition cmw_claims_field :: "cmw_env \<Rightarrow> cmw_claims \<Rightarrow> string \<Rightarrow> string \<Rightarrow> json \<Rightarrow> cmw_claims result" where
  "cmw_claims_field E r n raw v =
     (if n = CMWClaimName then set_res (\<lambda>x. r\<lparr>cc_CMW := x\<rparr>) (dec_pointer (\<lambda>raw _. ParseCMW E raw) raw v)
      else embedded claims_field (cc_Registered r) (\<lambda>x. r\<lparr>cc_Registered := x\<rparr>) n raw v)"

definition cmw_header :: "signer \<Rightarrow> sign_option option list \<Rightarrow> header" where
  "cmw_header s opts =
     (let cfg = apply_options applySign opts \<lparr>sc_typ = [], sc_contentType = []\<rparr>
      in zero_header\<lparr>h_Algorithm := signer_Algorithm s, h_Type := sc_typ cfg,
           h_ContentType := CMWContentType, h_KeyID := signer_KeyID s\<rparr>)"

definition SignCMW :: "cmw_env \<Rightarrow> crypto \<Rightarrow> cmw \<Rightarrow> signer option \<Rightarrow> sign_option option list \<Rightarrow> string result" where
  "SignCMW E c cmw signer opts =
     (case Validate E cmw of
        Some e \<Rightarrow> Inl e
      | None \<Rightarrow>
          (case signer of
             None \<Rightarrow> Inl [ErrUnsupportedAlgorithm]
           | Some s \<Rightarrow>
               if is_none (signer_Algorithm s) then Inl [ErrAlgorithmNotAllowed]
               else
                 let headerJSON = marshal_header (cmw_header s opts)
                 in case cmw_marshal E cmw of
                      Inl e \<Rightarrow> Inl e
                    | Inr payload \<Rightarrow>
                        let signingInput = Encode headerJSON @ ''.'' @ Encode payload
                        in case signer_Sign c s signingInput of
                             Inl e \<Rightarrow> Inl e
                           | Inr sig \<Rightarrow> Inr (signingInput @ ''.'' @ Encode sig)))"

definition ParseSignedCMW :: "cmw_env \<Rightarrow> crypto \<Rightarrow> (string \<Rightarrow> string) \<Rightarrow> time \<Rightarrow> string \<Rightarrow> key_lookup option \<Rightarrow>
    parse_option option list \<Rightarrow> cmw result" where
  "ParseSignedCMW E c uni_lower wall token keys opts =
     (let cfg = (apply_options applyParse opts (default_config wall))\<lparr>pc_rawPayload := True\<rparr>
      in case parseVerified c uni_lower token keys cfg of
           Inl e \<Rightarrow> Inl e
         | Inr (header, payload) \<Rightarrow>
             if \<not> typeMatches uni_lower (h_ContentType header) CMWContentType \<or> CHR ''/'' \<notin> set (h_ContentType header)
             then Inl [ErrTypeMismatch]
             else ParseCMW E payload)"

section \<open>Lemmas\<close>

subsection \<open>Validation\<close>

lemma validate_shallower:
  "cmw_validate E d c = None \<Longrightarrow> d' \<le> d \<Longrightarrow> cmw_validate E d' c = None"
  "col_validate E d col = None \<Longrightarrow> d' \<le> d \<Longrightarrow> col_validate E d' col = None"
  "validate_members E d ms = None \<Longrightarrow> d' \<le> d \<Longrightarrow> validate_members E d' ms = None"
proof (induction E d c and E d col and E d ms arbitrary: d' and d' and d' rule: cmw_validate_col_validate_validate_members.induct)
  case (1 E depth r col)
  have d: "\<not> maxCMWDepth < depth" "\<not> maxCMWDepth < d'" using "1.prems" by (auto split: if_splits)
  show ?case
  proof (cases "r = None \<and> col \<noteq> None")
    case True
    then obtain x where x: "r = None" "col = Some x" by blast
    then have "col_validate E depth x = None" using "1.prems" d by simp
    from "1.IH" [OF d(1) x this "1.prems"(2)] show ?thesis using x d by simp
  next
    case False
    then show ?thesis using "1.prems" d by (cases r) auto
  qed
next
  case (2 E depth t ms)
  have tt: "(if t \<noteq> [] then validateCMWCollectionType E t else None) = None" "len ms \<noteq> 0"
    using "2.prems"(1) by (auto split: option.splits if_splits)
  then have "validate_members E depth ms = None" using "2.prems"(1) by (simp split: option.splits if_splits)
  from "2.IH" [OF tt this "2.prems"(2)] show ?case using tt by simp
next
  case (4 E depth label member ms)
  then have l: "label \<noteq> cmwCollectionTypeKey" "cmw_validate E (depth + 1) member = None" "validate_members E depth ms = None"
    by (auto split: option.splits if_splits)
  have "cmw_validate E (d' + 1) member = None" "validate_members E d' ms = None"
    using "4.IH" l "4.prems"(2) by auto
  with l(1) show ?case by simp
qed simp

text \<open>
  A message whose strings are valid UTF-8 and whose maps are in order, and one without an
  empty record value.
\<close>

fun cmw_clean :: "cmw \<Rightarrow> bool" and members_clean :: "(string \<times> cmw) list \<Rightarrow> bool" where
  "cmw_clean (CMW r col) \<longleftrightarrow> (case r of None \<Rightarrow> True | Some record \<Rightarrow> valid_utf8 (rec_Type record))
     \<and> (case col of None \<Rightarrow> True | Some (CMWCollection typ ms) \<Rightarrow> valid_utf8 typ \<and> ordered ms \<and> members_clean ms)"
| "members_clean [] \<longleftrightarrow> True"
| "members_clean ((label, member) # ms) \<longleftrightarrow> valid_utf8 label \<and> cmw_clean member \<and> members_clean ms"

fun cmw_filled :: "cmw \<Rightarrow> bool" and members_filled :: "(string \<times> cmw) list \<Rightarrow> bool" where
  "cmw_filled (CMW r col) \<longleftrightarrow> (case r of None \<Rightarrow> True | Some record \<Rightarrow> rec_Value record \<noteq> [])
     \<and> (case col of None \<Rightarrow> True | Some (CMWCollection typ ms) \<Rightarrow> members_filled ms)"
| "members_filled [] \<longleftrightarrow> True"
| "members_filled ((label, member) # ms) \<longleftrightarrow> cmw_filled member \<and> members_filled ms"

subsection \<open>Records\<close>

lemma decodeStrict_reads_as: "reads_as k raw v \<Longrightarrow> k \<le> max_depth \<Longrightarrow> decodeStrict dec raw = dec v"
  by (simp add: decodeStrict_def json_text_reads_as)

lemma decodeStrict_enc_str: "valid_utf8 s \<Longrightarrow> decodeStrict dec_string (enc_str s) = Inr s"
  by (simp add: decodeStrict_reads_as [OF reads_as_str] max_depth_def)

lemma dec_uint32_FormatInt: "dec_uint32 (JNum (FormatInt (uint w))) = Inr w"
proof -
  have "uint w < 2 ^ 32" using uint_lt2p [of w] by simp
  then show ?thesis
    using nat_digits_all [of "uint w"] digits_val_nat_digits [of "uint w"] by (simp add: FormatInt_def)
qed

lemma b64_char_alnum: "b64_char c \<Longrightarrow> isAlnum c \<or> c = CHR ''_'' \<or> c = CHR ''-''"
  by (auto simp: b64_char_def dec_char_def isAlnum_def split: if_splits)

lemma base64_decode_encode: "base64_decode strict (b64_encode b) = Inr b"
proof -
  have "filter (\<lambda>c. \<not> is_crlf c) (b64_encode b) = b64_encode b"
    using b64_encode_chars [of b] b64_char_not_special by (intro filter_True) (auto simp: list_all_iff)
  then show ?thesis by (simp add: base64_decode_def decode_encode)
qed

lemma cmwBase64URL_Nil [simp]: "\<not> cmwBase64URL []"
  by (simp add: cmwBase64URL_def)

lemma cmwBase64URL_encode: "cmwBase64URL (b64_encode b) \<longleftrightarrow> b \<noteq> []"
  using b64_encode_chars [of b] b64_char_alnum
  by (cases b rule: b64_encode.cases) (auto simp: cmwBase64URL_def list_all_iff)

definition record_texts :: "cmw_record \<Rightarrow> string list" where
  "record_texts r = [enc_str (rec_Type r), enc_str (b64_encode (rec_Value r))]
     @ (case rec_Indicator r of None \<Rightarrow> [] | Some ind \<Rightarrow> [FormatInt (uint ind)])"

definition record_values :: "cmw_record \<Rightarrow> json list" where
  "record_values r = [JStr (rec_Type r), JStr (b64_encode (rec_Value r))]
     @ (case rec_Indicator r of None \<Rightarrow> [] | Some ind \<Rightarrow> [JNum (FormatInt (uint ind))])"

lemma marshal_record_reads_as:
  assumes "valid_utf8 (rec_Type r)"
  shows "reads_as 1 (marshal_record r) (JArr (zip (record_texts r) (record_values r)))"
proof -
  have "valid_utf8 (b64_encode (rec_Value r))" using valid_utf8_Encode [of "rec_Value r"] by (simp add: Encode_def)
  then have "list_all2 (reads_as 0) (record_texts r) (record_values r)"
    using assms reads_as_str reads_as_FormatInt
    by (auto simp: record_texts_def record_values_def split: option.splits)
  from reads_as_array [OF this] show ?thesis by (simp add: marshal_record_def record_texts_def)
qed

lemma parse_marshal_record:
  assumes "valid_utf8 (rec_Type r)" "validateCMWMediaType E (rec_Type r) = None"
  shows "parseCMWRecord E (marshal_record r) = (if rec_Value r = [] then Inl cmwErr else Inr r)"
proof -
  have "decodeStrict dec_values (marshal_record r) = Inr (record_texts r)"
    using decodeStrict_reads_as [OF marshal_record_reads_as [OF assms(1)], of dec_values]
    by (simp add: max_depth_def record_texts_def record_values_def split: option.splits)
  moreover have "decodeStrict dec_string (enc_str (rec_Type r)) = Inr (rec_Type r)"
    "decodeStrict dec_string (enc_str (b64_encode (rec_Value r))) = Inr (b64_encode (rec_Value r))"
    using assms(1) valid_utf8_Encode [of "rec_Value r"] by (simp_all add: decodeStrict_enc_str Encode_def)
  moreover have "record_indicator (record_texts r) = Inr (rec_Indicator r)"
    by (auto simp: record_indicator_def record_texts_def dec_uint32_FormatInt len_def max_depth_def
        decodeStrict_reads_as [OF reads_as_FormatInt] simp del: dec_uint32.simps split: option.splits)
  ultimately show ?thesis
    using assms(2) by (auto simp: parseCMWRecord_def record_texts_def cmwBase64URL_encode base64_decode_encode len_def split: option.splits)
qed

subsection \<open>Collections\<close>

lemma list_all2_right: "list_all2 P xs ys \<Longrightarrow> y \<in> set ys \<Longrightarrow> \<exists>x \<in> set xs. P x y"
  by (induction rule: list_all2_induct) auto

lemma list_all2_left: "list_all2 P xs ys \<Longrightarrow> x \<in> set xs \<Longrightarrow> \<exists>y \<in> set ys. P x y"
  by (induction rule: list_all2_induct) auto

lemma members_clean_iff: "members_clean ms \<longleftrightarrow> (\<forall>(label, member) \<in> set ms. valid_utf8 label \<and> cmw_clean member)"
  by (induction ms) auto

lemma members_filled_iff: "members_filled ms \<longleftrightarrow> (\<forall>(label, member) \<in> set ms. cmw_filled member)"
  by (induction ms) auto

lemma validate_members_None:
  "validate_members E d ms = None \<longleftrightarrow> (\<forall>(label, member) \<in> set ms. label \<noteq> cmwCollectionTypeKey \<and> cmw_validate E (d + 1) member = None)"
  by (induction ms) (auto split: option.splits if_splits)

lemma marshal_members_Inr:
  assumes "list_all2 (\<lambda>(label, member) (label', raw). label' = label \<and> Validate E member = None \<and> cmw_marshal E member = Inr raw) ms raws"
  shows "marshal_members E ms out = Inr (enc_object (fold (\<lambda>(k, v) m. map_put k v m) raws out))"
  using assms by (induction arbitrary: out rule: list_all2_induct) auto

lemma collect_members_Inr:
  assumes "\<And>raw v. (cmwCollectionTypeKey, raw, v) \<in> set L \<Longrightarrow>
      decodeStrict dec_string raw = Inr t \<and> validateCMWCollectionType E t = None"
    and "\<And>label raw v. (label, raw, v) \<in> set L \<Longrightarrow> label \<noteq> cmwCollectionTypeKey \<Longrightarrow> parse raw = Inr (g label)"
  shows "collect_members E parse L t0 acc =
     Inr (if cmwCollectionTypeKey \<in> fst ` set L then t else t0,
          fold (\<lambda>(k, v) m. map_put k v m) (map (\<lambda>k. (k, g k)) (filter (\<lambda>k. k \<noteq> cmwCollectionTypeKey) (map fst L))) acc)"
  using assms
proof (induction L arbitrary: t0 acc)
  case (Cons x L)
  obtain label raw v where x: "x = (label, raw, v)" by (cases x)
  have IH: "collect_members E parse L t1 acc1 =
     Inr (if cmwCollectionTypeKey \<in> fst ` set L then t else t1,
          fold (\<lambda>(k, v) m. map_put k v m) (map (\<lambda>k. (k, g k)) (filter (\<lambda>k. k \<noteq> cmwCollectionTypeKey) (map fst L))) acc1)" for t1 acc1
    by (rule Cons.IH) (meson Cons.prems list.set_intros(2))+
  show ?case
    using Cons.prems(1) [of raw v] Cons.prems(2) [of label raw v] by (auto simp: x IH)
qed simp

lemma collect_members_error:
  assumes "\<And>label raw v e. (label, raw, v) \<in> set L \<Longrightarrow> label \<noteq> cmwCollectionTypeKey \<Longrightarrow> parse raw = Inl e \<Longrightarrow> e = cmwErr"
    "collect_members E parse L t acc = Inl e"
  shows "e = cmwErr"
  using assms
proof (induction L arbitrary: t acc)
  case (Cons x L)
  obtain label raw v where x: "x = (label, raw, v)" by (cases x)
  have IH: "collect_members E parse L t' acc' = Inl e \<Longrightarrow> e = cmwErr" for t' acc'
    by (rule Cons.IH) (use Cons.prems(1) in auto)
  then show ?case
    using Cons.prems(1) [of label raw v] Cons.prems(2)
    by (auto simp: x validateCMWCollectionType_def split: if_splits sum.splits option.splits)
qed simp

lemma collect_members_needs_all:
  "collect_members E parse L t acc = Inr r \<Longrightarrow> (label, raw, v) \<in> set L \<Longrightarrow> label \<noteq> cmwCollectionTypeKey \<Longrightarrow> \<exists>m. parse raw = Inr m"
  by (induction L arbitrary: t acc) (auto split: if_splits sum.splits option.splits)

lemma ordered_rebuild: "ordered m \<Longrightarrow> map (\<lambda>k. (k, the (map_of m k))) (map fst m) = m"
  by (rule alist_rebuild [OF ordered_distinct])

text \<open>What is emitted for a message, how it is read, and what parsing makes of it.\<close>

definition emits :: "cmw_env \<Rightarrow> int \<Rightarrow> cmw \<Rightarrow> bytes \<Rightarrow> bool" where
  "emits E d c raw \<longleftrightarrow> cmw_marshal E c = Inr raw \<and> (\<exists>v. reads_as (18 - d) raw v)
     \<and> parseCMW E d raw = (if cmw_filled c then Inr c else Inl cmwErr)"

lemma trim_left_bracket [simp]: "trim_left (CHR ''['' # s) [chr 32, chr 9, chr 13, chr 10] = CHR ''['' # s"
    "trim_left (CHR ''{'' # s) [chr 32, chr 9, chr 13, chr 10] = CHR ''{'' # s"
proof -
  have "CHR ''['' \<notin> set [chr 32, chr 9, chr 13, chr 10]" "CHR ''{'' \<notin> set [chr 32, chr 9, chr 13, chr 10]" by code_simp+
  then show "trim_left (CHR ''['' # s) [chr 32, chr 9, chr 13, chr 10] = CHR ''['' # s"
    "trim_left (CHR ''{'' # s) [chr 32, chr 9, chr 13, chr 10] = CHR ''{'' # s"
    by (simp_all add: trim_left_def)
qed

lemma emits_record:
  assumes "valid_utf8 (rec_Type r)" "validateCMWMediaType E (rec_Type r) = None" "d \<le> maxCMWDepth"
  shows "emits E d (CMW (Some r) None) (marshal_record r)"
proof -
  have "reads_as (18 - d) (marshal_record r) (JArr (zip (record_texts r) (record_values r)))"
    by (rule reads_as_mono [OF marshal_record_reads_as [OF assms(1)]]) (use assms(3) in \<open>simp add: maxCMWDepth_def\<close>)
  moreover have "\<exists>s. marshal_record r = CHR ''['' # s" by (simp add: marshal_record_def enc_array_def)
  ultimately show ?thesis
    using parse_marshal_record [OF assms(1,2)] assms(3) by (auto simp: emits_def parseCMW.simps [of E d "marshal_record r"])
qed


lemma members_read:
  assumes "\<And>label raw. (label, raw) \<in> set L \<Longrightarrow> valid_utf8 label \<and> (\<exists>v. reads_as k raw v)" "distinct (map fst L)" "0 \<le> k"
  obtains vs where "reads_as (k + 1) (enc_object L) (JObj vs)" "map (\<lambda>(label, raw, v). (label, raw)) vs = L"
proof -
  define vs where "vs = map (\<lambda>(label, raw). (label, raw, SOME v. reads_as k raw v)) L"
  have "list_all2 (\<lambda>(n, raw) (n', raw', v). n' = n \<and> raw' = raw \<and> valid_utf8 n \<and> reads_as k raw v) L vs"
    using assms(1) by (auto simp: vs_def list_all2_conv_all_nth split: prod.splits) (metis nth_mem someI_ex)+
  from reads_as_object [OF this assms(2,3)] have "reads_as (k + 1) (enc_object L) (JObj vs)" .
  moreover have "map (\<lambda>(label, raw, v). (label, raw)) vs = L" by (simp add: vs_def comp_def case_prod_beta)
  ultimately show ?thesis by (rule that)
qed

lemma parse_members_emitted:
  assumes vs: "map (\<lambda>(label, raw, v). (label, raw)) vs = (if t \<noteq> [] then map_put cmwCollectionTypeKey (enc_str t) raws else raws)"
    and t: "valid_utf8 t" "t \<noteq> [] \<Longrightarrow> validateCMWCollectionType E t = None"
    and ms: "list_all2 (\<lambda>(label, member) (label', raw). label' = label \<and> parse raw = (if cmw_filled member then Inr member else Inl cmwErr)) ms raws"
    and o: "ordered ms" "cmwCollectionTypeKey \<notin> fst ` set ms"
  shows "collect_members E parse vs [] [] = (if members_filled ms then Inr (t, ms) else Inl cmwErr)"
proof -
  let ?key = cmwCollectionTypeKey
  let ?L = "if t \<noteq> [] then map_put ?key (enc_str t) raws else raws"
  have keys: "map fst raws = map fst ms" using ms by (induction rule: list_all2_induct) auto
  then have key: "?key \<notin> fst ` set raws" using o(2) by (metis image_set)
  have fst_vs: "map fst vs = map fst ?L"
    using vs [THEN arg_cong, of "map fst"] by (simp add: comp_def case_prod_beta)
  have f: "filter (\<lambda>k. k \<noteq> ?key) (map fst vs) = map fst ms"
  proof -
    have "filter (\<lambda>x. fst x \<noteq> ?key) raws = raws" using key by (intro filter_True) force
    then show ?thesis unfolding fst_vs filter_map comp_def using filter_map_put [OF key] keys by simp
  qed
  have L: "(label, raw) \<in> set ?L" if "(label, raw, v) \<in> set vs" for label raw v
    using that vs [THEN arg_cong, of set] by force
  have mem: "label \<noteq> ?key \<Longrightarrow> (label, raw) \<in> set raws" "label = ?key \<Longrightarrow> raw = enc_str t \<and> t \<noteq> []"
    if "(label, raw, v) \<in> set vs" for label raw v
    using L [OF that] set_map_put [of ?key "enc_str t" raws] key by (force split: if_splits)+
  have p: "\<exists>member. (label, member) \<in> set ms \<and> parse raw = (if cmw_filled member then Inr member else Inl cmwErr)"
    if "(label, raw) \<in> set raws" for label raw
    using list_all2_right [OF ms that] by auto
  show ?thesis
  proof (cases "members_filled ms")
    case True
    have "collect_members E parse vs [] [] = Inr (if ?key \<in> fst ` set vs then t else [],
        fold (\<lambda>(k, v) m. map_put k v m) (map (\<lambda>k. (k, the (map_of ms k))) (filter (\<lambda>k. k \<noteq> ?key) (map fst vs))) [])"
    proof (rule collect_members_Inr)
      fix label raw v assume "(label, raw, v) \<in> set vs" "label \<noteq> ?key"
      then obtain member where "(label, member) \<in> set ms" "parse raw = (if cmw_filled member then Inr member else Inl cmwErr)"
        using mem(1) p by blast
      then show "parse raw = Inr (the (map_of ms label))"
        using True ordered_distinct [OF o(1)] by (auto simp: members_filled_iff)
    qed (use mem(2) t decodeStrict_enc_str in auto)
    moreover have "?key \<in> fst ` set vs \<longleftrightarrow> t \<noteq> []"
      using fst_vs [THEN arg_cong, of set] key by (auto split: if_splits)
    ultimately show ?thesis
      using True fold_map_put_append [of "[]" ms] o(1) unfolding f ordered_rebuild [OF o(1)] by auto
  next
    case False
    then obtain label member where m: "(label, member) \<in> set ms" "\<not> cmw_filled member" by (auto simp: members_filled_iff)
    then obtain raw where raw: "(label, raw) \<in> set raws" "parse raw = Inl cmwErr" using list_all2_left [OF ms m(1)] by auto
    have "set raws \<subseteq> set ?L" using filter_map_put [OF key, of "enc_str t", THEN arg_cong, of set] by auto
    then have "(label, raw) \<in> set ?L" "label \<noteq> ?key" using raw key by force+
    then obtain v where v: "(label, raw, v) \<in> set vs" "label \<noteq> ?key" using vs [THEN arg_cong, of set] by force
    have "collect_members E parse vs [] [] \<noteq> Inr r" for r using collect_members_needs_all [OF _ v] raw(2) by fastforce
    moreover have "collect_members E parse vs [] [] = Inl e \<Longrightarrow> e = cmwErr" for e
      by (erule collect_members_error [rotated]) (use mem(1) p in \<open>fastforce split: if_splits\<close>)
    ultimately show ?thesis using False by (cases "collect_members E parse vs [] []") auto
  qed
qed

lemma emits_collection:
  assumes "col_validate E d (CMWCollection t ms) = None" "valid_utf8 t" "ordered ms" "\<forall>label \<in> fst ` set ms. valid_utf8 label"
    "0 \<le> d" "d \<le> maxCMWDepth"
    and ms: "list_all2 (\<lambda>(label, member) (label', raw). label' = label \<and> emits E (d + 1) member raw) ms raws"
  shows "\<exists>raw. emits E d (CMW None (Some (CMWCollection t ms))) raw"
proof -
  let ?key = cmwCollectionTypeKey
  define L where "L = (if t \<noteq> [] then map_put ?key (enc_str t) raws else raws)"
  have t: "t \<noteq> [] \<Longrightarrow> validateCMWCollectionType E t = None" "ms \<noteq> []"
    and vm: "\<forall>(label, member) \<in> set ms. label \<noteq> ?key \<and> cmw_validate E (d + 1) member = None"
    using assms(1) by (auto simp: validate_members_None split: option.splits if_splits)
  have d: "0 \<le> 17 - d" "18 - (d + 1) = 17 - d" "18 - d \<le> max_depth" using assms(5,6) by (simp_all add: maxCMWDepth_def max_depth_def)
  have keys: "map fst raws = map fst ms" using ms by (induction rule: list_all2_induct) auto
  have key: "?key \<notin> fst ` set ms" "?key \<notin> fst ` set raws" using vm keys [THEN arg_cong, of set] by auto
  have o: "ordered raws" using assms(3) keys by simp
  have valid: "Validate E member = None" if "(label, member) \<in> set ms" for label member
    using vm validate_shallower(1) [of E "d + 1" member 0] assms(5) that by (auto simp: Validate_def)
  have "list_all2 (\<lambda>(label, member) (label', raw). label' = label \<and> Validate E member = None \<and> cmw_marshal E member = Inr raw) ms raws"
    by (rule list.rel_mono_strong [OF ms]) (use valid in \<open>auto simp: emits_def\<close>)
  from marshal_members_Inr [OF this] have m: "cmw_marshal E (CMW None (Some (CMWCollection t ms))) = Inr (enc_object L)"
    using fold_map_put_insert [OF o key(2)] fold_map_put_append [of "[]" raws] o by (simp add: L_def)
  have "\<forall>(label, raw) \<in> set raws. valid_utf8 label \<and> (\<exists>v. reads_as (17 - d) raw v)"
    using list_all2_right [OF ms] assms(4) d(2) unfolding emits_def by fastforce
  moreover have "valid_utf8 ?key" by code_simp
  moreover have "reads_as (17 - d) (enc_str t) (JStr t)" by (rule reads_as_mono [OF reads_as_str [OF assms(2)] d(1)])
  ultimately have "valid_utf8 label \<and> (\<exists>v. reads_as (17 - d) raw v)" if "(label, raw) \<in> set L" for label raw
    using that set_map_put [of ?key "enc_str t" raws] by (auto simp: L_def split: if_splits)
  moreover have "distinct (map fst L)"
    using ordered_distinct [OF o] ordered_distinct [OF map_put_ordered [OF o]] by (simp add: L_def)
  ultimately obtain vs where vs: "reads_as (18 - d) (enc_object L) (JObj vs)" "map (\<lambda>(label, raw, v). (label, raw)) vs = L"
    using members_read [of L "17 - d"] d(1) by (auto simp: add.commute)
  have "list_all2 (\<lambda>(label, member) (label', raw). label' = label \<and> parseCMW E (d + 1) raw = (if cmw_filled member then Inr member else Inl cmwErr)) ms raws"
    using ms by (rule list_all2_mono) (auto simp: emits_def)
  from parse_members_emitted [OF vs(2) [unfolded L_def] assms(2) t(1) this assms(3) key(1)]
  have "parseCMWCollection E (\<lambda>raw. parseCMW E (d + 1) raw) (enc_object L) = (if members_filled ms then Inr (CMWCollection t ms) else Inl cmwErr)"
    using decodeStrict_reads_as [OF vs(1) d(3), of dec_members] t(2) by (simp add: parseCMWCollection_def)
  moreover obtain s where s: "enc_object L = CHR ''{'' # s" by (simp add: enc_object_def)
  ultimately have "parseCMW E d (enc_object L) = (if members_filled ms then Inr (CMW None (Some (CMWCollection t ms))) else Inl cmwErr)"
    using assms(6) by (subst parseCMW.simps) (simp add: Let_def)
  with m vs(1) show ?thesis unfolding emits_def by auto
qed


text \<open>Every valid message is emitted, and read back exactly when it is filled.\<close>

lemma cmw_emits:
  "cmw_clean c \<Longrightarrow> cmw_validate E d c = None \<Longrightarrow> 0 \<le> d \<Longrightarrow> \<exists>raw. emits E d c raw"
  "members_clean ms \<Longrightarrow> (\<forall>(label, member) \<in> set ms. cmw_validate E (d + 1) member = None) \<Longrightarrow> 0 \<le> d \<Longrightarrow>
     \<exists>raws. list_all2 (\<lambda>(label, member) (label', raw). label' = label \<and> emits E (d + 1) member raw) ms raws"
proof (induction c and ms arbitrary: d and d rule: cmw_clean_members_clean.induct)
  case (1 r col)
  have d: "d \<le> maxCMWDepth" using "1.prems"(2) by (simp split: if_splits)
  show ?case
  proof (cases r)
    case (Some q)
    then show ?thesis using "1.prems" d emits_record [of q E d] by (auto split: if_splits)
  next
    case None
    then obtain t ms where col: "col = Some (CMWCollection t ms)" using "1.prems"(2) d by (auto split: option.splits) (metis cmw_collection.exhaust)
    have c: "valid_utf8 t" "ordered ms" "members_clean ms" "col_validate E d (CMWCollection t ms) = None"
      using "1.prems" None col d by simp_all
    have v: "\<forall>(label, member) \<in> set ms. cmw_validate E (d + 1) member = None"
      using c(4) by (auto simp: validate_members_None split: option.splits if_splits)
    obtain raws where "list_all2 (\<lambda>(label, member) (label', raw). label' = label \<and> emits E (d + 1) member raw) ms raws"
      using "1.IH" [OF col refl c(3) v "1.prems"(3)] by blast
    moreover have "\<forall>label \<in> fst ` set ms. valid_utf8 label" using c(3) by (auto simp: members_clean_iff)
    ultimately show ?thesis unfolding None col using emits_collection [OF c(4,1,2) _ "1.prems"(3) d] by blast
  qed
next
  case (3 label member ms)
  obtain raw where "emits E (d + 1) member raw" using 3 by fastforce
  moreover obtain raws where "list_all2 (\<lambda>(label, member) (label', raw). label' = label \<and> emits E (d + 1) member raw) ms raws"
    using 3 by fastforce
  ultimately show ?case by (intro exI [of _ "(label, raw) # raws"]) simp
qed (auto intro: exI [of _ "[]"])

subsection \<open>What is parsed\<close>

lemma collect_members_valid:
  assumes "collect_members E parse L t acc = Inr (t', out)"
    "\<And>raw m. parse raw = Inr m \<Longrightarrow> P m"
    "t \<noteq> [] \<Longrightarrow> validateCMWCollectionType E t = None" "\<forall>(label, m) \<in> set acc. label \<noteq> cmwCollectionTypeKey \<and> P m" "ordered acc"
  shows "(t' \<noteq> [] \<longrightarrow> validateCMWCollectionType E t' = None)
     \<and> (\<forall>(label, m) \<in> set out. label \<noteq> cmwCollectionTypeKey \<and> P m) \<and> ordered out"
  using assms(1,3-5)
proof (induction L arbitrary: t acc)
  case (Cons x L)
  obtain label raw v where x: "x = (label, raw, v)" by (cases x)
  show ?case
  proof (cases "label = cmwCollectionTypeKey")
    case True
    then show ?thesis using Cons x by (auto split: sum.splits option.splits)
  next
    case False
    then obtain m where m: "parse raw = Inr m" "collect_members E parse L t (map_put label m acc) = Inr (t', out)"
      using Cons.prems(1) x by (auto split: sum.splits)
    have "\<forall>(l, m) \<in> set (map_put label m acc). l \<noteq> cmwCollectionTypeKey \<and> P m"
      using set_map_put [of label m acc] Cons.prems(3) False assms(2) [OF m(1)] by auto
    from Cons.IH [OF m(2) Cons.prems(2) this map_put_ordered [OF Cons.prems(4)]] show ?thesis .
  qed
qed auto


lemma decode_quanta_Nil: "decode_quanta strict s = Some [] \<Longrightarrow> s = []"
  by (cases "(strict, s)" rule: decode_quanta.cases) (auto split: option.splits if_splits)

lemma parseCMWRecord_valid:
  assumes "parseCMWRecord E data = Inr r"
  shows "validateCMWMediaType E (rec_Type r) = None \<and> rec_Value r \<noteq> []"
proof -
  from assms obtain encoded where e: "validateCMWMediaType E (rec_Type r) = None" "cmwBase64URL encoded"
      "base64_decode False encoded = Inr (rec_Value r)"
    by (auto simp: parseCMWRecord_def split: sum.splits if_splits option.splits)
  have "\<not> is_crlf c" if "c \<in> set encoded" for c
  proof -
    have "45 \<le> ord c" using e(2) that by (auto simp: cmwBase64URL_def list_all_iff isAlnum_def isUpper_def isLower_def isDigit_def)
    then show ?thesis by (auto simp: is_crlf_def ord_chr)
  qed
  then have "filter (\<lambda>c. \<not> is_crlf c) encoded = encoded" by (intro filter_True) blast
  then have "decode_quanta False encoded = Some (rec_Value r)" using e(3) by (auto simp: base64_decode_def split: option.splits)
  then show ?thesis using e decode_quanta_Nil by fastforce
qed

lemma parseCMW_valid: "parseCMW E d data = Inr c \<Longrightarrow> cmw_validate E d c = None \<and> cmw_filled c"
proof (induction E d data arbitrary: c rule: parseCMW.induct)
  case (1 E d data)
  have d: "\<not> maxCMWDepth < d" using "1.prems" by (subst (asm) parseCMW.simps) (simp split: if_splits)
  from "1.prems" consider (rec) r where "parseCMWRecord E data = Inr r" "c = CMW (Some r) None"
    | (collection) col where "parseCMWCollection E (\<lambda>raw. parseCMW E (d + 1) raw) data = Inr col" "c = CMW None (Some col)"
        "trim_left data [chr 32, chr 9, chr 13, chr 10] \<noteq> []" "trim_left data [chr 32, chr 9, chr 13, chr 10] ! 0 = CHR ''{''"
    by (subst (asm) parseCMW.simps) (auto simp: Let_def split: if_splits sum.splits)
  then show ?case
  proof cases
    case rec
    then show ?thesis using d parseCMWRecord_valid [of E data r] by simp
  next
    case collection
    then obtain L t out where c: "collect_members E (\<lambda>raw. parseCMW E (d + 1) raw) L [] [] = Inr (t, out)"
        "out \<noteq> []" "col = CMWCollection t out"
      by (auto simp: parseCMWCollection_def split: sum.splits if_splits)
    have "(t \<noteq> [] \<longrightarrow> validateCMWCollectionType E t = None)
       \<and> (\<forall>(label, m) \<in> set out. label \<noteq> cmwCollectionTypeKey \<and> cmw_validate E (d + 1) m = None \<and> cmw_filled m) \<and> ordered out"
      by (rule collect_members_valid [OF c(1), where P = "\<lambda>m. cmw_validate E (d + 1) m = None \<and> cmw_filled m"])
        (use "1.IH" [OF d refl collection(3)] collection(4) in auto)
    then show ?thesis
      using d c(2) by (auto simp: collection(2) c(3) validate_members_None members_filled_iff)
  qed
qed

subsection \<open>Signed messages and claims\<close>

lemma SignCMW_Inr:
  "SignCMW E c m (Some s) opts = Inr token \<longleftrightarrow>
     (\<exists>payload sig. Validate E m = None \<and> \<not> is_none (signer_Algorithm s) \<and> cmw_marshal E m = Inr payload
        \<and> signer_Sign c s (signing_input (marshal_header (cmw_header s opts)) payload) = Inr sig
        \<and> token = token_of (marshal_header (cmw_header s opts)) payload sig)"
  by (auto simp: SignCMW_def Let_def signing_input_def token_of_def split: sum.splits option.splits)

lemma cmw_header_fields [simp]:
  "h_Algorithm (cmw_header s opts) = signer_Algorithm s" "h_KeyID (cmw_header s opts) = signer_KeyID s"
  "h_ContentType (cmw_header s opts) = CMWContentType"
  "h_JWK (cmw_header s opts) = None" "h_Critical (cmw_header s opts) = []"
  by (simp_all add: cmw_header_def Let_def zero_header_def)

lemma cmw_reads_back:
  assumes "Validate E m = None" "cmw_clean m"
  shows "\<exists>raw. cmw_marshal E m = Inr raw \<and> ParseCMW E raw = (if cmw_filled m then Inr m else Inl cmwErr)"
  using cmw_emits(1) [OF assms(2), of E 0] assms(1) by (auto simp: emits_def Validate_def ParseCMW_def)

interpretation cmw: embeds_registered "cmw_claims_field E" cc_Registered "\<lparr>cc_Registered = zero_claims, cc_CMW = None\<rparr>" for E
proof
  fix r n raw v r' assume "cmw_claims_field E r n raw v = Inr r'"
  then show "claims_field (cc_Registered r) n raw v = Inr (cc_Registered r')"
    by (auto simp: cmw_claims_field_def embedded_Inr set_res_Inr claims_field_other registered_names_def CMWClaimName_def split: if_splits)
qed simp

lemma media_name_token: "media_name_part s \<Longrightarrow> token_text s"
proof -
  have "isTokenChar c" if "isAlnum c" for c
  proof -
    have "\<not> isTSpecial c" using that by (auto simp: isAlnum_def isUpper_def isLower_def isDigit_def isTSpecial_def)
    with that show ?thesis by (auto simp: isAlnum_def isUpper_def isLower_def isDigit_def isTokenChar_def)
  qed
  moreover have "list_all isTokenChar ''!#$&^_.+-''" by code_simp
  ultimately have t: "isTokenChar c" if "isAlnum c \<or> c \<in> set ''!#$&^_.+-''" for c
    using that unfolding list_all_iff by blast
  assume "media_name_part s"
  then have "list_all isTokenChar (hd s # tl s)" "s \<noteq> []" using t by (auto simp only: media_name_part_def list_all_iff list.set(2) insert_iff)
  then show "token_text s" by (simp add: token_text_def)
qed

lemma media_name_no_slash: "media_name_part s \<Longrightarrow> CHR ''/'' \<notin> set s \<and> CHR '';'' \<notin> set s \<and> last s \<noteq> CHR '' ''"
proof -
  assume "media_name_part s"
  then have "\<forall>c \<in> set s. isTokenChar c" "last s \<in> set s" using media_name_token [of s] by (auto simp: token_text_def list_all_iff)
  moreover have "\<not> isTokenChar CHR ''/''" "\<not> isTokenChar CHR '';''" "\<not> isTokenChar CHR '' ''" by code_simp+
  ultimately show ?thesis by metis
qed

section \<open>Properties\<close>

definition sample_cmw_env :: cmw_env where
  "sample_cmw_env = \<lparr>ce_lower = (\<lambda>s. s), ce_parse_url = (\<lambda>_. None)\<rparr>"

definition sample_cmw :: cmw where
  "sample_cmw = CMW None (Some (CMWCollection ''1.2''
     [(''a'', CMW (Some \<lparr>rec_Type = ''text/plain'', rec_Value = ''hi'', rec_Indicator = Some 4\<rparr>) None)]))"

text \<open>
  C23: emitting and parsing messages.  A valid message whose strings are valid UTF-8 is always
  emitted, and parsing the text gives the message back when every record in it has a
  non-empty value; otherwise parsing refuses the emitted text.
\<close>

theorem cmw_roundtrip:
  assumes "Validate E m = None" "cmw_clean m"
  shows "\<exists>raw. CMW_MarshalJSON E m = Inr raw \<and> ParseCMW E raw = (if cmw_filled m then Inr m else Inl [ErrInvalidClaim])"
  using cmw_reads_back [OF assms] assms(1) by (auto simp: CMW_MarshalJSON_def cmwErr_def)

theorem cmw_roundtrip_witness:
  "\<exists>raw. CMW_MarshalJSON sample_cmw_env sample_cmw = Inr raw \<and> ParseCMW sample_cmw_env raw = Inr sample_cmw"
proof -
  have v: "Validate sample_cmw_env sample_cmw = None" "cmw_clean sample_cmw" "cmw_filled sample_cmw" by code_simp+
  from cmw_roundtrip [OF v(1,2)] v(3) show ?thesis by simp
qed

text \<open>
  Media types with parameters whose values are tokens are accepted exactly when no parameter
  name, up to letter case, is given two values.
\<close>

theorem media_type_parameters_exact:
  assumes "media_name_part t" "media_name_part u" "list_all (\<lambda>p. token_text (fst p) \<and> token_text (snd p)) ps"
  shows "validateCMWMediaType E (t @ ''/'' @ u @ params_text ps) = None \<longleftrightarrow> single_valued (set (map lower_name ps))"
proof -
  let ?b = "t @ ''/'' @ u"
  have n: "CHR '';'' \<notin> set ?b" using media_name_no_slash assms(1,2) by auto
  have "u \<noteq> []" "t \<noteq> []" using assms(1,2) by (auto simp: media_name_part_def)
  then have "trim_right ?b '' '' = ?b" using media_name_no_slash [OF assms(2)] by (cases u rule: rev_cases) (auto simp: trim_right_def)
  moreover have "cmwMediaName ?b"
    using assms(1,2) media_name_no_slash [OF assms(1)] media_name_no_slash [OF assms(2)]
    by (simp add: cmwMediaName_def split_on_append_sep)
  moreover have "cut CHR '';'' (?b @ params_text ps) = (?b, tl (params_text ps), ps \<noteq> [])"
    using n by (cases ps) (auto simp: cut_def params_text_def param_text_def takeWhile_append)
  ultimately show ?thesis
    using media_type_accepted [OF media_name_token [OF assms(1)] media_name_token [OF assms(2)] assms(3), of "ce_lower E"]
    by (auto simp: validateCMWMediaType_def cmwErr_def)
qed

theorem media_type_parameters_exact_witness:
  "validateCMWMediaType sample_cmw_env ''text/plain;Charset=utf8;charset=utf8'' = None
   \<and> validateCMWMediaType sample_cmw_env ''text/plain;Charset=utf8;charset=ascii'' \<noteq> None"
proof -
  have t: "media_name_part ''text''" "media_name_part ''plain''" by code_simp+
  have p: "list_all (\<lambda>p. token_text (fst p) \<and> token_text (snd p)) [(''Charset'', ''utf8''), (''charset'', v)]"
    if "v \<in> {''utf8'', ''ascii''}" for v
    using that by (elim insertE emptyE; simp only:) code_simp+
  have l: "lower_name (''Charset'', v) = (''charset'', v)" "lower_name (''charset'', v) = (''charset'', v)" for v
    by (simp_all add: lower_name_def) code_simp+
  show ?thesis
    using media_type_parameters_exact [OF t p, of "''utf8''" sample_cmw_env] media_type_parameters_exact [OF t p, of "''ascii''" sample_cmw_env]
    by (simp add: l params_text_def param_text_def single_valued_def) blast
qed

text \<open>
  C24: whatever the input, a parsed message is valid, nested at most 16 deep, and has no empty
  record value, so that it passes the check that guards emission and signing.
\<close>

theorem parsed_cmw_valid:
  assumes "ParseCMW E data = Inr m"
  shows "Validate E m = None \<and> cmw_filled m"
  using parseCMW_valid assms by (auto simp: ParseCMW_def Validate_def)

theorem parsed_cmw_valid_witness:
  "\<exists>raw. ParseCMW sample_cmw_env raw = Inr sample_cmw \<and> Validate sample_cmw_env sample_cmw = None"
proof -
  have v: "Validate sample_cmw_env sample_cmw = None" "cmw_clean sample_cmw" "cmw_filled sample_cmw" by code_simp+
  from cmw_reads_back [OF v(1,2)] v(3) obtain raw where "ParseCMW sample_cmw_env raw = Inr sample_cmw" by auto
  with parsed_cmw_valid [OF this] show ?thesis by blast
qed

text \<open>
  C11: what \<^verbatim>\<open>ParseSignedCMW\<close> makes of a message that \<^verbatim>\<open>SignCMW\<close> signed with an HMAC secret.
  Given the same secret, an allowlist of the one algorithm and a token within the size limit,
  it reads the message back when every record in it has a non-empty value, and refuses it
  as an invalid claim when one is empty, although \<^verbatim>\<open>SignCMW\<close> signed it; the claim rules among
  the parse options do not apply.  The strings of the message and of the header are valid
  UTF-8.
\<close>

theorem signed_cmw_roundtrip:
  assumes "NewHMACSigner a secret [kid] = Inr s" "secret \<noteq> []"
    "SignCMW E c m (Some s) opts = Inr token" "len token \<le> maxTokenBytes" "header_valid_utf8 (cmw_header s opts)"
    "cmw_clean m"
    "pc_allowedAlgs (apply_options applyParse popts (default_config wall)) = [a]"
    "pc_verifierProvider (apply_options applyParse popts (default_config wall)) = None"
  shows "ParseSignedCMW E c u wall token (Some (static_Lookup (StaticKeyProvider (FromHMACSecret secret [kid])))) popts
    = (if cmw_filled m then Inr m else Inl [ErrInvalidClaim])"
proof -
  let ?cfg = "(apply_options applyParse popts (default_config wall))\<lparr>pc_rawPayload := True\<rparr>"
  let ?h = "cmw_header s opts"
  have h: "h_Algorithm ?h = a" "h_KeyID ?h = kid" using assms(1) by (auto simp: NewHMACSigner_Inr)
  obtain payload sig where p: "Validate E m = None" "\<not> is_none a" "cmw_marshal E m = Inr payload"
      "signer_Sign c s (signing_input (marshal_header ?h) payload) = Inr sig" "token = token_of (marshal_header ?h) payload sig"
    using assms(3) h(1) by (auto simp: SignCMW_Inr)
  obtain v where v: "verifier_for c (Some (static_Lookup (StaticKeyProvider (FromHMACSecret secret [kid])))) ?cfg ?h v"
      "verifier_Verify c v (signing_input (marshal_header ?h) payload) sig = None"
    by (rule hmac_static_verifies [OF assms(1,2) _ _ h, of ?cfg c]) (use assms(7,8) p(4) in auto)
  have "header_accepted (withoutNone (pc_allowedAlgs ?cfg)) (marshal_header ?h) ?h"
    by (rule emitted_header_accepted) (use assms(5,7) p(2) h in simp_all)
  then have "parseVerified c u token (Some (static_Lookup (StaticKeyProvider (FromHMACSecret secret [kid])))) ?cfg = Inr (?h, payload)"
    unfolding parseVerified_Inr using assms(4) p(5) v by auto
  moreover have "ParseCMW E payload = (if cmw_filled m then Inr m else Inl [ErrInvalidClaim])"
    using cmw_reads_back [OF p(1) assms(6)] p(3) by (auto simp: cmwErr_def)
  ultimately show ?thesis
    unfolding ParseSignedCMW_def by (simp add: Let_def typeMatches_def CMWContentType_def)
qed

text \<open>A message, and the same one with its record emptied.\<close>

theorem signed_cmw_roundtrip_witness:
  "\<exists>token token'. SignCMW sample_cmw_env sample_crypto sample_cmw (Some (HmacSigner HS256 sample_secret ''k1'' SHA256)) [] = Inr token
     \<and> ParseSignedCMW sample_cmw_env sample_crypto id 0 token (Some (static_Lookup (StaticKeyProvider (FromHMACSecret sample_secret [''k1'']))))
         [Some (WithAllowedAlgorithms [HS256])] = Inr sample_cmw
     \<and> SignCMW sample_cmw_env sample_crypto (CMW (Some \<lparr>rec_Type = ''text/plain'', rec_Value = [], rec_Indicator = None\<rparr>) None)
         (Some (HmacSigner HS256 sample_secret ''k1'' SHA256)) [] = Inr token'
     \<and> ParseSignedCMW sample_cmw_env sample_crypto id 0 token' (Some (static_Lookup (StaticKeyProvider (FromHMACSecret sample_secret [''k1'']))))
         [Some (WithAllowedAlgorithms [HS256])] = Inl [ErrInvalidClaim]"
proof -
  let ?s = "HmacSigner HS256 sample_secret ''k1'' SHA256"
  let ?empty = "CMW (Some \<lparr>rec_Type = ''text/plain'', rec_Value = [], rec_Indicator = None\<rparr>) None"
  have r: "case SignCMW sample_cmw_env sample_crypto sample_cmw (Some ?s) [] of Inl _ \<Rightarrow> False | Inr t \<Rightarrow> len t \<le> maxTokenBytes"
    "case SignCMW sample_cmw_env sample_crypto ?empty (Some ?s) [] of Inl _ \<Rightarrow> False | Inr t \<Rightarrow> len t \<le> maxTokenBytes"
    by code_simp+
  have c: "cmw_clean sample_cmw" "cmw_clean ?empty" "cmw_filled sample_cmw" "\<not> cmw_filled ?empty" by code_simp+
  obtain token where t: "SignCMW sample_cmw_env sample_crypto sample_cmw (Some ?s) [] = Inr token" "len token \<le> maxTokenBytes"
    using r(1) by (auto split: sum.splits)
  obtain token' where t': "SignCMW sample_cmw_env sample_crypto ?empty (Some ?s) [] = Inr token'" "len token' \<le> maxTokenBytes"
    using r(2) by (auto split: sum.splits)
  have s: "NewHMACSigner HS256 sample_secret [''k1''] = Inr ?s" "sample_secret \<noteq> []"
    by (simp_all add: NewHMACSigner_def Hash_def FamilyOf_def sample_secret_def)
  have h: "header_valid_utf8 (cmw_header ?s [])" by code_simp
  show ?thesis
    using signed_cmw_roundtrip [OF s t h c(1), of "[Some (WithAllowedAlgorithms [HS256])]" 0 id] t(1)
      signed_cmw_roundtrip [OF s t' h c(2), of "[Some (WithAllowedAlgorithms [HS256])]" 0 id] t'(1) c(3,4)
    by (simp add: apply_options_def default_config_def)
qed

end
