(* ===== verification/Keyparse.thy ===== *)
theory Keyparse
  imports JWE
begin

text \<open>
  \<^verbatim>\<open>internal/keyparse\<close> and its forwarders at the end of \<^verbatim>\<open>key.go\<close>: keys from decoded bytes.
  The parsers of \<^verbatim>\<open>crypto/x509\<close> and the key constructors of \<^verbatim>\<open>crypto/ed25519\<close> and
  \<^verbatim>\<open>crypto/ecdsa\<close> are parameters; the OpenSSH format, which the package reads by itself, is
  modelled down to the bytes, with the reader \<^verbatim>\<open>sshBuf\<close> that latches its first error.

  Shown: the exact set of blobs the OpenSSH parser accepts, with the conditions on the fields of
  each kind of key written out, and the key it returns for each,
  that every failure is a malformed-key error, and what becomes of a large RSA exponent.
\<close>

section \<open>Keys\<close>

datatype crypto_signer = RSAPrivate rsa_private_key | ECDSAPrivate ecdsa_private_key | Ed25519Private bytes

text \<open>What \<^verbatim>\<open>x509.ParsePKCS8PrivateKey\<close> returns: an \<^verbatim>\<open>*ecdh.PrivateKey\<close> is not a signer.\<close>

datatype pkcs8_key = SignerKey crypto_signer | OtherKey

record 'p keyparse_env =
  kp_crypto :: crypto
  x509_ParsePKCS8PrivateKey :: "bytes \<Rightarrow> pkcs8_key result"
  x509_ParsePKCS1PrivateKey :: "bytes \<Rightarrow> rsa_private_key result"
  x509_ParseECPrivateKey :: "bytes \<Rightarrow> ecdsa_private_key result"
  x509_ParsePKIXPublicKey :: "bytes \<Rightarrow> 'p result"
  ed25519_NewKeyFromSeed :: "bytes \<Rightarrow> bytes"
  ecdsa_ParseRawPrivateKey :: "curve \<Rightarrow> bytes \<Rightarrow> ecdsa_private_key result"

definition malformed :: "'a result \<Rightarrow> 'a result" where
  "malformed r = (case r of Inl e \<Rightarrow> Inl (wrap ErrMalformedKey e) | Inr k \<Rightarrow> Inr k)"

definition ParsePKCS8PrivateKey :: "'p keyparse_env \<Rightarrow> bytes \<Rightarrow> crypto_signer result" where
  "ParsePKCS8PrivateKey K der =
     (case x509_ParsePKCS8PrivateKey K der of
        Inl e \<Rightarrow> Inl (wrap ErrMalformedKey e)
      | Inr (SignerKey s) \<Rightarrow> Inr s
      | Inr OtherKey \<Rightarrow> Inl [ErrMalformedKey])"

definition ParsePKCS1PrivateKey :: "'p keyparse_env \<Rightarrow> bytes \<Rightarrow> rsa_private_key result" where
  "ParsePKCS1PrivateKey K der = malformed (x509_ParsePKCS1PrivateKey K der)"

definition ParseSEC1ECPrivateKey :: "'p keyparse_env \<Rightarrow> bytes \<Rightarrow> ecdsa_private_key result" where
  "ParseSEC1ECPrivateKey K der = malformed (x509_ParseECPrivateKey K der)"

definition ParsePKIXPublicKey :: "'p keyparse_env \<Rightarrow> bytes \<Rightarrow> 'p result" where
  "ParsePKIXPublicKey K der = malformed (x509_ParsePKIXPublicKey K der)"

definition ParseEd25519PrivateKeySeed :: "'p keyparse_env \<Rightarrow> bytes \<Rightarrow> bytes result" where
  "ParseEd25519PrivateKeySeed K seed = (if len seed \<noteq> 32 then Inl [ErrMalformedKey] else Inr (ed25519_NewKeyFromSeed K seed))"

definition ParseEd25519PrivateKeyExpanded :: "'p keyparse_env \<Rightarrow> bytes \<Rightarrow> bytes result" where
  "ParseEd25519PrivateKeyExpanded K raw =
     (if len raw \<noteq> 64 then Inl [ErrMalformedKey]
      else if ed25519_NewKeyFromSeed K (take 32 raw) \<noteq> raw then Inl [ErrMalformedKey]
      else Inr raw)"

definition ParseEd25519PublicKey :: "bytes \<Rightarrow> bytes result" where
  "ParseEd25519PublicKey raw = (if len raw \<noteq> 32 then Inl [ErrMalformedKey] else Inr raw)"

section \<open>The reader\<close>

record ssh_buf =
  sb_b :: bytes
  sb_err :: "go_error option"

definition ssh_u32 :: "ssh_buf \<Rightarrow> 32 word \<times> ssh_buf" where
  "ssh_u32 r =
     (if sb_err r \<noteq> None then (0, r)
      else if len (sb_b r) < 4 then (0, r\<lparr>sb_err := Some [ErrSSHShort]\<rparr>)
      else (word_of_int (be_int (take 4 (sb_b r))), r\<lparr>sb_b := drop 4 (sb_b r)\<rparr>))"

definition ssh_str :: "ssh_buf \<Rightarrow> bytes \<times> ssh_buf" where
  "ssh_str r =
     (case ssh_u32 r of (n, r) \<Rightarrow>
        if sb_err r \<noteq> None then ([], r)
        else if uint n > len (sb_b r) then ([], r\<lparr>sb_err := Some [ErrSSHShort]\<rparr>)
        else (take (unat n) (sb_b r), r\<lparr>sb_b := drop (unat n) (sb_b r)\<rparr>))"

definition ssh_mpint :: "ssh_buf \<Rightarrow> int \<times> ssh_buf" where
  "ssh_mpint r = (case ssh_str r of (s, r) \<Rightarrow> (be_int s, r))"

section \<open>OpenSSH keys\<close>

definition opensshMagic :: bytes where "opensshMagic = ''openssh-key-v1'' @ [chr 0]"

definition sshCurve :: "string \<Rightarrow> curve option" where
  "sshCurve s =
     (if s = ''nistp256'' then Some P256 else if s = ''nistp384'' then Some P384
      else if s = ''nistp521'' then Some P521 else None)"

text \<open>\<^verbatim>\<open>int(e.Int64())\<close>: the low 64 bits, as a signed integer.\<close>

definition big_Int64 :: "int \<Rightarrow> int" where
  "big_Int64 n = sint (word_of_int n :: 64 word)"

definition short_key :: "ssh_buf \<Rightarrow> go_error" where
  "short_key p = wrap ErrMalformedKey (case sb_err p of None \<Rightarrow> [] | Some e \<Rightarrow> e)"

definition openssh_rsa :: "'p keyparse_env \<Rightarrow> int \<Rightarrow> int \<Rightarrow> int \<Rightarrow> int \<Rightarrow> int \<Rightarrow> crypto_signer result" where
  "openssh_rsa K n e d primeP primeQ =
     (let key = \<lparr>rsa_Public = \<lparr>rsa_N = Some n, rsa_E = big_Int64 e\<rparr>, rsa_D = Some d, rsa_Primes = [Some primeP, Some primeQ]\<rparr>
      in case rsa_validate (kp_crypto K) key of
           Some e \<Rightarrow> Inl (wrap ErrMalformedKey e)
         | None \<Rightarrow> Inr (RSAPrivate key))"

definition openssh_ecdsa :: "'p keyparse_env \<Rightarrow> string \<Rightarrow> bytes \<Rightarrow> int \<Rightarrow> crypto_signer result" where
  "openssh_ecdsa K curveID point d =
     (case sshCurve curveID of
        None \<Rightarrow> Inl [ErrMalformedKey]
      | Some cv \<Rightarrow>
          let sz = (BitSize cv + 7) div 8
          in if len point \<noteq> 1 + 2 * sz \<or> point ! 0 \<noteq> chr 4 then Inl [ErrMalformedKey]
             else (case ecdsa_ParseRawPrivateKey K cv (LeftPad (be_bytes d) sz) of
                     Inl e \<Rightarrow> Inl (wrap ErrMalformedKey e)
                   | Inr priv \<Rightarrow>
                       if pub_ECDH (kp_crypto K) (ec_Public priv) \<noteq> Some point then Inl [ErrMalformedKey]
                       else Inr (ECDSAPrivate priv)))"

definition parseOpenSSHKeyBody :: "'p keyparse_env \<Rightarrow> string \<Rightarrow> ssh_buf \<Rightarrow> crypto_signer result \<times> ssh_buf" where
  "parseOpenSSHKeyBody K keyType p =
     (if keyType = ''ssh-ed25519'' then
        (case ssh_str p of (_, p) \<Rightarrow>
         case ssh_str p of (priv, p) \<Rightarrow>
           (if sb_err p \<noteq> None then Inl (short_key p)
            else if len priv \<noteq> 64 then Inl [ErrMalformedKey]
            else Inr (Ed25519Private priv), p))
      else if keyType = ''ssh-rsa'' then
        (case ssh_mpint p of (n, p) \<Rightarrow>
         case ssh_mpint p of (e, p) \<Rightarrow>
         case ssh_mpint p of (d, p) \<Rightarrow>
         case ssh_mpint p of (_, p) \<Rightarrow>
         case ssh_mpint p of (primeP, p) \<Rightarrow>
         case ssh_mpint p of (primeQ, p) \<Rightarrow>
           (if sb_err p \<noteq> None then Inl (short_key p) else openssh_rsa K n e d primeP primeQ, p))
      else if keyType \<in> {''ecdsa-sha2-nistp256'', ''ecdsa-sha2-nistp384'', ''ecdsa-sha2-nistp521''} then
        (case ssh_str p of (curveID, p) \<Rightarrow>
         case ssh_str p of (point, p) \<Rightarrow>
         case ssh_mpint p of (d, p) \<Rightarrow>
           (if sb_err p \<noteq> None then Inl (short_key p) else openssh_ecdsa K curveID point d, p))
      else (Inl [ErrMalformedKey], p))"

text \<open>The private section of the blob.\<close>

definition parse_private_section :: "'p keyparse_env \<Rightarrow> bytes \<Rightarrow> crypto_signer result" where
  "parse_private_section K priv =
     (case ssh_u32 \<lparr>sb_b = priv, sb_err = None\<rparr> of (check1, p) \<Rightarrow>
      case ssh_u32 p of (check2, p) \<Rightarrow>
        if check1 \<noteq> check2 then Inl [ErrMalformedKey]
        else
          (case ssh_str p of (keyType, p) \<Rightarrow>
           case parseOpenSSHKeyBody K keyType p of
             (Inl e, p) \<Rightarrow> Inl e
           | (Inr s, p) \<Rightarrow> if sb_err p \<noteq> None then Inl (short_key p) else Inr s))"

definition ParseOpenSSHPrivateKey :: "'p keyparse_env \<Rightarrow> bytes \<Rightarrow> crypto_signer result" where
  "ParseOpenSSHPrivateKey K raw =
     (if \<not> has_prefix raw opensshMagic then Inl [ErrMalformedKey]
      else
        (case ssh_str \<lparr>sb_b = drop (length opensshMagic) raw, sb_err = None\<rparr> of (cipher, r) \<Rightarrow>
         case ssh_str r of (kdf, r) \<Rightarrow>
         case ssh_str r of (_, r) \<Rightarrow>
         case ssh_u32 r of (count, r) \<Rightarrow>
         case ssh_str r of (_, r) \<Rightarrow>
         case ssh_str r of (priv, r) \<Rightarrow>
           if sb_err r \<noteq> None then Inl (short_key r)
           else if cipher \<noteq> ''none'' \<or> kdf \<noteq> ''none'' then Inl [ErrMalformedKey]
           else if count \<noteq> 1 then Inl [ErrMalformedKey]
           else parse_private_section K priv))"

section \<open>Lemmas\<close>

subsection \<open>Reading one value\<close>

abbreviation reading :: "bytes \<Rightarrow> ssh_buf" where
  "reading b \<equiv> \<lparr>sb_b = b, sb_err = None\<rparr>"

lemma length_PutUint32 [simp]: "length (PutUint32 v) = 4"
proof -
  have "uint v < 256 ^ 4" using uint_lt2p [of v] by simp
  from be_bytes_length [OF this] show ?thesis by (auto simp: PutUint32_def LeftPad_def len_def)
qed

lemma be_int_PutUint32 [simp]: "be_int (PutUint32 v) = uint v"
  by (simp add: PutUint32_def LeftPad_be_int be_int_be_bytes)

lemma latched:
  "sb_err r \<noteq> None \<Longrightarrow> ssh_u32 r = (0, r)"
  "sb_err r \<noteq> None \<Longrightarrow> ssh_str r = ([], r)"
  "sb_err r \<noteq> None \<Longrightarrow> ssh_mpint r = (0, r)"
  by (simp_all add: ssh_u32_def ssh_str_def ssh_mpint_def)

lemma PutUint32_be_int: "length b = 4 \<Longrightarrow> PutUint32 (word_of_int (be_int b)) = b"
proof (rule be_int_inj)
  assume b: "length b = 4"
  then have "be_int b < 2 ^ 32" using be_int_upper [of b] by simp
  then show "be_int (PutUint32 (word_of_int (be_int b))) = be_int b" by (simp add: unsigned_of_int take_bit_int_eq_self)
qed simp

lemma ssh_u32_ok:
  "ssh_u32 r = (v, r') \<and> sb_err r' = None \<longleftrightarrow> r = reading (PutUint32 v @ sb_b r') \<and> r' = reading (sb_b r')"
proof
  assume l: "ssh_u32 r = (v, r') \<and> sb_err r' = None"
  then have e: "sb_err r = None" "4 \<le> length (sb_b r)" by (auto simp: ssh_u32_def len_def split: if_splits)
  with l have v: "v = word_of_int (be_int (take 4 (sb_b r)))" "r' = r\<lparr>sb_b := drop 4 (sb_b r)\<rparr>" by (auto simp: ssh_u32_def len_def)
  have "PutUint32 v = take 4 (sb_b r)" unfolding v by (rule PutUint32_be_int) (use e in simp)
  with e v show "r = reading (PutUint32 v @ sb_b r') \<and> r' = reading (sb_b r')" by simp
next
  assume r: "r = reading (PutUint32 v @ sb_b r') \<and> r' = reading (sb_b r')"
  then have "ssh_u32 r = (v, reading (sb_b r'))" by (simp add: ssh_u32_def len_def)
  with r show "ssh_u32 r = (v, r') \<and> sb_err r' = None" by (metis ssh_buf.select_convs(2))
qed

lemma ssh_str_ok:
  "ssh_str r = (s, r') \<and> sb_err r' = None \<longleftrightarrow>
     r = reading (writeLenPrefixed s @ sb_b r') \<and> r' = reading (sb_b r') \<and> len s < 2 ^ 32"
proof
  assume l: "ssh_str r = (s, r') \<and> sb_err r' = None"
  obtain n r1 where n: "ssh_u32 r = (n, r1)" by (cases "ssh_u32 r")
  with l have e: "sb_err r1 = None" "uint n \<le> len (sb_b r1)" by (auto simp: ssh_str_def split: if_splits)
  with l n have s: "s = take (unat n) (sb_b r1)" "r' = r1\<lparr>sb_b := drop (unat n) (sb_b r1)\<rparr>" by (auto simp: ssh_str_def)
  have u: "int (unat n) = uint n" by simp
  then have "unat n \<le> length (sb_b r1)" using e(2) unfolding len_def by linarith
  then have ls: "len s = uint n" using u s(1) by (simp add: len_def min_absorb2)
  have r: "r = reading (PutUint32 n @ sb_b r1)" "r1 = reading (sb_b r1)" using ssh_u32_ok [of r n r1] n e(1) by auto
  have "writeLenPrefixed s @ sb_b r' = PutUint32 n @ sb_b r1" using ls by (simp add: writeLenPrefixed_def s)
  moreover have "r' = reading (sb_b r')" using r(2) s(2) by (metis ssh_buf.select_convs(1) ssh_buf.update_convs(1))
  moreover have "len s < 2 ^ 32" using ls uint_lt2p [of n] by simp
  ultimately show "r = reading (writeLenPrefixed s @ sb_b r') \<and> r' = reading (sb_b r') \<and> len s < 2 ^ 32" using r(1) by simp
next
  assume r: "r = reading (writeLenPrefixed s @ sb_b r') \<and> r' = reading (sb_b r') \<and> len s < 2 ^ 32"
  then have "ssh_u32 r = (word_of_int (len s), reading (s @ sb_b r'))"
    using ssh_u32_ok [of r "word_of_int (len s)" "reading (s @ sb_b r')"] by (simp add: writeLenPrefixed_def)
  moreover have "uint (word_of_int (len s) :: 32 word) = len s"
    using r by (simp add: unsigned_of_int take_bit_int_eq_self)
  moreover from this have "unat (word_of_int (len s) :: 32 word) = length s" by (simp add: unat_eq_nat_uint len_def)
  ultimately have "ssh_str r = (s, reading (sb_b r'))" by (simp add: ssh_str_def len_def)
  with r show "ssh_str r = (s, r') \<and> sb_err r' = None" by (metis ssh_buf.select_convs(2))
qed

lemma ssh_mpint_ok:
  "ssh_mpint r = (n, r') \<and> sb_err r' = None \<longleftrightarrow>
     (\<exists>s. n = be_int s \<and> r = reading (writeLenPrefixed s @ sb_b r') \<and> r' = reading (sb_b r') \<and> len s < 2 ^ 32)"
  unfolding ssh_str_ok [symmetric] by (auto simp: ssh_mpint_def split: prod.splits)

text \<open>Reading forwards what was written.\<close>

lemma ssh_reads [simp]:
  "ssh_u32 (reading (PutUint32 v @ b)) = (v, reading b)"
  "len s < 2 ^ 32 \<Longrightarrow> ssh_str (reading (writeLenPrefixed s @ b)) = (s, reading b)"
  "len s < 2 ^ 32 \<Longrightarrow> ssh_mpint (reading (writeLenPrefixed s @ b)) = (be_int s, reading b)"
  using ssh_u32_ok [of "reading (PutUint32 v @ b)" v "reading b"] ssh_str_ok [of "reading (writeLenPrefixed s @ b)" s "reading b"]
  by (simp_all add: ssh_mpint_def)

subsection \<open>Key bodies\<close>

text \<open>
  The wire format of the three kinds of keys, each with the conditions on its fields; anything
  may follow.  Of an RSA exponent the low 64 bits count, as a signed number.  The copy of the
  public key in an Ed25519 body is not looked at, nor is \<^verbatim>\<open>iqmp\<close>, and the curve is the one the
  body names, whatever the key type says.
\<close>

definition signed64 :: "int \<Rightarrow> int" where
  "signed64 n = (n + 2 ^ 63) mod 2 ^ 64 - 2 ^ 63"

inductive key_body :: "'p keyparse_env \<Rightarrow> string \<Rightarrow> bytes \<Rightarrow> crypto_signer \<Rightarrow> bool" for K where
  ed25519: "len pub < 2 ^ 32 \<Longrightarrow> len priv = 64 \<Longrightarrow>
     key_body K ''ssh-ed25519'' (writeLenPrefixed pub @ writeLenPrefixed priv @ rest) (Ed25519Private priv)"
| rsa: "list_all (\<lambda>s. len s < 2 ^ 32) [n, e, d, iqmp, p, q] \<Longrightarrow>
     k = \<lparr>rsa_Public = \<lparr>rsa_N = Some (be_int n), rsa_E = signed64 (be_int e)\<rparr>, rsa_D = Some (be_int d),
          rsa_Primes = [Some (be_int p), Some (be_int q)]\<rparr> \<Longrightarrow>
     rsa_validate (kp_crypto K) k = None \<Longrightarrow>
     key_body K ''ssh-rsa'' (writeLenPrefixed n @ writeLenPrefixed e @ writeLenPrefixed d
       @ writeLenPrefixed iqmp @ writeLenPrefixed p @ writeLenPrefixed q @ rest) (RSAPrivate k)"
| ecdsa: "keyType \<in> {''ecdsa-sha2-nistp256'', ''ecdsa-sha2-nistp384'', ''ecdsa-sha2-nistp521''} \<Longrightarrow>
     list_all (\<lambda>s. len s < 2 ^ 32) [curveID, point, d] \<Longrightarrow>
     (curveID, cv, sz) \<in> {(''nistp256'', P256, 32), (''nistp384'', P384, 48), (''nistp521'', P521, 66)} \<Longrightarrow>
     len point = 1 + 2 * sz \<Longrightarrow> hd point = chr 4 \<Longrightarrow>
     ecdsa_ParseRawPrivateKey K cv (LeftPad (be_bytes (be_int d)) sz) = Inr k \<Longrightarrow>
     pub_ECDH (kp_crypto K) (ec_Public k) = Some point \<Longrightarrow>
     key_body K keyType (writeLenPrefixed curveID @ writeLenPrefixed point @ writeLenPrefixed d @ rest) (ECDSAPrivate k)"

lemma big_Int64_signed64: "big_Int64 n = signed64 n"
proof -
  have "sint (word_of_int n :: 64 word) = signed_take_bit 63 n" by transfer simp
  then show ?thesis by (simp add: big_Int64_def signed64_def signed_take_bit_eq_take_bit_shift take_bit_eq_mod)
qed

lemma openssh_rsa_Inr:
  "openssh_rsa K n e d p q = Inr s \<longleftrightarrow> (\<exists>k. s = RSAPrivate k \<and> rsa_validate (kp_crypto K) k = None
     \<and> k = \<lparr>rsa_Public = \<lparr>rsa_N = Some n, rsa_E = signed64 e\<rparr>, rsa_D = Some d, rsa_Primes = [Some p, Some q]\<rparr>)"
  by (auto simp: openssh_rsa_def Let_def big_Int64_signed64 split: option.splits)

lemma sshCurve_size:
  "(\<exists>cv. sshCurve i = Some cv \<and> P cv ((BitSize cv + 7) div 8)) \<longleftrightarrow>
   (\<exists>cv sz. (i, cv, sz) \<in> {(''nistp256'', P256, 32), (''nistp384'', P384, 48), (''nistp521'', P521, 66)} \<and> P cv sz)"
  by (auto simp: sshCurve_def split: if_splits)

lemma openssh_ecdsa_Inr:
  "openssh_ecdsa K i pt d = Inr s \<longleftrightarrow> (\<exists>cv sz k. s = ECDSAPrivate k
     \<and> (i, cv, sz) \<in> {(''nistp256'', P256, 32), (''nistp384'', P384, 48), (''nistp521'', P521, 66)}
     \<and> len pt = 1 + 2 * sz \<and> hd pt = chr 4 \<and> ecdsa_ParseRawPrivateKey K cv (LeftPad (be_bytes d) sz) = Inr k
     \<and> pub_ECDH (kp_crypto K) (ec_Public k) = Some pt)"
proof -
  have h: "pt ! 0 = hd pt" if "len pt = 1 + 2 * sz" "sz > 0" for sz
    using that by (cases pt) (auto simp: len_def)
  have z: "(BitSize cv + 7) div 8 > 0" if "sshCurve i = Some cv" for cv using that by (auto simp: sshCurve_def split: if_splits)
  have "openssh_ecdsa K i pt d = Inr s \<longleftrightarrow> (\<exists>cv. sshCurve i = Some cv
     \<and> (\<exists>k. s = ECDSAPrivate k \<and> len pt = 1 + 2 * ((BitSize cv + 7) div 8) \<and> hd pt = chr 4
       \<and> ecdsa_ParseRawPrivateKey K cv (LeftPad (be_bytes d) ((BitSize cv + 7) div 8)) = Inr k
       \<and> pub_ECDH (kp_crypto K) (ec_Public k) = Some pt))"
    using h z by (auto simp: openssh_ecdsa_def Let_def split: option.splits sum.splits if_splits)
  then show ?thesis
    unfolding sshCurve_size [of i "\<lambda>cv sz. \<exists>k. s = ECDSAPrivate k \<and> len pt = 1 + 2 * sz \<and> hd pt = chr 4
       \<and> ecdsa_ParseRawPrivateKey K cv (LeftPad (be_bytes d) sz) = Inr k \<and> pub_ECDH (kp_crypto K) (ec_Public k) = Some pt"]
    by blast
qed

lemma ssh_strE:
  assumes "ssh_str r = (s, r')" "sb_err r' = None"
  obtains rest where "r = reading (writeLenPrefixed s @ rest)" "r' = reading rest" "len s < 2 ^ 32"
  using assms ssh_str_ok [of r s r'] by blast

lemma ssh_mpintE:
  assumes "ssh_mpint r = (n, r')" "sb_err r' = None"
  obtains s rest where "n = be_int s" "r = reading (writeLenPrefixed s @ rest)" "r' = reading rest" "len s < 2 ^ 32"
  using assms ssh_mpint_ok [of r n r'] by blast

lemma ssh_mpint_back:
  "ssh_mpint r = (n, r') \<Longrightarrow> r' = reading b \<Longrightarrow> \<exists>s. n = be_int s \<and> r = reading (writeLenPrefixed s @ b) \<and> len s < 2 ^ 32"
  using ssh_mpint_ok [of r n "reading b"] by auto

lemma ssh_str_back:
  "ssh_str r = (s, r') \<Longrightarrow> r' = reading b \<Longrightarrow> r = reading (writeLenPrefixed s @ b) \<and> len s < 2 ^ 32"
  using ssh_str_ok [of r s "reading b"] by auto

lemma ssh_u32E:
  assumes "ssh_u32 r = (v, r')" "sb_err r' = None"
  obtains rest where "r = reading (PutUint32 v @ rest)" "r' = reading rest"
  using assms ssh_u32_ok [of r v r'] by blast

lemma parse_body_ok:
  assumes "parseOpenSSHKeyBody K keyType r = (Inr k, r')"
  shows "\<exists>body. r = reading body \<and> key_body K keyType body k \<and> sb_err r' = None"
proof -
  consider (ed) "keyType = ''ssh-ed25519''" | (rsa) "keyType = ''ssh-rsa''"
    | (ec) "keyType \<in> {''ecdsa-sha2-nistp256'', ''ecdsa-sha2-nistp384'', ''ecdsa-sha2-nistp521''}"
    using assms by (auto simp: parseOpenSSHKeyBody_def split: if_splits)
  then show ?thesis
  proof cases
    case ed
    obtain pub r1 where 1: "ssh_str r = (pub, r1)" by (cases "ssh_str r")
    obtain priv r2 where 2: "ssh_str r1 = (priv, r2)" by (cases "ssh_str r1")
    have ok: "r2 = r'" "sb_err r' = None" "len priv = 64" "k = Ed25519Private priv"
      using assms by (simp_all add: ed parseOpenSSHKeyBody_def 1 2 split: if_splits)
    obtain rest where r1: "r1 = reading (writeLenPrefixed priv @ rest)" using ssh_strE [OF 2 [unfolded ok(1)] ok(2)] by blast
    from ssh_str_back [OF 1 r1] key_body.ed25519 [of pub priv K rest] ed ok show ?thesis by blast
  next
    case rsa
    obtain n r1 where 1: "ssh_mpint r = (n, r1)" by (cases "ssh_mpint r")
    obtain e r2 where 2: "ssh_mpint r1 = (e, r2)" by (cases "ssh_mpint r1")
    obtain d r3 where 3: "ssh_mpint r2 = (d, r3)" by (cases "ssh_mpint r2")
    obtain i r4 where 4: "ssh_mpint r3 = (i, r4)" by (cases "ssh_mpint r3")
    obtain p r5 where 5: "ssh_mpint r4 = (p, r5)" by (cases "ssh_mpint r4")
    obtain q r6 where 6: "ssh_mpint r5 = (q, r6)" by (cases "ssh_mpint r5")
    have ok: "r6 = r'" "sb_err r' = None" "openssh_rsa K n e d p q = Inr k"
      using assms by (simp_all add: rsa parseOpenSSHKeyBody_def 1 2 3 4 5 6 split: if_splits)
    obtain bq rest where q: "q = be_int bq" "r5 = reading (writeLenPrefixed bq @ rest)" "len bq < 2 ^ 32"
      using ssh_mpintE [OF 6 [unfolded ok(1)] ok(2)] by blast
    obtain bp where p: "p = be_int bp" "r4 = reading (writeLenPrefixed bp @ writeLenPrefixed bq @ rest)" "len bp < 2 ^ 32"
      using ssh_mpint_back [OF 5 q(2)] by blast
    obtain bi where i: "r3 = reading (writeLenPrefixed bi @ writeLenPrefixed bp @ writeLenPrefixed bq @ rest)" "len bi < 2 ^ 32"
      using ssh_mpint_back [OF 4 p(2)] by blast
    obtain bd where d: "d = be_int bd" "r2 = reading (writeLenPrefixed bd @ writeLenPrefixed bi @ writeLenPrefixed bp @ writeLenPrefixed bq @ rest)" "len bd < 2 ^ 32"
      using ssh_mpint_back [OF 3 i(1)] by blast
    obtain be where e: "e = be_int be" "r1 = reading (writeLenPrefixed be @ writeLenPrefixed bd @ writeLenPrefixed bi @ writeLenPrefixed bp @ writeLenPrefixed bq @ rest)" "len be < 2 ^ 32"
      using ssh_mpint_back [OF 2 d(2)] by blast
    obtain bn where n: "n = be_int bn" "r = reading (writeLenPrefixed bn @ writeLenPrefixed be @ writeLenPrefixed bd @ writeLenPrefixed bi @ writeLenPrefixed bp @ writeLenPrefixed bq @ rest)" "len bn < 2 ^ 32"
      using ssh_mpint_back [OF 1 e(2)] by blast
    obtain rk where rk: "k = RSAPrivate rk" "rsa_validate (kp_crypto K) rk = None"
        "rk = \<lparr>rsa_Public = \<lparr>rsa_N = Some n, rsa_E = signed64 e\<rparr>, rsa_D = Some d, rsa_Primes = [Some p, Some q]\<rparr>"
      using ok(3) unfolding openssh_rsa_Inr by blast
    have "key_body K ''ssh-rsa'' (writeLenPrefixed bn @ writeLenPrefixed be @ writeLenPrefixed bd @ writeLenPrefixed bi @ writeLenPrefixed bp @ writeLenPrefixed bq @ rest) k"
      unfolding rk(1) by (rule key_body.rsa [OF _ _ rk(2)]) (use rk(3) q(1,3) p(1,3) i(2) d(1,3) e(1,3) n(1,3) in simp_all)
    with rsa n(2) ok(2) show ?thesis by blast
  next
    case ec
    then have no: "keyType \<noteq> ''ssh-ed25519''" "keyType \<noteq> ''ssh-rsa''" by auto
    obtain cid r1 where 1: "ssh_str r = (cid, r1)" by (cases "ssh_str r")
    obtain pt r2 where 2: "ssh_str r1 = (pt, r2)" by (cases "ssh_str r1")
    obtain d r3 where 3: "ssh_mpint r2 = (d, r3)" by (cases "ssh_mpint r2")
    have ok: "r3 = r'" "sb_err r' = None" "openssh_ecdsa K cid pt d = Inr k"
      using assms ec no by (simp_all add: parseOpenSSHKeyBody_def 1 2 3 split: if_splits)
    obtain bd rest where d: "d = be_int bd" "r2 = reading (writeLenPrefixed bd @ rest)" "len bd < 2 ^ 32"
      using ssh_mpintE [OF 3 [unfolded ok(1)] ok(2)] by blast
    from ssh_str_back [OF 2 d(2)] have r1: "r1 = reading (writeLenPrefixed pt @ writeLenPrefixed bd @ rest)" "len pt < 2 ^ 32" by auto
    from ssh_str_back [OF 1 r1(1)] have r: "r = reading (writeLenPrefixed cid @ writeLenPrefixed pt @ writeLenPrefixed bd @ rest)" "len cid < 2 ^ 32" by auto
    obtain cv sz ek where ek: "k = ECDSAPrivate ek"
        "(cid, cv, sz) \<in> {(''nistp256'', P256, 32), (''nistp384'', P384, 48), (''nistp521'', P521, 66)}"
        "len pt = 1 + 2 * sz" "hd pt = chr 4" "ecdsa_ParseRawPrivateKey K cv (LeftPad (be_bytes d) sz) = Inr ek"
        "pub_ECDH (kp_crypto K) (ec_Public ek) = Some pt"
      using ok(3) unfolding openssh_ecdsa_Inr by blast
    have "key_body K keyType (writeLenPrefixed cid @ writeLenPrefixed pt @ writeLenPrefixed bd @ rest) k"
      unfolding ek(1) by (rule key_body.ecdsa [OF ec _ ek(2-4) _ ek(6)]) (use ek(5) d r1(2) r(2) in simp_all)
    with r(1) ok(2) show ?thesis by blast
  qed
qed


lemma body_parses:
  assumes "key_body K keyType body k"
  shows "\<exists>r. parseOpenSSHKeyBody K keyType (reading body) = (Inr k, r) \<and> sb_err r = None"
  using assms
proof cases
  case (ecdsa curveID point d cv sz ek rest)
  have "keyType \<noteq> ''ssh-ed25519''" "keyType \<noteq> ''ssh-rsa''" using ecdsa(3) by auto
  moreover have "openssh_ecdsa K curveID point (be_int d) = Inr k" unfolding openssh_ecdsa_Inr using ecdsa(2,5-9) by blast
  ultimately show ?thesis using ecdsa(1,3,4) by (simp add: parseOpenSSHKeyBody_def)
next
  case (rsa n e d iqmp p q rk rest)
  have "openssh_rsa K (be_int n) (be_int e) (be_int d) (be_int p) (be_int q) = Inr k"
    unfolding openssh_rsa_Inr using rsa(3,5,6) by blast
  then show ?thesis using rsa(1,2,4) by (simp add: parseOpenSSHKeyBody_def)
qed (simp_all add: parseOpenSSHKeyBody_def)

subsection \<open>Whole blobs\<close>

definition private_section :: "'p keyparse_env \<Rightarrow> bytes \<Rightarrow> crypto_signer \<Rightarrow> bool" where
  "private_section K priv k \<longleftrightarrow> (\<exists>check keyType body. priv = PutUint32 check @ PutUint32 check @ writeLenPrefixed keyType @ body
     \<and> len keyType < 2 ^ 32 \<and> key_body K keyType body k)"

lemma parse_private_section_Inr: "parse_private_section K priv = Inr k \<longleftrightarrow> private_section K priv k"
proof
  assume l: "parse_private_section K priv = Inr k"
  obtain c1 r1 where 1: "ssh_u32 (reading priv) = (c1, r1)" by (cases "ssh_u32 (reading priv)")
  obtain c2 r2 where 2: "ssh_u32 r1 = (c2, r2)" by (cases "ssh_u32 r1")
  obtain kt r3 where 3: "ssh_str r2 = (kt, r3)" by (cases "ssh_str r2")
  obtain res r4 where 4: "parseOpenSSHKeyBody K kt r3 = (res, r4)" by (cases "parseOpenSSHKeyBody K kt r3")
  have c: "c1 = c2" "res = Inr k" using l by (auto simp: parse_private_section_def 1 2 3 4 split: if_splits sum.splits)
  obtain body where b: "r3 = reading body" "key_body K kt body k" using parse_body_ok 4 c(2) by blast
  have r2: "r2 = reading (writeLenPrefixed kt @ body)" "len kt < 2 ^ 32" using ssh_str_back [OF 3 b(1)] by auto
  have r1: "r1 = reading (PutUint32 c2 @ writeLenPrefixed kt @ body)" using ssh_u32_ok [of r1 c2 r2] 2 r2(1) by simp
  have "priv = PutUint32 c1 @ PutUint32 c2 @ writeLenPrefixed kt @ body" using ssh_u32_ok [of "reading priv" c1 r1] 1 r1 by simp
  with c(1) r2(2) b(2) show "private_section K priv k" unfolding private_section_def by blast
next
  assume "private_section K priv k"
  then obtain check keyType body where p: "priv = PutUint32 check @ PutUint32 check @ writeLenPrefixed keyType @ body"
      "len keyType < 2 ^ 32" "key_body K keyType body k"
    unfolding private_section_def by blast
  obtain r where "parseOpenSSHKeyBody K keyType (reading body) = (Inr k, r)" "sb_err r = None" using body_parses [OF p(3)] by blast
  then show "parse_private_section K priv = Inr k" using p(2) by (simp add: parse_private_section_def p(1))
qed

text \<open>An unencrypted blob with one key; the public key and what follows are not looked at.\<close>

definition openssh_blob :: "'p keyparse_env \<Rightarrow> bytes \<Rightarrow> crypto_signer \<Rightarrow> bool" where
  "openssh_blob K raw k \<longleftrightarrow> (\<exists>opts pub priv rest.
     raw = opensshMagic @ writeLenPrefixed ''none'' @ writeLenPrefixed ''none'' @ writeLenPrefixed opts @ PutUint32 1
       @ writeLenPrefixed pub @ writeLenPrefixed priv @ rest
     \<and> list_all (\<lambda>s. len s < 2 ^ 32) [opts, pub, priv] \<and> private_section K priv k)"

lemma ParseOpenSSHPrivateKey_Inr: "ParseOpenSSHPrivateKey K raw = Inr k \<longleftrightarrow> openssh_blob K raw k"
proof
  assume l: "ParseOpenSSHPrivateKey K raw = Inr k"
  then have "has_prefix raw opensshMagic" by (auto simp: ParseOpenSSHPrivateKey_def split: if_splits)
  then have raw: "raw = opensshMagic @ drop (length opensshMagic) raw" unfolding has_prefix_def by (metis append_take_drop_id)
  let ?b = "drop (length opensshMagic) raw"
  obtain cipher r1 where 1: "ssh_str (reading ?b) = (cipher, r1)" by (cases "ssh_str (reading ?b)")
  obtain kdf r2 where 2: "ssh_str r1 = (kdf, r2)" by (cases "ssh_str r1")
  obtain opts r3 where 3: "ssh_str r2 = (opts, r3)" by (cases "ssh_str r2")
  obtain n r4 where 4: "ssh_u32 r3 = (n, r4)" by (cases "ssh_u32 r3")
  obtain pub r5 where 5: "ssh_str r4 = (pub, r5)" by (cases "ssh_str r4")
  obtain priv r6 where 6: "ssh_str r5 = (priv, r6)" by (cases "ssh_str r5")
  have ok: "sb_err r6 = None" "cipher = ''none''" "kdf = ''none''" "n = 1" "parse_private_section K priv = Inr k"
    using l by (auto simp: ParseOpenSSHPrivateKey_def 1 2 3 4 5 6 split: if_splits)
  obtain rest where r5: "r5 = reading (writeLenPrefixed priv @ rest)" "len priv < 2 ^ 32" using ssh_strE [OF 6 ok(1)] by blast
  have r4: "r4 = reading (writeLenPrefixed pub @ writeLenPrefixed priv @ rest)" "len pub < 2 ^ 32" using ssh_str_back [OF 5 r5(1)] by auto
  have r3: "r3 = reading (PutUint32 1 @ writeLenPrefixed pub @ writeLenPrefixed priv @ rest)" using ssh_u32_ok [of r3 n r4] 4 r4(1) ok(4) by simp
  have r2: "r2 = reading (writeLenPrefixed opts @ PutUint32 1 @ writeLenPrefixed pub @ writeLenPrefixed priv @ rest)" "len opts < 2 ^ 32"
    using ssh_str_back [OF 3 r3] by auto
  have r1: "r1 = reading (writeLenPrefixed ''none'' @ writeLenPrefixed opts @ PutUint32 1 @ writeLenPrefixed pub @ writeLenPrefixed priv @ rest)"
    using ssh_str_back [OF 2 r2(1)] ok(3) by auto
  have "?b = writeLenPrefixed ''none'' @ writeLenPrefixed ''none'' @ writeLenPrefixed opts @ PutUint32 1 @ writeLenPrefixed pub @ writeLenPrefixed priv @ rest"
    using ssh_str_back [OF 1 r1] ok(2) by auto
  with raw r5(2) r4(2) r2(2) ok(5) show "openssh_blob K raw k" unfolding openssh_blob_def parse_private_section_Inr by auto
next
  assume "openssh_blob K raw k"
  then show "ParseOpenSSHPrivateKey K raw = Inr k"
    unfolding openssh_blob_def parse_private_section_Inr [symmetric]
    by (auto simp: ParseOpenSSHPrivateKey_def has_prefix_def len_def)
qed

definition refusal_ok :: "'a result \<Rightarrow> bool" where
  "refusal_ok r \<longleftrightarrow> (case r of Inl e \<Rightarrow> errors_is e ErrMalformedKey | Inr _ \<Rightarrow> True)"

lemma refusal_ok_simps [simp]:
  "refusal_ok (Inr k)" "refusal_ok (Inl [ErrMalformedKey])" "refusal_ok (Inl (wrap ErrMalformedKey e))" "refusal_ok (Inl (short_key p))"
  by (simp_all add: refusal_ok_def short_key_def)

lemma openssh_refusals:
  "refusal_ok (openssh_rsa K n e d p q)" "refusal_ok (openssh_ecdsa K i pt d)"
  "refusal_ok (fst (parseOpenSSHKeyBody K t r))"
  "refusal_ok (parse_private_section K priv)"
  "refusal_ok (ParseOpenSSHPrivateKey K raw)"
proof -
  show k: "refusal_ok (openssh_rsa K n e d p q)" "refusal_ok (openssh_ecdsa K i pt d)" for n e d p q i pt
    by (simp_all add: openssh_rsa_def openssh_ecdsa_def Let_def split: option.split sum.split)
  show b: "refusal_ok (fst (parseOpenSSHKeyBody K t r))" for t r
    by (simp add: parseOpenSSHKeyBody_def case_prod_beta k)
  have e: "refusal_ok (case x of (Inl e, p) \<Rightarrow> Inl e | (Inr s, p) \<Rightarrow> if sb_err p \<noteq> None then Inl (short_key p) else Inr s)"
    if "refusal_ok (fst x)" for x :: "crypto_signer result \<times> ssh_buf"
    using that by (cases x; cases "fst x") (auto simp: refusal_ok_def short_key_def)
  show p: "refusal_ok (parse_private_section K priv)" for priv
    unfolding parse_private_section_def by (simp add: e [OF b] split: prod.split)
  show "refusal_ok (ParseOpenSSHPrivateKey K raw)"
    by (simp add: ParseOpenSSHPrivateKey_def case_prod_beta p)
qed

text \<open>A key built from a seed passes the check of the expanded form.\<close>

lemma ed25519_seed_expanded:
  assumes "\<And>s. len s = 32 \<Longrightarrow> len (ed25519_NewKeyFromSeed K s) = 64 \<and> take 32 (ed25519_NewKeyFromSeed K s) = s"
    "ParseEd25519PrivateKeySeed K seed = Inr k"
  shows "ParseEd25519PrivateKeyExpanded K k = Inr k"
  using assms by (auto simp: ParseEd25519PrivateKeySeed_def ParseEd25519PrivateKeyExpanded_def split: if_splits)

section \<open>Properties\<close>

text \<open>
  C10: the OpenSSH parser accepts exactly these blobs: the magic, cipher and KDF \<^verbatim>\<open>none\<close>, one key,
  and a private section whose check integers agree and whose key fields, each within its
  length, are as \<open>key_body\<close> spells out: 64 private bytes for Ed25519; for RSA numbers that
  \<^verbatim>\<open>rsa\<close>'s \<^verbatim>\<open>Validate\<close> passes, with the exponent taken modulo \<open>2 ^ 64\<close> as a signed
  number, so that a longer exponent is accepted as the truncated one; for ECDSA one of the three
  curves, an uncompressed point of its size, and a scalar \<^verbatim>\<open>crypto/ecdsa\<close> accepts and whose
  public point is that point.  The copies of the public key, the comment, the padding and
  trailing bytes are not looked at.  The returned key is the only one such a blob
  describes, and every other input is refused with a malformed-key error.
\<close>

theorem openssh_parse_exact:
  "case ParseOpenSSHPrivateKey K raw of
     Inr k \<Rightarrow> (\<forall>k'. openssh_blob K raw k' \<longleftrightarrow> k' = k)
   | Inl e \<Rightarrow> errors_is e ErrMalformedKey \<and> (\<forall>k'. \<not> openssh_blob K raw k')"
proof (cases "ParseOpenSSHPrivateKey K raw")
  case (Inl e)
  then show ?thesis using openssh_refusals(5) [of K raw] by (auto simp: refusal_ok_def ParseOpenSSHPrivateKey_Inr [symmetric])
next
  case (Inr k)
  then show ?thesis by (auto simp: ParseOpenSSHPrivateKey_Inr [symmetric])
qed

text \<open>
  of the public exponent of an OpenSSH RSA key only the low 64 bits are read: an exponent that
  exceeds them gives the key of its remainder, not an error.
\<close>

theorem openssh_exponent_truncated:
  "openssh_rsa K n (e + 2 ^ 64 * m) d p q = openssh_rsa K n e d p q"
proof -
  have "(word_of_int (e + 2 ^ 64 * m) :: 64 word) = word_of_int e"
    unfolding word_of_int_eq_iff take_bit_eq_mod by simp
  then show ?thesis by (simp add: openssh_rsa_def big_Int64_def)
qed

end
