(* ===== verification/Opaque.thy ===== *)
theory Opaque
  imports JWE Thumbprint
begin

text \<open>
  \<^verbatim>\<open>opaque.go\<close> and \<^verbatim>\<open>rotation.go\<close>: opaque tokens with their stored SHA-256 hash, and the
  identifiers of token families.  Entropy is the stream that \<^verbatim>\<open>crypto/rand\<close> reads from.
  Shown: a token verifies against its own stored hash and, as far as the hash is injective,
  against no other; fresh tokens are as distinct as the entropy they are made of; and printing
  a token shows nothing of the credential but its hash.
\<close>

section \<open>Opaque tokens\<close>

record opaque_token =
  ot_Raw :: string
  ot_Hash :: string

definition hex_encode :: "bytes \<Rightarrow> string" where
  "hex_encode b = concat (map (\<lambda>c. [hex_digit (ord c div 16), hex_digit (ord c mod 16)]) b)"

definition opaqueTokenBytes :: int where "opaqueTokenBytes = 32"

definition HashOpaqueToken :: "crypto \<Rightarrow> string \<Rightarrow> string" where
  "HashOpaqueToken c raw = hex_encode (hash_sum c SHA256 raw)"

definition OpaqueTokenFromRaw :: "crypto \<Rightarrow> string \<Rightarrow> opaque_token" where
  "OpaqueTokenFromRaw c raw = \<lparr>ot_Raw = raw, ot_Hash = HashOpaqueToken c raw\<rparr>"

definition NewOpaqueToken :: "crypto \<Rightarrow> entropy \<Rightarrow> opaque_token \<times> entropy" where
  "NewOpaqueToken c e =
     (case rand_Read opaqueTokenBytes e of (buf, e') \<Rightarrow>
        let raw = Encode buf in (\<lparr>ot_Raw = raw, ot_Hash = HashOpaqueToken c raw\<rparr>, e'))"

definition VerifyOpaqueTokenHash :: "crypto \<Rightarrow> string \<Rightarrow> string \<Rightarrow> bool" where
  "VerifyOpaqueTokenHash c storedHash raw \<longleftrightarrow> storedHash = HashOpaqueToken c raw"

definition OpaqueToken_String :: "(string \<Rightarrow> bool) \<Rightarrow> opaque_token \<Rightarrow> string" where
  "OpaqueToken_String is_print t = ''OpaqueToken{Raw:<redacted>, Hash:'' @ quote is_print (ot_Hash t) @ ''}''"

definition GoString :: "(string \<Rightarrow> bool) \<Rightarrow> opaque_token \<Rightarrow> string" where
  "GoString is_print t = OpaqueToken_String is_print t"

text \<open>The deprecated names.\<close>

definition DeriveOpaqueToken :: "crypto \<Rightarrow> string \<Rightarrow> opaque_token" where
  "DeriveOpaqueToken c raw = OpaqueTokenFromRaw c raw"

definition opaque_Hash :: "crypto \<Rightarrow> string \<Rightarrow> string" where
  "opaque_Hash c raw = HashOpaqueToken c raw"

definition opaque_Equal :: "crypto \<Rightarrow> string \<Rightarrow> string \<Rightarrow> bool" where
  "opaque_Equal c storedHash raw = VerifyOpaqueTokenHash c storedHash raw"

section \<open>Token families\<close>

record token_family =
  tf_ID :: string

definition familyIDBytes :: int where "familyIDBytes = 16"

definition NewTokenFamily :: "entropy \<Rightarrow> token_family \<times> entropy" where
  "NewTokenFamily e = (case rand_Read familyIDBytes e of (buf, e') \<Rightarrow> (\<lparr>tf_ID = Encode buf\<rparr>, e'))"

record rotation_result =
  rr_Next :: opaque_token
  rr_ReuseDetected :: bool

section \<open>Lemmas\<close>

lemma hex_digit_inj: "0 \<le> m \<Longrightarrow> m < 16 \<Longrightarrow> 0 \<le> n \<Longrightarrow> n < 16 \<Longrightarrow> hex_digit m = hex_digit n \<longleftrightarrow> m = n"
  using hex_val_digit by (metis option.inject)

lemma hex_encode_inj: "hex_encode a = hex_encode b \<longleftrightarrow> a = b"
proof (induction a arbitrary: b)
  case (Cons x a)
  show ?case
  proof (cases b)
    case (Cons y b')
    have o: "0 \<le> ord z div 16" "ord z div 16 < 16" "0 \<le> ord z mod 16" "ord z mod 16 < 16" for z
      using quot_split [of "ord z" 16 16] by auto
    have "ord x div 16 = ord y div 16 \<and> ord x mod 16 = ord y mod 16 \<longleftrightarrow> x = y"
      by (metis div_mult_mod_eq ord_inject)
    moreover have "hex_encode a = hex_encode b' \<longleftrightarrow> a = b'" by (rule Cons.IH)
    ultimately show ?thesis using o by (auto simp: Cons hex_encode_def hex_digit_inj)
  qed (simp add: hex_encode_def)
qed (auto simp: hex_encode_def)

lemma Encode_inj: "Encode a = Encode b \<longleftrightarrow> a = b"
  by (metis Encode_def decode_encode option.inject)

section \<open>Properties\<close>

text \<open>
  a fresh opaque token is 43 characters long and determines, and is determined by, the 32
  bytes of entropy it was made of; a credential verifies against its stored hash exactly when
  the two have the same digest; and what is printed for a token does not depend on the
  credential beyond that hash.
\<close>

theorem opaque_tokens_sound:
  "len (ot_Raw (fst (NewOpaqueToken c e))) = 43
   \<and> (ot_Raw (fst (NewOpaqueToken c e)) = ot_Raw (fst (NewOpaqueToken c e')) \<longleftrightarrow> map e [0..<32] = map e' [0..<32])
   \<and> (VerifyOpaqueTokenHash c (ot_Hash (fst (NewOpaqueToken c e))) raw \<longleftrightarrow>
        hash_sum c SHA256 raw = hash_sum c SHA256 (ot_Raw (fst (NewOpaqueToken c e))))
   \<and> OpaqueToken_String p (t\<lparr>ot_Raw := raw\<rparr>) = OpaqueToken_String p t"
proof -
  have r: "ot_Raw (fst (NewOpaqueToken c e)) = Encode (map e [0..<32])" for e
    by (simp add: NewOpaqueToken_def rand_Read_def opaqueTokenBytes_def Let_def)
  have h: "ot_Hash (fst (NewOpaqueToken c e)) = HashOpaqueToken c (ot_Raw (fst (NewOpaqueToken c e)))"
    by (simp add: NewOpaqueToken_def rand_Read_def Let_def)
  have "len (Encode (map e [0..<32])) = 43" unfolding Encode_def b64_encode_len by (simp add: len_def)
  then show ?thesis
    unfolding r h by (auto simp: Encode_inj VerifyOpaqueTokenHash_def HashOpaqueToken_def hex_encode_inj OpaqueToken_String_def)
qed

end
