(* ===== verification/Rotation.thy ===== *)
theory Rotation
  imports Revoke Opaque
begin

text \<open>
  Refresh-token rotation, \<^verbatim>\<open>examples/refresh_rotation\<close>: the rotator that puts opaque tokens
  (\<^verbatim>\<open>opaque.go\<close>), token families (\<^verbatim>\<open>rotation.go\<close>) and a revocation store (\<^verbatim>\<open>revoke.go\<close>)
  together.  The store is the interface \<^verbatim>\<open>RevocationStore\<close>, the pair of functions of the
  locale \<open>revocations\<close>; \<^verbatim>\<open>rotate\<close> asks it at one time and revokes at a later one.

  The runs of a rotator are an inductive relation that keeps the history of what it handed out
  and answered.  Shown, for every store that keeps the contract: a presented token is accepted
  exactly when it is the token handed out last for its family and no reuse was detected in the
  family before, so a family in which a superseded or forged token was presented is dead for
  ever; and the program prints what its comments say.
\<close>

section \<open>The rotator\<close>

record 's rotator =
  ro_live :: "(string \<times> string) list"
  ro_revoke :: 's

definition live_hash :: "'s rotator \<Rightarrow> string \<Rightarrow> string" where
  "live_hash r fid = (case map_of (ro_live r) fid of None \<Rightarrow> [] | Some h \<Rightarrow> h)"

definition issue :: "crypto \<Rightarrow> token_family \<Rightarrow> 's rotator \<Rightarrow> entropy \<Rightarrow> opaque_token \<times> 's rotator \<times> entropy" where
  "issue c fam r e =
     (case NewOpaqueToken c e of (tok, e') \<Rightarrow>
        (tok, r\<lparr>ro_live := alist_set (tf_ID fam) (ot_Hash tok) (ro_live r)\<rparr>, e'))"

definition zero_token :: opaque_token where
  "zero_token = \<lparr>ot_Raw = [], ot_Hash = []\<rparr>"

definition reuse_result :: rotation_result where
  "reuse_result = \<lparr>rr_Next = zero_token, rr_ReuseDetected = True\<rparr>"

text \<open>The error of \<^verbatim>\<open>Revoke\<close> is dropped, as in the code.\<close>

definition rotate_token :: "'s revoke_fun \<Rightarrow> 's query_fun \<Rightarrow> crypto \<Rightarrow> time \<Rightarrow> time \<Rightarrow> token_family \<Rightarrow> string \<Rightarrow>
    's rotator \<Rightarrow> entropy \<Rightarrow> rotation_result result \<times> 's rotator \<times> entropy" where
  "rotate_token revoke query c t1 t2 fam presented r e =
     (case query t1 (tf_ID fam) (ro_revoke r) of (revoked, s) \<Rightarrow>
        let r = r\<lparr>ro_revoke := s\<rparr>
        in case revoked of
             Inl err \<Rightarrow> (Inl err, r, e)
           | Inr True \<Rightarrow> (Inr reuse_result, r, e)
           | Inr False \<Rightarrow>
               if \<not> VerifyOpaqueTokenHash c (live_hash r (tf_ID fam)) presented then
                 (case revoke t2 (tf_ID fam) ReasonReuseDetected zero_time (ro_revoke r) of (_, s) \<Rightarrow>
                    (Inr reuse_result, r\<lparr>ro_revoke := s\<rparr>, e))
               else
                 (case NewOpaqueToken c e of (tok, e') \<Rightarrow>
                    (Inr \<lparr>rr_Next = tok, rr_ReuseDetected = False\<rparr>,
                     r\<lparr>ro_live := alist_set (tf_ID fam) (ot_Hash tok) (ro_live r)\<rparr>, e')))"

section \<open>The program\<close>

definition show_bool :: "bool \<Rightarrow> string" where
  "show_bool b = (if b then ''true'' else ''false'')"

definition new_rotator :: "'s \<Rightarrow> 's rotator" where
  "new_rotator store = \<lparr>ro_live = [], ro_revoke = store\<rparr>"

text \<open>
  \<^verbatim>\<open>main\<close>: the lines printed.  The errors of \<^verbatim>\<open>rotate\<close> are dropped there, with the zero result;
  \<open>ts\<close> are the eight times at which the store is asked.
\<close>

definition result_or_zero :: "rotation_result result \<Rightarrow> rotation_result" where
  "result_or_zero res = (case res of Inl _ \<Rightarrow> \<lparr>rr_Next = zero_token, rr_ReuseDetected = False\<rparr> | Inr x \<Rightarrow> x)"

definition main_refresh_rotation :: "'s revoke_fun \<Rightarrow> 's query_fun \<Rightarrow> 's \<Rightarrow> crypto \<Rightarrow> (nat \<Rightarrow> time) \<Rightarrow> entropy \<Rightarrow> string list" where
  "main_refresh_rotation revoke query store c ts e =
     (case NewTokenFamily e of (fam, e) \<Rightarrow>
         case issue c fam (new_rotator store) e of (t0, r, e) \<Rightarrow>
         case rotate_token revoke query c (ts 0) (ts 1) fam (ot_Raw t0) r e of (res1, r, e) \<Rightarrow>
         let t1 = rr_Next (result_or_zero res1)
         in case rotate_token revoke query c (ts 2) (ts 3) fam (ot_Raw t1) r e of (res2, r, e) \<Rightarrow>
         let t2 = rr_Next (result_or_zero res2)
         in case rotate_token revoke query c (ts 4) (ts 5) fam (ot_Raw t1) r e of (res3, r, e) \<Rightarrow>
         case rotate_token revoke query c (ts 6) (ts 7) fam (ot_Raw t2) r e of (res4, r, e) \<Rightarrow>
           [''t0 -> t1 (reuse='' @ show_bool (rr_ReuseDetected (result_or_zero res1)) @ '')'',
            ''t1 -> t2 (reuse='' @ show_bool (rr_ReuseDetected (result_or_zero res2)) @ '')'',
            ''replay t1 -> reuse='' @ show_bool (rr_ReuseDetected (result_or_zero res3)) @ '' (family now revoked)'',
            ''present t2 -> reuse='' @ show_bool (rr_ReuseDetected (result_or_zero res4)) @ '' (family is dead)''])"

section \<open>Runs\<close>

datatype rotation_event =
    Issued string opaque_token
  | Rotated string string "rotation_result result"

inductive rotation_run :: "'s revoke_fun \<Rightarrow> 's query_fun \<Rightarrow> 's \<Rightarrow> crypto \<Rightarrow> rotation_event list \<Rightarrow> time \<Rightarrow> 's rotator \<Rightarrow> entropy \<Rightarrow> bool"
  for revoke query store c where
  start: "rotation_run revoke query store c [] now (new_rotator store) e"
| issue: "rotation_run revoke query store c h now r e \<Longrightarrow> tf_ID fam \<noteq> [] \<Longrightarrow> issue c fam r e = (tok, r', e') \<Longrightarrow>
    rotation_run revoke query store c (h @ [Issued (tf_ID fam) tok]) now r' e'"
| rotate: "rotation_run revoke query store c h now r e \<Longrightarrow> tf_ID fam \<noteq> [] \<Longrightarrow> now \<le> t1 \<Longrightarrow> t1 \<le> t2 \<Longrightarrow>
    rotate_token revoke query c t1 t2 fam p r e = (res, r', e') \<Longrightarrow>
    rotation_run revoke query store c (h @ [Rotated (tf_ID fam) p res]) t2 r' e'"

text \<open>What a history says of a family: whether reuse was detected, and the hash of the token handed out last.\<close>

fun reuse_event :: "string \<Rightarrow> rotation_event \<Rightarrow> bool" where
  "reuse_event fid (Rotated i p (Inr res)) \<longleftrightarrow> i = fid \<and> rr_ReuseDetected res"
| "reuse_event fid _ \<longleftrightarrow> False"

definition burnt :: "string \<Rightarrow> rotation_event list \<Rightarrow> bool" where
  "burnt fid h \<longleftrightarrow> list_ex (reuse_event fid) h"

fun handed_out :: "string \<Rightarrow> rotation_event \<Rightarrow> string \<Rightarrow> string" where
  "handed_out fid (Issued i tok) old = (if i = fid then ot_Hash tok else old)"
| "handed_out fid (Rotated i p (Inr res)) old = (if i = fid \<and> \<not> rr_ReuseDetected res then ot_Hash (rr_Next res) else old)"
| "handed_out fid (Rotated i p (Inl _)) old = old"

definition last_handed_out :: "string \<Rightarrow> rotation_event list \<Rightarrow> string" where
  "last_handed_out fid h = fold (handed_out fid) h []"

lemma history_snoc [simp]:
  "burnt fid (h @ [x]) \<longleftrightarrow> burnt fid h \<or> reuse_event fid x"
  "last_handed_out fid (h @ [x]) = handed_out fid x (last_handed_out fid h)"
  by (simp_all add: burnt_def last_handed_out_def)

lemma history_Nil [simp]: "\<not> burnt fid []" "last_handed_out fid [] = []"
  by (simp_all add: burnt_def last_handed_out_def)

lemma live_hash_set: "live_hash (r\<lparr>ro_live := alist_set i h (ro_live r)\<rparr>) fid = (if fid = i then h else live_hash r fid)"
  by (simp add: live_hash_def)

lemma live_hash_store [simp]: "live_hash (r\<lparr>ro_revoke := s\<rparr>) fid = live_hash r fid"
  by (simp add: live_hash_def)

text \<open>What the next presentation answers, and the invariant of the runs.\<close>

definition rotation_answer :: "crypto \<Rightarrow> rotation_event list \<Rightarrow> string \<Rightarrow> string \<Rightarrow> entropy \<Rightarrow> rotation_result" where
  "rotation_answer c h fid p e =
     (if burnt fid h \<or> last_handed_out fid h \<noteq> HashOpaqueToken c p then reuse_result
      else \<lparr>rr_Next = fst (NewOpaqueToken c e), rr_ReuseDetected = False\<rparr>)"

definition rotator_inv :: "('s \<Rightarrow> bool) \<Rightarrow> ('s \<Rightarrow> string \<rightharpoonup> time) \<Rightarrow> rotation_event list \<Rightarrow> time \<Rightarrow> 's rotator \<Rightarrow> bool" where
  "rotator_inv valid view h now r \<longleftrightarrow> valid (ro_revoke r)
     \<and> (\<forall>fid t. now \<le> t \<longrightarrow> expiry_live (view (ro_revoke r) fid) t = burnt fid h)
     \<and> (\<forall>fid. live_hash r fid = last_handed_out fid h)"

lemma issue_eq: "issue c fam r e = (fst (NewOpaqueToken c e),
    r\<lparr>ro_live := alist_set (tf_ID fam) (ot_Hash (fst (NewOpaqueToken c e))) (ro_live r)\<rparr>, snd (NewOpaqueToken c e))"
  by (simp add: issue_def split: prod.split)

lemma rotate_entropy:
  "rotate_token revoke query c t1 t2 fam p r e = (Inr x, r', e') \<Longrightarrow> e' = (if rr_ReuseDetected x then e else snd (NewOpaqueToken c e))"
  by (auto simp: rotate_token_def Let_def reuse_result_def split: prod.splits sum.splits bool.splits if_splits)

context revocations
begin

lemma rotate_step:
  assumes "rotator_inv valid view h now r" "tf_ID fam \<noteq> []" "now \<le> t1" "t1 \<le> t2"
    "rotate_token revoke query c t1 t2 fam p r e = (res, r', e')"
  shows "res = Inr (rotation_answer c h (tf_ID fam) p e) \<and> rotator_inv valid view (h @ [Rotated (tf_ID fam) p res]) t2 r'"
proof -
  have inv: "valid (ro_revoke r)" "\<And>fid t. now \<le> t \<Longrightarrow> expiry_live (view (ro_revoke r) fid) t = burnt fid h"
      "\<And>fid. live_hash r fid = last_handed_out fid h"
    using assms(1) by (auto simp: rotator_inv_def)
  obtain revoked s where q: "query t1 (tf_ID fam) (ro_revoke r) = (revoked, s)" by (cases "query t1 (tf_ID fam) (ro_revoke r)")
  have s: "revoked = Inr (burnt (tf_ID fam) h)" "valid s" "\<And>fid t. t1 \<le> t \<Longrightarrow> expiry_live (view s fid) t = burnt fid h"
    using query [OF inv(1) assms(2) _ q] inv(2) assms(3) by (auto intro: order_trans)
  consider "burnt (tf_ID fam) h" | "\<not> burnt (tf_ID fam) h" "last_handed_out (tf_ID fam) h \<noteq> HashOpaqueToken c p"
    | "\<not> burnt (tf_ID fam) h" "last_handed_out (tf_ID fam) h = HashOpaqueToken c p" by blast
  then show ?thesis
  proof cases
    case 1
    then have "res = Inr reuse_result" "r' = r\<lparr>ro_revoke := s\<rparr>" using assms(5) q s(1) by (simp_all add: rotate_token_def Let_def)
    with 1 s assms(4) inv(3) show ?thesis by (auto simp: rotation_answer_def rotator_inv_def reuse_result_def)
  next
    case 2
    obtain err s' where v: "revoke t2 (tf_ID fam) ReasonReuseDetected zero_time s = (err, s')"
      by (cases "revoke t2 (tf_ID fam) ReasonReuseDetected zero_time s")
    have r': "res = Inr reuse_result" "r' = r\<lparr>ro_revoke := s'\<rparr>"
      using assms(5) q s(1) 2 v inv(3) by (simp_all add: rotate_token_def Let_def VerifyOpaqueTokenHash_def)
    have "valid s'" "expiry_live (view s' fid) t = (fid = tf_ID fam \<or> burnt fid h)" if "t2 \<le> t" for fid t
      using revoke [OF s(2) assms(2) that v, of fid] s(3) [of t fid] that assms(4) by (auto simp: expiry_live_def live_until_def)
    with 2 r' inv(3) show ?thesis by (auto simp: rotation_answer_def rotator_inv_def reuse_result_def)
  next
    case 3
    obtain tok e1 where n: "NewOpaqueToken c e = (tok, e1)" by (cases "NewOpaqueToken c e")
    have r': "res = Inr \<lparr>rr_Next = tok, rr_ReuseDetected = False\<rparr>"
        "r' = r\<lparr>ro_revoke := s, ro_live := alist_set (tf_ID fam) (ot_Hash tok) (ro_live r)\<rparr>"
      using assms(5) q s(1) 3 n inv(3) by (simp_all add: rotate_token_def Let_def VerifyOpaqueTokenHash_def)
    with 3 n s assms(4) inv(3) show ?thesis
      by (auto simp: rotation_answer_def rotator_inv_def live_hash_set [where r = "r\<lparr>ro_revoke := s\<rparr>", simplified])
  qed
qed

lemma run_inv: "rotation_run revoke query empty c h now r e \<Longrightarrow> rotator_inv valid view h now r"
proof (induction rule: rotation_run.induct)
  case (start now e)
  then show ?case using empty by (simp add: rotator_inv_def expiry_live_def live_hash_def new_rotator_def)
next
  case (issue h now r e fam tok r' e')
  then have "r' = r\<lparr>ro_live := alist_set (tf_ID fam) (ot_Hash tok) (ro_live r)\<rparr>"
    by (auto simp: issue_def split: prod.splits)
  with issue show ?case by (auto simp: rotator_inv_def live_hash_set)
next
  case (rotate h now r e fam t1 t2 p res r' e')
  then show ?case using rotate_step by blast
qed

lemma rotation_answers:
  assumes "rotation_run revoke query empty c h now r e" "tf_ID fam \<noteq> []" "now \<le> t1" "t1 \<le> t2"
  shows "fst (rotate_token revoke query c t1 t2 fam p r e) = Inr (rotation_answer c h (tf_ID fam) p e)"
  using rotate_step [OF run_inv [OF assms(1)] assms(2-4)] by (metis prod.collapse)

lemma rotation_step:
  assumes "rotation_run revoke query empty c h now r e" "tf_ID fam \<noteq> []" "now \<le> t1" "t1 \<le> t2"
  obtains r' where
    "rotate_token revoke query c t1 t2 fam p r e = (Inr (rotation_answer c h (tf_ID fam) p e), r',
       if rr_ReuseDetected (rotation_answer c h (tf_ID fam) p e) then e else snd (NewOpaqueToken c e))"
    "rotation_run revoke query empty c (h @ [Rotated (tf_ID fam) p (Inr (rotation_answer c h (tf_ID fam) p e))]) t2 r'
       (if rr_ReuseDetected (rotation_answer c h (tf_ID fam) p e) then e else snd (NewOpaqueToken c e))"
proof -
  obtain res r' e' where eq: "rotate_token revoke query c t1 t2 fam p r e = (res, r', e')"
    by (cases "rotate_token revoke query c t1 t2 fam p r e")
  have res: "res = Inr (rotation_answer c h (tf_ID fam) p e)" using rotation_answers [OF assms, of p] eq by simp
  have "e' = (if rr_ReuseDetected (rotation_answer c h (tf_ID fam) p e) then e else snd (NewOpaqueToken c e))"
    by (rule rotate_entropy [OF eq [unfolded res]])
  with eq rotation_run.rotate [OF assms eq] show thesis using that unfolding res by simp
qed

text \<open>The demonstration: its four rotations, when the last two tokens have different digests.\<close>

lemma demo:
  assumes "mono ts" "hash_sum c SHA256 (Encode (map e [48..<80])) \<noteq> hash_sum c SHA256 (Encode (map e [80..<112]))"
  shows "main_refresh_rotation revoke query empty c ts e =
    [''t0 -> t1 (reuse=false)'', ''t1 -> t2 (reuse=false)'',
     ''replay t1 -> reuse=true (family now revoked)'', ''present t2 -> reuse=true (family is dead)'']"
proof -
  let ?fam = "fst (NewTokenFamily e)" and ?e0 = "\<lambda>i. e (i + 16)" and ?tok = "\<lambda>n. fst (NewOpaqueToken c (\<lambda>i. e (i + n)))"
  have "Encode (map e [0..<16]) \<noteq> Encode []" unfolding Encode_inj by simp
  moreover have "Encode [] = []" by code_simp
  ultimately have id: "tf_ID ?fam \<noteq> []" by (simp add: NewTokenFamily_def rand_Read_def familyIDBytes_def)
  have fam: "NewTokenFamily e = (?fam, ?e0)" by (simp add: NewTokenFamily_def rand_Read_def familyIDBytes_def)
  have new: "snd (NewOpaqueToken c (\<lambda>i. e (i + n))) = (\<lambda>i. e (i + (n + 32)))" for n
    by (simp add: NewOpaqueToken_def rand_Read_def opaqueTokenBytes_def Let_def add.assoc add.commute [of 32])
  have seg: "map (\<lambda>i. e (i + n)) [0..<32] = map e [n..<n + 32]" for n
    by (rule nth_equalityI) (simp_all add: add.commute)
  have raw: "ot_Raw (?tok n) = Encode (map e [n..<n + 32])" "ot_Hash (?tok n) = HashOpaqueToken c (ot_Raw (?tok n))" for n
    by (simp_all add: NewOpaqueToken_def rand_Read_def opaqueTokenBytes_def Let_def seg)
  have t: "ts 0 \<le> ts 1" "ts 1 \<le> ts 2" "ts 2 \<le> ts 3" "ts 3 \<le> ts 4" "ts 4 \<le> ts 5" "ts 5 \<le> ts 6" "ts 6 \<le> ts 7"
    by (rule monoD [OF assms(1)]; simp)+
  have diff: "ot_Hash (?tok 80) \<noteq> HashOpaqueToken c (ot_Raw (?tok 48))"
    using assms(2) by (simp add: raw HashOpaqueToken_def hex_encode_inj)
  define r0 where "r0 = fst (snd (issue c ?fam (new_rotator empty) ?e0))"
  have "snd (NewOpaqueToken c ?e0) = (\<lambda>i. e (i + 48))" using new [of 16] by simp
  then have i0: "issue c ?fam (new_rotator empty) ?e0 = (?tok 16, r0, \<lambda>i. e (i + 48))" by (simp add: r0_def issue_eq)
  let ?h0 = "[] @ [Issued (tf_ID ?fam) (?tok 16)]"
  have s0: "rotation_run revoke query empty c ?h0 (ts 0) r0 (\<lambda>i. e (i + 48))"
    by (rule rotation_run.issue [OF rotation_run.start id i0])
  have a: "rotation_answer c h fid p (\<lambda>i. e (i + n)) = (if burnt fid h \<or> last_handed_out fid h \<noteq> HashOpaqueToken c p then reuse_result
      else \<lparr>rr_Next = ?tok n, rr_ReuseDetected = False\<rparr>)" for h fid p n
    by (simp add: rotation_answer_def)
  let ?a1 = "\<lparr>rr_Next = ?tok 48, rr_ReuseDetected = False\<rparr>" and ?a2 = "\<lparr>rr_Next = ?tok 80, rr_ReuseDetected = False\<rparr>"
  let ?h1 = "?h0 @ [Rotated (tf_ID ?fam) (ot_Raw (?tok 16)) (Inr ?a1)]"
  let ?h2 = "?h1 @ [Rotated (tf_ID ?fam) (ot_Raw (?tok 48)) (Inr ?a2)]"
  let ?h3 = "?h2 @ [Rotated (tf_ID ?fam) (ot_Raw (?tok 48)) (Inr reuse_result)]"
  have a1: "rotation_answer c ?h0 (tf_ID ?fam) (ot_Raw (?tok 16)) (\<lambda>i. e (i + 48)) = ?a1" by (simp add: a raw(2) burnt_def last_handed_out_def)
  obtain r1 where r1: "rotate_token revoke query c (ts 0) (ts 1) ?fam (ot_Raw (?tok 16)) r0 (\<lambda>i. e (i + 48)) = (Inr ?a1, r1, \<lambda>i. e (i + 80))"
      "rotation_run revoke query empty c ?h1 (ts 1) r1 (\<lambda>i. e (i + 80))"
    using rotation_step [OF s0 id order_refl t(1), of "ot_Raw (?tok 16)"] new [of 48] unfolding a1 by auto
  have a2: "rotation_answer c ?h1 (tf_ID ?fam) (ot_Raw (?tok 48)) (\<lambda>i. e (i + 80)) = ?a2" by (simp add: a raw(2) burnt_def last_handed_out_def)
  obtain r2 where r2: "rotate_token revoke query c (ts 2) (ts 3) ?fam (ot_Raw (?tok 48)) r1 (\<lambda>i. e (i + 80)) = (Inr ?a2, r2, \<lambda>i. e (i + 112))"
      "rotation_run revoke query empty c ?h2 (ts 3) r2 (\<lambda>i. e (i + 112))"
    using rotation_step [OF r1(2) id t(2) t(3), of "ot_Raw (?tok 48)"] new [of 80] unfolding a2 by auto
  have a3: "rotation_answer c ?h2 (tf_ID ?fam) (ot_Raw (?tok 48)) (\<lambda>i. e (i + 112)) = reuse_result" using diff by (simp add: a burnt_def last_handed_out_def)
  obtain r3 where r3: "rotate_token revoke query c (ts 4) (ts 5) ?fam (ot_Raw (?tok 48)) r2 (\<lambda>i. e (i + 112)) = (Inr reuse_result, r3, \<lambda>i. e (i + 112))"
      "rotation_run revoke query empty c ?h3 (ts 5) r3 (\<lambda>i. e (i + 112))"
    using rotation_step [OF r2(2) id t(4) t(5), of "ot_Raw (?tok 48)"] unfolding a3 by (auto simp: reuse_result_def)
  have a4: "rotation_answer c ?h3 (tf_ID ?fam) (ot_Raw (?tok 80)) (\<lambda>i. e (i + 112)) = reuse_result" by (simp add: a reuse_result_def burnt_def)
  obtain r4 where r4: "rotate_token revoke query c (ts 6) (ts 7) ?fam (ot_Raw (?tok 80)) r3 (\<lambda>i. e (i + 112)) = (Inr reuse_result, r4, \<lambda>i. e (i + 112))"
    using rotation_step [OF r3(2) id t(6) t(7), of "ot_Raw (?tok 80)"] unfolding a4 by (auto simp: reuse_result_def)
  show ?thesis
    unfolding main_refresh_rotation_def by (subst fam) (simp add: i0 r1(1) r2(1) r3(1) r4 result_or_zero_def show_bool_def reuse_result_def del: One_nat_def)
qed

end

section \<open>Properties\<close>

text \<open>
  C21: reuse detection on the in-memory store.  After any history of issued and presented tokens
  of any number of families, with a clock that does not run backwards, a presented token is
  accepted, and replaced by a fresh one, exactly when it has the digest of the token handed
  out last for its family and no reuse was reported for the family before; in every other
  case reuse is reported, and never an error.
\<close>

theorem rotation_exact:
  assumes "rotation_run Revoke IsRevoked NewMemoryRevocationStore c h now r e" "tf_ID fam \<noteq> []" "now \<le> t1" "t1 \<le> t2"
  shows "fst (rotate_token Revoke IsRevoked c t1 t2 fam p r e) = Inr
    (if burnt (tf_ID fam) h \<or> last_handed_out (tf_ID fam) h \<noteq> HashOpaqueToken c p
     then \<lparr>rr_Next = \<lparr>ot_Raw = [], ot_Hash = []\<rparr>, rr_ReuseDetected = True\<rparr>
     else \<lparr>rr_Next = fst (NewOpaqueToken c e), rr_ReuseDetected = False\<rparr>)"
  using mem.rotation_answers [OF assms, of p] by (simp add: rotation_answer_def reuse_result_def zero_token_def)

theorem rotation_exact_witness:
  "rr_ReuseDetected (result_or_zero (fst (rotate_token Revoke IsRevoked sample_crypto 5 6 \<lparr>tf_ID = ''f''\<rparr> ''never issued''
     (new_rotator NewMemoryRevocationStore) (\<lambda>_. CHR ''x''))))"
proof -
  have r: "rotation_run Revoke IsRevoked NewMemoryRevocationStore sample_crypto [] 5 (new_rotator NewMemoryRevocationStore) (\<lambda>_. CHR ''x'')"
    by (rule rotation_run.start)
  have h: "HashOpaqueToken sample_crypto ''never issued'' \<noteq> []" by code_simp
  show ?thesis
    using rotation_exact [OF r, of "\<lparr>tf_ID = ''f''\<rparr>" 5 6 "''never issued''"] h by (simp add: result_or_zero_def)
qed

text \<open>
  the demonstration program prints that the two rotations are clean, that the replay of the
  superseded token is reuse, and that the live token is dead afterwards, whenever the last
  two tokens differ in their SHA-256 digest; with the same digest there is nothing to detect.
\<close>

theorem rotation_demo_output:
  assumes "mono ts" "hash_sum c SHA256 (Encode (map e [48..<80])) \<noteq> hash_sum c SHA256 (Encode (map e [80..<112]))"
  shows "main_refresh_rotation Revoke IsRevoked NewMemoryRevocationStore c ts e =
    [''t0 -> t1 (reuse=false)'', ''t1 -> t2 (reuse=false)'',
     ''replay t1 -> reuse=true (family now revoked)'', ''present t2 -> reuse=true (family is dead)'']"
  by (rule mem.demo [OF assms])

theorem rotation_demo_output_witness:
  "hd (main_refresh_rotation Revoke IsRevoked NewMemoryRevocationStore sample_crypto int (\<lambda>n. if n < 80 then CHR ''a'' else CHR ''b''))
     = ''t0 -> t1 (reuse=false)''"
proof -
  have "hash_sum sample_crypto SHA256 (Encode (map (\<lambda>n. if n < 80 then CHR ''a'' else CHR ''b'') [48..<80]))
      \<noteq> hash_sum sample_crypto SHA256 (Encode (map (\<lambda>n. if n < 80 then CHR ''a'' else CHR ''b'') [80..<112]))"
    by code_simp
  from rotation_demo_output [OF _ this, of int] show ?thesis by (simp add: mono_def)
qed

text \<open>
  A store with a bound can refuse the revocation, and the rotator drops its error: reuse is
  reported, but the family lives on, and the live token is accepted the next time.
\<close>

theorem full_store_forgets_reuse:
  assumes "HashOpaqueToken c stale \<noteq> HashOpaqueToken c good"
    "r = \<lparr>ro_live = [(''f'', HashOpaqueToken c good)],
      ro_revoke = snd (Revoke 1 ''other'' ReasonAdmin zero_time (newMemoryRevocationStore 1))\<rparr>"
    "rotate_token Revoke IsRevoked c 2 3 \<lparr>tf_ID = ''f''\<rparr> stale r e = (res, r', e')"
  shows "res = Inr reuse_result
    \<and> fst (rotate_token Revoke IsRevoked c 4 5 \<lparr>tf_ID = ''f''\<rparr> good r' e') = Inr \<lparr>rr_Next = fst (NewOpaqueToken c e), rr_ReuseDetected = False\<rparr>"
proof -
  let ?s = "\<lparr>rs_items = [(''other'', \<lparr>re_reason = ReasonAdmin, re_expiresAt = zero_time, re_generation = 1\<rparr>)], rs_expirations = [],
      rs_capacity = 1, rs_generation = 1\<rparr>"
  have s: "snd (Revoke 1 ''other'' ReasonAdmin zero_time (newMemoryRevocationStore 1)) = ?s"
    by (simp add: Revoke_def Let_def newMemoryRevocationStore_def removeExpiredLocked_def remove_expired.simps store_entry_def
        compactExpirationsLocked_def)
  have q: "IsRevoked t ''f'' ?s = (Inr False, ?s)" "Revoke t ''f'' ReasonReuseDetected zero_time ?s = (Some [ErrRevocationStoreFull], ?s)" for t
    by (simp_all add: IsRevoked_def Revoke_def Let_def removeExpiredLocked_def remove_expired.simps)
  have "res = Inr reuse_result \<and> r' = \<lparr>ro_live = [(''f'', HashOpaqueToken c good)], ro_revoke = ?s\<rparr> \<and> e' = e"
    using assms(1,3) q unfolding assms(2) s
    by (auto simp: rotate_token_def Let_def VerifyOpaqueTokenHash_def live_hash_def split: prod.splits)
  then show ?thesis
    using q by (auto simp: rotate_token_def Let_def VerifyOpaqueTokenHash_def live_hash_def split: prod.split)
qed

end
