(* ===== verification/LaxJSON.thy ===== *)
theory LaxJSON
  imports Claims GoMap
begin

text \<open>
  What the maintenance tool uses of \<^verbatim>\<open>encoding/json\<close>: decoding a parsed text into Go values, and
  \<^verbatim>\<open>MarshalIndent\<close>.  A decoder takes the value already in place and the JSON value and gives the new
  value, or \<open>None\<close> for a type error; null leaves strings, numbers and structs as they are and
  empties slices and maps.  A slice is decoded afresh; the rests of an earlier array of the same
  name that \<^verbatim>\<open>encoding/json\<close> leaves under null elements are not modelled, and a nil map is
  identified with the empty one.

  Shown: what \<open>enc_indent\<close> emits for a tree of clean strings is read back as that tree.
\<close>

section \<open>Decoding\<close>

fun lax_string :: "string \<Rightarrow> json \<Rightarrow> string option" where
  "lax_string old (JStr s) = Some s"
| "lax_string old JNull = Some old"
| "lax_string old _ = None"

definition int_literal :: "string \<Rightarrow> int option" where
  "int_literal lit =
     (let neg = (lit \<noteq> [] \<and> hd lit = CHR ''-''); ds = (if neg then tl lit else lit);
          n = (if neg then - digits_val ds else digits_val ds)
      in if ds \<noteq> [] \<and> list_all isDigit ds \<and> - (2 ^ 63) \<le> n \<and> n < 2 ^ 63 then Some n else None)"

fun lax_int :: "int \<Rightarrow> json \<Rightarrow> int option" where
  "lax_int old (JNum lit) = int_literal lit"
| "lax_int old JNull = Some old"
| "lax_int old _ = None"

fun lax_elems :: "('a \<Rightarrow> json \<Rightarrow> 'a option) \<Rightarrow> 'a \<Rightarrow> (string \<times> json) list \<Rightarrow> 'a list option" where
  "lax_elems dec zero [] = Some []"
| "lax_elems dec zero ((raw, v) # vs) =
     (case dec zero v of
        None \<Rightarrow> None
      | Some x \<Rightarrow> (case lax_elems dec zero vs of None \<Rightarrow> None | Some xs \<Rightarrow> Some (x # xs)))"

fun lax_list :: "('a \<Rightarrow> json \<Rightarrow> 'a option) \<Rightarrow> 'a \<Rightarrow> 'a list \<Rightarrow> json \<Rightarrow> 'a list option" where
  "lax_list dec zero old (JArr vs) = lax_elems dec zero vs"
| "lax_list dec zero old JNull = Some []"
| "lax_list dec zero old _ = None"

fun lax_entries :: "('v \<Rightarrow> json \<Rightarrow> 'v option) \<Rightarrow> 'v \<Rightarrow> (string \<times> 'v) list \<Rightarrow> members \<Rightarrow> (string \<times> 'v) list option" where
  "lax_entries dec zero old [] = Some old"
| "lax_entries dec zero old ((n, raw, v) # ms) =
     (case dec zero v of None \<Rightarrow> None | Some x \<Rightarrow> lax_entries dec zero (map_put n x old) ms)"

fun lax_map :: "('v \<Rightarrow> json \<Rightarrow> 'v option) \<Rightarrow> 'v \<Rightarrow> (string \<times> 'v) list \<Rightarrow> json \<Rightarrow> (string \<times> 'v) list option" where
  "lax_map dec zero old (JObj ms) = lax_entries dec zero old ms"
| "lax_map dec zero old JNull = Some []"
| "lax_map dec zero old _ = None"

text \<open>A struct: \<open>field\<close> decodes one member, whose name it compares up to case.\<close>

fun lax_fields :: "('s \<Rightarrow> string \<Rightarrow> string \<Rightarrow> json \<Rightarrow> 's option) \<Rightarrow> 's \<Rightarrow> members \<Rightarrow> 's option" where
  "lax_fields field s [] = Some s"
| "lax_fields field s ((n, raw, v) # ms) = (case field s n raw v of None \<Rightarrow> None | Some s' \<Rightarrow> lax_fields field s' ms)"

fun lax_struct :: "('s \<Rightarrow> string \<Rightarrow> string \<Rightarrow> json \<Rightarrow> 's option) \<Rightarrow> 's \<Rightarrow> json \<Rightarrow> 's option" where
  "lax_struct field s (JObj ms) = lax_fields field s ms"
| "lax_struct field s JNull = Some s"
| "lax_struct field s _ = None"

text \<open>\<^verbatim>\<open>json.Unmarshal\<close>, and \<^verbatim>\<open>Decoder.Decode\<close>, which reads one value and ignores what follows it.\<close>

definition unmarshal :: "(json \<Rightarrow> 'a option) \<Rightarrow> bytes \<Rightarrow> 'a option" where
  "unmarshal dec raw = (case json_lax raw of None \<Rightarrow> None | Some v \<Rightarrow> dec v)"

definition decode_first :: "(json \<Rightarrow> 'a option) \<Rightarrow> bytes \<Rightarrow> 'a option" where
  "decode_first dec raw =
     (case parse_value False (2 * length raw + 2) max_depth (skip_ws raw) of
        None \<Rightarrow> None
      | Some (v, _) \<Rightarrow> dec v)"

section \<open>MarshalIndent\<close>

datatype jtree = TStr string | TArr "jtree list" | TObj "(string \<times> jtree) list"

definition newline :: "nat \<Rightarrow> string" where
  "newline n = chr 10 # replicate (2 * n) CHR '' ''"

fun enc_indent :: "nat \<Rightarrow> jtree \<Rightarrow> string" where
  "enc_indent n (TStr s) = enc_str s"
| "enc_indent n (TArr ts) =
     (if ts = [] then ''[]''
      else ''['' @ newline (n + 1) @ join_with ('','' @ newline (n + 1)) (map (enc_indent (n + 1)) ts) @ newline n @ '']'')"
| "enc_indent n (TObj ms) =
     (if ms = [] then ''{}''
      else ''{'' @ newline (n + 1)
        @ join_with ('','' @ newline (n + 1)) (map (\<lambda>(k, t). enc_str k @ '': '' @ enc_indent (n + 1) t) ms) @ newline n @ ''}'')"

definition MarshalIndent :: "jtree \<Rightarrow> bytes" where
  "MarshalIndent t = enc_indent 0 t"

section \<open>Reading it back\<close>

inductive shows_tree :: "jtree \<Rightarrow> json \<Rightarrow> bool" where
  show_str: "shows_tree (TStr s) (JStr s)"
| show_arr: "list_all2 (\<lambda>t e. shows_tree t (snd e)) ts vs \<Longrightarrow> shows_tree (TArr ts) (JArr vs)"
| show_obj: "list_all2 (\<lambda>x m. fst m = fst x \<and> shows_tree (snd x) (snd (snd m))) ms vs \<Longrightarrow> shows_tree (TObj ms) (JObj vs)"

inductive_cases shows_strE [elim!]: "shows_tree (TStr s) v"
inductive_cases shows_arrE [elim!]: "shows_tree (TArr ts) v"
inductive_cases shows_objE [elim!]: "shows_tree (TObj ms) v"

fun tree_clean :: "int \<Rightarrow> jtree \<Rightarrow> bool" where
  "tree_clean d (TStr s) \<longleftrightarrow> valid_utf8 s"
| "tree_clean d (TArr ts) \<longleftrightarrow> 0 < d \<and> list_all (tree_clean (d - 1)) ts"
| "tree_clean d (TObj ms) \<longleftrightarrow> 0 < d \<and> list_all (\<lambda>(k, t). valid_utf8 k \<and> tree_clean (d - 1) t) ms"

lemma skip_ws_blank [simp]: "skip_ws (CHR '' '' # s) = skip_ws s" "skip_ws (chr 10 # s) = skip_ws s"
proof -
  have "is_ws CHR '' ''" "is_ws (chr 10)" by code_simp+
  then show "skip_ws (CHR '' '' # s) = skip_ws s" "skip_ws (chr 10 # s) = skip_ws s" by (simp_all add: skip_ws_def)
qed

lemma skip_ws_newline [simp]: "skip_ws (newline n @ s) = skip_ws s"
proof -
  have "skip_ws (replicate k CHR '' '' @ s) = skip_ws s" for k by (induction k) simp_all
  then show ?thesis by (simp add: newline_def)
qed

lemma enc_indent_hd:
  "enc_indent n t \<noteq> []" "\<not> is_ws (hd (enc_indent n t))" "hd (enc_indent n t) \<noteq> CHR '']''" "hd (enc_indent n t) \<noteq> CHR ''}''"
  by (cases t; auto simp: enc_str_def)+

lemma skip_ws_indent [simp]: "skip_ws (enc_indent n t @ s) = enc_indent n t @ s"
  by (rule skip_ws_nonws) (use enc_indent_hd [of n t] in auto)

definition read_tree :: "nat \<Rightarrow> int \<Rightarrow> jtree \<Rightarrow> bool" where
  "read_tree n d t \<longleftrightarrow> (\<forall>f s. 2 * length (enc_indent n t @ s) < f \<longrightarrow>
     (\<exists>v. shows_tree t v \<and> parse_value False f d (enc_indent n t @ s) = Some (v, s)))"

lemma read_treeD:
  assumes "read_tree n d t" "2 * length (enc_indent n t @ s) < f"
  obtains v where "shows_tree t v" "parse_value False f d (enc_indent n t @ s) = Some (v, s)"
  using assms unfolding read_tree_def by blast

lemma read_elems:
  assumes "ts \<noteq> []" "list_all (read_tree n d) ts"
    "2 * length (join_with ('','' @ newline n) (map (enc_indent n) ts) @ newline m @ '']'' @ s) + 1 < f"
  shows "\<exists>vs. list_all2 (\<lambda>t e. shows_tree t (snd e)) ts vs
     \<and> parse_elems False f d (join_with ('','' @ newline n) (map (enc_indent n) ts) @ newline m @ '']'' @ s) = Some (vs, s)"
  using assms
proof (induction ts arbitrary: f)
  case (Cons t ts)
  obtain g where f: "f = Suc g" using Cons.prems(3) by (cases f) auto
  let ?J = "\<lambda>ts. join_with ('','' @ newline n) (map (enc_indent n) ts) @ newline m @ '']'' @ s"
  let ?tail = "if ts = [] then newline m @ '']'' @ s else '','' @ newline n @ ?J ts"
  have e: "?J (t # ts) = enc_indent n t @ ?tail" by (cases ts) simp_all
  have l: "2 * length (enc_indent n t @ ?tail) < g" using Cons.prems(3) unfolding e f by simp
  obtain v where v: "shows_tree t v" "parse_value False g d (enc_indent n t @ ?tail) = Some (v, ?tail)"
    using read_treeD [OF _ l] Cons.prems(2) by auto
  show ?case
  proof (cases "ts = []")
    case True
    with v show ?thesis unfolding e f by (simp add: parse_elems.simps)
  next
    case False
    have "0 < length (enc_indent n t)" using enc_indent_hd(1) [of n t] by simp
    then have "2 * length (?J ts) + 1 < g" using l False by simp
    then obtain vs where vs: "list_all2 (\<lambda>t e. shows_tree t (snd e)) ts vs" "parse_elems False g d (?J ts) = Some (vs, s)"
      using Cons.IH [OF False, of g] Cons.prems(2) by auto
    have sk: "skip_ws (?J ts) = ?J ts" using False by (cases ts; cases "tl ts") auto
    show ?thesis
      using v vs False sk unfolding e f
      by (simp add: parse_elems.simps)
  qed
qed simp

lemma read_members:
  assumes "ms \<noteq> []" "list_all (\<lambda>(k, t). valid_utf8 k \<and> read_tree n d t) ms"
    "2 * length (join_with ('','' @ newline n) (map (\<lambda>(k, t). enc_str k @ '': '' @ enc_indent n t) ms) @ newline m @ ''}'' @ s) + 1 < f"
  shows "\<exists>vs. list_all2 (\<lambda>x m. fst m = fst x \<and> shows_tree (snd x) (snd (snd m))) ms vs
     \<and> parse_members False f d seen (join_with ('','' @ newline n) (map (\<lambda>(k, t). enc_str k @ '': '' @ enc_indent n t) ms)
         @ newline m @ ''}'' @ s) = Some (vs, s)"
  using assms
proof (induction ms arbitrary: f seen)
  case (Cons x ms)
  obtain k t where x: "x = (k, t)" by (cases x)
  obtain g where f: "f = Suc g" using Cons.prems(3) by (cases f) auto
  let ?J = "\<lambda>ms. join_with ('','' @ newline n) (map (\<lambda>(k, t). enc_str k @ '': '' @ enc_indent n t) ms) @ newline m @ ''}'' @ s"
  let ?tail = "if ms = [] then newline m @ ''}'' @ s else '','' @ newline n @ ?J ms"
  have e: "?J (x # ms) = CHR 0x22 # esc_body k @ CHR 0x22 # CHR '':'' # CHR '' '' # enc_indent n t @ ?tail"
    by (cases ms) (simp_all add: x enc_str_def)
  have l: "2 * length (enc_indent n t @ ?tail) < g" using Cons.prems(3) unfolding e f by simp
  have k: "valid_utf8 k" "read_tree n d t" using Cons.prems(2) x by auto
  obtain v where v: "shows_tree t v" "parse_value False g d (enc_indent n t @ ?tail) = Some (v, ?tail)"
    using read_treeD [OF k(2) l] by auto
  note str = parse_str_esc_body [OF k(1), of False]
  show ?case
  proof (cases "ms = []")
    case True
    with v str show ?thesis unfolding e f by (simp add: parse_members.simps x)
  next
    case False
    have "2 * length (?J ms) + 1 < g" using l False by simp
    then obtain vs where vs: "list_all2 (\<lambda>x m. fst m = fst x \<and> shows_tree (snd x) (snd (snd m))) ms vs"
        "parse_members False g d (k # seen) (?J ms) = Some (vs, s)"
      using Cons.IH [OF False, of g "k # seen"] Cons.prems(2) by auto
    have sk: "skip_ws (?J ms) = ?J ms" using False by (cases ms; cases "tl ms") (auto simp: enc_str_def)
    show ?thesis
      using v vs False sk str unfolding e f
      by (simp add: parse_members.simps x)
  qed
qed simp

lemma tree_reads: "tree_clean d t \<Longrightarrow> read_tree n d t"
proof (induction t arbitrary: n d)
  case (TStr s)
  then show ?case unfolding read_tree_def
  proof (intro allI impI)
    fix f r
    assume "2 * length (enc_indent n (TStr s) @ r) < f" "tree_clean d (TStr s)"
    then show "\<exists>v. shows_tree (TStr s) v \<and> parse_value False f d (enc_indent n (TStr s) @ r) = Some (v, r)"
      by (cases f) (auto simp: enc_str_def parse_value.simps parse_str_esc_body intro: show_str)
  qed
next
  case (TArr ts)
  show ?case
  proof (cases "ts = []")
    case True
    then show ?thesis using TArr.prems by (auto simp: read_tree_def parse_value.simps dest!: less_imp_Suc_add intro!: show_arr)
  next
    case False
    have sub: "list_all (read_tree (n + 1) (d - 1)) ts"
      using TArr by (auto simp: list_all_iff)
    show ?thesis unfolding read_tree_def
    proof (intro allI impI)
      fix f s
      assume f: "2 * length (enc_indent n (TArr ts) @ s) < f"
      then obtain g where g: "f = Suc g" by (cases f) auto
      let ?J = "join_with ('','' @ newline (n + 1)) (map (enc_indent (n + 1)) ts) @ newline n @ '']'' @ s"
      obtain vs where vs: "list_all2 (\<lambda>t e. shows_tree t (snd e)) ts vs" "parse_elems False g (d - 1) ?J = Some (vs, s)"
        using read_elems [OF False sub, of n s g] f g False by (auto simp: newline_def)
      have sk: "skip_ws ?J = ?J" "?J \<noteq> []" "hd ?J \<noteq> CHR '']''"
        using False enc_indent_hd by (cases ts; cases "tl ts"; auto)+
      show "\<exists>v. shows_tree (TArr ts) v \<and> parse_value False f d (enc_indent n (TArr ts) @ s) = Some (v, s)"
        using vs sk False TArr.prems g by (auto simp: parse_value.simps intro: show_arr)
    qed
  qed
next
  case (TObj ms)
  show ?case
  proof (cases "ms = []")
    case True
    then show ?thesis using TObj.prems by (auto simp: read_tree_def parse_value.simps dest!: less_imp_Suc_add intro!: show_obj)
  next
    case False
    have sub: "list_all (\<lambda>(k, t). valid_utf8 k \<and> read_tree (n + 1) (d - 1) t) ms"
      using TObj by (fastforce simp: list_all_iff)
    show ?thesis unfolding read_tree_def
    proof (intro allI impI)
      fix f s
      assume f: "2 * length (enc_indent n (TObj ms) @ s) < f"
      then obtain g where g: "f = Suc g" by (cases f) auto
      let ?J = "join_with ('','' @ newline (n + 1)) (map (\<lambda>(k, t). enc_str k @ '': '' @ enc_indent (n + 1) t) ms) @ newline n @ ''}'' @ s"
      obtain vs where vs: "list_all2 (\<lambda>x m. fst m = fst x \<and> shows_tree (snd x) (snd (snd m))) ms vs"
          "parse_members False g (d - 1) [] ?J = Some (vs, s)"
        using read_members [OF False sub, of n s g "[]"] f g False by (auto simp: newline_def)
      have sk: "skip_ws ?J = ?J" "?J \<noteq> []" "hd ?J \<noteq> CHR ''}''"
        using False by (cases ms; cases "tl ms"; auto simp: enc_str_def)+
      show "\<exists>v. shows_tree (TObj ms) v \<and> parse_value False f d (enc_indent n (TObj ms) @ s) = Some (v, s)"
        using vs sk False TObj.prems g by (auto simp: parse_value.simps intro: show_obj)
    qed
  qed
qed

text \<open>A decoder that gives \<open>x\<close> for every reading of a tree gives \<open>x\<close> for the emitted text and a final newline.\<close>

lemma unmarshal_MarshalIndent:
  assumes "tree_clean max_depth t" "\<And>v. shows_tree t v \<Longrightarrow> dec v = Some x"
  shows "unmarshal dec (MarshalIndent t @ [chr 10]) = Some x"
proof -
  obtain v where v: "shows_tree t v"
    "parse_value False (2 * length (enc_indent 0 t @ [chr 10]) + 2) max_depth (enc_indent 0 t @ [chr 10]) = Some (v, [chr 10])"
    by (rule read_treeD [OF tree_reads [OF assms(1), of 0], of "[chr 10]" "2 * length (enc_indent 0 t @ [chr 10]) + 2"]) simp_all
  then show ?thesis
    using assms(2) by (simp add: unmarshal_def json_text_def MarshalIndent_def)
qed

end
