(* ===== verification/Watch.thy ===== *)
theory Watch
  imports LaxJSON Opaque
begin

text \<open>
  The collecting half of the standards watcher, \<^verbatim>\<open>.github/standards/watch.go\<close>: the configuration, the
  capped and retried download, the parsers of the four kinds of source, \<^verbatim>\<open>Collect\<close> and
  \<^verbatim>\<open>KeepFrom\<close>.  Go maps are association lists in the order of their keys.  Errors are their
  texts, which the report prints.

  \<open>watch_env\<close> holds the world outside: what the network answers to each attempt for a URL, whether
  the context is done before a retry, \<^verbatim>\<open>encoding/xml\<close> (the registry tree it reads), the wording of
  \<^verbatim>\<open>encoding/json\<close> errors, SHA-256, Unicode lower case and the file system.  Every source is
  fetched by a goroutine of its own, which computes its result and then changes the shared
  snapshot in one critical section; \<open>watch_Collect\<close> therefore takes the order in which they reach it.
  Errors with equal messages, whose order the sort leaves open, stay in that order.
\<close>

section \<open>Configuration and data\<close>

record config =
  cfg_RFCs :: "int list"
  cfg_Drafts :: "string list"
  cfg_IANA :: "(string \<times> string list) list"
  cfg_Pages :: "(string \<times> string) list"
  cfg_Impact :: "(string \<times> string) list"
  cfg_MaxBytes :: "64 word"

record endpoints =
  ep_RFCEditor :: string
  ep_IANA :: string
  ep_Datatracker :: string
  ep_RetryDelay :: int

definition DefaultEndpoints :: endpoints where
  "DefaultEndpoints = \<lparr>ep_RFCEditor = ''https://www.rfc-editor.org'', ep_IANA = ''https://www.iana.org'',
     ep_Datatracker = ''https://datatracker.ietf.org'', ep_RetryDelay = 5 * second\<rparr>"

record rfc =
  rfc_Title :: string
  rfc_Status :: string
  rfc_ObsoletedBy :: "string list"
  rfc_UpdatedBy :: "string list"

record erratum =
  er_Status :: string
  er_Type :: string
  er_Section :: string

record iana_entry =
  ie_Description :: string
  ie_Usage :: string
  ie_Requirements :: string
  ie_References :: "string list"

record draft =
  dr_Title :: string
  dr_Rev :: string
  dr_State :: string
  dr_IESGState :: string
  dr_RFCEditorState :: string
  dr_StdLevel :: string
  dr_RFC :: string

record snapshot =
  sn_RFCs :: "(string \<times> rfc) list"
  sn_Errata :: "(string \<times> (string \<times> erratum) list) list"
  sn_Registries :: "(string \<times> (string \<times> iana_entry) list) list"
  sn_Drafts :: "(string \<times> draft) list"
  sn_Pages :: "(string \<times> string) list"

record source_error =
  se_Source :: string
  se_kind :: string
  se_key :: string
  se_Err :: string

definition SourceError_Error :: "source_error \<Rightarrow> string" where
  "SourceError_Error e = se_Source e @ '': '' @ se_Err e"

definition newSnapshot :: snapshot where
  "newSnapshot = \<lparr>sn_RFCs = [], sn_Errata = [], sn_Registries = [], sn_Drafts = [], sn_Pages = []\<rparr>"

definition rfcID :: "int \<Rightarrow> string" where
  "rfcID n = ''RFC'' @ FormatInt n"

definition defaultMaxBytes :: "64 word" where
  "defaultMaxBytes = push_bit 20 64"

text \<open>The registry files of IANA, as \<^verbatim>\<open>encoding/xml\<close> reads them.\<close>

record iana_ref =
  xr_Type :: string
  xr_Data :: string
  xr_Section :: string

record iana_record =
  ir_Value :: string
  ir_Name :: string
  ir_Description :: string
  ir_Usage :: string
  ir_Requirements :: string
  ir_Xrefs :: "iana_ref list"
  ir_Reference :: string

datatype iana_registry = IanaRegistry (reg_ID: string) (reg_Records: "iana_record list") (reg_Children: "iana_registry list")

text \<open>The outside world.\<close>

record watch_response =
  wr_StatusCode :: int
  wr_Status :: string
  wr_Body :: bytes
  wr_error :: "string option"

datatype attempt = BadRequest string | NoAnswer string | Answered watch_response

datatype file_read = NotExist string | ReadError string | Contents bytes

record watch_env =
  we_answer :: "string \<Rightarrow> nat \<Rightarrow> attempt"
  we_done :: "string \<Rightarrow> nat \<Rightarrow> string option"
  we_xml :: "bytes \<Rightarrow> string + iana_registry"
  we_json_error :: "bytes \<Rightarrow> string"
  we_sha256 :: "bytes \<Rightarrow> bytes"
  we_lower :: "string \<Rightarrow> string"
  we_read :: "string \<Rightarrow> file_read"
  we_write :: "string \<Rightarrow> string option"

section \<open>LoadConfig\<close>

definition zero_config :: config where
  "zero_config = \<lparr>cfg_RFCs = [], cfg_Drafts = [], cfg_IANA = [], cfg_Pages = [], cfg_Impact = [], cfg_MaxBytes = 0\<rparr>"

definition config_field :: "config \<Rightarrow> string \<Rightarrow> string \<Rightarrow> json \<Rightarrow> config option" where
  "config_field c n raw v =
     (if equal_fold n ''rfcs'' then map_option (\<lambda>x. c\<lparr>cfg_RFCs := x\<rparr>) (lax_list lax_int 0 (cfg_RFCs c) v)
      else if equal_fold n ''drafts'' then map_option (\<lambda>x. c\<lparr>cfg_Drafts := x\<rparr>) (lax_list lax_string [] (cfg_Drafts c) v)
      else if equal_fold n ''iana'' then
        map_option (\<lambda>x. c\<lparr>cfg_IANA := x\<rparr>) (lax_map (lax_list lax_string []) [] (cfg_IANA c) v)
      else if equal_fold n ''pages'' then map_option (\<lambda>x. c\<lparr>cfg_Pages := x\<rparr>) (lax_map lax_string [] (cfg_Pages c) v)
      else if equal_fold n ''impact'' then map_option (\<lambda>x. c\<lparr>cfg_Impact := x\<rparr>) (lax_map lax_string [] (cfg_Impact c) v)
      else if equal_fold n ''max_bytes'' then
        map_option (\<lambda>x. c\<lparr>cfg_MaxBytes := word_of_int x\<rparr>) (lax_int (sint (cfg_MaxBytes c)) v)
      else None)"

definition LoadConfig :: "watch_env \<Rightarrow> string \<Rightarrow> string + config" where
  "LoadConfig E path =
     (case we_read E path of
        Contents raw \<Rightarrow>
          (case decode_first (lax_struct config_field zero_config) raw of
             None \<Rightarrow> Inl (path @ '': '' @ we_json_error E raw)
           | Some cfg \<Rightarrow> Inr cfg)
      | NotExist e \<Rightarrow> Inl e
      | ReadError e \<Rightarrow> Inl e)"

section \<open>Fetching\<close>

text \<open>One attempt: its result, and whether a failure may be retried.\<close>

definition fetchOnce :: "watch_env \<Rightarrow> nat \<Rightarrow> string \<Rightarrow> 64 word \<Rightarrow> (string + bytes) \<times> bool" where
  "fetchOnce E n url maxBytes =
     (case we_answer E url n of
        BadRequest e \<Rightarrow> (Inl e, False)
      | NoAnswer e \<Rightarrow> (Inl e, True)
      | Answered r \<Rightarrow>
          if wr_StatusCode r \<noteq> 200 then
            (Inl (''GET '' @ url @ '': status '' @ wr_Status r), wr_StatusCode r \<ge> 500 \<or> wr_StatusCode r = 429)
          else
            let limit = sint (maxBytes + 1)
            in if len (wr_Body r) < limit \<and> wr_error r \<noteq> None then (Inl (the (wr_error r)), True)
               else
                 let body = take (nat limit) (wr_Body r)
                 in if len body > sint maxBytes
                    then (Inl (''GET '' @ url @ '': response exceeds '' @ FormatInt (sint maxBytes) @ '' bytes''), False)
                    else (Inr body, False))"

text \<open>The attempts still to make, and the error of the last one; the first result is the list of the waits.\<close>

fun fetch_attempts :: "watch_env \<Rightarrow> string \<Rightarrow> 64 word \<Rightarrow> int \<Rightarrow> nat list \<Rightarrow> string \<Rightarrow> int list \<times> (string + bytes)" where
  "fetch_attempts E url maxBytes retryDelay [] lastErr = ([], Inl lastErr)"
| "fetch_attempts E url maxBytes retryDelay (n # ns) lastErr =
     (case (if n > 0 then we_done E url n else None) of
        Some e \<Rightarrow> ([], Inl e)
      | None \<Rightarrow>
          let wait = retryDelay * int n
          in case fetchOnce E n url maxBytes of
               (r, retry) \<Rightarrow>
                 if isl r \<and> retry
                 then (case fetch_attempts E url maxBytes retryDelay ns (projl r) of (waits, r') \<Rightarrow> (wait # waits, r'))
                 else ([wait], r))"

definition fetch :: "watch_env \<Rightarrow> string \<Rightarrow> 64 word \<Rightarrow> int \<Rightarrow> int list \<times> (string + bytes)" where
  "fetch E url maxBytes retryDelay = fetch_attempts E url maxBytes retryDelay [0, 1, 2] []"

section \<open>Normalization\<close>

text \<open>The \<^verbatim>\<open>\s\<close> of a Go regular expression.\<close>

definition re_space :: "char \<Rightarrow> bool" where
  "re_space c \<longleftrightarrow> c \<in> {chr 9, chr 10, chr 12, chr 13, chr 32}"

text \<open>Every run of white space becomes one blank; the flag says that the run has begun.\<close>

fun replace_spaces :: "bool \<Rightarrow> string \<Rightarrow> string" where
  "replace_spaces run [] = []"
| "replace_spaces run (c # s) =
     (if re_space c then (if run then replace_spaces True s else CHR '' '' # replace_spaces True s)
      else c # replace_spaces False s)"

definition collapse :: "string \<Rightarrow> string" where
  "collapse s = trim_space (replace_spaces False s)"

definition hashPage :: "watch_env \<Rightarrow> bytes \<Rightarrow> string" where
  "hashPage E raw = hex_encode (we_sha256 E (collapse raw))"

definition recordValue :: "iana_record \<Rightarrow> string" where
  "recordValue r = (let v = collapse (ir_Value r) in if v \<noteq> [] then v else collapse (ir_Name r))"

definition record_refs :: "iana_record \<Rightarrow> string list" where
  "record_refs r =
     map (\<lambda>x. xr_Data x @ (if xr_Section x \<noteq> [] then ''#'' @ xr_Section x else []))
       (filter (\<lambda>x. xr_Type x \<noteq> ''person'') (ir_Xrefs r))
     @ (let t = collapse (ir_Reference r) in if t \<noteq> [] then [t] else [])"

definition entry_of :: "iana_record \<Rightarrow> iana_entry" where
  "entry_of r = \<lparr>ie_Description = collapse (ir_Description r), ie_Usage = collapse (ir_Usage r),
     ie_Requirements = collapse (ir_Requirements r), ie_References = sort (record_refs r)\<rparr>"

text \<open>
  The key of a record: its value, with the usage where several records of the registry share the
  value, and a number where even that is taken.
\<close>

function free_key :: "(string \<times> 'v) list \<Rightarrow> string \<Rightarrow> string \<Rightarrow> int \<Rightarrow> string" where
  "free_key recs base key n =
     (if map_of recs key \<noteq> None then free_key recs base (base @ ''#'' @ FormatInt n) (n + 1) else key)"
  by pat_completeness auto

lemma FormatInt_inject: "FormatInt m = FormatInt n \<longleftrightarrow> m = n"
  using num_value_FormatInt [of m] num_value_FormatInt [of n] by (metis of_int_eq_iff)

definition taken :: "(string \<times> 'v) list \<Rightarrow> string \<Rightarrow> int \<Rightarrow> int set" where
  "taken recs base n = {m. n \<le> m \<and> map_of recs (base @ ''#'' @ FormatInt m) \<noteq> None}"

lemma finite_taken: "finite (taken recs base n)"
proof -
  let ?f = "\<lambda>m. base @ ''#'' @ FormatInt m"
  have "?f ` taken recs base n \<subseteq> fst ` set recs"
    by (auto simp: taken_def map_of_eq_None_iff)
  moreover have "inj_on ?f (taken recs base n)" by (auto simp: inj_on_def FormatInt_inject)
  ultimately show ?thesis using finite_surj [of "fst ` set recs"] by (metis finite_imageI finite_set finite_imageD finite_subset)
qed

lemma taken_Suc: "taken recs base n = (if map_of recs (base @ ''#'' @ FormatInt n) \<noteq> None then insert n (taken recs base (n + 1)) else taken recs base (n + 1))"
  by (auto simp: taken_def order_le_less)

termination free_key
proof (relation "measure (\<lambda>(recs, base, key, n). 2 * card (taken recs base n) + (if map_of recs key \<noteq> None then 1 else 0))", goal_cases)
  case (2 recs base key n)
  have "n \<notin> taken recs base (n + 1)" by (simp add: taken_def)
  then show ?case using 2 finite_taken [of recs base "n + 1"] by (auto simp: taken_Suc [of recs base n])
qed simp

declare free_key.simps [simp del]

definition record_key :: "iana_record list \<Rightarrow> (string \<times> 'v) list \<Rightarrow> iana_record \<Rightarrow> string" where
  "record_key all recs r =
     (let v = recordValue r;
          key = (if count_list (map recordValue all) v > 1 then v @ ''|'' @ trim_space (ir_Usage r) else v)
      in free_key recs key key 2)"

definition add_record :: "iana_record list \<Rightarrow> iana_record \<Rightarrow> (string \<times> iana_entry) list \<Rightarrow> (string \<times> iana_entry) list" where
  "add_record all r recs = map_put (record_key all recs r) (entry_of r) recs"

definition registry_entries :: "iana_registry \<Rightarrow> (string \<times> iana_entry) list" where
  "registry_entries reg = fold (add_record (reg_Records reg)) (reg_Records reg) []"

definition parseIANA :: "watch_env \<Rightarrow> bytes \<Rightarrow> string list \<Rightarrow> string + (string \<times> (string \<times> iana_entry) list) list" where
  "parseIANA E raw only =
     (case we_xml E raw of
        Inl e \<Rightarrow> Inl e
      | Inr doc \<Rightarrow>
          if len (reg_Children doc) = 0 then Inl ''no sub-registries found''
          else Inr (fold (\<lambda>reg out. if len only > 0 \<and> reg_ID reg \<notin> set only then out
                                     else map_put (reg_ID reg) (registry_entries reg) out)
                      (reg_Children doc) []))"

section \<open>Drafts\<close>

record draft_doc =
  dd_Title :: string
  dd_Rev :: string
  dd_State :: string
  dd_IESGState :: string
  dd_RFCEditorState :: "string option"
  dd_StdLevel :: "string option"
  dd_RFC :: string

definition zero_draft_doc :: draft_doc where
  "zero_draft_doc = \<lparr>dd_Title = [], dd_Rev = [], dd_State = [], dd_IESGState = [], dd_RFCEditorState = None,
     dd_StdLevel = None, dd_RFC = []\<rparr>"

fun lax_pointer :: "json \<Rightarrow> string option option" where
  "lax_pointer (JStr s) = Some (Some s)"
| "lax_pointer JNull = Some None"
| "lax_pointer _ = None"

definition draft_field :: "draft_doc \<Rightarrow> string \<Rightarrow> string \<Rightarrow> json \<Rightarrow> draft_doc option" where
  "draft_field d n raw v =
     (if equal_fold n ''title'' then map_option (\<lambda>x. d\<lparr>dd_Title := x\<rparr>) (lax_string (dd_Title d) v)
      else if equal_fold n ''rev'' then map_option (\<lambda>x. d\<lparr>dd_Rev := x\<rparr>) (lax_string (dd_Rev d) v)
      else if equal_fold n ''state'' then map_option (\<lambda>x. d\<lparr>dd_State := x\<rparr>) (lax_string (dd_State d) v)
      else if equal_fold n ''iesg_state'' then map_option (\<lambda>x. d\<lparr>dd_IESGState := x\<rparr>) (lax_string (dd_IESGState d) v)
      else if equal_fold n ''rfceditor_state'' then map_option (\<lambda>x. d\<lparr>dd_RFCEditorState := x\<rparr>) (lax_pointer v)
      else if equal_fold n ''std_level'' then map_option (\<lambda>x. d\<lparr>dd_StdLevel := x\<rparr>) (lax_pointer v)
      else if equal_fold n ''rfc'' then Some (d\<lparr>dd_RFC := raw\<rparr>)
      else Some d)"

definition published_as :: "string \<Rightarrow> string" where
  "published_as raw =
     (let cutset = [CHR 0x22, CHR '' '']; rfc = trim_right (trim_left raw cutset) cutset
      in if rfc \<noteq> [] \<and> rfc \<noteq> ''null'' then (if has_prefix rfc ''RFC'' then rfc else ''RFC'' @ rfc) else [])"

definition parseDraft :: "watch_env \<Rightarrow> bytes \<Rightarrow> string + draft" where
  "parseDraft E raw =
     (case unmarshal (lax_struct draft_field zero_draft_doc) raw of
        None \<Rightarrow> Inl (we_json_error E raw)
      | Some doc \<Rightarrow>
          if dd_Rev doc = [] then Inl ''document has no rev''
          else Inr \<lparr>dr_Title = dd_Title doc, dr_Rev = dd_Rev doc, dr_State = dd_State doc, dr_IESGState = dd_IESGState doc,
                 dr_RFCEditorState = (case dd_RFCEditorState doc of None \<Rightarrow> [] | Some s \<Rightarrow> s),
                 dr_StdLevel = (case dd_StdLevel doc of None \<Rightarrow> [] | Some s \<Rightarrow> s),
                 dr_RFC = published_as (dd_RFC doc)\<rparr>)"

section \<open>Collect\<close>

datatype source = SourceRFC int | SourceErrata | SourceIANA string "string list" | SourceDraft string | SourcePage string string

definition sources :: "config \<Rightarrow> source list" where
  "sources cfg = map SourceRFC (cfg_RFCs cfg) @ [SourceErrata]
     @ map (\<lambda>(file, only). SourceIANA file only) (cfg_IANA cfg)
     @ map SourceDraft (cfg_Drafts cfg) @ map (\<lambda>(name, url). SourcePage name url) (cfg_Pages cfg)"

definition zero_rfc :: rfc where
  "zero_rfc = \<lparr>rfc_Title = [], rfc_Status = [], rfc_ObsoletedBy = [], rfc_UpdatedBy = []\<rparr>"

definition rfc_field :: "rfc \<Rightarrow> string \<Rightarrow> string \<Rightarrow> json \<Rightarrow> rfc option" where
  "rfc_field d n raw v =
     (if equal_fold n ''title'' then map_option (\<lambda>x. d\<lparr>rfc_Title := x\<rparr>) (lax_string (rfc_Title d) v)
      else if equal_fold n ''status'' then map_option (\<lambda>x. d\<lparr>rfc_Status := x\<rparr>) (lax_string (rfc_Status d) v)
      else if equal_fold n ''obsoleted_by'' then
        map_option (\<lambda>x. d\<lparr>rfc_ObsoletedBy := x\<rparr>) (lax_list lax_string [] (rfc_ObsoletedBy d) v)
      else if equal_fold n ''updated_by'' then
        map_option (\<lambda>x. d\<lparr>rfc_UpdatedBy := x\<rparr>) (lax_list lax_string [] (rfc_UpdatedBy d) v)
      else Some d)"

record errata_doc =
  ed_ID :: string
  ed_Doc :: string
  ed_Status :: string
  ed_Type :: string
  ed_Section :: string

definition zero_errata_doc :: errata_doc where
  "zero_errata_doc = \<lparr>ed_ID = [], ed_Doc = [], ed_Status = [], ed_Type = [], ed_Section = []\<rparr>"

definition errata_field :: "errata_doc \<Rightarrow> string \<Rightarrow> string \<Rightarrow> json \<Rightarrow> errata_doc option" where
  "errata_field d n raw v =
     (if equal_fold n ''errata_id'' then map_option (\<lambda>x. d\<lparr>ed_ID := x\<rparr>) (lax_string (ed_ID d) v)
      else if equal_fold n ''doc-id'' then map_option (\<lambda>x. d\<lparr>ed_Doc := x\<rparr>) (lax_string (ed_Doc d) v)
      else if equal_fold n ''errata_status_code'' then map_option (\<lambda>x. d\<lparr>ed_Status := x\<rparr>) (lax_string (ed_Status d) v)
      else if equal_fold n ''errata_type_code'' then map_option (\<lambda>x. d\<lparr>ed_Type := x\<rparr>) (lax_string (ed_Type d) v)
      else if equal_fold n ''section'' then map_option (\<lambda>x. d\<lparr>ed_Section := x\<rparr>) (lax_string (ed_Section d) v)
      else Some d)"

definition map_get :: "(string \<times> 'v list) list \<Rightarrow> string \<Rightarrow> 'v list" where
  "map_get m k = (case map_of m k of None \<Rightarrow> [] | Some v \<Rightarrow> v)"

definition add_erratum :: "string set \<Rightarrow> errata_doc \<Rightarrow> (string \<times> (string \<times> erratum) list) list \<Rightarrow> (string \<times> (string \<times> erratum) list) list" where
  "add_erratum tracked e errata =
     (if ed_Doc e \<notin> tracked then errata
      else map_put (ed_Doc e)
             (map_put (ed_ID e) \<lparr>er_Status = ed_Status e, er_Type = ed_Type e, er_Section = ed_Section e\<rparr> (map_get errata (ed_Doc e))) errata)"

text \<open>
  What the goroutine of a source does to the snapshot, or the error it reports; \<open>get\<close> is the
  download.
\<close>

type_synonym change_of = "string + (snapshot \<Rightarrow> snapshot)"

definition collect_rfc :: "watch_env \<Rightarrow> (string \<Rightarrow> string + bytes) \<Rightarrow> endpoints \<Rightarrow> int \<Rightarrow> change_of" where
  "collect_rfc E get ep n =
     (case get (ep_RFCEditor ep @ ''/rfc/rfc'' @ FormatInt n @ ''.json'') of
        Inl e \<Rightarrow> Inl e
      | Inr raw \<Rightarrow>
          (case unmarshal (lax_struct rfc_field zero_rfc) raw of
             None \<Rightarrow> Inl (we_json_error E raw)
           | Some doc \<Rightarrow> Inr (\<lambda>s. s\<lparr>sn_RFCs := map_put (rfcID n)
               (doc\<lparr>rfc_ObsoletedBy := sort (rfc_ObsoletedBy doc), rfc_UpdatedBy := sort (rfc_UpdatedBy doc)\<rparr>) (sn_RFCs s)\<rparr>)))"

definition collect_errata :: "watch_env \<Rightarrow> (string \<Rightarrow> string + bytes) \<Rightarrow> endpoints \<Rightarrow> config \<Rightarrow> change_of" where
  "collect_errata E get ep cfg =
     (case get (ep_RFCEditor ep @ ''/api/v1/errata.json'') of
        Inl e \<Rightarrow> Inl e
      | Inr raw \<Rightarrow>
          (case unmarshal (lax_list (lax_struct errata_field) zero_errata_doc []) raw of
             None \<Rightarrow> Inl (we_json_error E raw)
           | Some docs \<Rightarrow> Inr (\<lambda>s. s\<lparr>sn_Errata := fold (add_erratum (rfcID ` set (cfg_RFCs cfg))) docs (sn_Errata s)\<rparr>)))"

definition collect_iana :: "watch_env \<Rightarrow> (string \<Rightarrow> string + bytes) \<Rightarrow> endpoints \<Rightarrow> string \<Rightarrow> string list \<Rightarrow> change_of" where
  "collect_iana E get ep file only =
     (case get (ep_IANA ep @ ''/assignments/'' @ file @ ''/'' @ file @ ''.xml'') of
        Inl e \<Rightarrow> Inl e
      | Inr raw \<Rightarrow>
          (case parseIANA E raw only of
             Inl e \<Rightarrow> Inl e
           | Inr regs \<Rightarrow> Inr (\<lambda>s. s\<lparr>sn_Registries := fold (\<lambda>(id, recs). map_put (file @ ''/'' @ id) recs) regs (sn_Registries s)\<rparr>)))"

definition collect_draft :: "watch_env \<Rightarrow> (string \<Rightarrow> string + bytes) \<Rightarrow> endpoints \<Rightarrow> string \<Rightarrow> change_of" where
  "collect_draft E get ep name =
     (case get (ep_Datatracker ep @ ''/doc/'' @ name @ ''/doc.json'') of
        Inl e \<Rightarrow> Inl e
      | Inr raw \<Rightarrow>
          (case parseDraft E raw of
             Inl e \<Rightarrow> Inl e
           | Inr d \<Rightarrow> Inr (\<lambda>s. s\<lparr>sn_Drafts := map_put name d (sn_Drafts s)\<rparr>)))"

definition collect_page :: "watch_env \<Rightarrow> (string \<Rightarrow> string + bytes) \<Rightarrow> string \<Rightarrow> string \<Rightarrow> change_of" where
  "collect_page E get name url =
     (case get url of
        Inl e \<Rightarrow> Inl e
      | Inr raw \<Rightarrow> Inr (\<lambda>s. s\<lparr>sn_Pages := map_put name (hashPage E raw) (sn_Pages s)\<rparr>))"

fun source_change :: "watch_env \<Rightarrow> (string \<Rightarrow> string + bytes) \<Rightarrow> endpoints \<Rightarrow> config \<Rightarrow> source \<Rightarrow> change_of" where
  "source_change E get ep cfg (SourceRFC n) = collect_rfc E get ep n"
| "source_change E get ep cfg SourceErrata = collect_errata E get ep cfg"
| "source_change E get ep cfg (SourceIANA file only) = collect_iana E get ep file only"
| "source_change E get ep cfg (SourceDraft name) = collect_draft E get ep name"
| "source_change E get ep cfg (SourcePage name url) = collect_page E get name url"

fun source_fail :: "source \<Rightarrow> string \<Rightarrow> source_error" where
  "source_fail (SourceRFC n) e = \<lparr>se_Source = ''RFC Editor '' @ rfcID n, se_kind = ''rfc'', se_key = rfcID n, se_Err = e\<rparr>"
| "source_fail SourceErrata e = \<lparr>se_Source = ''RFC Editor errata'', se_kind = ''errata'', se_key = [], se_Err = e\<rparr>"
| "source_fail (SourceIANA file only) e = \<lparr>se_Source = ''IANA '' @ file, se_kind = ''iana'', se_key = file, se_Err = e\<rparr>"
| "source_fail (SourceDraft name) e = \<lparr>se_Source = ''Datatracker '' @ name, se_kind = ''draft'', se_key = name, se_Err = e\<rparr>"
| "source_fail (SourcePage name url) e = \<lparr>se_Source = name, se_kind = ''page'', se_key = name, se_Err = e\<rparr>"

definition collect_source :: "watch_env \<Rightarrow> config \<Rightarrow> endpoints \<Rightarrow> 64 word \<Rightarrow> source \<Rightarrow> snapshot \<times> source_error list \<Rightarrow> snapshot \<times> source_error list" where
  "collect_source E cfg ep maxBytes src st =
     (case source_change E (\<lambda>url. snd (fetch E url maxBytes (ep_RetryDelay ep))) ep cfg src of
        Inl e \<Rightarrow> (fst st, snd st @ [source_fail src e])
      | Inr change \<Rightarrow> (change (fst st), snd st))"

definition max_bytes :: "config \<Rightarrow> 64 word" where
  "max_bytes cfg = (if sint (cfg_MaxBytes cfg) \<le> 0 then defaultMaxBytes else cfg_MaxBytes cfg)"

definition watch_Collect :: "watch_env \<Rightarrow> config \<Rightarrow> endpoints \<Rightarrow> source list \<Rightarrow> snapshot \<times> source_error list" where
  "watch_Collect E cfg ep order =
     (case fold (collect_source E cfg ep (max_bytes cfg)) order (newSnapshot, []) of
        (snap, errs) \<Rightarrow> (snap, sort_key SourceError_Error errs))"

section \<open>KeepFrom\<close>

definition keep_key :: "string \<Rightarrow> (string \<times> 'v) list \<Rightarrow> (string \<times> 'v) list \<Rightarrow> (string \<times> 'v) list" where
  "keep_key key base m = (case map_of base key of None \<Rightarrow> m | Some v \<Rightarrow> map_put key v m)"

definition keep_source :: "snapshot \<Rightarrow> source_error \<Rightarrow> snapshot \<Rightarrow> snapshot" where
  "keep_source base se s =
     (if se_kind se = ''rfc'' then s\<lparr>sn_RFCs := keep_key (se_key se) (sn_RFCs base) (sn_RFCs s)\<rparr>
      else if se_kind se = ''errata'' then s\<lparr>sn_Errata := fold (\<lambda>(k, v). map_put k v) (sn_Errata base) (sn_Errata s)\<rparr>
      else if se_kind se = ''iana'' then
        s\<lparr>sn_Registries := fold (\<lambda>(id, recs) m. if has_prefix id (se_key se @ ''/'') then map_put id recs m else m)
             (sn_Registries base) (sn_Registries s)\<rparr>
      else if se_kind se = ''draft'' then s\<lparr>sn_Drafts := keep_key (se_key se) (sn_Drafts base) (sn_Drafts s)\<rparr>
      else if se_kind se = ''page'' then s\<lparr>sn_Pages := keep_key (se_key se) (sn_Pages base) (sn_Pages s)\<rparr>
      else s)"

definition KeepFrom :: "snapshot \<Rightarrow> snapshot \<Rightarrow> source_error list \<Rightarrow> snapshot" where
  "KeepFrom s base errs = fold (keep_source base) errs s"

end
