(* ===== verification/WatchProofs.thy ===== *)
theory WatchProofs
  imports Watch "HOL-Library.Multiset"
begin

text \<open>
  The collecting half of the standards watcher: a download makes at most three attempts and
  retries exactly the transient failures, no record of a registry is lost to a key clash, the
  outcome of \<open>watch_Collect\<close> does not depend on the order of the goroutines, and a failed source
  keeps its baseline value.  The concurrency is the locale \<open>commuting_steps\<close>, interpreted on the
  critical sections of the sources.
\<close>

section \<open>Lemmas\<close>

definition transient :: "watch_env \<Rightarrow> string \<Rightarrow> 64 word \<Rightarrow> nat \<Rightarrow> bool" where
  "transient E url maxBytes n \<longleftrightarrow> isl (fst (fetchOnce E n url maxBytes)) \<and> snd (fetchOnce E n url maxBytes)"

lemma fetch_unfold:
  "fetch E url mb d =
     (if \<not> transient E url mb 0 then ([0], fst (fetchOnce E 0 url mb))
      else case we_done E url 1 of Some e \<Rightarrow> ([0], Inl e) | None \<Rightarrow>
        if \<not> transient E url mb 1 then ([0, d], fst (fetchOnce E 1 url mb))
        else case we_done E url 2 of Some e \<Rightarrow> ([0, d], Inl e) | None \<Rightarrow> ([0, d, d * 2], fst (fetchOnce E 2 url mb)))"
  by (auto simp: fetch_def transient_def case_prod_beta isl_def Let_def numeral_2_eq_2 [symmetric] split: option.splits)

lemma nat_below_3: "(\<exists>n < (3::nat). P n) \<longleftrightarrow> P 0 \<or> P 1 \<or> P 2"
  by (auto simp: numeral_3_eq_3 less_Suc_eq numeral_2_eq_2)

subsection \<open>Maps\<close>


abbreviation put_all :: "(string \<times> 'v) list \<Rightarrow> (string \<times> 'v) list \<Rightarrow> (string \<times> 'v) list" where
  "put_all m acc \<equiv> fold (\<lambda>(k, v). map_put k v) m acc"

lemma map_of_put_all: "map_of (put_all m acc) = map_of acc ++ map_of (rev m)"
  by (induction m arbitrary: acc) (auto simp: map_add_def fun_eq_iff split: option.splits)

lemma put_all_commute:
  assumes "ordered acc" "fst ` set m \<inter> fst ` set n = {}"
  shows "put_all m (put_all n acc) = put_all n (put_all m acc)"
proof (rule ordered_unique)
  have "map_of (rev n) ++ map_of (rev m) = map_of (rev m) ++ map_of (rev n)"
    using assms(2) by (intro map_add_comm) (auto simp: dom_map_of_conv_image_fst)
  then show "map_of (put_all m (put_all n acc)) = map_of (put_all n (put_all m acc))"
    by (simp add: map_of_put_all flip: map_add_assoc)
qed (use assms(1) in \<open>auto intro!: fold_map_put_ordered\<close>)

subsection \<open>Registries\<close>

lemma free_key_free: "map_of recs (free_key recs base key n) = None"
proof (induction recs base key n rule: free_key.induct)
  case (1 recs base key n)
  then show ?case by (cases "map_of recs key = None") (simp_all add: free_key.simps [of recs base key])
qed

lemma map_put_new: "map_of m k = None \<Longrightarrow> mset (map_put k v m) = add_mset (k, v) (mset m)"
  by (induction k v m rule: map_put.induct) (auto split: if_splits)

lemma registry_fold:
  "ordered acc \<Longrightarrow> ordered (fold (add_record all) rs acc)
     \<and> image_mset snd (mset (fold (add_record all) rs acc)) = image_mset snd (mset acc) + image_mset entry_of (mset rs)"
proof (induction rs arbitrary: acc)
  case (Cons r rs)
  have o: "ordered (add_record all r acc)" using Cons.prems by (simp add: add_record_def map_put_ordered)
  have k: "map_of acc (record_key all acc r) = None" by (simp add: record_key_def Let_def free_key_free)
  from Cons.IH [OF o] map_put_new [OF k] show ?case by (simp add: add_record_def)
qed simp

subsection \<open>The order of the goroutines\<close>

text \<open>Steps on a shared state that commute where an invariant holds may run in any order.\<close>

locale commuting_steps =
  fixes step :: "'a \<Rightarrow> 's \<Rightarrow> 's" and inv :: "'s \<Rightarrow> bool" and steps :: "'a set"
  assumes step_inv: "x \<in> steps \<Longrightarrow> inv s \<Longrightarrow> inv (step x s)"
    and step_commute: "x \<in> steps \<Longrightarrow> y \<in> steps \<Longrightarrow> inv s \<Longrightarrow> step x (step y s) = step y (step x s)"
begin

lemma fold_inv: "set xs \<subseteq> steps \<Longrightarrow> inv s \<Longrightarrow> inv (fold step xs s)"
  by (induction xs arbitrary: s) (auto simp: step_inv)

lemma fold_move: "x \<in> steps \<Longrightarrow> set xs \<subseteq> steps \<Longrightarrow> inv s \<Longrightarrow> fold step xs (step x s) = step x (fold step xs s)"
proof (induction xs arbitrary: s)
  case (Cons a xs)
  then have "step a (step x s) = step x (step a s)" by (simp add: step_commute)
  with Cons show ?case by (simp add: step_inv)
qed simp

lemma fold_permuted: "mset xs = mset ys \<Longrightarrow> set xs \<subseteq> steps \<Longrightarrow> inv s \<Longrightarrow> fold step xs s = fold step ys s"
proof (induction xs arbitrary: ys s)
  case (Cons x xs)
  then have "x \<in> set ys" by (metis list.set_intros(1) set_mset_mset)
  then obtain us vs where ys: "ys = us @ x # vs" by (meson split_list)
  then have sub: "set us \<subseteq> steps" "x \<in> steps" "set xs \<subseteq> steps"
    using Cons.prems(1,2) mset_eq_setD by fastforce+
  have "fold step ys s = fold step vs (fold step us (step x s))"
    using ys fold_move [OF sub(2,1) Cons.prems(3)] by simp
  also have "\<dots> = fold step xs (step x s)"
    using Cons.IH [of "us @ vs" "step x s"] Cons.prems(1,3) sub step_inv ys by simp
  finally show ?case by simp
qed simp

end

definition apply_source :: "watch_env \<Rightarrow> (string \<Rightarrow> string + bytes) \<Rightarrow> endpoints \<Rightarrow> config \<Rightarrow> source \<Rightarrow> snapshot \<Rightarrow> snapshot" where
  "apply_source E get ep cfg src s = (case source_change E get ep cfg src of Inl e \<Rightarrow> s | Inr change \<Rightarrow> change s)"

definition snapshot_ordered :: "snapshot \<Rightarrow> bool" where
  "snapshot_ordered s \<longleftrightarrow> ordered (sn_RFCs s) \<and> ordered (sn_Errata s) \<and> ordered (sn_Registries s) \<and> ordered (sn_Drafts s)
     \<and> ordered (sn_Pages s) \<and> (\<forall>(k, v) \<in> set (sn_Errata s). ordered v) \<and> (\<forall>(k, v) \<in> set (sn_Registries s). ordered v)"

definition config_ok :: "config \<Rightarrow> bool" where
  "config_ok cfg \<longleftrightarrow> distinct (map fst (cfg_IANA cfg)) \<and> distinct (map fst (cfg_Pages cfg))
     \<and> list_all (\<lambda>(file, only). CHR ''/'' \<notin> set file) (cfg_IANA cfg)"

text \<open>The keys of the snapshot that a source may set.\<close>

fun rfc_key :: "source \<Rightarrow> string set" where
  "rfc_key (SourceRFC n) = {rfcID n}"
| "rfc_key _ = {}"

fun registry_keys :: "source \<Rightarrow> string set" where
  "registry_keys (SourceIANA file only) = range (\<lambda>id. file @ ''/'' @ id)"
| "registry_keys _ = {}"

fun draft_key :: "source \<Rightarrow> string set" where
  "draft_key (SourceDraft name) = {name}"
| "draft_key _ = {}"

fun page_key :: "source \<Rightarrow> string set" where
  "page_key (SourcePage name url) = {name}"
| "page_key _ = {}"

text \<open>Every source puts entries under its own keys, and only the errata source touches the errata.\<close>

definition puts :: "(snapshot \<Rightarrow> snapshot) \<Rightarrow> (string \<times> rfc) list \<Rightarrow> ((string \<times> (string \<times> erratum) list) list \<Rightarrow> (string \<times> (string \<times> erratum) list) list) \<Rightarrow>
    (string \<times> (string \<times> iana_entry) list) list \<Rightarrow> (string \<times> draft) list \<Rightarrow> (string \<times> string) list \<Rightarrow> bool" where
  "puts f R h G D P \<longleftrightarrow> (\<forall>s. f s = \<lparr>sn_RFCs = put_all R (sn_RFCs s), sn_Errata = h (sn_Errata s),
     sn_Registries = put_all G (sn_Registries s), sn_Drafts = put_all D (sn_Drafts s), sn_Pages = put_all P (sn_Pages s)\<rparr>)"

definition errata_ok :: "(string \<times> (string \<times> erratum) list) list \<Rightarrow> bool" where
  "errata_ok m \<longleftrightarrow> ordered m \<and> (\<forall>(k, v) \<in> set m. ordered v)"

lemma errata_ok_put: "errata_ok m \<Longrightarrow> ordered v \<Longrightarrow> errata_ok (map_put k v m)"
  using set_map_put [of k v m] by (auto simp: errata_ok_def map_put_ordered)

lemma add_erratum_ok: "errata_ok m \<Longrightarrow> errata_ok (add_erratum T e m)"
proof -
  assume m: "errata_ok m"
  then have "ordered (map_get m (ed_Doc e))"
    by (auto simp: map_get_def errata_ok_def split: option.splits dest!: map_of_SomeD)
  with m show ?thesis by (simp add: add_erratum_def errata_ok_put map_put_ordered)
qed

lemma fold_add_erratum_ok: "errata_ok m \<Longrightarrow> errata_ok (fold (add_erratum T) es m)"
  by (induction es arbitrary: m) (simp_all add: add_erratum_ok)

lemma parseIANA_entries: "parseIANA E raw only = Inr regs \<Longrightarrow> (k, recs) \<in> set regs \<Longrightarrow> ordered recs"
proof -
  have "(\<forall>(id, recs) \<in> set (fold (\<lambda>reg out. if len only > 0 \<and> reg_ID reg \<notin> set only then out
          else map_put (reg_ID reg) (registry_entries reg) out) rs acc). ordered recs)"
    if "\<forall>(id, recs) \<in> set acc. ordered recs" for rs acc
    using that
  proof (induction rs arbitrary: acc)
    case (Cons r rs)
    have "ordered (registry_entries r)" using registry_fold [of "[]"] by (simp add: registry_entries_def)
    then have "\<forall>(k, recs) \<in> set (if len only > 0 \<and> reg_ID r \<notin> set only then acc else map_put (reg_ID r) (registry_entries r) acc). ordered recs"
      using Cons.prems set_map_put [of "reg_ID r" "registry_entries r" acc] by auto
    from Cons.IH [OF this] show ?case by simp
  qed simp
  note * = this [of "[]"]
  assume "parseIANA E raw only = Inr regs" "(k, recs) \<in> set regs"
  then show "ordered recs" using * by (auto simp: parseIANA_def split: sum.splits if_splits)
qed

definition puts_own :: "source \<Rightarrow> (string \<times> rfc) list \<Rightarrow> ((string \<times> (string \<times> erratum) list) list \<Rightarrow> (string \<times> (string \<times> erratum) list) list) \<Rightarrow>
    (string \<times> (string \<times> iana_entry) list) list \<Rightarrow> (string \<times> draft) list \<Rightarrow> (string \<times> string) list \<Rightarrow> bool" where
  "puts_own x R h G D P \<longleftrightarrow> fst ` set R \<subseteq> rfc_key x \<and> fst ` set G \<subseteq> registry_keys x \<and> fst ` set D \<subseteq> draft_key x
     \<and> fst ` set P \<subseteq> page_key x \<and> (x \<noteq> SourceErrata \<longrightarrow> h = (\<lambda>m. m)) \<and> (\<forall>m. errata_ok m \<longrightarrow> errata_ok (h m))
     \<and> (\<forall>(k, v) \<in> set G. ordered v)"

lemma apply_source_puts:
  obtains R h G D P where "puts (apply_source E get ep cfg x) R h G D P" "puts_own x R h G D P"
proof (cases "source_change E get ep cfg x")
  case (Inl e)
  show thesis by (rule that [of "[]" "\<lambda>m. m" "[]" "[]" "[]"]) (auto simp: puts_def puts_own_def apply_source_def Inl)
next
  case (Inr f)
  have a: "apply_source E get ep cfg x = f" by (simp add: apply_source_def Inr fun_eq_iff)
  show thesis
  proof (cases x)
    case (SourceRFC n)
    from Inr obtain r where "f = (\<lambda>s. s\<lparr>sn_RFCs := map_put (rfcID n) r (sn_RFCs s)\<rparr>)"
      by (auto simp: SourceRFC collect_rfc_def split: sum.splits option.splits)
    then show thesis by (intro that [of "[(rfcID n, r)]" "\<lambda>m. m" "[]" "[]" "[]"]) (auto simp: puts_def puts_own_def a [unfolded SourceRFC] SourceRFC)
  next
    case SourceErrata
    from Inr obtain T es where "f = (\<lambda>s. s\<lparr>sn_Errata := fold (add_erratum T) es (sn_Errata s)\<rparr>)"
      by (auto simp: SourceErrata collect_errata_def split: sum.splits option.splits)
    then show thesis
      by (intro that [of "[]" "fold (add_erratum T) es" "[]" "[]" "[]"])
        (auto simp: puts_def puts_own_def a [unfolded SourceErrata] SourceErrata fold_add_erratum_ok)
  next
    case (SourceIANA fl only)
    from Inr obtain raw regs where r: "parseIANA E raw only = Inr regs"
      "f = (\<lambda>s. s\<lparr>sn_Registries := fold (\<lambda>(id, recs). map_put (fl @ ''/'' @ id) recs) regs (sn_Registries s)\<rparr>)"
      by (auto simp: SourceIANA collect_iana_def split: sum.splits option.splits)
    have "put_all (map (\<lambda>(id, recs). (fl @ ''/'' @ id, recs)) regs) acc = fold (\<lambda>(id, recs). map_put (fl @ ''/'' @ id) recs) regs acc" for acc
      by (induction regs arbitrary: acc) auto
    with r show thesis
      by (intro that [of "[]" "\<lambda>m. m" "map (\<lambda>(id, recs). (fl @ ''/'' @ id, recs)) regs" "[]" "[]"])
        (auto simp: puts_def puts_own_def a [unfolded SourceIANA] SourceIANA dest: parseIANA_entries)
  next
    case (SourceDraft name)
    from Inr obtain d where "f = (\<lambda>s. s\<lparr>sn_Drafts := map_put name d (sn_Drafts s)\<rparr>)"
      by (auto simp: SourceDraft collect_draft_def split: sum.splits option.splits)
    then show thesis by (intro that [of "[]" "\<lambda>m. m" "[]" "[(name, d)]" "[]"]) (auto simp: puts_def puts_own_def a [unfolded SourceDraft] SourceDraft)
  next
    case (SourcePage name url)
    from Inr obtain p where "f = (\<lambda>s. s\<lparr>sn_Pages := map_put name p (sn_Pages s)\<rparr>)"
      by (auto simp: SourcePage collect_page_def split: sum.splits option.splits)
    then show thesis by (intro that [of "[]" "\<lambda>m. m" "[]" "[]" "[(name, p)]"]) (auto simp: puts_def puts_own_def a [unfolded SourcePage] SourcePage)
  qed
qed


lemma snapshot_ordered_errata: "snapshot_ordered s \<longleftrightarrow> ordered (sn_RFCs s) \<and> errata_ok (sn_Errata s) \<and> ordered (sn_Registries s)
    \<and> (\<forall>(k, v) \<in> set (sn_Registries s). ordered v) \<and> ordered (sn_Drafts s) \<and> ordered (sn_Pages s)"
  by (auto simp: snapshot_ordered_def errata_ok_def)

lemma put_all_set: "set (put_all m acc) \<subseteq> set acc \<union> set m"
proof (induction m arbitrary: acc)
  case (Cons x m)
  then show ?case using Cons.IH [of "map_put (fst x) (snd x) acc"] set_map_put [of "fst x" "snd x" acc]
    by (auto simp: case_prod_beta)
qed simp

lemma apply_source_ordered: "snapshot_ordered s \<Longrightarrow> snapshot_ordered (apply_source E get ep cfg x s)"
proof -
  assume s: "snapshot_ordered s"
  obtain R h G D P where f: "puts (apply_source E get ep cfg x) R h G D P"
    "puts_own x R h G D P" by (rule apply_source_puts [of E get ep cfg x])
  have "apply_source E get ep cfg x s = \<lparr>sn_RFCs = put_all R (sn_RFCs s), sn_Errata = h (sn_Errata s),
     sn_Registries = put_all G (sn_Registries s), sn_Drafts = put_all D (sn_Drafts s), sn_Pages = put_all P (sn_Pages s)\<rparr>"
    using f(1) by (simp add: puts_def)
  with s f(2) put_all_set [of G "sn_Registries s"] show ?thesis
    by (fastforce simp: snapshot_ordered_errata puts_own_def intro!: fold_map_put_ordered)
qed

lemma key_split:
  assumes "CHR ''/'' \<notin> set a" "CHR ''/'' \<notin> set b" "a @ ''/'' @ x = b @ ''/'' @ y"
  shows "a = b"
proof -
  have "takeWhile (\<lambda>c. c \<noteq> CHR ''/'') (p @ ''/'' @ q) = p" if "CHR ''/'' \<notin> set p" for p q
    using that by (induction p) auto
  from this [OF assms(1), of x] this [OF assms(2), of y] assms(3) show ?thesis by simp
qed

lemma sources_disjoint:
  assumes "config_ok cfg" "x \<in> set (sources cfg)" "y \<in> set (sources cfg)" "x \<noteq> y"
  shows "rfc_key x \<inter> rfc_key y = {}" "registry_keys x \<inter> registry_keys y = {}"
    "draft_key x \<inter> draft_key y = {}" "page_key x \<inter> page_key y = {}"
proof -
  show "rfc_key x \<inter> rfc_key y = {}" "draft_key x \<inter> draft_key y = {}"
    using assms(4) by (cases x; cases y; auto simp: rfcID_def FormatInt_inject)+
  show "page_key x \<inter> page_key y = {}"
    using assms by (cases x; cases y) (auto simp: sources_def config_ok_def dest: eq_key_imp_eq_value)
  show "registry_keys x \<inter> registry_keys y = {}"
  proof (cases x)
    case xx: (SourceIANA f o1)
    show ?thesis
    proof (cases y)
      case yy: (SourceIANA g o2)
      have m: "(f, o1) \<in> set (cfg_IANA cfg)" "(g, o2) \<in> set (cfg_IANA cfg)" using assms(2,3) by (auto simp: sources_def xx yy)
      then have "f \<noteq> g" using assms(1,4) by (auto simp: config_ok_def xx yy dest: eq_key_imp_eq_value)
      moreover have "CHR ''/'' \<notin> set f" "CHR ''/'' \<notin> set g" using m assms(1) by (auto simp: config_ok_def list_all_iff)
      ultimately show ?thesis using key_split by (auto simp: xx yy)
    qed auto
  qed auto
qed

lemma apply_source_commute:
  assumes "config_ok cfg" "x \<in> set (sources cfg)" "y \<in> set (sources cfg)" "snapshot_ordered s"
  shows "apply_source E get ep cfg x (apply_source E get ep cfg y s) = apply_source E get ep cfg y (apply_source E get ep cfg x s)"
proof (cases "x = y")
  case False
  note d = sources_disjoint [OF assms(1-3) False]
  obtain R h G D P where f: "puts (apply_source E get ep cfg x) R h G D P" "puts_own x R h G D P"
    by (rule apply_source_puts [of E get ep cfg x])
  obtain R' h' G' D' P' where g: "puts (apply_source E get ep cfg y) R' h' G' D' P'" "puts_own y R' h' G' D' P'"
    by (rule apply_source_puts [of E get ep cfg y])
  have o: "ordered (sn_RFCs s)" "ordered (sn_Registries s)" "ordered (sn_Drafts s)" "ordered (sn_Pages s)"
    using assms(4) by (auto simp: snapshot_ordered_def)
  have h: "h (h' (sn_Errata s)) = h' (h (sn_Errata s))" using f(2) g(2) False unfolding puts_own_def by (cases "x = SourceErrata") auto
  have "fst ` set R \<inter> fst ` set R' = {}" "fst ` set G \<inter> fst ` set G' = {}" "fst ` set D \<inter> fst ` set D' = {}"
    "fst ` set P \<inter> fst ` set P' = {}"
    using f(2) g(2) d unfolding puts_own_def by (meson disjoint_iff subsetD)+
  note c = put_all_commute [OF o(1) this(1)] put_all_commute [OF o(2) this(2)] put_all_commute [OF o(3) this(3)] put_all_commute [OF o(4) this(4)]
  show ?thesis using f(1) g(1) by (simp add: puts_def h c)
qed simp

interpretation collect: commuting_steps "apply_source E get ep cfg" snapshot_ordered "{src \<in> set (sources cfg). config_ok cfg}"
  for E get ep cfg
  by unfold_locales (auto simp: apply_source_ordered intro: apply_source_commute)

lemma newSnapshot_ordered [simp]: "snapshot_ordered newSnapshot"
  by (simp add: snapshot_ordered_def newSnapshot_def)

text \<open>The download of a run, and the sources that fail with it.\<close>

definition run_get :: "watch_env \<Rightarrow> config \<Rightarrow> endpoints \<Rightarrow> string \<Rightarrow> string + bytes" where
  "run_get E cfg ep url = snd (fetch E url (max_bytes cfg) (ep_RetryDelay ep))"

definition source_failure :: "watch_env \<Rightarrow> config \<Rightarrow> endpoints \<Rightarrow> source \<Rightarrow> source_error option" where
  "source_failure E cfg ep src =
     (case source_change E (run_get E cfg ep) ep cfg src of Inl e \<Rightarrow> Some (source_fail src e) | Inr f \<Rightarrow> None)"

lemma collect_fold:
  "fold (collect_source E cfg ep (max_bytes cfg)) order (s, es) =
     (fold (apply_source E (run_get E cfg ep) ep cfg) order s, es @ List.map_filter (source_failure E cfg ep) order)"
proof (induction order arbitrary: s es)
  case (Cons x order)
  have "(\<lambda>url. snd (fetch E url (max_bytes cfg) (ep_RetryDelay ep))) = run_get E cfg ep" by (simp add: run_get_def fun_eq_iff)
  with Cons show ?case
    by (simp add: collect_source_def apply_source_def source_failure_def map_filter_simps split: sum.splits)
qed (simp add: map_filter_simps)

lemma Collect_eq:
  "watch_Collect E cfg ep order = (fold (apply_source E (run_get E cfg ep) ep cfg) order newSnapshot,
     sort_key SourceError_Error (List.map_filter (source_failure E cfg ep) order))"
  by (simp add: watch_Collect_def collect_fold)

lemma map_sort_key: "map f (sort_key f xs) = sort (map f xs)"
  by (rule sym, rule properties_for_sort) simp_all

lemma mset_map_filter: "mset xs = mset ys \<Longrightarrow> mset (List.map_filter f xs) = mset (List.map_filter f ys)"
  by (simp add: map_filter_def)

lemma collect_permuted:
  assumes "config_ok cfg" "mset order = mset (sources cfg)" "mset order' = mset (sources cfg)"
  shows "fst (watch_Collect E cfg ep order) = fst (watch_Collect E cfg ep order')
    \<and> map SourceError_Error (snd (watch_Collect E cfg ep order)) = map SourceError_Error (snd (watch_Collect E cfg ep order'))
    \<and> mset (snd (watch_Collect E cfg ep order)) = mset (snd (watch_Collect E cfg ep order'))"
proof -
  have m: "mset order = mset order'" using assms by simp
  have "set order \<subseteq> {src \<in> set (sources cfg). config_ok cfg}" using assms(1) mset_eq_setD [OF assms(2)] by auto
  note c = collect.fold_permuted [OF m this newSnapshot_ordered]
  have e: "mset (List.map_filter (source_failure E cfg ep) order) = mset (List.map_filter (source_failure E cfg ep) order')"
    by (rule mset_map_filter [OF m])
  then have "sort (map SourceError_Error (List.map_filter (source_failure E cfg ep) order))
      = sort (map SourceError_Error (List.map_filter (source_failure E cfg ep) order'))"
    by (metis mset_map properties_for_sort mset_sort sorted_sort)
  with c e show ?thesis by (simp add: Collect_eq map_sort_key)
qed

subsection \<open>KeepFrom\<close>

text \<open>The keys of the baseline that a failure covers.\<close>

definition covers :: "string \<Rightarrow> source_error \<Rightarrow> string \<Rightarrow> bool" where
  "covers kind se k \<longleftrightarrow> se_kind se = kind \<and>
     (if kind = ''errata'' then True else if kind = ''iana'' then has_prefix k (se_key se @ ''/'') else se_key se = k)"

definition kept :: "bool \<Rightarrow> 'v option \<Rightarrow> 'v option \<Rightarrow> 'v option" where
  "kept c b old = (if c \<and> b \<noteq> None then b else old)"

lemma kept_kept: "kept c b (kept d b old) = kept (c \<or> d) b old"
  by (simp add: kept_def)

lemma keep_key_map_of: "map_of (keep_key key base m) k = kept (key = k) (map_of base k) (map_of m k)"
  by (auto simp: keep_key_def kept_def split: option.splits)

lemma put_if_map_of:
  "distinct (map fst base) \<Longrightarrow>
   map_of (fold (\<lambda>(k, v) m. if p k then map_put k v m else m) base m) k = kept (p k) (map_of base k) (map_of m k)"
  by (induction base arbitrary: m) (auto simp: kept_def map_of_eq_None_iff dest: map_of_SomeD intro: rev_image_eqI)

lemma put_if_ordered: "ordered m \<Longrightarrow> ordered (fold (\<lambda>(k, v) m. if p k then map_put k v m else m) base m)"
  by (induction base arbitrary: m) (auto simp: map_put_ordered)

lemma keep_source_fields:
  assumes "snapshot_ordered base"
  shows "map_of (sn_RFCs (keep_source base se s)) k = kept (covers ''rfc'' se k) (map_of (sn_RFCs base) k) (map_of (sn_RFCs s) k)"
    "map_of (sn_Errata (keep_source base se s)) k = kept (covers ''errata'' se k) (map_of (sn_Errata base) k) (map_of (sn_Errata s) k)"
    "map_of (sn_Registries (keep_source base se s)) k = kept (covers ''iana'' se k) (map_of (sn_Registries base) k) (map_of (sn_Registries s) k)"
    "map_of (sn_Drafts (keep_source base se s)) k = kept (covers ''draft'' se k) (map_of (sn_Drafts base) k) (map_of (sn_Drafts s) k)"
    "map_of (sn_Pages (keep_source base se s)) k = kept (covers ''page'' se k) (map_of (sn_Pages base) k) (map_of (sn_Pages s) k)"
proof -
  have d: "distinct (map fst (sn_Errata base))" "distinct (map fst (sn_Registries base))"
    using assms by (auto simp: snapshot_ordered_def ordered_distinct)
  note e = put_if_map_of [OF d(1), of "\<lambda>_. True" "sn_Errata s" k, simplified]
  have no: "kept False b old = old" for b old :: "'v option" by (simp add: kept_def)
  show "map_of (sn_RFCs (keep_source base se s)) k = kept (covers ''rfc'' se k) (map_of (sn_RFCs base) k) (map_of (sn_RFCs s) k)"
    "map_of (sn_Errata (keep_source base se s)) k = kept (covers ''errata'' se k) (map_of (sn_Errata base) k) (map_of (sn_Errata s) k)"
    "map_of (sn_Registries (keep_source base se s)) k = kept (covers ''iana'' se k) (map_of (sn_Registries base) k) (map_of (sn_Registries s) k)"
    "map_of (sn_Drafts (keep_source base se s)) k = kept (covers ''draft'' se k) (map_of (sn_Drafts base) k) (map_of (sn_Drafts s) k)"
    "map_of (sn_Pages (keep_source base se s)) k = kept (covers ''page'' se k) (map_of (sn_Pages base) k) (map_of (sn_Pages s) k)"
    using e put_if_map_of [OF d(2), of "\<lambda>id. has_prefix id (se_key se @ ''/'')" "sn_Registries s" k]
    by (simp_all add: keep_source_def covers_def keep_key_map_of no)
qed

lemma KeepFrom_fields:
  assumes "snapshot_ordered base"
  shows "map_of (sn_RFCs (KeepFrom s base errs)) k = kept (\<exists>se \<in> set errs. covers ''rfc'' se k) (map_of (sn_RFCs base) k) (map_of (sn_RFCs s) k)"
    "map_of (sn_Errata (KeepFrom s base errs)) k = kept (\<exists>se \<in> set errs. covers ''errata'' se k) (map_of (sn_Errata base) k) (map_of (sn_Errata s) k)"
    "map_of (sn_Registries (KeepFrom s base errs)) k = kept (\<exists>se \<in> set errs. covers ''iana'' se k) (map_of (sn_Registries base) k) (map_of (sn_Registries s) k)"
    "map_of (sn_Drafts (KeepFrom s base errs)) k = kept (\<exists>se \<in> set errs. covers ''draft'' se k) (map_of (sn_Drafts base) k) (map_of (sn_Drafts s) k)"
    "map_of (sn_Pages (KeepFrom s base errs)) k = kept (\<exists>se \<in> set errs. covers ''page'' se k) (map_of (sn_Pages base) k) (map_of (sn_Pages s) k)"
  unfolding KeepFrom_def
  by (induction errs arbitrary: s; simp add: keep_source_fields [OF assms] kept_kept disj_commute; simp add: kept_def)+

lemma put_if_set: "set (fold (\<lambda>(k, v) m. if p k then map_put k v m else m) base m) \<subseteq> set m \<union> set base"
proof (induction base arbitrary: m)
  case (Cons x base)
  then show ?case
    using Cons.IH [of "if p (fst x) then map_put (fst x) (snd x) m else m"] set_map_put [of "fst x" "snd x" m]
    by (auto simp: case_prod_beta split: if_splits)
qed simp

lemma keep_source_ordered:
  assumes "snapshot_ordered base" "snapshot_ordered s"
  shows "snapshot_ordered (keep_source base se s)"
proof -
  have k: "ordered m \<Longrightarrow> ordered (keep_key key b m)" for key and b m :: "(string \<times> 'v) list"
    by (auto simp: keep_key_def map_put_ordered split: option.splits)
  note e = put_if_set [of "\<lambda>_. True" "sn_Errata base" "sn_Errata s", simplified]
    put_if_set [of "\<lambda>id. has_prefix id (se_key se @ ''/'')" "sn_Registries base" "sn_Registries s"]
  note o = put_if_ordered [of "sn_Errata s" "\<lambda>_. True" "sn_Errata base", simplified]
    put_if_ordered [of "sn_Registries s" "\<lambda>id. has_prefix id (se_key se @ ''/'')" "sn_Registries base"]
  show ?thesis
    using assms e o by (auto simp: keep_source_def snapshot_ordered_def k)
qed

lemma KeepFrom_ordered: "snapshot_ordered base \<Longrightarrow> snapshot_ordered s \<Longrightarrow> snapshot_ordered (KeepFrom s base errs)"
  unfolding KeepFrom_def by (induction errs arbitrary: s) (auto simp: keep_source_ordered)


subsection \<open>Failed sources\<close>

fun source_unchanged :: "source \<Rightarrow> snapshot \<Rightarrow> snapshot \<Rightarrow> bool" where
  "source_unchanged (SourceRFC n) b c \<longleftrightarrow> map_of (sn_RFCs c) (rfcID n) = map_of (sn_RFCs b) (rfcID n)"
| "source_unchanged SourceErrata b c \<longleftrightarrow> sn_Errata c = sn_Errata b"
| "source_unchanged (SourceIANA file only) b c \<longleftrightarrow>
     (\<forall>id. map_of (sn_Registries c) (file @ ''/'' @ id) = map_of (sn_Registries b) (file @ ''/'' @ id))"
| "source_unchanged (SourceDraft name) b c \<longleftrightarrow> map_of (sn_Drafts c) name = map_of (sn_Drafts b) name"
| "source_unchanged (SourcePage name url) b c \<longleftrightarrow> map_of (sn_Pages c) name = map_of (sn_Pages b) name"

text \<open>The entries a set of keys has in a snapshot that none of the sources sets.\<close>

definition untouched :: "source \<Rightarrow> snapshot \<Rightarrow> bool" where
  "untouched src s \<longleftrightarrow> (\<forall>k \<in> rfc_key src. map_of (sn_RFCs s) k = None) \<and> (\<forall>k \<in> registry_keys src. map_of (sn_Registries s) k = None)
     \<and> (\<forall>k \<in> draft_key src. map_of (sn_Drafts s) k = None) \<and> (\<forall>k \<in> page_key src. map_of (sn_Pages s) k = None)
     \<and> (src = SourceErrata \<longrightarrow> sn_Errata s = [])"

lemma put_all_elsewhere:
  "fst ` set m \<subseteq> K \<Longrightarrow> K \<inter> L = {} \<Longrightarrow> k \<in> L \<Longrightarrow> map_of (put_all m acc) k = map_of acc k"
proof -
  assume "fst ` set m \<subseteq> K" "K \<inter> L = {}" "k \<in> L"
  then have "map_of (rev m) k = None" unfolding map_of_eq_None_iff by auto
  then show ?thesis by (simp add: map_of_put_all map_add_def)
qed

lemma untouched_step:
  assumes "config_ok cfg" "x \<in> set (sources cfg)" "src \<in> set (sources cfg)" "source_change E get ep cfg src = Inl e" "untouched src s"
  shows "untouched src (apply_source E get ep cfg x s)"
proof (cases "x = src")
  case True
  then show ?thesis using assms(4,5) by (simp add: apply_source_def)
next
  case False
  note d = sources_disjoint [OF assms(1-3) False]
  obtain R h G D P where f: "puts (apply_source E get ep cfg x) R h G D P" "puts_own x R h G D P"
    by (rule apply_source_puts [of E get ep cfg x])
  have h: "src = SourceErrata \<longrightarrow> h = (\<lambda>m. m)" and own: "fst ` set R \<subseteq> rfc_key x" "fst ` set G \<subseteq> registry_keys x"
    "fst ` set D \<subseteq> draft_key x" "fst ` set P \<subseteq> page_key x"
    using f(2) False by (auto simp: puts_own_def)
  note e = put_all_elsewhere [OF own(1) d(1)] put_all_elsewhere [OF own(2) d(2)] put_all_elsewhere [OF own(3) d(3)] put_all_elsewhere [OF own(4) d(4)]
  show ?thesis using assms(5) f(1) h by (simp add: untouched_def puts_def e)
qed

lemma untouched_collect:
  assumes "config_ok cfg" "set order \<subseteq> set (sources cfg)" "src \<in> set (sources cfg)" "source_change E get ep cfg src = Inl e" "untouched src s"
  shows "untouched src (fold (apply_source E get ep cfg) order s)"
  using assms(2,5) by (induction order arbitrary: s) (auto simp: untouched_step [OF assms(1) _ assms(3,4)])

lemma covers_failed:
  "k \<in> rfc_key src \<Longrightarrow> covers ''rfc'' (source_fail src e) k" "k \<in> registry_keys src \<Longrightarrow> covers ''iana'' (source_fail src e) k"
  "k \<in> draft_key src \<Longrightarrow> covers ''draft'' (source_fail src e) k" "k \<in> page_key src \<Longrightarrow> covers ''page'' (source_fail src e) k"
  "src = SourceErrata \<Longrightarrow> covers ''errata'' (source_fail src e) k"
  by (cases src; auto simp: covers_def has_prefix_def)+

section \<open>Properties\<close>

definition sample_watch :: watch_env where
  "sample_watch = \<lparr>we_answer = (\<lambda>url n. if url \<noteq> ''p'' then NoAnswer ''down''
       else if n = 0 then Answered \<lparr>wr_StatusCode = 503, wr_Status = ''503 busy'', wr_Body = [], wr_error = None\<rparr>
       else Answered \<lparr>wr_StatusCode = 200, wr_Status = ''200 OK'', wr_Body = ''hi'', wr_error = None\<rparr>),
     we_done = (\<lambda>_ _. None), we_xml = (\<lambda>_. Inl ''bad''), we_json_error = (\<lambda>_. ''bad''), we_sha256 = (\<lambda>b. b),
     we_lower = (\<lambda>s. s), we_read = (\<lambda>_. NotExist ''none''), we_write = (\<lambda>_. None)\<rparr>"

definition sample_config :: config where
  "sample_config = zero_config\<lparr>cfg_RFCs := [7519], cfg_Drafts := [''d''], cfg_IANA := [(''jose'', [])], cfg_Pages := [(''page'', ''p'')], cfg_MaxBytes := 100\<rparr>"

definition sample_draft :: draft where
  "sample_draft = \<lparr>dr_Title = ''t'', dr_Rev = ''01'', dr_State = ''active'', dr_IESGState = [], dr_RFCEditorState = [], dr_StdLevel = [], dr_RFC = []\<rparr>"

definition sample_base :: snapshot where
  "sample_base = newSnapshot\<lparr>sn_Drafts := [(''d'', sample_draft)]\<rparr>"

text \<open>
  a download makes at most three attempts, waiting nothing, the delay and twice the delay before
  them; it yields a body exactly when an attempt does after attempts that failed in a way worth
  retrying (no answer, a broken body, a server error or 429), the context being alive before
  each retry.
\<close>

theorem fetch_exact:
  "length (fst (fetch E url maxBytes delay)) \<le> 3
   \<and> fst (fetch E url maxBytes delay) = map (\<lambda>n. delay * int n) [0..<length (fst (fetch E url maxBytes delay))]
   \<and> (snd (fetch E url maxBytes delay) = Inr body \<longleftrightarrow>
        (\<exists>n < 3. fst (fetchOnce E n url maxBytes) = Inr body
           \<and> (\<forall>m < n. transient E url maxBytes m \<and> we_done E url (Suc m) = None)))"
proof -
  have a: "(\<forall>m < (1::nat). Q m) \<longleftrightarrow> Q 0" "(\<forall>m < (2::nat). Q m) \<longleftrightarrow> Q 0 \<and> Q 1" for Q
    by (auto simp: less_Suc_eq numeral_2_eq_2)
  have i: "fst (fetchOnce E n url maxBytes) = Inr body \<Longrightarrow> \<not> transient E url maxBytes n" for n
    by (simp add: transient_def)
  show ?thesis
    unfolding nat_below_3 a
    by (auto simp: fetch_unfold upt_rec numeral_2_eq_2 split: option.splits dest: i)
qed

theorem fetch_exact_witness:
  "snd (fetch sample_watch ''p'' 100 5) = Inr ''hi''"
proof -
  have a: "fst (fetchOnce sample_watch 1 ''p'' 100) = Inr ''hi''" "transient sample_watch ''p'' 100 0" "we_done sample_watch ''p'' 1 = None"
    by code_simp+
  have "\<exists>n < (3::nat). fst (fetchOnce sample_watch n ''p'' 100) = Inr ''hi''
      \<and> (\<forall>m < n. transient sample_watch ''p'' 100 m \<and> we_done sample_watch ''p'' (Suc m) = None)"
    by (rule exI [of _ 1]) (use a in auto)
  with fetch_exact [of sample_watch "''p''" 100 5 "''hi''"] show ?thesis by blast
qed

text \<open>
  no registry record is lost: the entries of a sub-registry are exactly its records, normalized,
  each under a key of its own, however many share a value and a usage.
\<close>

theorem registry_keeps_every_record:
  "image_mset snd (mset (registry_entries reg)) = image_mset entry_of (mset (reg_Records reg))
   \<and> ordered (registry_entries reg)"
  using registry_fold [of "[]" "reg_Records reg" "reg_Records reg"] by (simp add: registry_entries_def)

text \<open>
  C36: the result of \<^verbatim>\<open>Collect\<close> does not depend on the order in which the goroutines of the sources
  finish: the snapshot and the sorted list of error messages are the same for every order.  The
  maps of the configuration have distinct keys, as Go maps do, and no IANA file name in it
  contains a slash, so that the registries of different files have different ids.
\<close>

theorem collect_order_irrelevant:
  assumes "config_ok cfg" "mset order = mset (sources cfg)" "mset order' = mset (sources cfg)"
  shows "fst (watch_Collect E cfg ep order) = fst (watch_Collect E cfg ep order')
    \<and> map SourceError_Error (snd (watch_Collect E cfg ep order)) = map SourceError_Error (snd (watch_Collect E cfg ep order'))
    \<and> mset (snd (watch_Collect E cfg ep order)) = mset (snd (watch_Collect E cfg ep order'))"
  using collect_permuted [OF assms] .

theorem collect_order_irrelevant_witness:
  "fst (watch_Collect sample_watch sample_config DefaultEndpoints (rev (sources sample_config)))
     = fst (watch_Collect sample_watch sample_config DefaultEndpoints (sources sample_config))
   \<and> map_of (sn_Pages (fst (watch_Collect sample_watch sample_config DefaultEndpoints (sources sample_config)))) ''page'' = Some ''6869''"
proof -
  have "config_ok sample_config" by code_simp
  from collect_order_irrelevant [OF this, of "rev (sources sample_config)" "sources sample_config"]
  have "fst (watch_Collect sample_watch sample_config DefaultEndpoints (rev (sources sample_config)))
     = fst (watch_Collect sample_watch sample_config DefaultEndpoints (sources sample_config))" by simp
  moreover have "map_of (sn_Pages (fst (watch_Collect sample_watch sample_config DefaultEndpoints (sources sample_config)))) ''page'' = Some ''6869''"
    by code_simp
  ultimately show ?thesis by blast
qed

text \<open>
  C37: a source that could not be fetched or parsed never looks like a change: after \<^verbatim>\<open>KeepFrom\<close> its part
  of the snapshot is the one of the baseline, whatever the other sources did.  As above,
  the maps of the configuration have distinct keys, and no IANA file name contains a slash.
\<close>

theorem failed_source_keeps_baseline:
  assumes "config_ok cfg" "mset order = mset (sources cfg)" "snapshot_ordered base" "src \<in> set (sources cfg)"
    "source_change E (run_get E cfg ep) ep cfg src = Inl e" "watch_Collect E cfg ep order = (snap, errs)"
  shows "source_unchanged src base (KeepFrom snap base errs)"
proof -
  have o: "set order = set (sources cfg)" by (rule mset_eq_setD [OF assms(2)])
  have "source_fail src e \<in> set errs"
    using assms(4-6) o by (force simp: Collect_eq map_filter_def source_failure_def)
  then have in_errs: "\<exists>se \<in> set errs. covers kind se k" if "covers kind (source_fail src e) k" for kind k using that by blast
  note in_errs = covers_failed [THEN in_errs]
  have "untouched src snap"
    using untouched_collect [OF assms(1) _ assms(4,5), of order newSnapshot] o assms(6)
    by (auto simp: Collect_eq untouched_def newSnapshot_def)
  moreover have "snapshot_ordered snap"
    using collect.fold_inv [of order cfg newSnapshot E "run_get E cfg ep" ep] assms(1,6) o by (auto simp: Collect_eq)
  moreover have "snapshot_ordered (KeepFrom snap base errs)" using assms(3) calculation(2) by (rule KeepFrom_ordered)
  ultimately show ?thesis
    using in_errs assms(3)
    by (cases src) (auto simp: KeepFrom_fields [OF assms(3)] untouched_def kept_def snapshot_ordered_def fun_eq_iff intro!: ordered_unique)
qed

theorem failed_source_keeps_baseline_witness:
  "map_of (sn_Drafts (case watch_Collect sample_watch sample_config DefaultEndpoints (sources sample_config) of
      (snap, errs) \<Rightarrow> KeepFrom snap sample_base errs)) ''d'' = Some sample_draft"
proof -
  obtain snap errs where c: "watch_Collect sample_watch sample_config DefaultEndpoints (sources sample_config) = (snap, errs)" by fastforce
  have a: "config_ok sample_config" "snapshot_ordered sample_base" by code_simp+
  have b: "SourceDraft ''d'' \<in> set (sources sample_config)" by code_simp
  have e: "source_change sample_watch (run_get sample_watch sample_config DefaultEndpoints) DefaultEndpoints sample_config (SourceDraft ''d'') = Inl ''down''"
  proof -
    have "run_get sample_watch sample_config DefaultEndpoints (ep_Datatracker DefaultEndpoints @ ''/doc/'' @ ''d'' @ ''/doc.json'') = Inl ''down''"
      by code_simp
    then show ?thesis by (simp add: collect_draft_def)
  qed
  have "map_of (sn_Drafts sample_base) ''d'' = Some sample_draft" by code_simp
  with failed_source_keeps_baseline [OF a(1) refl a(2) b e c] c show ?thesis by simp
qed

end
