(* ===== verification/WatchDiff.thy ===== *)
theory WatchDiff
  imports WatchProofs
begin

text \<open>
  The reporting half of the standards watcher: \<^verbatim>\<open>.github/standards/diff.go\<close> (\<^verbatim>\<open>Diff\<close> and \<^verbatim>\<open>Report\<close>) and
  the driver \<^verbatim>\<open>main.go\<close> (\<^verbatim>\<open>run\<close> and \<^verbatim>\<open>writeJSON\<close>).  A run yields the files it wrote, in order, what it
  printed and the error it ended with.

  Shown: exactly which differences are reported, that a source which could not be fetched never
  shows up as one, and that a run with \<^verbatim>\<open>-accept\<close> either refuses or leaves a baseline against which
  the same sources give no change.
\<close>

section \<open>Text\<close>

definition arrow :: string where "arrow = [chr 0xE2, chr 0x86, chr 0x92]"
definition dash :: string where "dash = [chr 0xE2, chr 0x80, chr 0x94]"
definition section_sign :: string where "section_sign = [chr 0xC2, chr 0xA7]"
definition middle_dot :: string where "middle_dot = [chr 0xC2, chr 0xB7]"
definition nl :: string where "nl = [chr 10]"

definition sectionRFC :: string where "sectionRFC = ''RFC status''"
definition sectionErrata :: string where "sectionErrata = ''Errata''"
definition sectionRegistry :: string where "sectionRegistry = ''IANA registries''"
definition sectionDrafts :: string where "sectionDrafts = ''Drafts''"
definition sectionPages :: string where "sectionPages = ''Pages''"

definition sectionOrder :: "string list" where
  "sectionOrder = [sectionRFC, sectionErrata, sectionRegistry, sectionDrafts, sectionPages]"

record change =
  ch_Section :: string
  ch_Summary :: string
  ch_Link :: string
  ch_Impact :: string

section \<open>Helpers of Diff\<close>

definition better_prefix :: "string \<Rightarrow> string \<Rightarrow> string \<Rightarrow> string" where
  "better_prefix subject p best = (if has_prefix subject p \<and> len p > len best then p else best)"

definition impactFor :: "config \<Rightarrow> string \<Rightarrow> string" where
  "impactFor cfg subject =
     (let best = fold (better_prefix subject) (map fst (cfg_Impact cfg)) []
      in case map_of (cfg_Impact cfg) best of None \<Rightarrow> [] | Some hint \<Rightarrow> hint)"

definition orDash :: "string \<Rightarrow> string" where
  "orDash s = (if s = [] then dash else s)"

definition appendIfChanged :: "string list \<Rightarrow> string \<Rightarrow> string \<Rightarrow> string \<Rightarrow> string list" where
  "appendIfChanged parts label before after =
     (if before = after then parts else parts @ [label @ '' '' @ orDash before @ '' '' @ arrow @ '' '' @ orDash after])"

definition added :: "string list \<Rightarrow> string list \<Rightarrow> string list" where
  "added before after = filter (\<lambda>v. v \<notin> set before) after"

definition unionKeys :: "(string \<times> 'v) list \<Rightarrow> (string \<times> 'v) list \<Rightarrow> string list" where
  "unionKeys a b = sort (fold (\<lambda>k out. if k \<in> set out then out else out @ [k]) (map fst a @ map fst b) [])"

section \<open>Diff\<close>

definition add_change :: "config \<Rightarrow> string \<Rightarrow> string \<Rightarrow> string \<Rightarrow> string \<Rightarrow> change" where
  "add_change cfg sec subject summary link =
     \<lparr>ch_Section = sec, ch_Summary = summary, ch_Link = link, ch_Impact = impactFor cfg subject\<rparr>"

definition diff_rfc :: "watch_env \<Rightarrow> config \<Rightarrow> string \<Rightarrow> rfc option \<Rightarrow> rfc option \<Rightarrow> change list" where
  "diff_rfc E cfg rid base cur =
     (let link = ''https://www.rfc-editor.org/info/'' @ to_lower (we_lower E) rid;
          add = (\<lambda>summary. add_change cfg sectionRFC rid summary link)
      in case (base, cur) of
           (_, None) \<Rightarrow> [add (rid @ '': no longer tracked'')]
         | (None, Some c) \<Rightarrow> [add (rid @ '': added to tracking ('' @ rfc_Status c @ '')'')]
         | (Some b, Some c) \<Rightarrow>
             (if rfc_Status b \<noteq> rfc_Status c
              then [add (rid @ '' status '' @ rfc_Status b @ '' '' @ arrow @ '' '' @ rfc_Status c)] else [])
             @ map (\<lambda>n. add (rid @ '' is updated by '' @ n)) (added (rfc_UpdatedBy b) (rfc_UpdatedBy c))
             @ map (\<lambda>n. add (rid @ '' is obsoleted by '' @ n)) (added (rfc_ObsoletedBy b) (rfc_ObsoletedBy c)))"

definition diff_erratum :: "config \<Rightarrow> string \<Rightarrow> string \<Rightarrow> erratum option \<Rightarrow> erratum option \<Rightarrow> change list" where
  "diff_erratum cfg doc eid base cur =
     (let link = ''https://www.rfc-editor.org/errata/eid'' @ eid;
          add = (\<lambda>summary. add_change cfg sectionErrata doc summary link)
      in case (base, cur) of
           (_, None) \<Rightarrow> [add (doc @ '' erratum '' @ eid @ '': removed'')]
         | (None, Some c) \<Rightarrow> [add (doc @ '' erratum '' @ eid @ '' ('' @ er_Type c @ '', '' @ section_sign @ er_Section c
               @ ''): new, '' @ er_Status c)]
         | (Some b, Some c) \<Rightarrow>
             if er_Status b \<noteq> er_Status c
             then [add (doc @ '' erratum '' @ eid @ '': '' @ er_Status b @ '' '' @ arrow @ '' '' @ er_Status c)] else [])"

definition entry_parts :: "iana_entry \<Rightarrow> iana_entry \<Rightarrow> string list" where
  "entry_parts b c =
     appendIfChanged
       (appendIfChanged
         (appendIfChanged
           (appendIfChanged [] ''requirements'' (ie_Requirements b) (ie_Requirements c))
           ''usage'' (ie_Usage b) (ie_Usage c))
         ''description'' (ie_Description b) (ie_Description c))
       ''references'' (join_with '' '' (ie_References b)) (join_with '' '' (ie_References c))"

definition diff_entry :: "config \<Rightarrow> string \<Rightarrow> string \<Rightarrow> iana_entry option \<Rightarrow> iana_entry option \<Rightarrow> change list" where
  "diff_entry cfg reg key base cur =
     (case cut CHR ''/'' reg of (file, sub, _) \<Rightarrow>
      let link = ''https://www.iana.org/assignments/'' @ file @ ''/'' @ file @ ''.xhtml#'' @ sub;
          add = (\<lambda>summary. add_change cfg sectionRegistry reg summary link)
      in case (base, cur) of
           (_, None) \<Rightarrow> [add (reg @ '' '' @ key @ '': removed'')]
         | (None, Some c) \<Rightarrow> [add (reg @ '' '' @ key @ '': registered'')]
         | (Some b, Some c) \<Rightarrow>
             if len (entry_parts b c) > 0 then [add (reg @ '' '' @ key @ '': '' @ join_with ''; '' (entry_parts b c))] else [])"

definition draft_parts :: "draft \<Rightarrow> draft \<Rightarrow> string list" where
  "draft_parts b c =
     appendIfChanged
       (appendIfChanged
         (appendIfChanged
           (appendIfChanged
             (appendIfChanged [] ''rev'' (dr_Rev b) (dr_Rev c))
             ''state'' (dr_State b) (dr_State c))
           ''IESG'' (dr_IESGState b) (dr_IESGState c))
         ''RFC Editor'' (dr_RFCEditorState b) (dr_RFCEditorState c))
       ''level'' (dr_StdLevel b) (dr_StdLevel c)
     @ (if dr_RFC c \<noteq> [] \<and> dr_RFC c \<noteq> dr_RFC b then [''published as '' @ dr_RFC c] else [])"

definition diff_draft :: "config \<Rightarrow> string \<Rightarrow> draft option \<Rightarrow> draft option \<Rightarrow> change list" where
  "diff_draft cfg name base cur =
     (let link = ''https://datatracker.ietf.org/doc/'' @ name @ ''/'';
          add = (\<lambda>summary. add_change cfg sectionDrafts name summary link)
      in case (base, cur) of
           (_, None) \<Rightarrow> [add (name @ '': no longer tracked'')]
         | (None, Some c) \<Rightarrow> [add (name @ '': added to tracking (rev '' @ dr_Rev c @ '', '' @ orDash (dr_IESGState c) @ '')'')]
         | (Some b, Some c) \<Rightarrow>
             if len (draft_parts b c) > 0 then [add (name @ '': '' @ join_with ''; '' (draft_parts b c))] else [])"

definition diff_page :: "config \<Rightarrow> string \<Rightarrow> string option \<Rightarrow> string option \<Rightarrow> change list" where
  "diff_page cfg name base cur =
     (let link = (case map_of (cfg_Pages cfg) name of None \<Rightarrow> [] | Some url \<Rightarrow> url);
          add = (\<lambda>summary. add_change cfg sectionPages name summary link)
      in case (base, cur) of
           (_, None) \<Rightarrow> [add (name @ '': no longer tracked'')]
         | (None, Some c) \<Rightarrow> [add (name @ '': added to tracking'')]
         | (Some b, Some c) \<Rightarrow> if b \<noteq> c then [add (name @ '': content changed'')] else [])"

text \<open>One loop over the union of the keys.\<close>

definition diff_keys :: "(string \<Rightarrow> 'v option \<Rightarrow> 'v option \<Rightarrow> change list) \<Rightarrow> (string \<times> 'v) list \<Rightarrow> (string \<times> 'v) list \<Rightarrow> change list" where
  "diff_keys d b c = concat (map (\<lambda>k. d k (map_of b k) (map_of c k)) (unionKeys b c))"

definition diff_nested :: "(string \<Rightarrow> string \<Rightarrow> 'v option \<Rightarrow> 'v option \<Rightarrow> change list) \<Rightarrow>
    (string \<times> (string \<times> 'v) list) list \<Rightarrow> (string \<times> (string \<times> 'v) list) list \<Rightarrow> change list" where
  "diff_nested d b c = concat (map (\<lambda>k. diff_keys (d k) (map_get b k) (map_get c k)) (unionKeys b c))"

definition Diff :: "watch_env \<Rightarrow> snapshot \<Rightarrow> snapshot \<Rightarrow> config \<Rightarrow> change list" where
  "Diff E base cur cfg =
     diff_keys (diff_rfc E cfg) (sn_RFCs base) (sn_RFCs cur)
     @ diff_nested (diff_erratum cfg) (sn_Errata base) (sn_Errata cur)
     @ diff_nested (diff_entry cfg) (sn_Registries base) (sn_Registries cur)
     @ diff_keys (diff_draft cfg) (sn_Drafts base) (sn_Drafts cur)
     @ diff_keys (diff_page cfg) (sn_Pages base) (sn_Pages cur)"

section \<open>Report\<close>

definition report_line :: "change \<Rightarrow> string" where
  "report_line c = ''- '' @ ch_Summary c
     @ (if ch_Link c \<noteq> [] then '' '' @ dash @ '' [source]('' @ ch_Link c @ '')'' else [])
     @ (if ch_Impact c \<noteq> [] then '' '' @ middle_dot @ '' likely impact: `'' @ ch_Impact c @ ''`'' else []) @ nl"

definition report_section :: "change list \<Rightarrow> string \<Rightarrow> string" where
  "report_section changes sec =
     (let items = filter (\<lambda>c. ch_Section c = sec) changes
      in if len items = 0 then [] else ''## '' @ sec @ nl @ nl @ concat (map report_line items) @ nl)"

definition triage :: string where
  "triage = ''## Triage'' @ nl @ nl
     @ ''1. For each item, decide whether the library, `COMPLIANCE.md` or `SECURITY.md` needs a change, and open a PR (tests first) or note why not.'' @ nl
     @ ''2. Accept the new state so the next run starts from it:'' @ nl @ nl
     @ ''   ```sh'' @ nl
     @ ''   cd .github/standards && go run . -accept'' @ nl
     @ ''   ```'' @ nl @ nl
     @ ''3. Commit the updated `baseline.json` in a PR that closes this issue.'' @ nl"

definition Report :: "change list \<Rightarrow> source_error list \<Rightarrow> string \<Rightarrow> string" where
  "Report changes fetchErrs date =
     ''# Standards changes to review'' @ nl @ nl
     @ ''Weekly standards watch, run on **'' @ date @ ''**, compared with `.github/standards/baseline.json`.'' @ nl @ nl
     @ (if len changes = 0 then ''No changes since the baseline.'' @ nl else [])
     @ concat (map (report_section changes) sectionOrder)
     @ (if len fetchErrs > 0 then
          ''## Fetch failures'' @ nl @ nl @ ''These sources could not be checked; their baseline values were kept.'' @ nl @ nl
          @ concat (map (\<lambda>e. ''- '' @ SourceError_Error e @ nl) fetchErrs) @ nl
        else [])
     @ (if len changes > 0 then triage else [])"

section \<open>writeJSON and the baseline file\<close>

definition optional :: "string \<Rightarrow> string \<Rightarrow> (string \<times> jtree) list" where
  "optional k s = (if s = [] then [] else [(k, TStr s)])"

definition optional_list :: "string \<Rightarrow> string list \<Rightarrow> (string \<times> jtree) list" where
  "optional_list k ss = (if ss = [] then [] else [(k, TArr (map TStr ss))])"

definition rfc_tree :: "rfc \<Rightarrow> jtree" where
  "rfc_tree r = TObj ([(''title'', TStr (rfc_Title r)), (''status'', TStr (rfc_Status r))]
     @ optional_list ''obsoleted_by'' (rfc_ObsoletedBy r) @ optional_list ''updated_by'' (rfc_UpdatedBy r))"

definition erratum_tree :: "erratum \<Rightarrow> jtree" where
  "erratum_tree e = TObj [(''status'', TStr (er_Status e)), (''type'', TStr (er_Type e)), (''section'', TStr (er_Section e))]"

definition entry_tree :: "iana_entry \<Rightarrow> jtree" where
  "entry_tree r = TObj (optional ''description'' (ie_Description r) @ optional ''usage'' (ie_Usage r)
     @ optional ''requirements'' (ie_Requirements r) @ optional_list ''references'' (ie_References r))"

definition draft_tree :: "draft \<Rightarrow> jtree" where
  "draft_tree d = TObj (optional ''title'' (dr_Title d) @ [(''rev'', TStr (dr_Rev d)), (''state'', TStr (dr_State d))]
     @ optional ''iesg_state'' (dr_IESGState d) @ optional ''rfceditor_state'' (dr_RFCEditorState d)
     @ optional ''std_level'' (dr_StdLevel d) @ optional ''rfc'' (dr_RFC d))"

definition map_tree :: "('v \<Rightarrow> jtree) \<Rightarrow> (string \<times> 'v) list \<Rightarrow> jtree" where
  "map_tree f m = TObj (map (\<lambda>(k, v). (k, f v)) m)"

definition snapshot_tree :: "snapshot \<Rightarrow> jtree" where
  "snapshot_tree s = TObj [(''rfcs'', map_tree rfc_tree (sn_RFCs s)), (''errata'', map_tree (map_tree erratum_tree) (sn_Errata s)),
     (''registries'', map_tree (map_tree entry_tree) (sn_Registries s)), (''drafts'', map_tree draft_tree (sn_Drafts s)),
     (''pages'', map_tree TStr (sn_Pages s))]"

definition zero_erratum :: erratum where
  "zero_erratum = \<lparr>er_Status = [], er_Type = [], er_Section = []\<rparr>"

definition erratum_field :: "erratum \<Rightarrow> string \<Rightarrow> string \<Rightarrow> json \<Rightarrow> erratum option" where
  "erratum_field d n raw v =
     (if equal_fold n ''status'' then map_option (\<lambda>x. d\<lparr>er_Status := x\<rparr>) (lax_string (er_Status d) v)
      else if equal_fold n ''type'' then map_option (\<lambda>x. d\<lparr>er_Type := x\<rparr>) (lax_string (er_Type d) v)
      else if equal_fold n ''section'' then map_option (\<lambda>x. d\<lparr>er_Section := x\<rparr>) (lax_string (er_Section d) v)
      else Some d)"

definition zero_entry :: iana_entry where
  "zero_entry = \<lparr>ie_Description = [], ie_Usage = [], ie_Requirements = [], ie_References = []\<rparr>"

definition entry_field :: "iana_entry \<Rightarrow> string \<Rightarrow> string \<Rightarrow> json \<Rightarrow> iana_entry option" where
  "entry_field d n raw v =
     (if equal_fold n ''description'' then map_option (\<lambda>x. d\<lparr>ie_Description := x\<rparr>) (lax_string (ie_Description d) v)
      else if equal_fold n ''usage'' then map_option (\<lambda>x. d\<lparr>ie_Usage := x\<rparr>) (lax_string (ie_Usage d) v)
      else if equal_fold n ''requirements'' then map_option (\<lambda>x. d\<lparr>ie_Requirements := x\<rparr>) (lax_string (ie_Requirements d) v)
      else if equal_fold n ''references'' then
        map_option (\<lambda>x. d\<lparr>ie_References := x\<rparr>) (lax_list lax_string [] (ie_References d) v)
      else Some d)"

definition zero_draft :: draft where
  "zero_draft = \<lparr>dr_Title = [], dr_Rev = [], dr_State = [], dr_IESGState = [], dr_RFCEditorState = [], dr_StdLevel = [], dr_RFC = []\<rparr>"

definition stored_draft_field :: "draft \<Rightarrow> string \<Rightarrow> string \<Rightarrow> json \<Rightarrow> draft option" where
  "stored_draft_field d n raw v =
     (if equal_fold n ''title'' then map_option (\<lambda>x. d\<lparr>dr_Title := x\<rparr>) (lax_string (dr_Title d) v)
      else if equal_fold n ''rev'' then map_option (\<lambda>x. d\<lparr>dr_Rev := x\<rparr>) (lax_string (dr_Rev d) v)
      else if equal_fold n ''state'' then map_option (\<lambda>x. d\<lparr>dr_State := x\<rparr>) (lax_string (dr_State d) v)
      else if equal_fold n ''iesg_state'' then map_option (\<lambda>x. d\<lparr>dr_IESGState := x\<rparr>) (lax_string (dr_IESGState d) v)
      else if equal_fold n ''rfceditor_state'' then map_option (\<lambda>x. d\<lparr>dr_RFCEditorState := x\<rparr>) (lax_string (dr_RFCEditorState d) v)
      else if equal_fold n ''std_level'' then map_option (\<lambda>x. d\<lparr>dr_StdLevel := x\<rparr>) (lax_string (dr_StdLevel d) v)
      else if equal_fold n ''rfc'' then map_option (\<lambda>x. d\<lparr>dr_RFC := x\<rparr>) (lax_string (dr_RFC d) v)
      else Some d)"

definition snapshot_field :: "snapshot \<Rightarrow> string \<Rightarrow> string \<Rightarrow> json \<Rightarrow> snapshot option" where
  "snapshot_field s n raw v =
     (if equal_fold n ''rfcs'' then map_option (\<lambda>x. s\<lparr>sn_RFCs := x\<rparr>) (lax_map (lax_struct rfc_field) zero_rfc (sn_RFCs s) v)
      else if equal_fold n ''errata'' then
        map_option (\<lambda>x. s\<lparr>sn_Errata := x\<rparr>) (lax_map (lax_map (lax_struct erratum_field) zero_erratum) [] (sn_Errata s) v)
      else if equal_fold n ''registries'' then
        map_option (\<lambda>x. s\<lparr>sn_Registries := x\<rparr>) (lax_map (lax_map (lax_struct entry_field) zero_entry) [] (sn_Registries s) v)
      else if equal_fold n ''drafts'' then
        map_option (\<lambda>x. s\<lparr>sn_Drafts := x\<rparr>) (lax_map (lax_struct stored_draft_field) zero_draft (sn_Drafts s) v)
      else if equal_fold n ''pages'' then map_option (\<lambda>x. s\<lparr>sn_Pages := x\<rparr>) (lax_map lax_string [] (sn_Pages s) v)
      else Some s)"

definition read_snapshot :: "bytes \<Rightarrow> snapshot option" where
  "read_snapshot raw = unmarshal (lax_struct snapshot_field newSnapshot) raw"

section \<open>run\<close>

datatype effect = Printed string | Wrote string bytes | Appended string bytes

type_synonym run_result = "effect list \<times> string option"

fun and_then :: "run_result \<Rightarrow> run_result \<Rightarrow> run_result" where
  "and_then (effs, Some e) next_step = (effs, Some e)"
| "and_then (effs, None) next_step = (effs @ fst next_step, snd next_step)"

definition WriteFile :: "watch_env \<Rightarrow> string \<Rightarrow> bytes \<Rightarrow> run_result" where
  "WriteFile E path raw = (case we_write E path of Some e \<Rightarrow> ([], Some e) | None \<Rightarrow> ([Wrote path raw], None))"

definition writeJSON :: "watch_env \<Rightarrow> string \<Rightarrow> snapshot \<Rightarrow> run_result" where
  "writeJSON E path s = WriteFile E path (MarshalIndent (snapshot_tree s) @ nl)"

record run_options =
  ro_config :: string
  ro_baseline :: string
  ro_report :: string
  ro_snapshot :: string
  ro_githubOutput :: string
  ro_accept :: bool
  ro_endpoints :: endpoints
  ro_date :: string

definition read_baseline :: "watch_env \<Rightarrow> string \<Rightarrow> string + snapshot" where
  "read_baseline E path =
     (case we_read E path of
        Contents raw \<Rightarrow> (case read_snapshot raw of None \<Rightarrow> Inl (path @ '': '' @ we_json_error E raw) | Some base \<Rightarrow> Inr base)
      | NotExist _ \<Rightarrow> Inr newSnapshot
      | ReadError e \<Rightarrow> Inl e)"

definition set_output :: "watch_env \<Rightarrow> string \<Rightarrow> change list \<Rightarrow> run_result" where
  "set_output E path changes =
     (if path = [] then ([], None)
      else (case we_write E path of
              Some e \<Rightarrow> ([], Some e)
            | None \<Rightarrow> ([Appended path (''changed='' @ (if len changes > 0 then ''true'' else ''false'') @ nl)], None)))"

definition finish_run :: "watch_env \<Rightarrow> run_options \<Rightarrow> config \<Rightarrow> snapshot \<Rightarrow> snapshot \<Rightarrow> source_error list \<Rightarrow> run_result" where
  "finish_run E opts cfg base cur errs =
     (if ro_accept opts then
        (if len errs > 0 then ([], Some (''refusing to accept a partial snapshot ('' @ FormatInt (len errs) @ '' sources failed)''))
         else and_then ([Printed (''baseline updated: '' @ ro_baseline opts @ nl)], None) (writeJSON E (ro_baseline opts) cur))
      else
        let changes = Diff E base cur cfg
        in and_then ([Printed (FormatInt (len changes) @ '' change(s), '' @ FormatInt (len errs) @ '' fetch failure(s)'' @ nl)], None)
             (and_then (WriteFile E (ro_report opts) (Report changes errs (ro_date opts)))
               (set_output E (ro_githubOutput opts) changes)))"

definition run :: "watch_env \<Rightarrow> (source list \<Rightarrow> source list) \<Rightarrow> run_options \<Rightarrow> run_result" where
  "run E order opts =
     (case LoadConfig E (ro_config opts) of
        Inl e \<Rightarrow> ([], Some e)
      | Inr cfg \<Rightarrow>
          (case read_baseline E (ro_baseline opts) of
             Inl e \<Rightarrow> ([], Some e)
           | Inr base \<Rightarrow>
               (case watch_Collect E cfg (ro_endpoints opts) (order (sources cfg)) of (snap, errs) \<Rightarrow>
                let cur = KeepFrom snap base errs
                in and_then (map (\<lambda>e. Printed (''::warning title=standards watch::'' @ SourceError_Error e @ nl)) errs, None)
                     (and_then (if ro_snapshot opts \<noteq> [] then writeJSON E (ro_snapshot opts) cur else ([], None))
                       (finish_run E opts cfg base cur errs)))))"

text \<open>The flags of the command and its exit status; \<open>opts\<close> are the defaults with the flags given.\<close>

definition default_options :: "string \<Rightarrow> string \<Rightarrow> run_options" where
  "default_options githubOutput date = \<lparr>ro_config = ''tracked.json'', ro_baseline = ''baseline.json'', ro_report = ''report.md'',
     ro_snapshot = [], ro_githubOutput = githubOutput, ro_accept = False, ro_endpoints = DefaultEndpoints, ro_date = date\<rparr>"

definition watch_main :: "watch_env \<Rightarrow> (source list \<Rightarrow> source list) \<Rightarrow> run_options \<Rightarrow> effect list \<times> string \<times> int" where
  "watch_main E order opts =
     (case run E order opts of
        (effs, Some e) \<Rightarrow> (effs, ''standardswatch: '' @ e @ nl, 1)
      | (effs, None) \<Rightarrow> (effs, [], 0))"

section \<open>Lemmas\<close>

subsection \<open>Union of keys\<close>

lemma fold_distinct_keys:
  "distinct out \<Longrightarrow> distinct (fold (\<lambda>k out. if k \<in> set out then out else out @ [k]) ks out)
     \<and> set (fold (\<lambda>k out. if k \<in> set out then out else out @ [k]) ks out) = set out \<union> set ks"
  by (induction ks arbitrary: out) auto

lemma unionKeys: "set (unionKeys a b) = fst ` set a \<union> fst ` set b" "sorted_wrt (<) (unionKeys a b)"
  using fold_distinct_keys [of "[]" "map fst a @ map fst b"] by (auto simp: unionKeys_def strict_sorted_iff)

lemma impact_fold:
  "fold (better_prefix subject) ps best = q \<Longrightarrow> has_prefix subject best \<Longrightarrow>
     (q = best \<or> q \<in> set ps) \<and> has_prefix subject q \<and> len best \<le> len q \<and> (\<forall>p \<in> set ps. has_prefix subject p \<longrightarrow> len p \<le> len q)"
proof (induction ps arbitrary: best)
  case (Cons p ps)
  have "has_prefix subject (better_prefix subject p best)" using Cons.prems(2) by (simp add: better_prefix_def)
  from Cons.IH [OF _ this] Cons.prems show ?case by (auto simp: better_prefix_def split: if_splits)
qed simp

lemma prefix_unique: "has_prefix s p \<Longrightarrow> has_prefix s q \<Longrightarrow> len p = len q \<Longrightarrow> p = q"
  by (metis has_prefix_def len_def of_nat_eq_iff)

subsection \<open>What Diff overlooks\<close>

definition agree :: "('v \<Rightarrow> 'v \<Rightarrow> bool) \<Rightarrow> (string \<times> 'v) list \<Rightarrow> (string \<times> 'v) list \<Rightarrow> bool" where
  "agree Q b c \<longleftrightarrow> (\<forall>k. rel_option Q (map_of b k) (map_of c k))"

definition rfc_agrees :: "rfc \<Rightarrow> rfc \<Rightarrow> bool" where
  "rfc_agrees b c \<longleftrightarrow> rfc_Status b = rfc_Status c \<and> set (rfc_UpdatedBy c) \<subseteq> set (rfc_UpdatedBy b)
     \<and> set (rfc_ObsoletedBy c) \<subseteq> set (rfc_ObsoletedBy b)"

definition erratum_agrees :: "erratum \<Rightarrow> erratum \<Rightarrow> bool" where
  "erratum_agrees b c \<longleftrightarrow> er_Status b = er_Status c"

definition entry_agrees :: "iana_entry \<Rightarrow> iana_entry \<Rightarrow> bool" where
  "entry_agrees b c \<longleftrightarrow> ie_Requirements b = ie_Requirements c \<and> ie_Usage b = ie_Usage c \<and> ie_Description b = ie_Description c
     \<and> join_with '' '' (ie_References b) = join_with '' '' (ie_References c)"

definition draft_agrees :: "draft \<Rightarrow> draft \<Rightarrow> bool" where
  "draft_agrees b c \<longleftrightarrow> dr_Rev b = dr_Rev c \<and> dr_State b = dr_State c \<and> dr_IESGState b = dr_IESGState c
     \<and> dr_RFCEditorState b = dr_RFCEditorState c \<and> dr_StdLevel b = dr_StdLevel c \<and> dr_RFC c \<in> {[], dr_RFC b}"

lemma diff_item_empty:
  "diff_rfc E cfg k b c = [] \<longleftrightarrow> b \<noteq> None \<and> rel_option rfc_agrees b c"
  "diff_erratum cfg doc k be ce = [] \<longleftrightarrow> be \<noteq> None \<and> rel_option erratum_agrees be ce"
  "diff_entry cfg reg k bi ci = [] \<longleftrightarrow> bi \<noteq> None \<and> rel_option entry_agrees bi ci"
  "diff_draft cfg k bd cd = [] \<longleftrightarrow> bd \<noteq> None \<and> rel_option draft_agrees bd cd"
  "diff_page cfg k bp cp = [] \<longleftrightarrow> bp \<noteq> None \<and> rel_option (=) bp cp"
proof -
  show "diff_rfc E cfg k b c = [] \<longleftrightarrow> b \<noteq> None \<and> rel_option rfc_agrees b c"
    by (cases b; cases c) (auto simp: diff_rfc_def rfc_agrees_def added_def filter_empty_conv Let_def)
  show "diff_erratum cfg doc k be ce = [] \<longleftrightarrow> be \<noteq> None \<and> rel_option erratum_agrees be ce"
    by (cases be; cases ce) (auto simp: diff_erratum_def erratum_agrees_def Let_def)
  show "diff_entry cfg reg k bi ci = [] \<longleftrightarrow> bi \<noteq> None \<and> rel_option entry_agrees bi ci"
    by (cases bi; cases ci) (auto simp: diff_entry_def entry_agrees_def entry_parts_def appendIfChanged_def Let_def case_prod_beta)
  show "diff_draft cfg k bd cd = [] \<longleftrightarrow> bd \<noteq> None \<and> rel_option draft_agrees bd cd"
    by (cases bd; cases cd) (auto simp: diff_draft_def draft_agrees_def draft_parts_def appendIfChanged_def Let_def)
  show "diff_page cfg k bp cp = [] \<longleftrightarrow> bp \<noteq> None \<and> rel_option (=) bp cp"
    by (cases bp; cases cp) (auto simp: diff_page_def Let_def)
qed

lemma all_from_ball: "(\<And>k. k \<notin> U \<Longrightarrow> R k) \<Longrightarrow> (\<And>k. R k \<Longrightarrow> k \<in> U \<Longrightarrow> B k) \<Longrightarrow> (\<forall>k \<in> U. B k \<and> R k) \<longleftrightarrow> (\<forall>k. R k)"
  by blast

lemma diff_keys_empty:
  assumes "\<And>k b c. d k b c = [] \<longleftrightarrow> b \<noteq> None \<and> rel_option Q b c"
  shows "diff_keys d b c = [] \<longleftrightarrow> agree Q b c"
proof -
  have 1: "rel_option Q (map_of b k) (map_of c k)" if "k \<notin> fst ` set b \<union> fst ` set c" for k
    using that by (simp add: map_of_eq_None_iff [symmetric])
  have 2: "rel_option Q (map_of b k) (map_of c k) \<Longrightarrow> k \<in> fst ` set b \<union> fst ` set c \<Longrightarrow> map_of b k \<noteq> None" for k
    by (cases "map_of b k"; cases "map_of c k") (auto simp: map_of_eq_None_iff)
  have "diff_keys d b c = [] \<longleftrightarrow> (\<forall>k \<in> fst ` set b \<union> fst ` set c. map_of b k \<noteq> None \<and> rel_option Q (map_of b k) (map_of c k))"
    by (simp add: diff_keys_def assms unionKeys(1))
  also have "\<dots> \<longleftrightarrow> agree Q b c" unfolding agree_def by (rule all_from_ball [OF 1 2])
  finally show ?thesis .
qed

lemma diff_nested_empty:
  assumes "\<And>g k b c. d g k b c = [] \<longleftrightarrow> b \<noteq> None \<and> rel_option Q b c"
  shows "diff_nested d b c = [] \<longleftrightarrow> (\<forall>g. agree Q (map_get b g) (map_get c g))"
proof -
  have 1: "agree Q (map_get b g) (map_get c g)" if "g \<notin> fst ` set b \<union> fst ` set c" for g
    using that by (simp add: agree_def map_get_def map_of_eq_None_iff [symmetric])
  have "diff_nested d b c = [] \<longleftrightarrow> (\<forall>g \<in> fst ` set b \<union> fst ` set c. agree Q (map_get b g) (map_get c g))"
    by (simp add: diff_nested_def diff_keys_empty [OF assms] unionKeys(1))
  also have "\<dots> \<longleftrightarrow> (\<forall>g. agree Q (map_get b g) (map_get c g))"
    using all_from_ball [of "fst ` set b \<union> fst ` set c" "\<lambda>g. agree Q (map_get b g) (map_get c g)" "\<lambda>_. True"] 1 by simp
  finally show ?thesis .
qed

subsection \<open>The baseline file\<close>

declare equal_fold.simps [simp del]

lemma field_names [simp]:
  "equal_fold ''title'' ''title''" "equal_fold ''status'' ''status''" "equal_fold ''obsoleted_by'' ''obsoleted_by''"
  "equal_fold ''updated_by'' ''updated_by''" "\<not> equal_fold ''status'' ''title''" "\<not> equal_fold ''obsoleted_by'' ''title''"
  "\<not> equal_fold ''obsoleted_by'' ''status''" "\<not> equal_fold ''updated_by'' ''title''" "\<not> equal_fold ''updated_by'' ''status''"
  "\<not> equal_fold ''updated_by'' ''obsoleted_by''"
  "equal_fold ''type'' ''type''" "equal_fold ''section'' ''section''" "\<not> equal_fold ''type'' ''status''"
  "\<not> equal_fold ''section'' ''status''" "\<not> equal_fold ''section'' ''type''"
  "equal_fold ''description'' ''description''" "equal_fold ''usage'' ''usage''" "equal_fold ''requirements'' ''requirements''"
  "equal_fold ''references'' ''references''" "\<not> equal_fold ''usage'' ''description''" "\<not> equal_fold ''requirements'' ''description''"
  "\<not> equal_fold ''requirements'' ''usage''" "\<not> equal_fold ''references'' ''description''" "\<not> equal_fold ''references'' ''usage''"
  "\<not> equal_fold ''references'' ''requirements''"
  "equal_fold ''rev'' ''rev''" "equal_fold ''state'' ''state''" "equal_fold ''iesg_state'' ''iesg_state''"
  "equal_fold ''rfceditor_state'' ''rfceditor_state''" "equal_fold ''std_level'' ''std_level''" "equal_fold ''rfc'' ''rfc''"
  "\<not> equal_fold ''rev'' ''title''" "\<not> equal_fold ''state'' ''title''" "\<not> equal_fold ''state'' ''rev''"
  "\<not> equal_fold ''iesg_state'' ''title''" "\<not> equal_fold ''iesg_state'' ''rev''" "\<not> equal_fold ''iesg_state'' ''state''"
  "\<not> equal_fold ''rfceditor_state'' ''title''" "\<not> equal_fold ''rfceditor_state'' ''rev''" "\<not> equal_fold ''rfceditor_state'' ''state''"
  "\<not> equal_fold ''rfceditor_state'' ''iesg_state''" "\<not> equal_fold ''std_level'' ''title''" "\<not> equal_fold ''std_level'' ''rev''"
  "\<not> equal_fold ''std_level'' ''state''" "\<not> equal_fold ''std_level'' ''iesg_state''" "\<not> equal_fold ''std_level'' ''rfceditor_state''"
  "\<not> equal_fold ''rfc'' ''title''" "\<not> equal_fold ''rfc'' ''rev''" "\<not> equal_fold ''rfc'' ''state''" "\<not> equal_fold ''rfc'' ''iesg_state''"
  "\<not> equal_fold ''rfc'' ''rfceditor_state''" "\<not> equal_fold ''rfc'' ''std_level''"
  "equal_fold ''rfcs'' ''rfcs''" "equal_fold ''errata'' ''errata''" "equal_fold ''registries'' ''registries''" "equal_fold ''drafts'' ''drafts''"
  "equal_fold ''pages'' ''pages''" "\<not> equal_fold ''errata'' ''rfcs''" "\<not> equal_fold ''registries'' ''rfcs''" "\<not> equal_fold ''registries'' ''errata''"
  "\<not> equal_fold ''drafts'' ''rfcs''" "\<not> equal_fold ''drafts'' ''errata''" "\<not> equal_fold ''drafts'' ''registries''"
  "\<not> equal_fold ''pages'' ''rfcs''" "\<not> equal_fold ''pages'' ''errata''" "\<not> equal_fold ''pages'' ''registries''" "\<not> equal_fold ''pages'' ''drafts''"
  by code_simp+

lemma shows_strings: "shows_tree (TArr (map TStr ss)) v \<Longrightarrow> lax_list lax_string [] old v = Some ss"
proof -
  have "list_all2 (\<lambda>t e. shows_tree t (snd e)) (map TStr ss) vs \<Longrightarrow> lax_elems lax_string [] vs = Some ss" for vs
    by (induction ss arbitrary: vs) (fastforce simp: list_all2_Cons1)+
  then show "shows_tree (TArr (map TStr ss)) v \<Longrightarrow> ?thesis" by auto
qed


lemma shows_strings_JArr: "list_all2 (\<lambda>t e. shows_tree t (snd e)) (map TStr ss) vs \<Longrightarrow> lax_elems lax_string [] vs = Some ss"
  using shows_strings [OF show_arr, of ss vs] by simp

lemma reads_rfc: "shows_tree (rfc_tree r) v \<Longrightarrow> lax_struct rfc_field zero_rfc v = Some r"
  by (cases r) (auto simp: rfc_tree_def optional_list_def list_all2_Cons1 rfc_field_def zero_rfc_def shows_strings_JArr split: if_splits)

lemma reads_erratum: "shows_tree (erratum_tree r) v \<Longrightarrow> lax_struct erratum_field zero_erratum v = Some r"
  by (cases r) (auto simp: erratum_tree_def list_all2_Cons1 erratum_field_def zero_erratum_def)

lemma reads_entry: "shows_tree (entry_tree r) v \<Longrightarrow> lax_struct entry_field zero_entry v = Some r"
  by (cases r) (auto simp: entry_tree_def optional_def optional_list_def list_all2_Cons1 entry_field_def zero_entry_def shows_strings_JArr split: if_splits)

lemma reads_draft: "shows_tree (draft_tree r) v \<Longrightarrow> lax_struct stored_draft_field zero_draft v = Some r"
  by (cases r) (auto simp: draft_tree_def optional_def list_all2_Cons1 stored_draft_field_def zero_draft_def split: if_splits)


lemma reads_entries:
  assumes "list_all2 (\<lambda>x m. fst m = fst x \<and> shows_tree (snd x) (snd (snd m))) (map (\<lambda>(k, x). (k, f x)) m) vs"
    "\<And>k x v. (k, x) \<in> set m \<Longrightarrow> shows_tree (f x) v \<Longrightarrow> dec zero v = Some x"
  shows "lax_entries dec zero acc vs = Some (put_all m acc)"
  using assms
proof (induction m arbitrary: acc vs)
  case (Cons y m)
  obtain k x where y: "y = (k, x)" by (cases y)
  from Cons.prems(1) y obtain raw v vs' where vs: "vs = (k, raw, v) # vs'" "shows_tree (f x) v"
    "list_all2 (\<lambda>x m. fst m = fst x \<and> shows_tree (snd x) (snd (snd m))) (map (\<lambda>(k, x). (k, f x)) m) vs'"
    by (auto simp: list_all2_Cons1)
  have "dec zero v = Some x" using Cons.prems(2) [of k x v] vs(2) y by simp
  moreover have "lax_entries dec zero (map_put k x acc) vs' = Some (put_all m (map_put k x acc))"
    by (rule Cons.IH [OF vs(3)]) (meson Cons.prems(2) list.set_intros(2))
  ultimately show ?case by (simp add: vs(1) y)
qed simp

lemma reads_map:
  assumes "shows_tree (map_tree f m) v" "ordered m" "\<And>k x v. (k, x) \<in> set m \<Longrightarrow> shows_tree (f x) v \<Longrightarrow> dec zero v = Some x"
  shows "lax_map dec zero [] v = Some m"
proof -
  from assms(1) obtain vs where vs: "v = JObj vs"
    "list_all2 (\<lambda>x m. fst m = fst x \<and> shows_tree (snd x) (snd (snd m))) (map (\<lambda>(k, x). (k, f x)) m) vs"
    unfolding map_tree_def by auto
  have "lax_entries dec zero [] vs = Some (put_all m [])" by (rule reads_entries [OF vs(2)]) (rule assms(3))
  moreover have "put_all m [] = m" using fold_map_put_append [of "[]" m] assms(2) by simp
  ultimately show ?thesis by (simp add: vs(1))
qed

lemma reads_snapshot:
  assumes "shows_tree (snapshot_tree s) v" "snapshot_ordered s"
  shows "lax_struct snapshot_field newSnapshot v = Some s"
proof -
  have o: "ordered (sn_RFCs s)" "ordered (sn_Errata s)" "ordered (sn_Registries s)" "ordered (sn_Drafts s)" "ordered (sn_Pages s)"
    "\<And>k e. (k, e) \<in> set (sn_Errata s) \<Longrightarrow> ordered e" "\<And>k e. (k, e) \<in> set (sn_Registries s) \<Longrightarrow> ordered e"
    using assms(2) by (auto simp: snapshot_ordered_def)
  have r: "shows_tree (map_tree rfc_tree (sn_RFCs s)) v \<Longrightarrow> lax_map (lax_struct rfc_field) zero_rfc [] v = Some (sn_RFCs s)" for v
    by (rule reads_map [OF _ o(1)]) (auto intro: reads_rfc)
  have e: "shows_tree (map_tree (map_tree erratum_tree) (sn_Errata s)) v \<Longrightarrow>
      lax_map (lax_map (lax_struct erratum_field) zero_erratum) [] [] v = Some (sn_Errata s)" for v
    by (rule reads_map [OF _ o(2)]) (auto intro!: reads_map reads_erratum dest: o(6))
  have g: "shows_tree (map_tree (map_tree entry_tree) (sn_Registries s)) v \<Longrightarrow>
      lax_map (lax_map (lax_struct entry_field) zero_entry) [] [] v = Some (sn_Registries s)" for v
    by (rule reads_map [OF _ o(3)]) (auto intro!: reads_map reads_entry dest: o(7))
  have d: "shows_tree (map_tree draft_tree (sn_Drafts s)) v \<Longrightarrow> lax_map (lax_struct stored_draft_field) zero_draft [] v = Some (sn_Drafts s)" for v
    by (rule reads_map [OF _ o(4)]) (auto intro: reads_draft)
  have p: "shows_tree (map_tree TStr (sn_Pages s)) v \<Longrightarrow> lax_map lax_string [] [] v = Some (sn_Pages s)" for v
    by (rule reads_map [OF _ o(5)]) auto
  show ?thesis
    using assms(1) unfolding snapshot_tree_def
    by (cases s) (auto simp: list_all2_Cons1 snapshot_field_def newSnapshot_def r e g d p)
qed

lemma read_written: "tree_clean max_depth (snapshot_tree s) \<Longrightarrow> snapshot_ordered s \<Longrightarrow>
    read_snapshot (MarshalIndent (snapshot_tree s) @ nl) = Some s"
  unfolding read_snapshot_def nl_def by (rule unmarshal_MarshalIndent) (auto intro: reads_snapshot)

lemma agree_refl: "(\<And>x. Q x x) \<Longrightarrow> agree Q m m"
  by (simp add: agree_def option.rel_refl)

lemma collect_ordered: "snapshot_ordered (fst (watch_Collect E cfg ep order))"
proof -
  have "snapshot_ordered s \<Longrightarrow> snapshot_ordered (fold (apply_source E get ep cfg) order s)" for s get
    by (induction order arbitrary: s) (simp_all add: apply_source_ordered)
  then show ?thesis by (simp add: Collect_eq)
qed


subsection \<open>run\<close>

lemma KeepFrom_Nil [simp]: "KeepFrom s base [] = s"
  by (simp add: KeepFrom_def)

lemma Diff_same: "Diff E s s cfg = []"
proof -
  have "agree rfc_agrees m m" "agree erratum_agrees e e" "agree entry_agrees g g" "agree draft_agrees d d" "agree (=) p p"
    for m e g d and p :: "(string \<times> string) list"
    by (rule agree_refl, simp add: rfc_agrees_def erratum_agrees_def entry_agrees_def draft_agrees_def)+
  then show ?thesis
    by (simp add: Diff_def diff_keys_empty [OF diff_item_empty(1)] diff_nested_empty [OF diff_item_empty(2)]
      diff_nested_empty [OF diff_item_empty(3)] diff_keys_empty [OF diff_item_empty(4)] diff_keys_empty [OF diff_item_empty(5)])
qed

lemma and_then_Some: "snd (and_then a b) = None \<longleftrightarrow> snd a = None \<and> snd b = None"
  by (cases a; cases "snd a") auto

text \<open>The sources of a run depend on the files only through the configuration.\<close>

lemma collect_reads:
  "watch_Collect (E\<lparr>we_read := r\<rparr>) cfg ep order = watch_Collect E cfg ep order"
proof -
  have once: "fetchOnce (E\<lparr>we_read := r\<rparr>) n url mb = fetchOnce E n url mb" for n url mb by (simp add: fetchOnce_def)
  have "fetch_attempts (E\<lparr>we_read := r\<rparr>) url mb d ns e = fetch_attempts E url mb d ns e" for url mb d ns e
    by (induction ns arbitrary: e) (simp_all add: once Let_def case_prod_beta cong: option.case_cong if_cong)
  then have f: "fetch (E\<lparr>we_read := r\<rparr>) = fetch E" unfolding fetch_def fun_eq_iff by (simp del: fetch_attempts.simps)
  have "source_change (E\<lparr>we_read := r\<rparr>) get ep cfg src = source_change E get ep cfg src" for get ep cfg src
    by (cases src) (simp_all add: collect_rfc_def collect_errata_def collect_iana_def collect_draft_def collect_page_def
        parseIANA_def parseDraft_def hashPage_def cong: sum.case_cong option.case_cong if_cong)
  then have "collect_source (E\<lparr>we_read := r\<rparr>) = collect_source E" by (simp add: collect_source_def f fun_eq_iff)
  then show ?thesis by (simp add: watch_Collect_def)
qed

lemma accepted_run:
  assumes "run E order opts = (effs, None)" "ro_accept opts" "LoadConfig E (ro_config opts) = Inr cfg"
  obtains "snd (watch_Collect E cfg (ro_endpoints opts) (order (sources cfg))) = []"
    "last effs = Wrote (ro_baseline opts)
       (MarshalIndent (snapshot_tree (fst (watch_Collect E cfg (ro_endpoints opts) (order (sources cfg))))) @ nl)"
proof -
  obtain snap errs where c: "watch_Collect E cfg (ro_endpoints opts) (order (sources cfg)) = (snap, errs)" by fastforce
  from assms obtain base where b: "read_baseline E (ro_baseline opts) = Inr base"
    by (auto simp: run_def split: sum.splits)
  have n: "snd (run E order opts) = None" using assms(1) by simp
  then have e: "errs = []" using assms(2,3) b c
    by (auto simp: run_def and_then_Some finish_run_def Let_def split: if_splits)
  have w: "we_write E (ro_baseline opts) = None" using n assms(2,3) b c e
    by (auto simp: run_def and_then_Some finish_run_def writeJSON_def WriteFile_def split: option.splits)
  have "last effs = Wrote (ro_baseline opts) (MarshalIndent (snapshot_tree snap) @ nl)"
    using assms b c e w by (auto simp: run_def finish_run_def writeJSON_def WriteFile_def split: if_splits option.splits)
  with c e show thesis by (intro that) simp_all
qed

section \<open>Properties\<close>

text \<open>
  C39: \<^verbatim>\<open>Diff\<close> is silent exactly when every RFC, erratum, registry entry, draft and page of either side is
  on the other too and agrees with it in what the watcher follows: titles, dropped
  updated-by entries and the type and section of an erratum are not among that.
\<close>

theorem diff_silent_iff:
  "Diff E base cur cfg = [] \<longleftrightarrow>
     agree rfc_agrees (sn_RFCs base) (sn_RFCs cur)
     \<and> (\<forall>doc. agree erratum_agrees (map_get (sn_Errata base) doc) (map_get (sn_Errata cur) doc))
     \<and> (\<forall>reg. agree entry_agrees (map_get (sn_Registries base) reg) (map_get (sn_Registries cur) reg))
     \<and> agree draft_agrees (sn_Drafts base) (sn_Drafts cur)
     \<and> agree (=) (sn_Pages base) (sn_Pages cur)"
  unfolding Diff_def
  by (simp add: diff_keys_empty [OF diff_item_empty(1)] diff_nested_empty [OF diff_item_empty(2)]
      diff_nested_empty [OF diff_item_empty(3)] diff_keys_empty [OF diff_item_empty(4)] diff_keys_empty [OF diff_item_empty(5)])

text \<open>
  the impact hint of a subject is the one of its longest configured prefix, in whatever order the
  map is traversed.
\<close>

theorem impact_is_longest_prefix:
  assumes "distinct (map fst (cfg_Impact cfg))" "(p, hint) \<in> set (cfg_Impact cfg)" "has_prefix subject p" "p \<noteq> []"
    "\<And>q. q \<in> fst ` set (cfg_Impact cfg) \<Longrightarrow> has_prefix subject q \<Longrightarrow> len q \<le> len p"
  shows "impactFor cfg subject = hint"
proof -
  let ?q = "fold (better_prefix subject) (map fst (cfg_Impact cfg)) []"
  have q: "(?q = [] \<or> ?q \<in> fst ` set (cfg_Impact cfg)) \<and> has_prefix subject ?q"
      "\<forall>p \<in> fst ` set (cfg_Impact cfg). has_prefix subject p \<longrightarrow> len p \<le> len ?q"
    using impact_fold [OF refl, of subject "[]" "map fst (cfg_Impact cfg)"] by (auto simp: has_prefix_def)
  have "p \<in> fst ` set (cfg_Impact cfg)" using assms(2) by force
  then have "len p \<le> len ?q" using q(2) assms(3) by blast
  then have "?q \<noteq> []" using assms(4) len_pos [of p] by (metis len_simps(1) not_le)
  then have "len ?q = len p" using \<open>len p \<le> len ?q\<close> q(1) assms(5) by force
  then have "?q = p" using prefix_unique q(1) assms(3) by blast
  then show ?thesis using assms(1,2) by (simp add: impactFor_def Let_def)
qed

theorem impact_is_longest_prefix_witness:
  "impactFor (zero_config\<lparr>cfg_Impact := [(''RFC'', ''a''), (''RFC7519'', ''b'')]\<rparr>) ''RFC7519'' = ''b''"
  by (rule impact_is_longest_prefix [where p = "''RFC7519''"]) (auto simp: has_prefix_def)

text \<open>
  accepting is atomic: with \<^verbatim>\<open>-accept\<close> and any source that failed the run ends in an error and the
  baseline file is not written.
\<close>

theorem accept_refuses_partial:
  assumes "ro_accept opts" "ro_snapshot opts \<noteq> ro_baseline opts" "LoadConfig E (ro_config opts) = Inr cfg"
    "mset (order (sources cfg)) = mset (sources cfg)" "src \<in> set (sources cfg)"
    "source_change E (run_get E cfg (ro_endpoints opts)) (ro_endpoints opts) cfg src = Inl e"
  shows "snd (run E order opts) \<noteq> None \<and> Wrote (ro_baseline opts) raw \<notin> set (fst (run E order opts))"
proof -
  obtain snap errs where c: "watch_Collect E cfg (ro_endpoints opts) (order (sources cfg)) = (snap, errs)" by fastforce
  have "source_fail src e \<in> set errs"
    using c assms(5,6) mset_eq_setD [OF assms(4)] by (force simp: Collect_eq map_filter_def source_failure_def)
  then have "errs \<noteq> []" by auto
  then show ?thesis
    using assms(1-3) c by (auto simp: run_def finish_run_def writeJSON_def WriteFile_def Let_def split: sum.splits option.splits)
qed

definition sample_options :: run_options where
  "sample_options = \<lparr>ro_config = ''c'', ro_baseline = ''b'', ro_report = ''r'', ro_snapshot = [], ro_githubOutput = ''g'', ro_accept = True,
     ro_endpoints = DefaultEndpoints, ro_date = ''2026-01-01''\<rparr>"

definition config_text :: bytes where
  "config_text = enc_object [(''max_bytes'', ''100''), (''pages'', enc_object [(''page'', enc_str ''p'')])]"

definition sample_world :: "bytes \<Rightarrow> watch_env" where
  "sample_world body = sample_watch\<lparr>we_read := (\<lambda>path. if path = ''c'' then Contents config_text else NotExist ''none''),
     we_answer := (\<lambda>_ _. Answered \<lparr>wr_StatusCode = 200, wr_Status = ''200 OK'', wr_Body = body, wr_error = None\<rparr>)\<rparr>"

definition loaded_config :: config where
  "loaded_config = zero_config\<lparr>cfg_Pages := [(''page'', ''p'')], cfg_MaxBytes := 100\<rparr>"

lemma sample_loads: "LoadConfig (sample_world body) (ro_config sample_options) = Inr loaded_config"
proof -
  have "decode_first (lax_struct config_field zero_config) config_text = Some loaded_config" by code_simp
  then show ?thesis by (simp add: LoadConfig_def sample_world_def sample_options_def)
qed

theorem accept_refuses_partial_witness:
  "snd (run (sample_world ''x'') rev sample_options) \<noteq> None \<and> Wrote ''b'' [] \<notin> set (fst (run (sample_world ''x'') rev sample_options))"
proof -
  have s: "SourceErrata \<in> set (sources loaded_config)" by code_simp
  have "run_get (sample_world ''x'') loaded_config DefaultEndpoints (ep_RFCEditor DefaultEndpoints @ ''/api/v1/errata.json'') = Inr ''x''"
    "unmarshal (lax_list (lax_struct errata_field) zero_errata_doc []) ''x'' = None"
    "we_json_error (sample_world ''x'') ''x'' = ''bad''" by code_simp+
  then have e: "source_change (sample_world ''x'') (run_get (sample_world ''x'') loaded_config (ro_endpoints sample_options)) (ro_endpoints sample_options)
      loaded_config SourceErrata = Inl ''bad''" by (simp add: collect_errata_def sample_options_def)
  show ?thesis
    using accept_refuses_partial [OF _ _ sample_loads _ s e, of rev "[]"] by (simp add: sample_options_def)
qed

text \<open>
  C38: accepting is final: after a successful run with \<^verbatim>\<open>-accept\<close>, a check against the baseline file it wrote,
  with the same answers from the network and the goroutines in any order, reports no change
  and sets \<^verbatim>\<open>changed=false\<close>.  The strings collected must be valid UTF-8, which JSON can express, and no
  IANA file name of the configuration contains a slash.
\<close>

theorem accept_then_no_changes:
  assumes "run E order opts = (effs, None)" "ro_accept opts" "LoadConfig E (ro_config opts) = Inr cfg" "config_ok cfg"
    "mset (order (sources cfg)) = mset (sources cfg)" "mset (order' (sources cfg)) = mset (sources cfg)"
    "tree_clean max_depth (snapshot_tree (fst (watch_Collect E cfg (ro_endpoints opts) (order (sources cfg)))))"
    "ro_config opts \<noteq> ro_baseline opts"
    "ro_githubOutput opts \<noteq> []" "we_write E (ro_report opts) = None" "we_write E (ro_githubOutput opts) = None"
  shows "\<exists>raw. last effs = Wrote (ro_baseline opts) raw
    \<and> run (E\<lparr>we_read := (we_read E)(ro_baseline opts := Contents raw)\<rparr>) order' (opts\<lparr>ro_accept := False, ro_snapshot := []\<rparr>)
      = ([Printed (''0 change(s), 0 fetch failure(s)'' @ nl), Wrote (ro_report opts) (Report [] [] (ro_date opts)),
          Appended (ro_githubOutput opts) (''changed=false'' @ nl)], None)"
proof -
  let ?snap = "fst (watch_Collect E cfg (ro_endpoints opts) (order (sources cfg)))"
  let ?raw = "MarshalIndent (snapshot_tree ?snap) @ nl"
  let ?E = "E\<lparr>we_read := (we_read E)(ro_baseline opts := Contents ?raw)\<rparr>"
  obtain a: "snd (watch_Collect E cfg (ro_endpoints opts) (order (sources cfg))) = []" "last effs = Wrote (ro_baseline opts) ?raw"
    by (rule accepted_run [OF assms(1-3)])
  have "fst (watch_Collect E cfg (ro_endpoints opts) (order' (sources cfg))) = ?snap"
    "mset (snd (watch_Collect E cfg (ro_endpoints opts) (order' (sources cfg)))) = {#}"
    using collect_permuted [OF assms(4-6), of E "ro_endpoints opts"] a(1) by simp_all
  then have c: "watch_Collect ?E cfg (ro_endpoints opts) (order' (sources cfg)) = (?snap, [])"
    by (simp add: collect_reads prod_eq_iff)
  have l: "LoadConfig ?E (ro_config opts) = Inr cfg"
    using assms(3,8) by (auto simp: LoadConfig_def split: file_read.splits option.splits)
  have b: "read_baseline ?E (ro_baseline opts) = Inr ?snap"
    using read_written [OF assms(7) collect_ordered] by (simp add: read_baseline_def)
  have z: "FormatInt 0 = ''0''" by code_simp
  have "run ?E order' (opts\<lparr>ro_accept := False, ro_snapshot := []\<rparr>)
      = ([Printed (''0 change(s), 0 fetch failure(s)'' @ nl), Wrote (ro_report opts) (Report [] [] (ro_date opts)),
          Appended (ro_githubOutput opts) (''changed=false'' @ nl)], None)"
    using assms(9-11) by (simp add: run_def l b c finish_run_def Diff_same Let_def WriteFile_def set_output_def z)
  with a(2) show ?thesis by blast
qed

theorem accept_then_no_changes_witness:
  "\<exists>raw. run ((sample_world ''[]'')\<lparr>we_read := (we_read (sample_world ''[]''))(''b'' := Contents raw)\<rparr>) rev (sample_options\<lparr>ro_accept := False\<rparr>)
      = ([Printed (''0 change(s), 0 fetch failure(s)'' @ nl), Wrote ''r'' (Report [] [] ''2026-01-01''), Appended ''g'' (''changed=false'' @ nl)], None)"
proof -
  let ?E = "sample_world ''[]''" and ?id = "\<lambda>x :: source list. x"
  have "snd (run ?E ?id sample_options) = None" by code_simp
  then have r: "run ?E ?id sample_options = (fst (run ?E ?id sample_options), None)" by (simp add: prod_eq_iff)
  have c: "config_ok loaded_config" by code_simp
  have t: "tree_clean max_depth (snapshot_tree (fst (watch_Collect ?E loaded_config (ro_endpoints sample_options) (?id (sources loaded_config)))))"
    by code_simp
  have o: "sample_options\<lparr>ro_accept := False, ro_snapshot := []\<rparr> = sample_options\<lparr>ro_accept := False\<rparr>" by (simp add: sample_options_def)
  have w: "we_write ?E f = None" for f by (simp add: sample_world_def sample_watch_def)
  show ?thesis
    using accept_then_no_changes [OF r _ sample_loads c refl _ t, of rev] by (auto simp: sample_options_def w)
qed

end
