(* ===== verification/ClaimsJSON.thy ===== *)
theory ClaimsJSON
  imports IDToken
begin

text \<open>
  What \<^verbatim>\<open>json.Marshal\<close> makes of the registered claims, and of a struct that embeds them
  (\<^verbatim>\<open>claims.go\<close>): the claims first, in declaration order and without the empty ones, then the
  fields of the embedding struct.

  Shown: registered claims whose dates are whole seconds are read back exactly, whatever else
  the struct adds; and a NumericDate with nanoseconds is read back within 15260 nanoseconds,
  half a unit in the last place of a double at the end of the range.
\<close>

section \<open>Decimal fractions\<close>

lemma digits_val_append: "digits_val (a @ b) = digits_val a * 10 ^ length b + digits_val b"
proof (induction b rule: rev_induct)
  case (snoc c b)
  have "digits_val (a @ b @ [c]) = digits_val ((a @ b) @ [c])" by simp
  also have "\<dots> = digits_val (a @ b) * 10 + digit_val c" by (rule digits_val_snoc)
  finally show ?case by (simp add: snoc algebra_simps)
qed simp

lemma digits_val_zeros: "digits_val (replicate k CHR ''0'') = 0"
proof (induction k)
  case (Suc k)
  have "replicate (Suc k) CHR ''0'' = replicate k CHR ''0'' @ ''0''" by (simp add: replicate_append_same)
  then show ?case using Suc by (simp add: digit_val_def del: replicate.simps)
qed simp

lemma nat_digits_length: "0 \<le> n \<Longrightarrow> n < 10 ^ k \<Longrightarrow> 0 < k \<Longrightarrow> length (nat_digits n) \<le> k"
proof (induction n arbitrary: k rule: nat_digits.induct)
  case (1 n)
  show ?case
  proof (cases "n < 10")
    case True
    then show ?thesis using "1.prems"(3) by (simp add: nat_digits.simps [of n])
  next
    case False
    obtain j where k: "k = Suc j" using "1.prems"(3) by (cases k) auto
    have "n div 10 < 10 ^ j" using "1.prems"(1,2) by (simp add: k)
    moreover have "0 < j" using "1.prems"(2) False by (cases j) (auto simp: k)
    ultimately have "length (nat_digits (n div 10)) \<le> j" using 1 False by simp
    with False show ?thesis by (simp add: k nat_digits.simps [of n])
  qed
qed

text \<open>The digits after the point, with the final zeros cut off, still denote the fraction.\<close>

lemma fraction_digits:
  assumes "0 < f" "f < second"
  shows "list_all isDigit (trim_right (pad9 f) ''0'') \<and> trim_right (pad9 f) ''0'' \<noteq> []
    \<and> of_int (digits_val (trim_right (pad9 f) ''0'')) / 10 ^ length (trim_right (pad9 f) ''0'') = (of_int f / 1000000000 :: rat)"
proof -
  let ?p = "pad9 f" and ?d = "trim_right (pad9 f) ''0''"
  have l: "length (nat_digits f) \<le> 9" using nat_digits_length [of f 9] assms by simp
  have p: "list_all isDigit ?p" "length ?p = 9" "digits_val ?p = f"
    using nat_digits_all [of f] assms l
    by (auto simp: pad9_def digits_val_append digits_val_zeros digits_val_nat_digits list_all_iff isDigit_def)
  define k where "k = length (takeWhile (\<lambda>c. c \<in> set ''0'') (rev ?p))"
  have "takeWhile (\<lambda>c. c \<in> set ''0'') (rev ?p) = replicate k CHR ''0''"
    unfolding k_def by (rule sym, rule replicate_length_same [symmetric, THEN sym]) (auto dest: set_takeWhileD)
  then have "rev ?p = replicate k CHR ''0'' @ rev ?d"
    unfolding trim_right_def rev_rev_ident by (metis takeWhile_dropWhile_id)
  then have s: "?p = ?d @ replicate k CHR ''0''" by (metis rev_append rev_replicate rev_rev_ident)
  have v: "f = digits_val ?d * 10 ^ k" "9 = length ?d + k"
    using p(2,3) arg_cong [OF s, of digits_val] arg_cong [OF s, of length] by (simp_all add: digits_val_append digits_val_zeros)
  have "?d \<noteq> []" using v(1) assms(1) by auto
  moreover have "list_all isDigit ?d" using p(1) s by (metis list_all_append)
  moreover have "(of_int f / 1000000000 :: rat) = of_int (digits_val ?d) / 10 ^ length ?d"
  proof -
    have "(10 :: rat) ^ length ?d * 10 ^ k = 10 ^ 9" unfolding v(2) by (rule power_add [symmetric])
    then have "(1000000000 :: rat) = 10 ^ length ?d * 10 ^ k" by simp
    then show ?thesis by (subst v(1)) (simp add: field_simps)
  qed
  ultimately show ?thesis by simp
qed

section \<open>The literal of a NumericDate\<close>

lemma num_frac_digits:
  assumes "list_all isDigit ds" "ds \<noteq> []" "delim t"
  shows "num_frac (CHR ''.'' # ds @ t) = Some (CHR ''.'' # ds, t)"
proof -
  have "takeWhile isDigit (ds @ t) = ds" "dropWhile isDigit (ds @ t) = t"
    using assms delim_not_num [OF assms(3)] by (auto simp: list_all_iff takeWhile_append2 dropWhile_append2)
  with assms(1,2) show ?thesis by (cases ds) (auto simp: num_frac_def)
qed

lemma num_int_before_point:
  assumes "0 \<le> n"
  shows "num_int (nat_digits n @ CHR ''.'' # t) = Some (nat_digits n, CHR ''.'' # t)"
proof (cases "n = 0")
  case True
  have "chr 48 = CHR ''0''" by code_simp
  with True show ?thesis by (simp add: nat_digits.simps num_int_def)
next
  case False
  with assms have n: "list_all isDigit (nat_digits n)" "nat_digits n \<noteq> []" "hd (nat_digits n) \<noteq> CHR ''0''"
    using nat_digits_all nat_digits_hd by auto
  then obtain c r where c: "nat_digits n = c # r" "c \<noteq> CHR ''0''" "isDigit c" by (cases "nat_digits n") auto
  have "\<not> isDigit CHR ''.''" by (simp add: isDigit_def)
  then have "takeWhile isDigit (nat_digits n @ CHR ''.'' # t) = nat_digits n"
    "dropWhile isDigit (nat_digits n @ CHR ''.'' # t) = CHR ''.'' # t"
    using n(1) by (auto simp: list_all_iff takeWhile_append2 dropWhile_append2)
  with c show ?thesis by (simp add: num_int_def)
qed

definition decimal :: "bool \<Rightarrow> int \<Rightarrow> string \<Rightarrow> string" where
  "decimal negative whole fr = (if negative then ''-'' else []) @ nat_digits whole @ ''.'' @ fr"

lemma NumericDate_MarshalJSON_decimal:
  assumes "t mod second \<noteq> 0"
  obtains negative whole f where "NumericDate_MarshalJSON t = decimal negative whole (trim_right (pad9 f) ''0'')"
    "0 \<le> whole" "0 < f" "f < second" "t = (if negative then - (whole * second + f) else whole * second + f)"
proof -
  let ?s = "t div second" and ?n = "t mod second"
  have t: "t = ?s * second + ?n" by simp
  have n: "0 < ?n" "?n < second" using assms pos_mod_bound [of second t] pos_mod_sign [of second t] by (auto simp: less_le)
  show thesis
  proof (cases "?s < 0")
    case True
    show thesis
      by (rule that [of True "- (?s + 1)" "second - ?n"])
        (use True n t assms in \<open>auto simp: NumericDate_MarshalJSON_def Let_def decimal_def FormatInt_def algebra_simps\<close>)
  next
    case False
    show thesis
      by (rule that [of False ?s ?n])
        (use False n t assms in \<open>auto simp: NumericDate_MarshalJSON_def Let_def decimal_def FormatInt_def\<close>)
  qed
qed

lemma parse_num_decimal:
  assumes "0 \<le> w" "list_all isDigit ds" "ds \<noteq> []" "delim t"
  shows "parse_num (decimal neg w ds @ t) = Some (decimal neg w ds, t)"
proof -
  obtain c r where c: "nat_digits w = c # r" "isDigit c" using nat_digits_all [OF assms(1)] by (cases "nat_digits w") auto
  then have "c \<noteq> CHR ''-''" by (auto simp: isDigit_def)
  then show ?thesis
    using num_int_before_point [OF assms(1), of "ds @ t"] num_frac_digits [OF assms(2-4)] delim_not_num [OF assms(4)] c(1)
    by (auto simp: parse_num_def decimal_def)
qed

lemma decimal_hd: "0 \<le> w \<Longrightarrow> decimal neg w ds \<noteq> [] \<and> (hd (decimal neg w ds) = CHR ''-'' \<or> isDigit (hd (decimal neg w ds)))"
  using nat_digits_all [of w] by (cases "nat_digits w") (auto simp: decimal_def)

lemma number_reads_as:
  assumes "raw \<noteq> []" "hd raw = CHR ''-'' \<or> isDigit (hd raw)" "\<And>t. delim t \<Longrightarrow> parse_num (raw @ t) = Some (raw, t)"
  shows "reads_as 0 raw (JNum raw)"
proof -
  obtain c r where c: "raw = c # r" "c = CHR ''-'' \<or> isDigit c"
    using assms(1,2) by (cases raw) auto
  have nd: "\<not> isDigit CHR ''{''" "\<not> isDigit CHR ''[''" "\<not> isDigit CHR 0x22"
    by (simp_all add: isDigit_def)
  have "\<not> is_ws CHR ''-''" by code_simp
  then have ws: "\<not> is_ws c" using c(2) by (auto simp: is_ws_def isDigit_def)
  show ?thesis
    unfolding reads_as_def
  proof (intro conjI allI impI)
    fix strict f d t
    assume "2 * length (raw @ t) < f" "delim t"
    then show "parse_value strict f d (raw @ t) = Some (JNum raw, t)"
      using c nd assms(3) [of t] by (cases f) (auto simp: parse_value.simps)
  qed (use c ws in auto)
qed

lemma NumericDate_reads_as: "reads_as 0 (NumericDate_MarshalJSON t) (JNum (NumericDate_MarshalJSON t))"
proof (cases "t mod second = 0")
  case True
  then show ?thesis using reads_as_FormatInt by (simp add: NumericDate_MarshalJSON_def)
next
  case False
  obtain neg w f where m: "NumericDate_MarshalJSON t = decimal neg w (trim_right (pad9 f) ''0'')" "0 \<le> w" "0 < f" "f < second"
    by (rule NumericDate_MarshalJSON_decimal [OF False])
  show ?thesis
    unfolding m(1) using decimal_hd [OF m(2)] parse_num_decimal [OF m(2)] fraction_digits [OF m(3,4)]
    by (intro number_reads_as) auto
qed

lemma num_value_decimal:
  assumes "0 \<le> w" "0 < f" "f < second"
  shows "num_value (decimal neg w (trim_right (pad9 f) ''0'')) =
    (if neg then - 1 else 1) * (of_int (w * second + f) / 1000000000)"
proof -
  let ?d = "trim_right (pad9 f) ''0''" and ?b = "nat_digits w @ CHR ''.'' # trim_right (pad9 f) ''0''"
  note d = fraction_digits [OF assms(2,3)]
  have w: "\<forall>c \<in> set (nat_digits w). isDigit c" "nat_digits w \<noteq> []" using nat_digits_all [OF assms(1)] by (auto simp: list_all_iff)
  have nm: "\<not> is_exp_mark c" "c \<noteq> CHR ''.''" "c \<noteq> CHR ''-''" if "isDigit c" for c
    using that by (auto simp: is_exp_mark_def isDigit_def)
  have "\<forall>c \<in> set ?b. \<not> is_exp_mark c" using w d nm(1) by (auto simp: list_all_iff is_exp_mark_def)
  then have e: "takeWhile (\<lambda>c. \<not> is_exp_mark c) ?b = ?b" "dropWhile (\<lambda>c. \<not> is_exp_mark c) ?b = []" by auto
  have "takeWhile (\<lambda>c. c \<noteq> CHR ''.'') ?b = nat_digits w" "dropWhile (\<lambda>c. c \<noteq> CHR ''.'') ?b = CHR ''.'' # ?d"
    using w nm(2) by (auto simp: takeWhile_append2 dropWhile_append2)
  then have c: "cut CHR ''.'' ?b = (nat_digits w, ?d, True)" by (simp add: cut_def)
  have "(of_int (digits_val (nat_digits w @ ?d)) / 10 ^ length ?d :: rat) = of_int w + of_int (digits_val ?d) / 10 ^ length ?d"
    by (simp add: digits_val_append digits_val_nat_digits [OF assms(1)] add_divide_distrib)
  also have "\<dots> = of_int (w * second + f) / 1000000000" using d by (simp add: add_divide_distrib)
  finally have v: "mantissa_val ?b = of_int (w * second + f) / 1000000000" by (simp add: mantissa_val_def c)
  have h: "hd ?b \<noteq> CHR ''-''" using w nm(3) by (cases "nat_digits w") auto
  define b where "b = ?b"
  have "decimal neg w ?d = (if neg then CHR ''-'' # b else b)" by (simp add: decimal_def b_def)
  then have "num_value (decimal neg w ?d) = (if neg then - mantissa_val b else mantissa_val b)"
    using e h unfolding b_def [symmetric] by (cases neg) (simp_all add: num_value_def Let_def exp_val_def del: takeWhile_eq_all_conv dropWhile_eq_Nil_conv)
  moreover have "mantissa_val b = of_int (w * second + f) / 1000000000" using v by (simp only: b_def)
  ultimately show ?thesis by (cases neg) (simp_all only: if_True if_False mult_1 mult_minus_left)
qed

lemma num_value_NumericDate: "num_value (NumericDate_MarshalJSON t) = of_int t / 1000000000"
proof (cases "t mod second = 0")
  case True
  then have t: "t = t div second * second" using div_mult_mod_eq [of t second] by simp
  have "(of_int t :: rat) = of_int (t div second) * 1000000000" by (subst t) simp
  with True show ?thesis by (simp add: NumericDate_MarshalJSON_def num_value_FormatInt)
next
  case False
  obtain neg w f where m: "NumericDate_MarshalJSON t = decimal neg w (trim_right (pad9 f) ''0'')" "0 \<le> w" "0 < f" "f < second"
      "t = (if neg then - (w * second + f) else w * second + f)"
    by (rule NumericDate_MarshalJSON_decimal [OF False])
  show ?thesis unfolding m(1) num_value_decimal [OF m(2-4)] using m(5) by (cases neg) simp_all
qed

section \<open>The error of a double\<close>

lemma round_half_even_le: "x \<le> of_int n \<Longrightarrow> round_half_even x \<le> n"
proof (cases "\<lfloor>x\<rfloor> = n")
  case True
  assume "x \<le> of_int n"
  with True have "x = of_int n" by linarith
  then show ?thesis by simp
next
  case False
  assume "x \<le> of_int n"
  with False have "\<lfloor>x\<rfloor> < n" by linarith
  then show ?thesis by (auto simp: round_half_even_def Let_def)
qed

lemma round_half_even_error: "\<bar>of_int (round_half_even x) - x\<bar> \<le> 1 / 2"
proof -
  define f where "f = \<lfloor>x\<rfloor>"
  have f: "of_int f \<le> x" "x < of_int f + 1" using floor_correct [of x] by (simp_all add: f_def)
  show ?thesis using f unfolding round_half_even_def Let_def f_def [symmetric] abs_le_iff by (simp split: if_splits; linarith)
qed

lemma f64_error:
  assumes "0 < x" "x \<le> of_int M" "M < 2 ^ k" "k \<le> 53"
  shows "\<exists>y. f64 x = Some y \<and> 0 \<le> y \<and> y \<le> of_int M \<and> \<bar>y - x\<bar> \<le> 2 ^ k / 2 ^ 54"
proof -
  define e where "e = max (ilog2 x - 52) (-1074)"
  have M: "(of_int M :: rat) < 2 ^ k" using assms(3) by (metis of_int_less_iff of_int_numeral of_int_power)
  have "(2::rat) powi (ilog2 x) \<le> x" by (rule ilog2_le [OF assms(1)])
  also have "x < 2 ^ k" using assms(2) M by linarith
  finally have "(2::rat) powi (ilog2 x) < 2 powi (int k)" by simp
  then have "ilog2 x < int k" by (metis not_less power_int_increasing one_le_numeral)
  then have ek: "e \<le> int k - 53" "e \<le> 0" using assms(4) by (auto simp: e_def)
  have pos: "0 < (2::rat) powi e" by (simp add: zero_less_power_int)
  define j where "j = nat (- e)"
  have j: "(2::rat) powi e = 1 / 2 ^ j" using ek(2) by (simp add: j_def power_int_def inverse_eq_divide power_one_over)
  let ?r = "round_half_even (x / 2 powi e)"
  let ?y = "of_int ?r * 2 powi e :: rat"
  have "x / 2 powi e \<le> of_int (M * 2 ^ j)" using assms(2) by (simp add: j)
  then have r: "?r \<le> M * 2 ^ j" "0 \<le> ?r" using round_half_even_le round_half_even_bounds(2) [of "x / 2 powi e"] assms(1) pos by auto
  have "(of_int ?r :: rat) \<le> of_int (M * 2 ^ j)" using r(1) by (simp only: of_int_le_iff)
  then have y: "?y \<le> of_int M" "0 \<le> ?y" using r(2) pos by (simp_all add: j divide_le_eq)
  have "\<bar>?y - x\<bar> = \<bar>of_int ?r - x / 2 powi e\<bar> * 2 powi e"
  proof -
    have "?y - x = (of_int ?r - x / 2 powi e) * 2 powi e" using pos by (simp add: left_diff_distrib)
    then show ?thesis using pos by (simp only: abs_mult abs_of_pos)
  qed
  also have "\<dots> \<le> 1 / 2 * 2 powi e" using round_half_even_error pos by (intro mult_right_mono) auto
  also have "\<dots> \<le> 1 / 2 * 2 powi (int k - 53)" using ek(1) by (intro mult_left_mono power_int_increasing) auto
  also have "\<dots> = 2 ^ k / 2 ^ 54" using powi_diff [of k 53] by simp
  finally have err: "\<bar>?y - x\<bar> \<le> 2 ^ k / 2 ^ 54" .
  have "(2::rat) ^ k \<le> 2 ^ 53" using assms(4) by (rule power_increasing) simp
  also have "(2::rat) ^ 53 \<le> 2 ^ 1024" by (rule power_increasing) simp_all
  finally have "?y < 2 ^ 1024" using y(1) M by linarith
  then have "f64 x = Some ?y" using assms(1) by (simp add: f64_def Let_def e_def not_le)
  with y err show ?thesis by blast
qed

lemma math_round_error: "\<bar>of_int (math_round x) - x\<bar> \<le> 1 / 2"
proof -
  have "of_int \<lfloor>y + 1 / 2\<rfloor> \<le> y + 1 / 2" "y + 1 / 2 < of_int \<lfloor>y + 1 / 2\<rfloor> + 1" for y :: rat
    using floor_correct [of "y + 1 / 2"] by simp_all
  from this [of x] this [of "- x"] show ?thesis unfolding math_round_def abs_le_iff by (cases "x < 0"; simp; linarith)
qed

lemma f64_error_abs:
  assumes "\<bar>x\<bar> \<le> of_int M" "M < 2 ^ k" "k \<le> 53"
  shows "\<exists>y. f64 x = Some y \<and> (0 \<le> x \<longrightarrow> 0 \<le> y \<and> y \<le> of_int M) \<and> (x \<le> 0 \<longrightarrow> y \<le> 0 \<and> - of_int M \<le> y) \<and> \<bar>y - x\<bar> \<le> 2 ^ k / 2 ^ 54"
proof -
  consider "x = 0" | "0 < x" | "0 < - x" by linarith
  then show ?thesis
  proof cases
    case 1
    then show ?thesis using assms(1) by (auto simp: f64_def)
  next
    case 2
    then show ?thesis using f64_error [OF 2 _ assms(2,3)] assms(1) by fastforce
  next
    case 3
    then obtain y where y: "f64 (- x) = Some y" "0 \<le> y" "y \<le> of_int M" "\<bar>y + x\<bar> \<le> 2 ^ k / 2 ^ 54"
      using f64_error [OF 3 _ assms(2,3)] assms(1) by fastforce
    then have "f64 x = Some (- y)" using f64_minus [of "- x"] by simp
    moreover have "\<bar>- y - x\<bar> = \<bar>y + x\<bar>" by simp
    ultimately show ?thesis using 3 y by (intro exI [of _ "- y"]) simp
  qed
qed

section \<open>A NumericDate read back\<close>

definition date_in_range :: "time \<Rightarrow> bool" where
  "date_in_range t \<longleftrightarrow> minNumericDate * second \<le> t \<and> t \<le> maxNumericDate * second"

lemma FormatInt_last: "isDigit (last (FormatInt n))"
  using nat_digits_all [of n] nat_digits_all [of "- n"] by (cases "n < 0") (auto simp: FormatInt_def list_all_iff)

lemma NumericDate_literal: "NumericDate_MarshalJSON t \<noteq> []" "NumericDate_MarshalJSON t \<noteq> ''null''"
    "trim_space (NumericDate_MarshalJSON t) = NumericDate_MarshalJSON t"
proof -
  have "NumericDate_MarshalJSON t \<noteq> [] \<and> (hd (NumericDate_MarshalJSON t) = CHR ''-'' \<or> isDigit (hd (NumericDate_MarshalJSON t)))
    \<and> isDigit (last (NumericDate_MarshalJSON t))"
  proof (cases "t mod second = 0")
    case True
    then show ?thesis using FormatInt_hd [of "t div second"] FormatInt_last [of "t div second"] by (simp add: NumericDate_MarshalJSON_def)
  next
    case False
    obtain neg w f where m: "NumericDate_MarshalJSON t = decimal neg w (trim_right (pad9 f) ''0'')" "0 \<le> w" "0 < f" "f < second"
      by (rule NumericDate_MarshalJSON_decimal [OF False])
    show ?thesis
      unfolding m(1) using decimal_hd [OF m(2)] fraction_digits [OF m(3,4)] by (auto simp: decimal_def list_all_iff)
  qed
  then have n: "NumericDate_MarshalJSON t \<noteq> []" "graphic (hd (NumericDate_MarshalJSON t))" "graphic (last (NumericDate_MarshalJSON t))"
      "NumericDate_MarshalJSON t \<noteq> ''null''"
    by (auto simp: isDigit_graphic graphic_def isDigit_def)
  then show "NumericDate_MarshalJSON t \<noteq> []" "NumericDate_MarshalJSON t \<noteq> ''null''"
    "trim_space (NumericDate_MarshalJSON t) = NumericDate_MarshalJSON t"
    by (auto intro!: trim_space_graphic)
qed

lemma f64_in_range:
  assumes "date_in_range t"
  shows "\<exists>f. f64 (of_int t / 1000000000) = Some f \<and> of_int minNumericDate \<le> f \<and> f \<le> of_int maxNumericDate
     \<and> \<bar>f - of_int t / 1000000000\<bar> \<le> 1 / 65536"
proof (cases "0 \<le> t")
  case True
  have "\<bar>of_int t / 1000000000 :: rat\<bar> \<le> of_int maxNumericDate"
    using assms True by (simp add: date_in_range_def maxNumericDate_def)
  then obtain f where "f64 (of_int t / 1000000000) = Some f" "0 \<le> f" "f \<le> of_int maxNumericDate"
      "\<bar>f - of_int t / 1000000000\<bar> \<le> 2 ^ 38 / 2 ^ 54"
    using f64_error_abs [of "of_int t / 1000000000" maxNumericDate 38] True by (auto simp: maxNumericDate_def)
  then show ?thesis by (simp add: minNumericDate_def)
next
  case False
  have "\<bar>of_int t / 1000000000 :: rat\<bar> \<le> of_int (- minNumericDate)"
    using assms False by (simp add: date_in_range_def minNumericDate_def abs_le_iff divide_le_eq le_divide_eq)
  then obtain f where "f64 (of_int t / 1000000000) = Some f" "f \<le> 0" "of_int minNumericDate \<le> f"
      "\<bar>f - of_int t / 1000000000\<bar> \<le> 2 ^ 38 / 2 ^ 54"
    using f64_error_abs [of "of_int t / 1000000000" "- minNumericDate" 38] False by (auto simp: minNumericDate_def divide_le_0_iff)
  then show ?thesis by (simp add: maxNumericDate_def)
qed

lemma NumericDate_close:
  assumes "date_in_range t"
  shows "\<exists>t'. NumericDate_UnmarshalJSON old (NumericDate_MarshalJSON t) = Inr t' \<and> \<bar>t' - t\<bar> < 15260"
proof -
  obtain f where f: "f64 (of_int t / 1000000000) = Some f" "of_int minNumericDate \<le> f" "f \<le> of_int maxNumericDate"
      "\<bar>f - of_int t / 1000000000\<bar> \<le> 1 / 65536"
    using f64_in_range [OF assms] by blast
  have d: "decodeStrict dec_float (NumericDate_MarshalJSON t) = Inr f"
    using json_text_reads_as [OF NumericDate_reads_as [of t]] f(1) by (simp add: decodeStrict_def max_depth_def num_value_NumericDate)
  obtain i r where m: "modf f = (i, r)" by (cases "modf f")
  have e: "f = of_int i + r" by (rule modf_bounds(1) [OF m])
  have r: "\<bar>r\<bar> < 1" using modf_bounds(2,3) [OF m] by (cases "0 \<le> f") auto
  then have "\<bar>r * 1000000000\<bar> \<le> of_int second" by simp
  then obtain y where y: "f64 (r * 1000000000) = Some y" "\<bar>y - r * 1000000000\<bar> \<le> 1 / 16777216"
    using f64_error_abs [of "r * 1000000000" second 30] by auto
  have n: "\<bar>of_int (math_round y) - y\<bar> \<le> 1 / 2" by (rule math_round_error)
  have "of_int (i * second + math_round y) - of_int t = (f - of_int t / 1000000000) * 1000000000
      + (y - r * 1000000000) + (of_int (math_round y) - y :: rat)"
    by (simp add: e algebra_simps)
  also have "\<bar>\<dots>\<bar> \<le> \<bar>(f - of_int t / 1000000000) * 1000000000\<bar> + \<bar>y - r * 1000000000\<bar> + \<bar>of_int (math_round y) - y\<bar>" by linarith
  also have "\<dots> < 15260"
  proof -
    have "\<bar>(f - of_int t / 1000000000) * 1000000000\<bar> \<le> 1 / 65536 * 1000000000" unfolding abs_mult using f(4) by (intro mult_mono) auto
    with y(2) n show ?thesis by linarith
  qed
  finally have "\<bar>of_int (i * second + math_round y - t) :: rat\<bar> < of_int 15260" by simp
  then have "\<bar>i * second + math_round y - t\<bar> < 15260" by linarith
  then show ?thesis
    using NumericDate_literal [of t] d f(2,3) y(1) by (simp add: NumericDate_UnmarshalJSON_def Let_def m)
qed

section \<open>Emitting the registered claims\<close>

text \<open>A nil pointer is left out, so what it is encoded to does not matter.\<close>

definition enc_date :: "time option \<Rightarrow> string" where
  "enc_date d = (case d of None \<Rightarrow> ''null'' | Some t \<Rightarrow> NumericDate_MarshalJSON t)"

definition confirmation_fields :: "confirmation \<Rightarrow> (string \<times> bool \<times> string) list result" where
  "confirmation_fields c =
     (case (case cnf_JWK c of None \<Rightarrow> Inr ''null'' | Some k \<Rightarrow> MarshalJSON k) of
        Inl e \<Rightarrow> Inl e
      | Inr jwk \<Rightarrow> Inr [(''jkt'', JWKThumbprint c = [], enc_str (JWKThumbprint c)), (''jwk'', cnf_JWK c = None, jwk)])"

definition registered_fields :: "registered_claims \<Rightarrow> (string \<times> bool \<times> string) list result" where
  "registered_fields rc =
     (case (case Confirmation rc of None \<Rightarrow> Inr ''null''
            | Some c \<Rightarrow> (case confirmation_fields c of Inl e \<Rightarrow> Inl e | Inr fs \<Rightarrow> Inr (enc_struct fs))) of
        Inl e \<Rightarrow> Inl e
      | Inr cnf \<Rightarrow> Inr
          [(''iss'', Issuer rc = [], enc_str (Issuer rc)),
           (''sub'', Subject rc = [], enc_str (Subject rc)),
           (''aud'', (case Audience rc of None \<Rightarrow> True | Some vs \<Rightarrow> len vs = 0), Audience_MarshalJSON (Audience rc)),
           (''exp'', ExpiresAt rc = None, enc_date (ExpiresAt rc)),
           (''nbf'', NotBefore rc = None, enc_date (NotBefore rc)),
           (''iat'', IssuedAt rc = None, enc_date (IssuedAt rc)),
           (''jti'', ID rc = [], enc_str (ID rc)),
           (''cnf'', Confirmation rc = None, cnf)])"

text \<open>\<^verbatim>\<open>json.Marshal\<close> of a struct that embeds the claims and adds the given fields.\<close>

definition marshal_claims :: "registered_claims \<Rightarrow> (string \<times> bool \<times> string) list \<Rightarrow> bytes result" where
  "marshal_claims rc extra =
     (case registered_fields rc of Inl e \<Rightarrow> Inl e | Inr fs \<Rightarrow> Inr (enc_struct (fs @ extra)))"

section \<open>What is read back\<close>

definition cnf_emittable :: "confirmation \<Rightarrow> bool" where
  "cnf_emittable c \<longleftrightarrow> valid_utf8 (JWKThumbprint c)
     \<and> (case cnf_JWK c of None \<Rightarrow> True
        | Some k \<Rightarrow> Kty k \<noteq> KeyTypeOct \<and> k_k k = [] \<and> checkCanonical k = None \<and> key_valid_utf8 k)"

definition claims_emittable :: "registered_claims \<Rightarrow> bool" where
  "claims_emittable rc \<longleftrightarrow> valid_utf8 (Issuer rc) \<and> valid_utf8 (Subject rc) \<and> valid_utf8 (ID rc)
     \<and> (case Audience rc of None \<Rightarrow> True | Some vs \<Rightarrow> vs \<noteq> [] \<and> list_all valid_utf8 vs)
     \<and> pred_option date_in_range (ExpiresAt rc) \<and> pred_option date_in_range (NotBefore rc) \<and> pred_option date_in_range (IssuedAt rc)
     \<and> pred_option cnf_emittable (Confirmation rc)"

text \<open>The date that reading back what was emitted gives.\<close>

definition date_read :: "time \<Rightarrow> time" where
  "date_read t = (case NumericDate_UnmarshalJSON zero_time (NumericDate_MarshalJSON t) of Inl _ \<Rightarrow> t | Inr t' \<Rightarrow> t')"

definition claims_read :: "registered_claims \<Rightarrow> registered_claims" where
  "claims_read rc = rc\<lparr>ExpiresAt := map_option date_read (ExpiresAt rc), NotBefore := map_option date_read (NotBefore rc),
     IssuedAt := map_option date_read (IssuedAt rc)\<rparr>"

lemma date_read_Inr: "date_in_range t \<Longrightarrow> NumericDate_UnmarshalJSON zero_time (NumericDate_MarshalJSON t) = Inr (date_read t)"
  using NumericDate_close [of t zero_time] by (auto simp: date_read_def)

lemma date_read_close: "date_in_range t \<Longrightarrow> \<bar>date_read t - t\<bar> < 15260"
  using NumericDate_close [of t zero_time] by (auto simp: date_read_def)

lemma date_read_seconds: "date_in_range t \<Longrightarrow> t mod second = 0 \<Longrightarrow> date_read t = t"
proof -
  assume t: "date_in_range t" "t mod second = 0"
  then have e: "t = t div second * second" using div_mult_mod_eq [of t second] by simp
  have "minNumericDate * second \<le> t div second * second" "t div second * second \<le> maxNumericDate * second"
    using t(1) unfolding e [symmetric] by (auto simp: date_in_range_def)
  then have "minNumericDate \<le> t div second" "t div second \<le> maxNumericDate" by auto
  from NumericDate_roundtrip_seconds [OF this, of zero_time] show "date_read t = t"
    unfolding e [symmetric] by (simp add: date_read_def)
qed

lemma claims_read_seconds:
  assumes "claims_emittable rc" "pred_option (\<lambda>t. t mod second = 0) (ExpiresAt rc)"
    "pred_option (\<lambda>t. t mod second = 0) (NotBefore rc)" "pred_option (\<lambda>t. t mod second = 0) (IssuedAt rc)"
  shows "claims_read rc = rc"
proof -
  have "map_option date_read d = d" if "pred_option date_in_range d" "pred_option (\<lambda>t. t mod second = 0) d" for d
    using that date_read_seconds by (cases d) auto
  with assms show ?thesis by (simp add: claims_read_def claims_emittable_def)
qed

lemma key_read_back:
  assumes "Kty k \<noteq> KeyTypeOct" "k_k k = []" "checkCanonical k = None" "key_valid_utf8 k"
  obtains b vs where "MarshalJSON k = Inr b" "UnmarshalJSON b = Inr k" "reads_as 2 b (JObj vs)"
proof -
  have b: "MarshalJSON k = Inr (enc_struct (jwk_fields (key_to_jwk k)))" using assms(1) by (simp add: MarshalJSON_def)
  note v = key_to_jwk_valid [OF assms(4)]
  have "k\<lparr>k_k := []\<rparr> = k" using assms(2) by simp
  then have "UnmarshalJSON (enc_struct (jwk_fields (key_to_jwk k))) = Inr k"
    using UnmarshalJSON_MarshalJSON_eq [OF b v] assms(3) by (simp add: jwk_to_key_to_jwk)
  from that [OF b this jwk_reads_as [OF v]] show thesis .
qed

definition cnf_decoder :: "string \<Rightarrow> json \<Rightarrow> confirmation result" where
  "cnf_decoder = (\<lambda>raw v. dec_struct cnf_field \<lparr>JWKThumbprint = [], cnf_JWK = None\<rparr> v)"

lemma confirmation_read_back:
  assumes "cnf_emittable c"
  obtains fs vs where "confirmation_fields c = Inr fs" "reads_as 3 (enc_struct fs) (JObj vs)" "cnf_decoder raw (JObj vs) = Inr c"
proof -
  have k: "\<exists>jwk v. (case cnf_JWK c of None \<Rightarrow> Inr ''null'' | Some k \<Rightarrow> MarshalJSON k) = Inr jwk \<and>
      (cnf_JWK c \<noteq> None \<longrightarrow> reads_as 2 jwk (JObj v) \<and> UnmarshalJSON jwk = Inr (the (cnf_JWK c)))"
  proof (cases "cnf_JWK c")
    case (Some k)
    then show ?thesis using assms key_read_back [of k] by (fastforce simp: cnf_emittable_def)
  qed simp
  then obtain jwk v where j: "(case cnf_JWK c of None \<Rightarrow> Inr ''null'' | Some k \<Rightarrow> MarshalJSON k) = Inr jwk"
      "cnf_JWK c \<noteq> None \<Longrightarrow> reads_as 2 jwk (JObj v)" "cnf_JWK c \<noteq> None \<Longrightarrow> UnmarshalJSON jwk = Inr (the (cnf_JWK c))" by blast
  let ?vals = "[(''jkt'', JWKThumbprint c = [], enc_str (JWKThumbprint c), JStr (JWKThumbprint c)), (''jwk'', cnf_JWK c = None, jwk, JObj v)]"
  have f: "confirmation_fields c = Inr (map (\<lambda>(n, om, raw, v). (n, om, raw)) ?vals)" by (simp add: confirmation_fields_def j(1))
  have "reads_as (2 + 1) (enc_struct (map (\<lambda>(n, om, raw, v). (n, om, raw)) ?vals)) (JObj (struct_members ?vals))"
  proof (rule reads_as_struct)
    fix n om raw w assume "(n, om, raw, w) \<in> set ?vals"
    then show "valid_utf8 n \<and> (\<not> om \<longrightarrow> reads_as 2 raw w)"
      using assms j(2) by (auto intro!: valid_utf8_ASCII reads_as_mono [OF reads_as_str] simp: isASCII_def cnf_emittable_def)
  qed simp_all
  moreover have "cnf_decoder raw (JObj (struct_members ?vals)) = Inr c"
    using j(3) by (cases c; cases "cnf_JWK c") (auto simp: cnf_decoder_def cnf_field_def set_str_def set_res_def dec_pointer_def)
  ultimately show thesis using that [OF f] by simp
qed

lemma trim_space_quoted: "raw \<noteq> [] \<Longrightarrow> graphic (hd raw) \<Longrightarrow> graphic (last raw) \<Longrightarrow> trim_space raw = raw"
  by (rule trim_space_graphic) simp

lemma audience_read_back:
  assumes "vs \<noteq> []" "list_all valid_utf8 vs"
  obtains v where "reads_as 1 (Audience_MarshalJSON (Some vs)) v" "Audience_UnmarshalJSON (Audience_MarshalJSON (Some vs)) = Inr (Some vs)"
proof (cases "len vs = 1")
  case True
  then obtain s where s: "vs = [s]" by (cases vs) (auto simp: len_def)
  have r: "reads_as 0 (enc_str s) (JStr s)" using assms by (intro reads_as_str) (simp add: s)
  have "trim_space (enc_str s) = enc_str s" by (rule trim_space_quoted) (simp_all add: enc_str_def graphic_def)
  moreover have "enc_str s \<noteq> ''null''" "enc_str s \<noteq> []" "enc_str s ! 0 \<noteq> CHR ''[''" by (simp_all add: enc_str_def)
  moreover have "decodeStrict dec_string (enc_str s) = Inr s"
    using json_text_reads_as [OF r] by (simp add: decodeStrict_def max_depth_def)
  ultimately have "Audience_UnmarshalJSON (Audience_MarshalJSON (Some vs)) = Inr (Some vs)"
    by (simp add: Audience_MarshalJSON_def Audience_UnmarshalJSON_def s Let_def)
  moreover have "reads_as 1 (Audience_MarshalJSON (Some vs)) (JStr s)" using reads_as_mono [OF r, of 1] by (simp add: Audience_MarshalJSON_def s)
  ultimately show thesis using that by blast
next
  case False
  let ?raw = "enc_array (map enc_str vs)"
  have r: "reads_as 1 ?raw (JArr (map (\<lambda>s. (enc_str s, JStr s)) vs))"
    using assms(2) by (intro reads_as_strings) (simp add: list_all_iff)
  have "trim_space ?raw = ?raw" by (rule trim_space_quoted) (simp_all add: enc_array_def graphic_def)
  moreover have "?raw \<noteq> ''null''" "?raw \<noteq> []" "?raw ! 0 = CHR ''[''" by (simp_all add: enc_array_def)
  moreover have "decodeStrict dec_strings ?raw = Inr (Some vs)"
    using json_text_reads_as [OF r] by (simp add: decodeStrict_def max_depth_def dec_strings_emitted del: dec_strings.simps)
  ultimately have "Audience_UnmarshalJSON (Audience_MarshalJSON (Some vs)) = Inr (Some vs)"
    using False by (simp add: Audience_MarshalJSON_def Audience_UnmarshalJSON_def Let_def)
  with that r False show thesis by (simp add: Audience_MarshalJSON_def)
qed

lemma struct_members_append: "struct_members (fs @ gs) = struct_members fs @ struct_members gs"
  by (induction fs rule: struct_members.induct) auto

lemma claims_optional_field:
  "Issuer r = [] \<Longrightarrow> dec_fields claims_field r (struct_members ((''iss'', s = [], raw, JStr s) # fs)) =
     dec_fields claims_field (r\<lparr>Issuer := s\<rparr>) (struct_members fs)"
  "Subject r = [] \<Longrightarrow> dec_fields claims_field r (struct_members ((''sub'', s = [], raw, JStr s) # fs)) =
     dec_fields claims_field (r\<lparr>Subject := s\<rparr>) (struct_members fs)"
  "ID r = [] \<Longrightarrow> dec_fields claims_field r (struct_members ((''jti'', s = [], raw, JStr s) # fs)) =
     dec_fields claims_field (r\<lparr>ID := s\<rparr>) (struct_members fs)"
  by (cases r; auto simp: claims_field_def set_str_def)+

lemma dec_date_emitted: "date_in_range t \<Longrightarrow> dec_date (NumericDate_MarshalJSON t) (JNum s) = Inr (Some (date_read t))"
  by (simp add: dec_date_def dec_pointer_def date_read_Inr)

lemma claims_date_field:
  "pred_option date_in_range d \<Longrightarrow> ExpiresAt r = None \<Longrightarrow>
     dec_fields claims_field r (struct_members ((''exp'', d = None, enc_date d, JNum s) # fs)) =
     dec_fields claims_field (r\<lparr>ExpiresAt := map_option date_read d\<rparr>) (struct_members fs)"
  "pred_option date_in_range d \<Longrightarrow> NotBefore r = None \<Longrightarrow>
     dec_fields claims_field r (struct_members ((''nbf'', d = None, enc_date d, JNum s) # fs)) =
     dec_fields claims_field (r\<lparr>NotBefore := map_option date_read d\<rparr>) (struct_members fs)"
  "pred_option date_in_range d \<Longrightarrow> IssuedAt r = None \<Longrightarrow>
     dec_fields claims_field r (struct_members ((''iat'', d = None, enc_date d, JNum s) # fs)) =
     dec_fields claims_field (r\<lparr>IssuedAt := map_option date_read d\<rparr>) (struct_members fs)"
  by (cases r; cases d; simp add: claims_field_def set_res_def enc_date_def dec_date_emitted)+

lemma enc_date_reads_as: "d \<noteq> None \<Longrightarrow> reads_as 3 (enc_date d) (JNum (enc_date d))"
  using reads_as_mono [OF NumericDate_reads_as] by (auto simp: enc_date_def)

text \<open>
  The claims of an emitted struct decode to what \<open>claims_read\<close> says; the members of the
  embedding struct follow them.
\<close>

lemma struct_members_map_of:
  "distinct (map fst fs) \<Longrightarrow> (n, False, raw, v) \<in> set fs \<Longrightarrow> map_of (struct_members fs) n = Some (raw, v)"
proof (induction fs)
  case (Cons f fs)
  obtain n' om raw' v' where f: "f = (n', om, raw', v')" by (cases f)
  have "n' \<noteq> n" if "(n, False, raw, v) \<in> set fs" using that Cons.prems(1) f by force
  with Cons f show ?case by auto
qed simp

text \<open>The fields of the embedding struct may be nested up to any depth the parser reads.\<close>

lemma marshal_claims_members_at:
  assumes "claims_emittable rc" "distinct (map fst ex)" "3 \<le> k"
    "\<And>n om raw v. (n, om, raw, v) \<in> set ex \<Longrightarrow> valid_utf8 n \<and> n \<notin> set registered_names \<and> (\<not> om \<longrightarrow> reads_as k raw v)"
  obtains p vs where "marshal_claims rc (map (\<lambda>(n, om, raw, v). (n, om, raw)) ex) = Inr p" "hd p = CHR ''{''"
    "reads_as (k + 1) p (JObj (vs @ struct_members ex))" "fst ` set vs \<subseteq> set registered_names"
    "dec_fields claims_field zero_claims vs = Inr (claims_read rc)"
    "\<forall>fs n raw. registered_fields rc = Inr fs \<longrightarrow> (n, False, raw) \<in> set fs \<longrightarrow> (\<exists>v. map_of vs n = Some (raw, v))"
proof -
  have "\<exists>raw v. (case Confirmation rc of None \<Rightarrow> Inr ''null''
      | Some c \<Rightarrow> (case confirmation_fields c of Inl e \<Rightarrow> Inl e | Inr fs \<Rightarrow> Inr (enc_struct fs))) = Inr raw
      \<and> (Confirmation rc \<noteq> None \<longrightarrow> reads_as 3 raw (JObj v) \<and> cnf_decoder raw (JObj v) = Inr (the (Confirmation rc)))"
  proof (cases "Confirmation rc")
    case (Some c)
    then have "cnf_emittable c" using assms(1) by (simp add: claims_emittable_def)
    then obtain fs where "confirmation_fields c = Inr fs" by (rule confirmation_read_back)
    moreover obtain fs' vs where "confirmation_fields c = Inr fs'" "reads_as 3 (enc_struct fs') (JObj vs)" "cnf_decoder (enc_struct fs) (JObj vs) = Inr c"
      by (rule confirmation_read_back [OF \<open>cnf_emittable c\<close>])
    ultimately show ?thesis using Some by auto
  qed simp
  then obtain craw cv where c: "(case Confirmation rc of None \<Rightarrow> Inr ''null''
      | Some c \<Rightarrow> (case confirmation_fields c of Inl e \<Rightarrow> Inl e | Inr fs \<Rightarrow> Inr (enc_struct fs))) = Inr craw"
      "Confirmation rc \<noteq> None \<Longrightarrow> reads_as 3 craw (JObj cv) \<and> cnf_decoder craw (JObj cv) = Inr (the (Confirmation rc))" by blast
  let ?aom = "case Audience rc of None \<Rightarrow> True | Some vs \<Rightarrow> len vs = 0"
  have "\<exists>v. \<not> ?aom \<longrightarrow> reads_as 1 (Audience_MarshalJSON (Audience rc)) v \<and> Audience_UnmarshalJSON (Audience_MarshalJSON (Audience rc)) = Inr (Audience rc)"
  proof (cases "Audience rc")
    case (Some vs)
    then have "vs \<noteq> []" "list_all valid_utf8 vs" using assms(1) by (auto simp: claims_emittable_def)
    then obtain v where "reads_as 1 (Audience_MarshalJSON (Some vs)) v" "Audience_UnmarshalJSON (Audience_MarshalJSON (Some vs)) = Inr (Some vs)"
      by (rule audience_read_back)
    with Some show ?thesis by auto
  qed simp
  then obtain av where a: "\<not> ?aom \<Longrightarrow> reads_as 1 (Audience_MarshalJSON (Audience rc)) av"
      "\<not> ?aom \<Longrightarrow> Audience_UnmarshalJSON (Audience_MarshalJSON (Audience rc)) = Inr (Audience rc)" by blast
  let ?vals = "[(''iss'', Issuer rc = [], enc_str (Issuer rc), JStr (Issuer rc)),
     (''sub'', Subject rc = [], enc_str (Subject rc), JStr (Subject rc)),
     (''aud'', ?aom, Audience_MarshalJSON (Audience rc), av),
     (''exp'', ExpiresAt rc = None, enc_date (ExpiresAt rc), JNum (enc_date (ExpiresAt rc))),
     (''nbf'', NotBefore rc = None, enc_date (NotBefore rc), JNum (enc_date (NotBefore rc))),
     (''iat'', IssuedAt rc = None, enc_date (IssuedAt rc), JNum (enc_date (IssuedAt rc))),
     (''jti'', ID rc = [], enc_str (ID rc), JStr (ID rc)),
     (''cnf'', Confirmation rc = None, craw, JObj cv)]"
  have names: "map fst ?vals = registered_names" by (simp add: registered_names_def)
  have f: "registered_fields rc = Inr (map (\<lambda>(n, om, raw, v). (n, om, raw)) ?vals)" by (simp add: registered_fields_def c(1))
  let ?p = "enc_struct (map (\<lambda>(n, om, raw, v). (n, om, raw)) (?vals @ ex))"
  have m: "marshal_claims rc (map (\<lambda>(n, om, raw, v). (n, om, raw)) ex) = Inr ?p" by (simp only: marshal_claims_def f sum.case map_append)
  have "reads_as (k + 1) ?p (JObj (struct_members (?vals @ ex)))"
  proof (rule reads_as_struct)
    have d: "distinct registered_names" by code_simp
    have "set registered_names \<inter> fst ` set ex = {}" using assms(4) by fastforce
    then show "distinct (map fst (?vals @ ex))" unfolding map_append distinct_append names using d assms(2) by simp
    have s: "reads_as 3 (enc_str x) (JStr x)" if "valid_utf8 x" for x by (rule reads_as_mono [OF reads_as_str [OF that]]) simp
    have v: "valid_utf8 (Issuer rc)" "valid_utf8 (Subject rc)" "valid_utf8 (ID rc)" using assms(1) by (simp_all add: claims_emittable_def)
    have u: "list_all valid_utf8 registered_names" by code_simp
    have "list_all (\<lambda>(n, om, raw, v). \<not> om \<longrightarrow> reads_as 3 raw v) ?vals"
      using s v a(1) c(2) enc_date_reads_as by (auto intro: reads_as_mono)
    moreover have "list_all valid_utf8 (map fst ?vals)" unfolding names by (rule u)
    ultimately have "list_all (\<lambda>(n, om, raw, v). valid_utf8 n \<and> (\<not> om \<longrightarrow> reads_as 3 raw v)) ?vals" by auto
    then have "valid_utf8 n \<and> (\<not> om \<longrightarrow> reads_as k raw v)" if "(n, om, raw, v) \<in> set ?vals" for n om raw v
      using that reads_as_mono [OF _ assms(3)] unfolding list_all_iff by fastforce
    then show "valid_utf8 n \<and> (\<not> om \<longrightarrow> reads_as k raw v)" if "(n, om, raw, v) \<in> set (?vals @ ex)" for n om raw v
      using that assms(4) unfolding set_append by blast
  qed (use assms(3) in simp)
  moreover have "struct_members (?vals @ ex) = struct_members ?vals @ struct_members ex" by (rule struct_members_append)
  ultimately have r: "reads_as (k + 1) ?p (JObj (struct_members ?vals @ struct_members ex))" by simp
  have "fst ` set (struct_members ?vals) \<subseteq> set (map fst ?vals)" using struct_members_names [of ?vals] by simp
  then have n: "fst ` set (struct_members ?vals) \<subseteq> set registered_names" unfolding names .
  have dates: "pred_option date_in_range (ExpiresAt rc)" "pred_option date_in_range (NotBefore rc)" "pred_option date_in_range (IssuedAt rc)"
    using assms(1) by (simp_all add: claims_emittable_def)
  have aud: "dec_fields claims_field x (struct_members ((''aud'', ?aom, Audience_MarshalJSON (Audience rc), av) # fs)) =
      dec_fields claims_field (x\<lparr>Audience := Audience rc\<rparr>) (struct_members fs)" if "Audience x = None" for x fs
    using that a(2) assms(1) by (cases x) (auto simp: claims_field_def set_res_def claims_emittable_def split: option.splits)
  have cnf: "dec_fields claims_field x (struct_members [(''cnf'', Confirmation rc = None, craw, JObj cv)]) = Inr (x\<lparr>Confirmation := Confirmation rc\<rparr>)"
    if "Confirmation x = None" for x
    using that c(2) by (cases x; cases "Confirmation rc") (auto simp: claims_field_def set_res_def dec_pointer_def cnf_decoder_def)
  have "dec_fields claims_field zero_claims (struct_members ?vals) =
      Inr \<lparr>Issuer = Issuer rc, Subject = Subject rc, Audience = Audience rc, ExpiresAt = map_option date_read (ExpiresAt rc),
        NotBefore = map_option date_read (NotBefore rc), IssuedAt = map_option date_read (IssuedAt rc), ID = ID rc,
        Confirmation = Confirmation rc\<rparr>"
    by (simp add: zero_claims_def claims_optional_field claims_date_field dates aud cnf del: struct_members.simps(2))
  also have "\<dots> = Inr (claims_read rc)" by (cases rc) (simp add: claims_read_def)
  finally have d: "dec_fields claims_field zero_claims (struct_members ?vals) = Inr (claims_read rc)" .
  have "distinct (map fst ?vals)" unfolding names by code_simp
  then have "\<forall>fs n raw. registered_fields rc = Inr fs \<longrightarrow> (n, False, raw) \<in> set fs \<longrightarrow> (\<exists>v. map_of (struct_members ?vals) n = Some (raw, v))"
    unfolding f using struct_members_map_of [of ?vals] by (force simp del: struct_members.simps)
  from that [OF m _ r n d this] show thesis by (simp add: enc_struct_hd)
qed

lemma marshal_claims_members:
  assumes "claims_emittable rc" "distinct (map fst ex)"
    "\<And>n om raw v. (n, om, raw, v) \<in> set ex \<Longrightarrow> valid_utf8 n \<and> n \<notin> set registered_names \<and> (\<not> om \<longrightarrow> reads_as 3 raw v)"
  obtains p vs where "marshal_claims rc (map (\<lambda>(n, om, raw, v). (n, om, raw)) ex) = Inr p" "hd p = CHR ''{''"
    "reads_as 4 p (JObj (vs @ struct_members ex))" "fst ` set vs \<subseteq> set registered_names"
    "dec_fields claims_field zero_claims vs = Inr (claims_read rc)"
    "\<forall>fs n raw. registered_fields rc = Inr fs \<longrightarrow> (n, False, raw) \<in> set fs \<longrightarrow> (\<exists>v. map_of vs n = Some (raw, v))"
  by (rule marshal_claims_members_at [OF assms(1,2) _ assms(3)]) (use that in simp_all)

lemma marshal_claims_read_back:
  assumes "claims_emittable rc" "distinct (map fst ex)"
    "\<And>n om raw v. (n, om, raw, v) \<in> set ex \<Longrightarrow> valid_utf8 n \<and> n \<notin> set registered_names \<and> (\<not> om \<longrightarrow> reads_as 3 raw v)"
  obtains p vs where "marshal_claims rc (map (\<lambda>(n, om, raw, v). (n, om, raw)) ex) = Inr p" "hd p = CHR ''{''"
    "reads_as 4 p (JObj (vs @ struct_members ex))" "fst ` set vs \<subseteq> set registered_names"
    "dec_fields claims_field zero_claims vs = Inr (claims_read rc)"
  by (rule marshal_claims_members [OF assms]) (use that in blast)

lemma dec_fields_skip: "fst ` set ms \<inter> set registered_names = {} \<Longrightarrow> dec_fields claims_field r ms = Inr r"
  by (induction ms) (auto simp: claims_field_other)

section \<open>Properties\<close>

text \<open>A date and what it is read back as: the same whole second, and otherwise less than 15260 ns away.\<close>

definition date_kept :: "time \<Rightarrow> time \<Rightarrow> bool" where
  "date_kept t t' \<longleftrightarrow> \<bar>t' - t\<bar> < 15260 \<and> (t mod second = 0 \<longrightarrow> t' = t)"

lemma date_read_kept: "date_in_range t \<Longrightarrow> date_kept t (date_read t)"
  by (simp add: date_kept_def date_read_close date_read_seconds)

lemma dates_read_kept: "pred_option date_in_range d \<Longrightarrow> rel_option date_kept d (map_option date_read d)"
  by (cases d) (simp_all add: date_read_kept)

text \<open>
  C26: registered claims survive the payload of a token.  Claims with valid UTF-8 strings, a non-empty
  audience when there is one, dates of the years 1 to 9999 and a publishable confirmation key
  are always emitted, whatever further fields the embedding struct adds, omitted ones included,
  if their names are distinct, valid UTF-8 and not those of registered claims, and their texts
  JSON values nested less than the parser's 10000 levels; and the decoder of \<^verbatim>\<open>Parse\<close> gives the
  claims back: every claim the same, and a date to the second exactly and with nanoseconds less
  than 15260 nanoseconds away.
\<close>

theorem registered_claims_roundtrip:
  assumes "claims_emittable rc" "distinct (map fst ex)"
    "\<forall>(n, omitted, raw) \<in> set ex. valid_utf8 n \<and> n \<notin> set registered_names
       \<and> (\<not> omitted \<longrightarrow> (\<exists>v. reads_as (max_depth - 1) raw v))"
  shows "\<exists>p rc'. marshal_claims rc ex = Inr p \<and> decodeObject dec_claims p = Inr rc'
    \<and> rc'\<lparr>ExpiresAt := ExpiresAt rc, NotBefore := NotBefore rc, IssuedAt := IssuedAt rc\<rparr> = rc
    \<and> rel_option date_kept (ExpiresAt rc) (ExpiresAt rc') \<and> rel_option date_kept (NotBefore rc) (NotBefore rc')
    \<and> rel_option date_kept (IssuedAt rc) (IssuedAt rc')"
proof -
  let ?val = "\<lambda>(n, omitted, raw). (n, omitted, raw, SOME v. reads_as (max_depth - 1) raw v)"
  let ?ex = "map ?val ex"
  have m: "map (\<lambda>(n, om, raw, v). (n, om, raw)) ?ex = ex" by (simp add: comp_def case_prod_beta)
  have n: "map fst ?ex = map fst ex" by (simp add: comp_def case_prod_beta)
  then have d: "distinct (map fst ?ex)" using assms(2) by (simp only:)
  have e: "valid_utf8 n \<and> n \<notin> set registered_names \<and> (\<not> om \<longrightarrow> reads_as (max_depth - 1) raw v)"
    if "(n, om, raw, v) \<in> set ?ex" for n om raw v
    using that assms(3) by (auto intro: someI_ex)
  have k: "3 \<le> max_depth - 1" "max_depth - 1 + 1 \<le> max_depth" by (simp_all add: max_depth_def)
  obtain p vs where p: "marshal_claims rc ex = Inr p" "hd p = CHR ''{''"
      "reads_as (max_depth - 1 + 1) p (JObj (vs @ struct_members ?ex))" "fst ` set vs \<subseteq> set registered_names"
      "dec_fields claims_field zero_claims vs = Inr (claims_read rc)"
    by (rule marshal_claims_members_at [OF assms(1) d k(1) e, unfolded m])
  have "fst ` set (struct_members ?ex) \<subseteq> set (map fst ?ex)" using struct_members_names [of ?ex] by (simp only: set_map [of fst ?ex])
  moreover have "set (map fst ex) \<inter> set registered_names = {}" using assms(3) by auto
  ultimately have "fst ` set (struct_members ?ex) \<inter> set registered_names = {}" unfolding n by blast
  then have "dec_fields claims_field r (struct_members ?ex) = Inr r" for r by (rule dec_fields_skip)
  then have "decodeObject dec_claims p = Inr (claims_read rc)"
    using decodeObject_reads_as [OF p(3) k(2) p(2), of dec_claims] p(5) by (simp add: dec_claims_def dec_fields_append)
  moreover have "(claims_read rc)\<lparr>ExpiresAt := ExpiresAt rc, NotBefore := NotBefore rc, IssuedAt := IssuedAt rc\<rparr> = rc"
    by (simp add: claims_read_def)
  moreover have "pred_option date_in_range (ExpiresAt rc)" "pred_option date_in_range (NotBefore rc)" "pred_option date_in_range (IssuedAt rc)"
    using assms(1) by (simp_all add: claims_emittable_def)
  ultimately show ?thesis using p(1) dates_read_kept by (intro exI conjI) (auto simp: claims_read_def)
qed

definition sample_claims :: registered_claims where
  "sample_claims = zero_claims\<lparr>Issuer := ''i'', Audience := Some [''a'', ''b''], ExpiresAt := Some (5 * second),
     Confirmation := Some \<lparr>JWKThumbprint = [], cnf_JWK = Some sample_okp_key\<rparr>\<rparr>"

lemma sample_claims_emittable: "claims_emittable sample_claims"
proof -
  have "checkCanonical sample_okp_key = None" "key_valid_utf8 sample_okp_key" "valid_utf8 ''i''" "valid_utf8 ''a''" "valid_utf8 ''b''" "valid_utf8 []"
    by code_simp+
  moreover have "Kty sample_okp_key \<noteq> KeyTypeOct" "k_k sample_okp_key = []"
    by (simp_all add: sample_okp_key_def FromEd25519PublicKey_def zero_key_def)
  ultimately show ?thesis
    by (simp add: claims_emittable_def sample_claims_def zero_claims_def cnf_emittable_def date_in_range_def minNumericDate_def maxNumericDate_def)
qed

text \<open>An embedding struct with a string, a list of strings and an omitted field.\<close>

theorem registered_claims_roundtrip_witness:
  "\<exists>p rc'. marshal_claims sample_claims
         [(''role'', False, enc_str ''admin''), (''tags'', False, enc_array (map enc_str [''a'', ''b''])), (''team'', True, [])] = Inr p
     \<and> decodeObject dec_claims p = Inr rc'
     \<and> ExpiresAt rc' = Some (5 * second) \<and> Confirmation rc' = Confirmation sample_claims"
proof -
  let ?ex = "[(''role'', False, enc_str ''admin''), (''tags'', False, enc_array (map enc_str [''a'', ''b''])), (''team'', True, [])]"
  have n: "list_all (\<lambda>n. valid_utf8 n \<and> n \<notin> set registered_names) [''role'', ''tags'', ''team'']" by code_simp
  have u: "valid_utf8 ''admin''" "\<forall>s \<in> set [''a'', ''b'']. valid_utf8 s" by code_simp+
  have "reads_as (max_depth - 1) (enc_str ''admin'') (JStr ''admin'')"
    by (rule reads_as_mono [OF reads_as_str [OF u(1)]]) (simp add: max_depth_def)
  moreover have "\<exists>v. reads_as (max_depth - 1) (enc_array (map enc_str [''a'', ''b''])) v"
    by (rule exI, rule reads_as_mono [OF reads_as_strings [OF u(2)]]) (simp add: max_depth_def)
  ultimately have e: "\<forall>(n, omitted, raw) \<in> set ?ex. valid_utf8 n \<and> n \<notin> set registered_names
       \<and> (\<not> omitted \<longrightarrow> (\<exists>v. reads_as (max_depth - 1) raw v))"
    using n by auto
  have "distinct (map fst ?ex)" by simp
  from registered_claims_roundtrip [OF sample_claims_emittable this e]
  obtain p rc' where p: "marshal_claims sample_claims ?ex = Inr p" "decodeObject dec_claims p = Inr rc'"
      "rc'\<lparr>ExpiresAt := ExpiresAt sample_claims, NotBefore := NotBefore sample_claims, IssuedAt := IssuedAt sample_claims\<rparr> = sample_claims"
      "rel_option date_kept (ExpiresAt sample_claims) (ExpiresAt rc')"
    by blast
  have "ExpiresAt rc' = Some (5 * second)" using p(4) by (cases "ExpiresAt rc'") (simp_all add: sample_claims_def date_kept_def)
  moreover have "Confirmation rc' = Confirmation sample_claims" using arg_cong [OF p(3), of Confirmation] by simp
  ultimately show ?thesis using p(1,2) by blast
qed

end
