(* ===== verification/Payload.thy ===== *)
theory Payload
  imports ClaimsJSON JWT
begin

text \<open>
  Claims structs of an application: the registered claims embedded first, then fields of its
  own.  The locale \<open>embeds_first\<close> puts \<open>embeds_registered\<close> and \<open>embeds_part\<close> together: such a
  struct is read back from
  what \<^verbatim>\<open>json.Marshal\<close> makes of it.  And how long emitted texts are, so that the size limit
  on tokens can be discharged.
\<close>

section \<open>Reading back\<close>

text \<open>A struct with an embedded part, whose members are those of the given names.\<close>

locale embeds_part =
  fixes field :: "'s \<Rightarrow> string \<Rightarrow> string \<Rightarrow> json \<Rightarrow> 's result" and inner_field :: "'e \<Rightarrow> string \<Rightarrow> string \<Rightarrow> json \<Rightarrow> 'e result"
    and part :: "'s \<Rightarrow> 'e" and put :: "'e \<Rightarrow> 's \<Rightarrow> 's" and names :: "string list"
  assumes own_field: "n \<in> set names \<Longrightarrow> field r n raw v = embedded inner_field (part r) (\<lambda>x. put x r) n raw v"
    and put_laws: "part (put x r) = x" "put x (put y r) = put x r" "put (part r) r = r"
begin

lemma dec_fields_own:
  "fst ` set vs \<subseteq> set names \<Longrightarrow> dec_fields inner_field (part r) vs = Inr x \<Longrightarrow> dec_fields field r vs = Inr (put x r)"
proof (induction vs arbitrary: r)
  case Nil
  then show ?case using put_laws(3) by auto
next
  case (Cons m vs)
  obtain n raw v where m: "m = (n, raw, v)" by (cases m)
  with Cons.prems obtain y where y: "inner_field (part r) n raw v = Inr y" "dec_fields inner_field y vs = Inr x"
    by (auto split: sum.splits)
  have "field r n raw v = Inr (put y r)" using own_field [of n r raw v] Cons.prems(1) m y(1) by (simp add: embedded_def set_res_def)
  moreover have "dec_fields field (put y r) vs = Inr (put x (put y r))"
    by (rule Cons.IH) (use Cons.prems(1) y(2) put_laws(1) in auto)
  ultimately show ?case using m put_laws(2) by simp
qed

end

locale embeds_first = embeds_registered field registered zero + embeds_part field claims_field registered put registered_names
  for field :: "'s \<Rightarrow> string \<Rightarrow> string \<Rightarrow> json \<Rightarrow> 's result" and registered :: "'s \<Rightarrow> registered_claims" and zero :: 's
    and put :: "registered_claims \<Rightarrow> 's \<Rightarrow> 's"
begin

lemma payload_read_back:
  assumes "claims_emittable rc" "distinct (map fst ex)"
    "\<And>n om raw v. (n, om, raw, v) \<in> set ex \<Longrightarrow> valid_utf8 n \<and> n \<notin> set registered_names \<and> (\<not> om \<longrightarrow> reads_as 3 raw v)"
  obtains p ms where "marshal_claims rc (map (\<lambda>(n, om, raw, v). (n, om, raw)) ex) = Inr p"
    "decodeObject dec_members p = Inr ms" "decodeObject dec_claims p = Inr (claims_read rc)"
    "decodeObject (dec_struct field zero) p = dec_fields field (put (claims_read rc) zero) (struct_members ex)"
proof -
  obtain p vs where p: "marshal_claims rc (map (\<lambda>(n, om, raw, v). (n, om, raw)) ex) = Inr p" "hd p = CHR ''{''"
      "reads_as 4 p (JObj (vs @ struct_members ex))" "fst ` set vs \<subseteq> set registered_names"
      "dec_fields claims_field zero_claims vs = Inr (claims_read rc)"
    by (rule marshal_claims_read_back [OF assms])
  note d = decodeObject_reads_as [OF p(3) _ p(2)]
  have "set registered_names \<inter> fst ` set ex = {}" using assms(3) by fastforce
  then have "dec_fields claims_field r (struct_members ex) = Inr r" for r
    using struct_members_names [of ex] by (intro dec_fields_skip) blast
  then have "decodeObject dec_claims p = Inr (claims_read rc)"
    using d [of dec_claims] p(5) by (simp add: max_depth_def dec_claims_def dec_fields_append)
  moreover have "decodeObject (dec_struct field zero) p = dec_fields field (put (claims_read rc) zero) (struct_members ex)"
    using d [of "dec_struct field zero"] dec_fields_own [OF p(4), of zero] p(5) zero_registered
    by (simp add: max_depth_def dec_fields_append)
  moreover have "decodeObject dec_members p = Inr (vs @ struct_members ex)" using d [of dec_members] by (simp add: max_depth_def)
  ultimately show thesis using that p(1) by blast
qed

end

section \<open>Lengths\<close>

lemma length_esc_body: "length (esc_body s) \<le> 6 * length s"
proof (induction s rule: esc_body.induct)
  case (1 s)
  show ?case
  proof (cases s)
    case Nil
    then show ?thesis by (simp add: esc_body.simps)
  next
    case (Cons c r)
    have a: "length (esc_ascii c) \<le> 6" by (simp add: esc_ascii_def)
    have u: "length (esc_rune (take k s)) \<le> 6 * k" if "0 < k" for k using that by (simp add: esc_rune_def min_def)
    have l: "utf8_len s \<le> length s" by (rule utf8_len_le)
    show ?thesis
      using 1 Cons a u [of "utf8_len s"] l by (subst esc_body.simps) (auto simp del: utf8_len.simps)
  qed
qed

lemma length_enc_str: "length (enc_str s) \<le> 6 * length s + 2"
  using length_esc_body [of s] by (simp add: enc_str_def)

lemma length_join_with: "length (join_with [c] ss) \<le> sum_list (map (\<lambda>s. length s + 1) ss)"
  by (induction "[c]" ss rule: join_with.induct) auto

lemma length_enc_struct:
  "length (enc_struct fs) \<le> 2 + sum_list (map (\<lambda>(n, om, raw). 6 * length n + length raw + 4) fs)"
proof -
  let ?m = "map (\<lambda>(n, raw). enc_str n @ '':'' @ raw) (map (\<lambda>(n, om, raw). (n, raw)) (filter (\<lambda>(n, om, raw). \<not> om) fs))"
  have "sum_list (map (\<lambda>s. length s + 1) ?m) \<le> sum_list (map (\<lambda>(n, om, raw). 6 * length n + length raw + 4) fs)"
  proof (induction fs)
    case (Cons f fs)
    obtain n om raw where f: "f = (n, om, raw)" by (cases f)
    have "length (enc_str n) \<le> 6 * length n + 2" by (rule length_enc_str)
    with Cons show ?case by (auto simp: f)
  qed simp
  then show ?thesis using length_join_with [of "CHR '',''" ?m] by (simp add: enc_struct_def enc_object_def)
qed

lemma length_NumericDate:
  assumes "date_in_range t"
  shows "length (NumericDate_MarshalJSON t) \<le> 24"
proof -
  have d: "length (nat_digits n) \<le> 12" if "0 \<le> n" "n < 10 ^ 12" for n using nat_digits_length [of n 12] that by simp
  have t: "t div second \<le> 253402300799" "- 62135596800 \<le> t div second"
    using assms zdiv_mono1 [of t "253402300799 * second" second] zdiv_mono1 [of "- 62135596800 * second" t second]
    by (simp_all add: date_in_range_def minNumericDate_def maxNumericDate_def)
  have s: "length (FormatInt n) \<le> 13" if "- 1000000000000 < n" "n < 1000000000000" for n
    using that d [of n] d [of "- n"] by (cases "n < 0") (auto simp: FormatInt_def)
  show ?thesis
  proof (cases "t mod second = 0")
    case True
    then show ?thesis using s [of "t div second"] t by (simp add: NumericDate_MarshalJSON_def)
  next
    case False
    obtain neg w f where m: "NumericDate_MarshalJSON t = decimal neg w (trim_right (pad9 f) ''0'')" "0 \<le> w" "0 < f" "f < second"
        "t = (if neg then - (w * second + f) else w * second + f)"
      by (rule NumericDate_MarshalJSON_decimal [OF False])
    have "w * second \<le> 253402300799 * second"
      using assms m(3,5) by (auto simp: date_in_range_def minNumericDate_def maxNumericDate_def split: if_splits)
    then have w: "length (nat_digits w) \<le> 12" using d [of w] m(2) by simp
    have "length (nat_digits f) \<le> 9" using nat_digits_length [of f 9] m(3,4) by simp
    then have "length (pad9 f) = 9" by (simp add: pad9_def)
    moreover have "length (trim_right x cs) \<le> length x" for x cs by (simp add: trim_right_def) (metis length_dropWhile_le length_rev)
    ultimately have "length (trim_right (pad9 f) ''0'') \<le> 9" by metis
    with w show ?thesis by (simp add: m(1) decimal_def)
  qed
qed

lemma length_enc_date: "pred_option date_in_range d \<Longrightarrow> length (enc_date d) \<le> 24"
  by (cases d) (simp_all add: enc_date_def length_NumericDate)

text \<open>The longest payload of claims without a confirmation key.\<close>

lemma length_marshal_claims:
  assumes "marshal_claims rc ex = Inr p" "claims_emittable rc" "Confirmation rc = None"
  shows "length p \<le> 300 + 6 * (length (Issuer rc) + length (Subject rc) + length (ID rc)) + length (Audience_MarshalJSON (Audience rc))
    + sum_list (map (\<lambda>(n, om, raw). 6 * length n + length raw + 4) ex)"
proof -
  have "length (enc_date (ExpiresAt rc)) \<le> 24" "length (enc_date (NotBefore rc)) \<le> 24" "length (enc_date (IssuedAt rc)) \<le> 24"
    using assms(2) by (simp_all add: claims_emittable_def length_enc_date)
  moreover have "length (enc_str (Issuer rc)) \<le> 6 * length (Issuer rc) + 2" "length (enc_str (Subject rc)) \<le> 6 * length (Subject rc) + 2"
    "length (enc_str (ID rc)) \<le> 6 * length (ID rc) + 2" by (rule length_enc_str)+
  moreover obtain fs where fs: "registered_fields rc = Inr fs" "p = enc_struct (fs @ ex)"
    using assms(1) by (auto simp: marshal_claims_def split: sum.splits)
  moreover have "sum_list (map (\<lambda>(n, om, raw). 6 * length n + length raw + 4) fs) =
      180 + length (enc_str (Issuer rc)) + length (enc_str (Subject rc)) + length (enc_str (ID rc)) + length (Audience_MarshalJSON (Audience rc))
      + length (enc_date (ExpiresAt rc)) + length (enc_date (NotBefore rc)) + length (enc_date (IssuedAt rc))"
    using fs(1) assms(3) by (auto simp: registered_fields_def)
  ultimately show ?thesis using length_enc_struct [of "fs @ ex"] by simp
qed

lemma length_Encode: "length (Encode b) \<le> 2 * length b"
proof -
  have "len (Encode b) = (len b * 4 + 2) div 3" unfolding Encode_def by (rule b64_encode_len)
  then show ?thesis by (simp add: len_def)
qed

lemma length_token_of: "length (token_of hj p sig) \<le> 2 * (length hj + length p + length sig + 1)"
  using length_Encode [of hj] length_Encode [of p] length_Encode [of sig] by (simp add: token_of_def)

lemma length_sign_header:
  "length (marshal_header (sign_header s [])) \<le> 600 + 6 * (length (signer_Algorithm s) + length (signer_KeyID s))"
proof -
  let ?fs = "header_fields (sign_header s [])"
  have "length (enc_str (signer_Algorithm s)) \<le> 6 * length (signer_Algorithm s) + 2"
    "length (enc_str (signer_KeyID s)) \<le> 6 * length (signer_KeyID s) + 2" "length (enc_str ''JWT'') \<le> 6 * length ''JWT'' + 2"
    by (rule length_enc_str)+
  moreover have "sum_list (map (\<lambda>(n, om, raw). 6 * length n + length raw + 4) ?fs) \<le>
      500 + length (enc_str (signer_Algorithm s)) + length (enc_str (signer_KeyID s)) + length (enc_str ''JWT'')"
    by (simp add: header_fields_def sign_header_def apply_options_def DefaultType_def zero_header_def Let_def enc_array_def enc_str_def esc_body.simps)
  ultimately show ?thesis using length_enc_struct [of ?fs] by (simp add: marshal_header_def)
qed

text \<open>The common case: string fields without \<^verbatim>\<open>omitempty\<close>, and no confirmation key.\<close>

definition str_fields :: "(string \<times> string) list \<Rightarrow> (string \<times> bool \<times> string) list" where
  "str_fields ex = map (\<lambda>(n, s). (n, False, enc_str s)) ex"

definition str_members :: "(string \<times> string) list \<Rightarrow> members" where
  "str_members ex = map (\<lambda>(n, s). (n, enc_str s, JStr s)) ex"

context embeds_first
begin

lemma string_payload:
  assumes "claims_emittable rc" "Confirmation rc = None" "distinct (map fst ex)"
    "list_all (\<lambda>(n, s). valid_utf8 n \<and> valid_utf8 s \<and> n \<notin> set registered_names) ex"
  obtains p ms where "marshal_claims rc (str_fields ex) = Inr p" "decodeObject dec_members p = Inr ms"
    "decodeObject dec_claims p = Inr (claims_read rc)"
    "decodeObject (dec_struct field zero) p = dec_fields field (put (claims_read rc) zero) (str_members ex)"
    "length p \<le> 300 + 6 * (length (Issuer rc) + length (Subject rc) + length (ID rc)) + length (Audience_MarshalJSON (Audience rc))
       + sum_list (map (\<lambda>(n, s). 6 * length n + 6 * length s + 6) ex)"
proof -
  let ?ex = "map (\<lambda>(n, s). (n, False, enc_str s, JStr s)) ex"
  have m: "map (\<lambda>(n, om, raw, v). (n, om, raw)) ?ex = str_fields ex" by (auto simp: str_fields_def)
  have v: "struct_members ?ex = str_members ex" by (induction ex) (auto simp: str_members_def)
  have "map fst ?ex = map fst ex" by auto
  then have d: "distinct (map fst ?ex)" using assms(3) by (simp only:)
  have e: "valid_utf8 n \<and> n \<notin> set registered_names \<and> (\<not> om \<longrightarrow> reads_as 3 raw v)" if "(n, om, raw, v) \<in> set ?ex" for n om raw v
    using that assms(4) by (auto simp: list_all_iff intro!: reads_as_mono [OF reads_as_str])
  obtain p ms where p: "marshal_claims rc (str_fields ex) = Inr p" "decodeObject dec_members p = Inr ms"
      "decodeObject dec_claims p = Inr (claims_read rc)"
      "decodeObject (dec_struct field zero) p = dec_fields field (put (claims_read rc) zero) (str_members ex)"
    by (rule payload_read_back [OF assms(1) d e, unfolded m v])
  have "sum_list (map (\<lambda>(n, om, raw). 6 * length n + length raw + 4) (str_fields ex)) \<le> sum_list (map (\<lambda>(n, s). 6 * length n + 6 * length s + 6) ex)"
  proof (induction ex)
    case (Cons x ex)
    obtain n s where x: "x = (n, s)" by (cases x)
    with Cons length_enc_str [of s] show ?case by (simp add: str_fields_def)
  qed (simp add: str_fields_def)
  then have "length p \<le> 300 + 6 * (length (Issuer rc) + length (Subject rc) + length (ID rc)) + length (Audience_MarshalJSON (Audience rc))
       + sum_list (map (\<lambda>(n, s). 6 * length n + 6 * length s + 6) ex)"
    using length_marshal_claims [OF p(1) assms(1,2)] by linarith
  with p show thesis using that by blast
qed

end

lemma length_single_audience: "length (Audience_MarshalJSON (Some [a])) \<le> 6 * length a + 2"
  using length_enc_str by (simp add: Audience_MarshalJSON_def)

section \<open>Signed tokens\<close>

text \<open>
  A signer that signs everything, and a verifier for its tokens: what it signs is within the
  size limit and accepted, when the payload is small.
\<close>

lemma signed_token_accepted:
  assumes "\<not> is_none (signer_Algorithm s)" "\<And>m. \<exists>sig. signer_Sign c s m = Inr sig \<and> length sig \<le> 10000"
    "decodeObject dec_members p = Inr ms" "length p \<le> 10000" "length (signer_Algorithm s) \<le> 1000" "length (signer_KeyID s) \<le> 1000"
    "header_valid_utf8 (sign_header s [])" "signer_Algorithm s \<in> set (pc_allowedAlgs cfg)" "verifier_for c keys cfg (sign_header s []) v"
    "\<And>input sig. signer_Sign c s input = Inr sig \<Longrightarrow> verifier_Verify c v input sig = None"
    "decodeObject dec_claims p = Inr rc" "claims_valid u p rc (sign_header s []) cfg"
  obtains sig where "Sign c (Inr p) (Some s) [] = Inr (token_of (marshal_header (sign_header s [])) p sig)"
    "len (token_of (marshal_header (sign_header s [])) p sig) \<le> 70000"
    "parseVerified c u (token_of (marshal_header (sign_header s [])) p sig) keys cfg = Inr (sign_header s [], p)"
proof -
  let ?hj = "marshal_header (sign_header s [])"
  obtain sig where sig: "signer_Sign c s (signing_input ?hj p) = Inr sig" "length sig \<le> 10000" using assms(2) by blast
  have t: "Sign c (Inr p) (Some s) [] = Inr (token_of ?hj p sig)" using assms(1,3) sig(1) by (simp add: Sign_Inr)
  have l: "len (token_of ?hj p sig) \<le> 70000"
    using length_token_of [of ?hj p sig] length_sign_header [of s] assms(4-6) sig(2) by (simp add: len_def)
  then have "len (token_of ?hj p sig) \<le> maxTokenBytes" by (simp add: maxTokenBytes_def)
  from sign_parse [OF t this assms(7-12)] t l show thesis using that by blast
qed

end
