(* ===== verification/Examples.thy ===== *)
theory Examples
  imports HTTPAuth Payload JWEProofs
begin

text \<open>
  The programs \<^verbatim>\<open>examples/basic_hmac\<close> and \<^verbatim>\<open>examples/http_middleware\<close>: their claims structs
  and their \<^verbatim>\<open>main\<close>.  A program gives the texts
  it prints and the error of \<^verbatim>\<open>log.Fatal\<close>, if it ends there; what it draws from
  \<^verbatim>\<open>crypto/rand\<close> and reads from the clock are its arguments.

  Shown: with an HMAC of its length and a clock within the range of a NumericDate, each program runs to its end and prints what it is meant
  to; signing, emitting the claims, the size limit, verification and decoding compose.
\<close>

type_synonym program_run = "string list \<times> go_error option"

abbreviation line_end :: string where "line_end \<equiv> [chr 10]"

section \<open>Claims structs\<close>

record session_claims =
  ses_Registered :: registered_claims
  Role :: string

definition zero_session :: session_claims where
  "zero_session = \<lparr>ses_Registered = zero_claims, Role = []\<rparr>"

definition session_field :: "session_claims \<Rightarrow> string \<Rightarrow> string \<Rightarrow> json \<Rightarrow> session_claims result" where
  "session_field r n raw v =
     (if n = ''role'' then set_str (\<lambda>x. r\<lparr>Role := x\<rparr>) v
      else embedded claims_field (ses_Registered r) (\<lambda>x. r\<lparr>ses_Registered := x\<rparr>) n raw v)"

definition marshal_session :: "session_claims \<Rightarrow> bytes result" where
  "marshal_session s = marshal_claims (ses_Registered s) [(''role'', False, enc_str (Role s))]"

record api_claims =
  api_Registered :: registered_claims
  api_Scope :: string

definition zero_api :: api_claims where
  "zero_api = \<lparr>api_Registered = zero_claims, api_Scope = []\<rparr>"

definition api_field :: "api_claims \<Rightarrow> string \<Rightarrow> string \<Rightarrow> json \<Rightarrow> api_claims result" where
  "api_field r n raw v =
     (if n = ''scope'' then set_str (\<lambda>x. r\<lparr>api_Scope := x\<rparr>) v
      else embedded claims_field (api_Registered r) (\<lambda>x. r\<lparr>api_Registered := x\<rparr>) n raw v)"

definition marshal_api :: "api_claims \<Rightarrow> bytes result" where
  "marshal_api s = marshal_claims (api_Registered s) [(''scope'', False, enc_str (api_Scope s))]"

interpretation session: embeds_first session_field ses_Registered zero_session "\<lambda>x r. r\<lparr>ses_Registered := x\<rparr>"
  by unfold_locales (auto simp: session_field_def zero_session_def embedded_Inr claims_field_other registered_names_def
      dest!: set_str_Inr split: if_splits)

interpretation api: embeds_first api_field api_Registered zero_api "\<lambda>x r. r\<lparr>api_Registered := x\<rparr>"
  by unfold_locales (auto simp: api_field_def zero_api_def embedded_Inr claims_field_other registered_names_def
      dest!: set_str_Inr split: if_splits)

section \<open>\<^verbatim>\<open>basic_hmac\<close>\<close>

definition minutes :: "int \<Rightarrow> int" where "minutes n = n * 60 * second"

definition session_of :: "time \<Rightarrow> time \<Rightarrow> session_claims" where
  "session_of t1 t2 = \<lparr>ses_Registered = zero_claims\<lparr>Issuer := ''https://auth.example'', Subject := ''user-42'',
     Audience := Some [''https://api.example''], ExpiresAt := Some (t1 + minutes 15), IssuedAt := Some t2\<rparr>, Role = ''admin''\<rparr>"

definition main_basic_hmac :: "crypto \<Rightarrow> (string \<Rightarrow> string) \<Rightarrow> time \<Rightarrow> time \<Rightarrow> time \<Rightarrow> entropy \<Rightarrow> program_run" where
  "main_basic_hmac c uni_lower t1 t2 t3 e =
     (case rand_Read 32 e of (secret, _) \<Rightarrow>
        case NewHMACSigner HS256 secret [''sess-key-1''] of
          Inl err \<Rightarrow> ([], Some err)
        | Inr signer \<Rightarrow>
            (case Sign c (marshal_session (session_of t1 t2)) (Some signer) [] of
               Inl err \<Rightarrow> ([], Some err)
             | Inr token \<Rightarrow>
                 let keys = static_Lookup (StaticKeyProvider (FromHMACSecret secret [''sess-key-1'']))
                 in (case Parse c uni_lower (dec_struct session_field zero_session) t3 token (Some zero_session) (Some keys)
                       [Some (WithAllowedAlgorithms [HS256]), Some (WithIssuer ''https://auth.example''),
                        Some (WithAudience ''https://api.example'')] of
                       (Some err, _) \<Rightarrow> ([''token: '' @ token @ line_end], Some err)
                     | (None, claims) \<Rightarrow>
                         ([''token: '' @ token @ line_end,
                           ''verified: sub='' @ Subject (ses_Registered (the claims)) @ '' role='' @ Role (the claims) @ line_end], None))))"

section \<open>\<^verbatim>\<open>http_middleware\<close>\<close>

definition api_claims_of :: "time \<Rightarrow> api_claims" where
  "api_claims_of t = \<lparr>api_Registered = zero_claims\<lparr>Subject := ''user-7'', Audience := Some [''https://api.example''],
     ExpiresAt := Some (t + minutes 1)\<rparr>, api_Scope = ''read''\<rparr>"

text \<open>The protected handler on the payload in the context; \<open>text_of\<close> is the text of an error.\<close>

definition protected_handler :: "(string \<Rightarrow> bool) \<Rightarrow> (go_error \<Rightarrow> string) \<Rightarrow> bytes \<Rightarrow> response" where
  "protected_handler is_print text_of payload =
     (case ClaimsFromContext (dec_struct api_field zero_api) (Some payload) (Some zero_api) of
        (Some err, _) \<Rightarrow> \<lparr>rsp_status = 500, rsp_challenge = None, rsp_body = text_of err @ line_end\<rparr>
      | (None, claims) \<Rightarrow> \<lparr>rsp_status = 200, rsp_challenge = None,
          rsp_body = ''hello '' @ Subject (api_Registered (the claims)) @ '' (scope '' @ quote is_print (api_Scope (the claims)) @ '')'' @ line_end\<rparr>)"

definition serve :: "(string \<Rightarrow> bool) \<Rightarrow> (go_error \<Rightarrow> string) \<Rightarrow> go_error list \<times> outcome \<Rightarrow> response" where
  "serve is_print text_of o' = (case snd o' of Next payload \<Rightarrow> protected_handler is_print text_of payload | Answer rsp \<Rightarrow> rsp)"

definition main_http_middleware :: "crypto \<Rightarrow> (string \<Rightarrow> string) \<Rightarrow> (string \<Rightarrow> bool) \<Rightarrow> (go_error \<Rightarrow> string) \<Rightarrow> time \<Rightarrow> time \<Rightarrow> time \<Rightarrow> program_run" where
  "main_http_middleware c uni_lower is_print text_of t1 t2 t3 =
     (let secret = ''a-32-byte-hmac-secret-for-hs256!!''
      in case NewHMACSigner HS256 secret [''k1''] of
           Inl err \<Rightarrow> ([], Some err)
         | Inr signer \<Rightarrow>
             let keys = static_Lookup (StaticKeyProvider (FromHMACSecret secret [''k1'']));
                 handler = (\<lambda>wall values. serve is_print text_of (Middleware c uni_lower is_print wall (Some keys)
                   [Some (WithAllowedAlgorithms [HS256]), Some (WithAudience ''https://api.example'')] values));
                 token = (case Sign c (marshal_api (api_claims_of t1)) (Some signer) [] of Inl _ \<Rightarrow> [] | Inr token \<Rightarrow> token);
                 authorized = handler t2 [''Bearer '' @ token];
                 missing = handler t3 []
             in ([''with token:   '' @ FormatInt (rsp_status authorized) @ '' '' @ rsp_body authorized,
                  ''no token:     '' @ FormatInt (rsp_status missing) @ ''  WWW-Authenticate: ''
                    @ (case rsp_challenge missing of None \<Rightarrow> [] | Some ch \<Rightarrow> ch) @ line_end], None))"

section \<open>Lemmas\<close>

text \<open>A date that is read back is less than 15260 nanoseconds away.\<close>

lemma not_yet_expired: "date_in_range t \<Longrightarrow> now + 15260 \<le> t \<Longrightarrow> now < date_read t"
  using date_read_close [of t] by linarith

lemma session_read_back:
  assumes "date_in_range (t1 + minutes 15)" "date_in_range t2"
  obtains p ms where "marshal_session (session_of t1 t2) = Inr p" "decodeObject dec_members p = Inr ms"
    "decodeObject dec_claims p = Inr (claims_read (ses_Registered (session_of t1 t2)))" "length p \<le> 10000"
    "decodeObject (dec_struct session_field zero_session) p = Inr \<lparr>ses_Registered = claims_read (ses_Registered (session_of t1 t2)), Role = ''admin''\<rparr>"
proof -
  let ?rc = "ses_Registered (session_of t1 t2)"
  have u: "list_all valid_utf8 [''https://auth.example'', ''user-42'', ''https://api.example'', ''role'', ''admin'', []]" by code_simp
  have rc: "claims_emittable ?rc" using assms u by (simp add: claims_emittable_def session_of_def zero_claims_def)
  have c: "Confirmation ?rc = None" by (simp add: session_of_def zero_claims_def)
  obtain p ms where p: "marshal_claims ?rc (str_fields [(''role'', ''admin'')]) = Inr p" "decodeObject dec_members p = Inr ms"
      "decodeObject dec_claims p = Inr (claims_read ?rc)"
      "decodeObject (dec_struct session_field zero_session) p =
        dec_fields session_field (zero_session\<lparr>ses_Registered := claims_read ?rc\<rparr>) (str_members [(''role'', ''admin'')])"
      "length p \<le> 300 + 6 * (length (Issuer ?rc) + length (Subject ?rc) + length (ID ?rc)) + length (Audience_MarshalJSON (Audience ?rc))
         + sum_list (map (\<lambda>(n, s). 6 * length n + 6 * length s + 6) [(''role'', ''admin'')])"
    by (rule session.string_payload [OF rc c, of "[(''role'', ''admin'')]"]) (use u in \<open>auto simp: registered_names_def\<close>)
  have "length p \<le> 10000"
    using p(5) length_single_audience [of "''https://api.example''"] by (simp add: session_of_def zero_claims_def)
  with that p(1-4) show thesis
    by (simp add: marshal_session_def str_fields_def str_members_def session_of_def session_field_def set_str_def zero_session_def)
qed

lemma api_read_back:
  assumes "date_in_range (t1 + minutes 1)"
  obtains p ms where "marshal_api (api_claims_of t1) = Inr p" "decodeObject dec_members p = Inr ms"
    "decodeObject dec_claims p = Inr (claims_read (api_Registered (api_claims_of t1)))" "length p \<le> 10000"
    "decodeObject (dec_struct api_field zero_api) p = Inr \<lparr>api_Registered = claims_read (api_Registered (api_claims_of t1)), api_Scope = ''read''\<rparr>"
proof -
  let ?rc = "api_Registered (api_claims_of t1)"
  have u: "list_all valid_utf8 [''user-7'', ''https://api.example'', ''scope'', ''read'', []]" by code_simp
  have rc: "claims_emittable ?rc" using assms u by (simp add: claims_emittable_def api_claims_of_def zero_claims_def)
  have c: "Confirmation ?rc = None" by (simp add: api_claims_of_def zero_claims_def)
  obtain p ms where p: "marshal_claims ?rc (str_fields [(''scope'', ''read'')]) = Inr p" "decodeObject dec_members p = Inr ms"
      "decodeObject dec_claims p = Inr (claims_read ?rc)"
      "decodeObject (dec_struct api_field zero_api) p =
        dec_fields api_field (zero_api\<lparr>api_Registered := claims_read ?rc\<rparr>) (str_members [(''scope'', ''read'')])"
      "length p \<le> 300 + 6 * (length (Issuer ?rc) + length (Subject ?rc) + length (ID ?rc)) + length (Audience_MarshalJSON (Audience ?rc))
         + sum_list (map (\<lambda>(n, s). 6 * length n + 6 * length s + 6) [(''scope'', ''read'')])"
    by (rule api.string_payload [OF rc c, of "[(''scope'', ''read'')]"]) (use u in \<open>auto simp: registered_names_def\<close>)
  have "length p \<le> 10000"
    using p(5) length_single_audience [of "''https://api.example''"] by (simp add: api_claims_of_def zero_claims_def)
  with that p(1-4) show thesis
    by (simp add: marshal_api_def str_fields_def str_members_def api_claims_of_def api_field_def set_str_def zero_api_def)
qed

text \<open>A token signed with an HMAC secret, under the policy of a program.\<close>

lemma hmac_token_accepted:
  assumes "\<And>k m. len (hmac_sum c SHA256 k m) = 32" "NewHMACSigner HS256 secret [kid] = Inr s" "secret \<noteq> []"
    "length kid \<le> 1000" "list_all isASCII kid" "decodeObject dec_members p = Inr ms" "length p \<le> 10000"
    "pc_allowedAlgs cfg = [HS256]" "pc_verifierProvider cfg = None"
    "decodeObject dec_claims p = Inr rc" "claims_valid u p rc (sign_header s []) cfg"
  obtains sig where "Sign c (Inr p) (Some s) [] = Inr (token_of (marshal_header (sign_header s [])) p sig)"
    "parseVerified c u (token_of (marshal_header (sign_header s [])) p sig)
       (Some (static_Lookup (StaticKeyProvider (FromHMACSecret secret [kid])))) cfg = Inr (sign_header s [], p)"
proof -
  obtain h where s: "s = HmacSigner HS256 secret kid h" "Hash HS256 = Some h" using assms(2) by (auto simp: NewHMACSigner_Inr)
  then have h: "h = SHA256" by (simp add: Hash_def)
  have f: "h_Algorithm (sign_header s []) = HS256" "h_KeyID (sign_header s []) = kid" by (simp_all add: s)
  from hmac_static_verifies [OF assms(2,3,8,9) f, of c] obtain v where
    v: "verifier_for c (Some (static_Lookup (StaticKeyProvider (FromHMACSecret secret [kid])))) cfg (sign_header s []) v"
    "\<And>input sig. signer_Sign c s input = Inr sig \<Longrightarrow> verifier_Verify c v input sig = None" "signer_Algorithm s = HS256" by blast
  have n: "\<not> is_none HS256" by code_simp
  show thesis
  proof (rule signed_token_accepted [OF _ _ assms(6,7) _ _ _ _ v(1,2) assms(10,11)])
    show "\<exists>sig. signer_Sign c s m = Inr sig \<and> length sig \<le> 10000" for m
      using assms(1) by (auto simp: s h hmacSigner_Sign_def len_def)
    have "list_all valid_utf8 [HS256, ''JWT'', []]" by code_simp
    then show "header_valid_utf8 (sign_header s [])"
      using assms(5) by (simp add: s header_valid_utf8_def sign_header_def apply_options_def DefaultType_def zero_header_def valid_utf8_ASCII)
  qed (use n assms(4,8) that in \<open>auto simp: s\<close>)
qed

section \<open>Properties\<close>

text \<open>
  \<^verbatim>\<open>basic_hmac\<close> verifies its own token.  With an HMAC of 32 bytes and clock readings in the
  range of a NumericDate, of which the last is more than the rounding before the expiry,
  the program signs its session claims, accepts the token back, and prints the subject and
  the role it signed.
\<close>

theorem basic_hmac_verifies:
  assumes "\<And>k m. len (hmac_sum c SHA256 k m) = 32" "date_in_range (t1 + minutes 15)" "date_in_range t2" "t3 + 15260 \<le> t1 + minutes 15"
  shows "\<exists>token. main_basic_hmac c u t1 t2 t3 e = ([''token: '' @ token @ line_end, ''verified: sub=user-42 role=admin'' @ line_end], None)"
proof -
  let ?secret = "map e [0..<32]" and ?rc = "ses_Registered (session_of t1 t2)"
  obtain p ms where p: "marshal_session (session_of t1 t2) = Inr p" "decodeObject dec_members p = Inr ms"
      "decodeObject dec_claims p = Inr (claims_read ?rc)" "length p \<le> 10000"
      "decodeObject (dec_struct session_field zero_session) p = Inr \<lparr>ses_Registered = claims_read ?rc, Role = ''admin''\<rparr>"
    by (rule session_read_back [OF assms(2,3)])
  have k: "NewHMACSigner HS256 ?secret [''sess-key-1''] = Inr (HmacSigner HS256 ?secret ''sess-key-1'' SHA256)"
    by (simp add: NewHMACSigner_def Hash_def FamilyOf_def len_def)
  let ?opts = "[Some (WithAllowedAlgorithms [HS256]), Some (WithIssuer ''https://auth.example''), Some (WithAudience ''https://api.example'')]"
  define cfg where "cfg = apply_options applyParse ?opts (default_config t3)"
  have cfg: "pc_allowedAlgs cfg = [HS256]" "pc_issuer cfg = ''https://auth.example''" "pc_audience cfg = ''https://api.example''"
    "pc_now cfg = t3" "pc_leeway cfg = 0" "pc_requiredType cfg = []" "pc_requiredClaims cfg = []" "pc_verifierProvider cfg = None"
    by (simp_all add: cfg_def apply_options_def default_config_def)
  have v: "claims_valid u p (claims_read ?rc) h cfg" for h
    using not_yet_expired [OF assms(2,4)]
    by (simp add: cfg claims_valid_def time_valid_def audience_valid_def Has_def claims_read_def session_of_def zero_claims_def time_add_def)
  obtain sig where "Sign c (Inr p) (Some (HmacSigner HS256 ?secret ''sess-key-1'' SHA256)) [] =
        Inr (token_of (marshal_header (sign_header (HmacSigner HS256 ?secret ''sess-key-1'' SHA256) [])) p sig)"
      "parseVerified c u (token_of (marshal_header (sign_header (HmacSigner HS256 ?secret ''sess-key-1'' SHA256) [])) p sig)
        (Some (static_Lookup (StaticKeyProvider (FromHMACSecret ?secret [''sess-key-1''])))) cfg
        = Inr (sign_header (HmacSigner HS256 ?secret ''sess-key-1'' SHA256) [], p)"
    by (rule hmac_token_accepted [OF assms(1) k _ _ _ p(2,4) _ _ p(3) v]) (simp_all add: cfg isASCII_def)
  then show ?thesis
    using p(1,5) k by (simp add: main_basic_hmac_def rand_Read_def Parse_def decodeFreshObject_def cfg_def session_of_def claims_read_def)
qed

theorem basic_hmac_verifies_witness:
  "\<exists>token. main_basic_hmac (sample_crypto\<lparr>hmac_sum := \<lambda>h k m. replicate 32 CHR ''m''\<rparr>) id 0 1 2 (\<lambda>_. CHR ''r'')
     = ([''token: '' @ token @ line_end, ''verified: sub=user-42 role=admin'' @ line_end], None)"
  by (rule basic_hmac_verifies)
    (simp_all add: len_def minutes_def date_in_range_def minNumericDate_def maxNumericDate_def)

text \<open>
  C40: \<^verbatim>\<open>http_middleware\<close> answers the request with its token with 200 and the subject and
  scope of the token, and the request without credentials with 401 and the bare challenge.
\<close>

theorem http_middleware_demo:
  assumes "\<And>k m. len (hmac_sum c SHA256 k m) = 32" "date_in_range (t1 + minutes 1)" "t2 + 15260 \<le> t1 + minutes 1"
  shows "main_http_middleware c u is_print text_of t1 t2 t3 =
    ([''with token:   200 hello user-7 (scope '' @ [CHR 0x22] @ ''read'' @ [CHR 0x22] @ '')'' @ line_end,
      ''no token:     401  WWW-Authenticate: Bearer'' @ line_end], None)"
proof -
  let ?secret = "''a-32-byte-hmac-secret-for-hs256!!''" and ?rc = "api_Registered (api_claims_of t1)"
  obtain p ms where p: "marshal_api (api_claims_of t1) = Inr p" "decodeObject dec_members p = Inr ms"
      "decodeObject dec_claims p = Inr (claims_read ?rc)" "length p \<le> 10000"
      "decodeObject (dec_struct api_field zero_api) p = Inr \<lparr>api_Registered = claims_read ?rc, api_Scope = ''read''\<rparr>"
    by (rule api_read_back [OF assms(2)])
  have k: "NewHMACSigner HS256 ?secret [''k1''] = Inr (HmacSigner HS256 ?secret ''k1'' SHA256)"
    by (simp add: NewHMACSigner_def Hash_def FamilyOf_def len_def)
  let ?opts = "[Some (WithAllowedAlgorithms [HS256]), Some (WithAudience ''https://api.example'')]"
  define cfg where "cfg = apply_options applyParse ?opts (default_config t2)"
  have cfg: "pc_allowedAlgs cfg = [HS256]" "pc_issuer cfg = []" "pc_audience cfg = ''https://api.example''"
    "pc_now cfg = t2" "pc_leeway cfg = 0" "pc_requiredType cfg = []" "pc_requiredClaims cfg = []" "pc_verifierProvider cfg = None"
    by (simp_all add: cfg_def apply_options_def default_config_def)
  have v: "claims_valid u p (claims_read ?rc) h cfg" for h
    using not_yet_expired [OF assms(2,3)]
    by (simp add: cfg claims_valid_def time_valid_def audience_valid_def Has_def claims_read_def api_claims_of_def zero_claims_def time_add_def)
  obtain sig where s: "Sign c (Inr p) (Some (HmacSigner HS256 ?secret ''k1'' SHA256)) [] =
        Inr (token_of (marshal_header (sign_header (HmacSigner HS256 ?secret ''k1'' SHA256) [])) p sig)"
      "parseVerified c u (token_of (marshal_header (sign_header (HmacSigner HS256 ?secret ''k1'' SHA256) [])) p sig)
        (Some (static_Lookup (StaticKeyProvider (FromHMACSecret ?secret [''k1''])))) cfg
        = Inr (sign_header (HmacSigner HS256 ?secret ''k1'' SHA256) [], p)"
    by (rule hmac_token_accepted [OF assms(1) k _ _ _ p(2,4) _ _ p(3) v]) (simp_all add: cfg isASCII_def)
  let ?token = "token_of (marshal_header (sign_header (HmacSigner HS256 ?secret ''k1'' SHA256) [])) p sig"
  let ?M = "\<lambda>wall. Middleware c u is_print wall (Some (static_Lookup (StaticKeyProvider (FromHMACSecret ?secret [''k1''])))) ?opts"
  have "?M t2 [''Bearer '' @ ?token] = ([], Next p)"
    using s(2) unfolding cfg_def by (simp add: Middleware_def BearerToken_token del: append_Cons append_Nil)
  moreover have "quote is_print ''read'' = [CHR 0x22] @ ''read'' @ [CHR 0x22]" by (rule quote_plain) code_simp
  ultimately have a: "serve is_print text_of (?M t2 [''Bearer '' @ ?token]) = \<lparr>rsp_status = 200, rsp_challenge = None,
      rsp_body = ''hello user-7 (scope '' @ [CHR 0x22] @ ''read'' @ [CHR 0x22] @ '')'' @ line_end\<rparr>"
    using p(5) by (simp add: serve_def protected_handler_def ClaimsFromContext_def decodeFreshObject_def claims_read_def api_claims_of_def)
  have "BearerToken [] = None" by code_simp
  moreover have "pc_Realm (apply_options applyParse ?opts (default_config t3)) = []" by (simp add: apply_options_def default_config_def)
  ultimately have "?M t3 [] = ([], Answer (WriteChallenge is_print [] None))" by (simp add: Middleware_def)
  then have m: "rsp_status (serve is_print text_of (?M t3 [])) = 401" "rsp_challenge (serve is_print text_of (?M t3 [])) = Some ''Bearer''"
    by (simp_all add: serve_def WriteChallenge_def classifyAuthError_def realm_params_def writeBearerChallenge_def writeStatus_def)
  have n: "FormatInt 200 = ''200''" "FormatInt 401 = ''401''"
    by (simp add: FormatInt_def nat_digits.simps, code_simp)+
  show ?thesis
    unfolding main_http_middleware_def Let_def k sum.case p(1) s(1) a m option.case by (simp add: n)
qed

theorem http_middleware_demo_witness:
  "snd (main_http_middleware (sample_crypto\<lparr>hmac_sum := \<lambda>h k m. replicate 32 CHR ''m''\<rparr>) id (\<lambda>_. True) (\<lambda>_. []) 0 1 2) = None"
  by (subst http_middleware_demo) (simp_all add: len_def minutes_def date_in_range_def minNumericDate_def maxNumericDate_def)

end
