(* ===== verification/NestedExample.thy ===== *)
theory NestedExample
  imports Examples
begin

text \<open>
  The program \<^verbatim>\<open>examples/jwe_roundtrip\<close>: it signs a claim set with a fresh Ed25519 key,
  encrypts the token with ECDH-ES+A256KW and A256GCM for a fresh P-256 key, and reads both
  layers back.  Key generation is a parameter.

  Shown: encryption for a generated key always succeeds and stays below the size limit, so
  with primitives that work the program runs to its end and prints the claims it signed.
\<close>

section \<open>The program\<close>

record account_claims =
  acc_Registered :: registered_claims
  AccountID :: string
  Tier :: string

definition zero_account :: account_claims where
  "zero_account = \<lparr>acc_Registered = zero_claims, AccountID = [], Tier = []\<rparr>"

definition account_field :: "account_claims \<Rightarrow> string \<Rightarrow> string \<Rightarrow> json \<Rightarrow> account_claims result" where
  "account_field r n raw v =
     (if n = ''account_id'' then set_str (\<lambda>x. r\<lparr>AccountID := x\<rparr>) v
      else if n = ''tier'' then set_str (\<lambda>x. r\<lparr>Tier := x\<rparr>) v
      else embedded claims_field (acc_Registered r) (\<lambda>x. r\<lparr>acc_Registered := x\<rparr>) n raw v)"

definition marshal_account :: "account_claims \<Rightarrow> bytes result" where
  "marshal_account s = marshal_claims (acc_Registered s)
     [(''account_id'', False, enc_str (AccountID s)), (''tier'', False, enc_str (Tier s))]"

definition account_of :: "time \<Rightarrow> account_claims" where
  "account_of t = \<lparr>acc_Registered = zero_claims\<lparr>Issuer := ''https://issuer.example'', Audience := Some [''account-api''],
     ExpiresAt := Some (t + minutes 5)\<rparr>, AccountID = ''acct-9'', Tier = ''gold''\<rparr>"

definition jwe_roundtrip_policies :: "parse_option option list \<times> parse_option option list" where
  "jwe_roundtrip_policies =
     ([Some (WithAllowedKeyAlgorithms [ECDHESA256KW]), Some (WithAllowedContentAlgorithms [A256GCM]),
       Some (WithRequiredType ''account+jwt'')],
      [Some (WithAllowedAlgorithms [Ed25519]), Some (WithIssuer ''https://issuer.example''), Some (WithAudience ''account-api'')])"

text \<open>\<open>gen\<close> is \<^verbatim>\<open>ed25519.GenerateKey\<close>: the public and the private key.\<close>

definition main_jwe_roundtrip :: "jwe_crypto \<Rightarrow> (string \<Rightarrow> string) \<Rightarrow> (entropy \<Rightarrow> (bytes \<times> bytes) result \<times> entropy) \<Rightarrow>
    time \<Rightarrow> time \<Rightarrow> entropy \<Rightarrow> program_run" where
  "main_jwe_roundtrip P uni_lower gen t1 t2 e =
     (case ec_GenerateKey P (Some P256) e of
        (Inl err, _) \<Rightarrow> ([], Some err)
      | (Inr priv, e) \<Rightarrow>
     (case gen e of
        (Inl err, _) \<Rightarrow> ([], Some err)
      | (Inr (verifyKey, signKey), e) \<Rightarrow>
     (case NewEd25519Signer signKey [''sig-1''] of
        Inl err \<Rightarrow> ([], Some err)
      | Inr signer \<Rightarrow>
     (case Sign (jc P) (marshal_account (account_of t1)) (Some signer) [] of
        Inl err \<Rightarrow> ([], Some err)
      | Inr inner \<Rightarrow>
     (case NewECDHESEncrypter P (Some (ec_Public priv)) ECDHESA256KW A256GCM [''enc-1''] of
        Inl err \<Rightarrow> ([], Some err)
      | Inr enc \<Rightarrow>
     (case EncryptNestedJWT P inner (Some enc) [Some (WithJWEType ''account+jwt'')] e of
        (Inl err, _) \<Rightarrow> ([], Some err)
      | (Inr jwe, _) \<Rightarrow>
          let line = ''nested compact JWE: '' @ jwe @ line_end
          in (case NewECDHESDecrypter P (Some priv) [''enc-1''] of
                Inl err \<Rightarrow> ([line], Some err)
              | Inr dec \<Rightarrow>
                  let keys = static_Lookup (StaticKeyProvider (FromEd25519PublicKey verifyKey [''sig-1'']))
                  in (case DecryptNestedJWT P uni_lower (dec_struct account_field zero_account) t2 jwe (Some zero_account)
                         (Some dec) (Some keys) (fst jwe_roundtrip_policies) (snd jwe_roundtrip_policies) of
                        (Some err, _) \<Rightarrow> ([line], Some err)
                      | (None, claims) \<Rightarrow>
                          ([line, ''decrypted: account='' @ AccountID (the claims) @ '' tier='' @ Tier (the claims) @ line_end], None)))))))))"

interpretation account: embeds_first account_field acc_Registered zero_account "\<lambda>x r. r\<lparr>acc_Registered := x\<rparr>"
  by unfold_locales (auto simp: account_field_def zero_account_def embedded_Inr claims_field_other registered_names_def
      dest!: set_str_Inr split: if_splits)

section \<open>Generated keys\<close>

definition generated :: "jwe_crypto \<Rightarrow> ecdsa_private_key \<Rightarrow> bool" where
  "generated P k \<longleftrightarrow> (\<exists>e e'. ec_GenerateKey P (Some P256) e = (Inr k, e'))"

text \<open>
  What \<^verbatim>\<open>crypto/ecdsa\<close> and \<^verbatim>\<open>crypto/ecdh\<close> promise of P-256: generation succeeds with a point of
  the curve, whose encoding they read back, and any two generated keys agree on a secret.
\<close>

definition p256_laws :: "jwe_crypto \<Rightarrow> bool" where
  "p256_laws P \<longleftrightarrow> (\<forall>e. \<exists>k e'. ec_GenerateKey P (Some P256) e = (Inr k, e'))
     \<and> (\<forall>k. generated P k \<longrightarrow> ec_encoded (jc P) (ec_Public k) \<and> ec_Curve (ec_Public k) = Some P256
          \<and> (\<exists>d b. priv_ECDH (jc P) k = Some (P256, d, b) \<and> pub_ECDH (jc P) (ec_Public k) = Some b))
     \<and> (\<forall>a b. generated P a \<longrightarrow> generated P b \<longrightarrow>
          (\<exists>z. ecdhZ P a (ec_Public b) = Inr z \<and> ecdhZ P b (ec_Public a) = Inr z))"

text \<open>The primitives of a nested token: P-256, AES key wrap, GCM and SHA-256.\<close>

definition nested_laws :: "jwe_crypto \<Rightarrow> bool" where
  "nested_laws P \<longleftrightarrow> p256_laws P \<and> gcm_laws P \<and> aes_laws (jc_aes P) \<and> (\<forall>m. len (hash_sum (jc P) SHA256 m) = 32)"

lemma generated_pair: "nested_laws P \<Longrightarrow> generated P k \<Longrightarrow> ecdh_pair P (ec_Public k) k"
proof -
  assume P: "nested_laws P" and k: "generated P k"
  have c: "ec_Curve (ec_Public k) = Some P256" using P k by (simp add: nested_laws_def p256_laws_def)
  have "ec_encoded (jc P) (ec_Public eph) \<and> (\<forall>z. ecdhZ P eph (ec_Public k) = Inr z \<longrightarrow> ecdhZ P k (ec_Public eph) = Inr z)"
    if "generated P eph" for eph
  proof -
    have "ec_encoded (jc P) (ec_Public eph)" using P that by (simp add: nested_laws_def p256_laws_def)
    moreover have "\<exists>z. ecdhZ P eph (ec_Public k) = Inr z \<and> ecdhZ P k (ec_Public eph) = Inr z"
      using P that k by (simp add: nested_laws_def p256_laws_def)
    ultimately show ?thesis by auto
  qed
  then show ?thesis using P unfolding ecdh_pair_def c nested_laws_def generated_def by blast
qed

definition generated_encrypter :: "jwe_crypto \<Rightarrow> ecdsa_private_key \<Rightarrow> string \<Rightarrow> encrypter" where
  "generated_encrypter P k kid = BuiltinEncrypter ECDHESA256KW A256GCM kid (ecdhWrapper P (ec_Public k) ECDHESA256KW)"

definition generated_decrypter :: "jwe_crypto \<Rightarrow> ecdsa_private_key \<Rightarrow> string \<Rightarrow> decrypter" where
  "generated_decrypter P k kid = BuiltinDecrypter kid (ecdhUnwrapper P k)"

lemma generated_recipient:
  assumes "nested_laws P" "generated P k"
  shows "NewECDHESEncrypter P (Some (ec_Public k)) ECDHESA256KW A256GCM [kid] = Inr (generated_encrypter P k kid)"
    "NewECDHESDecrypter P (Some k) [kid] = Inr (generated_decrypter P k kid)"
    "recipient P (generated_encrypter P k kid) (generated_decrypter P k kid)"
proof -
  have k: "ec_encoded (jc P) (ec_Public k)" "ec_Curve (ec_Public k) = Some P256"
    using assms by (simp_all add: nested_laws_def p256_laws_def)
  obtain d b where b: "priv_ECDH (jc P) k = Some (P256, d, b)" "pub_ECDH (jc P) (ec_Public k) = Some b"
    using assms unfolding nested_laws_def p256_laws_def by blast
  have v: "valid_utf8 (FirstString [])" by (simp add: FirstString_def valid_utf8_ASCII)
  have n: "ec_curve_named (ec_Public k)" by (simp add: ec_curve_named_def k(2) curveName_def)
  have "ec_public_valid (jc P) (ec_Public k)" using FromECDSAPublicKey_encoded(1) [OF k(1) v] by (simp add: ec_public_valid_def)
  with n b show e: "NewECDHESEncrypter P (Some (ec_Public k)) ECDHESA256KW A256GCM [kid] = Inr (generated_encrypter P k kid)"
    and d: "NewECDHESDecrypter P (Some k) [kid] = Inr (generated_decrypter P k kid)"
    by (simp_all add: NewECDHESEncrypter_def NewECDHESDecrypter_def newEncrypter_def generated_encrypter_def generated_decrypter_def
        contentKeyLen_def ecdhWrapper_def FirstString_def)
  show "recipient P (generated_encrypter P k kid) (generated_decrypter P k kid)"
    by (rule recipient.ecdhes [OF generated_pair [OF assms] e d])
qed

section \<open>Encrypting succeeds\<close>

lemma ec_jwk:
  assumes "ec_encoded c q" "ec_Curve q = Some P256"
  obtains bx by' where "FromECDSAPublicKey c (Some q) [kid] = zero_key\<lparr>Kty := KeyTypeEC, Kid := kid, k_crv := ''P-256'', k_x := bx, k_y := by'\<rparr>"
    "length bx = 32" "length by' = 32"
    "length (enc_struct (jwk_fields (key_to_jwk (FromECDSAPublicKey c (Some q) [kid])))) \<le> 2500 + 6 * length kid"
proof -
  obtain x y bx by' where q: "q = \<lparr>ec_Curve = Some P256, ec_X = Some x, ec_Y = Some y\<rparr>"
      "len bx = 32" "len by' = 32" "ec_public_bytes c P256 x y = Some ([chr 4] @ bx @ by')"
    using assms by (auto simp: ec_encoded_def coord_size_def)
  have l: "length bx = 32" "length by' = 32" using q(2,3) by (simp_all add: len_def)
  have k: "FromECDSAPublicKey c (Some q) [kid] = zero_key\<lparr>Kty := KeyTypeEC, Kid := kid, k_crv := ''P-256'', k_x := bx, k_y := by'\<rparr>"
    using q(1,4) l by (simp add: FromECDSAPublicKey_def Let_def FirstString_def curveName_def coord_size_def zero_key_def len_def)
  have e: "length (enc_str KeyTypeEC) \<le> 6 * length KeyTypeEC + 2" "length (enc_str ''P-256'') \<le> 6 * length ''P-256'' + 2"
    "length (enc_str (Encode bx)) \<le> 6 * length (Encode bx) + 2" "length (enc_str (Encode by')) \<le> 6 * length (Encode by') + 2"
    "length (enc_str []) \<le> 6 * length ([] :: string) + 2" "length (enc_str kid) \<le> 6 * length kid + 2"
    by (rule length_enc_str)+
  have "length (Encode bx) \<le> 64" "length (Encode by') \<le> 64" using length_Encode [of bx] length_Encode [of by'] l by simp_all
  then have "length (enc_struct (jwk_fields (key_to_jwk (FromECDSAPublicKey c (Some q) [kid])))) \<le> 2500 + 6 * length kid"
    using length_enc_struct [of "jwk_fields (key_to_jwk (FromECDSAPublicKey c (Some q) [kid]))"] e l
    by (simp add: k jwk_fields_def key_to_jwk_def zero_key_def zero_jwk_def enc_array_def len_def)
  with that k l show thesis by blast
qed

lemma length_epk:
  assumes "ec_encoded c q" "ec_Curve q = Some P256"
  obtains b where "MarshalJSON (FromECDSAPublicKey c (Some q) [[]]) = Inr b" "length b \<le> 2500"
proof -
  obtain bx by' where k: "FromECDSAPublicKey c (Some q) [[]] = zero_key\<lparr>Kty := KeyTypeEC, Kid := [], k_crv := ''P-256'', k_x := bx, k_y := by'\<rparr>"
      "length (enc_struct (jwk_fields (key_to_jwk (FromECDSAPublicKey c (Some q) [[]])))) \<le> 2500 + 6 * length ([] :: string)"
    by (rule ec_jwk [OF assms, of "[]"]) blast
  then have "MarshalJSON (FromECDSAPublicKey c (Some q) [[]]) = Inr (enc_struct (jwk_fields (key_to_jwk (FromECDSAPublicKey c (Some q) [[]]))))"
    by (simp add: MarshalJSON_def)
  with that k(2) show thesis by simp
qed

lemma length_join_dot: "length (join_with ''.'' ss) \<le> sum_list (map (\<lambda>s. length s + 1) ss)"
  by (rule length_join_with)

lemma generated_encrypts:
  assumes "nested_laws P" "generated P k" "length plaintext \<le> 70000" "length kid \<le> 100" "length (ecfg_typ cfg) \<le> 100" "length (ecfg_cty cfg) \<le> 100"
  obtains token e' where "encryptJWE P plaintext (generated_encrypter P k kid) cfg e = (Inr token, e')" "len token \<le> maxTokenBytes"
proof -
  define h where "h = zero_jwe_header\<lparr>jh_Alg := ECDHESA256KW, jh_Enc := A256GCM, jh_Kid := kid, jh_Typ := ecfg_typ cfg, jh_Cty := ecfg_cty cfg\<rparr>"
  have P: "p256_laws P" "gcm_laws P" "aes_laws (jc_aes P)" "\<And>m. len (hash_sum (jc P) SHA256 m) = 32"
    using assms(1) by (simp_all add: nested_laws_def)
  have c: "ec_Curve (ec_Public k) = Some P256" using P(1) assms(2) by (simp add: p256_laws_def)
  obtain eph e1 where eph: "ec_GenerateKey P (Some P256) e = (Inr eph, e1)" using P(1) unfolding p256_laws_def by blast
  then have g: "generated P eph" by (auto simp: generated_def)
  obtain z where z: "ecdhZ P eph (ec_Public k) = Inr z" using P(1) g assms(2) unfolding p256_laws_def by blast
  let ?epk = "FromECDSAPublicKey (jc P) (Some (ec_Public eph)) [[]]" and ?kek = "concatKDF (jc P) z ECDHESA256KW [] [] 256"
  obtain cek e2 where cek: "rand_Read 32 e1 = (cek, e2)" "length cek = 32" by (simp add: rand_Read_def)
  have "len ?kek = 32" using P(4) by (simp add: concatKDF_def Let_def len_def)
  then have "\<exists>ek. aesKWWrap (jc_aes P) ?kek cek = Inr ek"
    unfolding aesKWWrap_Inr aes_key_def using cek(2) by (intro exI conjI) (auto intro: exI [of _ 4])
  then obtain ek where ek: "aesKWWrap (jc_aes P) ?kek cek = Inr ek" by blast
  then have lek: "length ek = 40" using aesKW_length [OF P(3) ek] cek(2) by simp
  have w: "ecdh_wrap P (ec_Public k) ECDHESA256KW h 32 e = (Inr (cek, ek, h\<lparr>jh_EPK := Some ?epk\<rparr>), e2)"
    using eph z cek(1) ek by (simp add: ecdh_wrap_def c)
  obtain b where b: "MarshalJSON ?epk = Inr b" "length b \<le> 2500"
    using length_epk P(1) g unfolding p256_laws_def by blast
  define h' where "h' = h\<lparr>jh_EPK := Some ?epk\<rparr>"
  let ?hj = "enc_struct (jwe_header_fields h' b)"
  have m: "marshal_jwe_header h' = Inr ?hj" using b(1) by (simp add: marshal_jwe_header_def h'_def)
  obtain iv e3 where iv: "rand_Read 12 e2 = (iv, e3)" "length iv = 12" by (simp add: rand_Read_def)
  let ?s = "gcm_Seal P cek iv plaintext (Encode ?hj)"
  let ?t = "join_with ''.'' [Encode ?hj, Encode ek, Encode iv, Encode (take (length ?s - 16) ?s), Encode (drop (length ?s - 16) ?s)]"
  have e: "encryptJWE P plaintext (generated_encrypter P k kid) cfg e = (Inr ?t, e3)"
    using cek(2) by (simp add: encryptJWE_def generated_encrypter_def encrypt_def Let_def ecdhWrapper_def contentKeyLen_def h_def [symmetric]
        w [folded h'_def] m aes_key_def len_def gcm_NonceSize_def gcm_Overhead_def iv(1))
  have ls: "length ?s = length plaintext + 16" using P(2) cek(2) iv(2) by (auto simp: gcm_laws_def aes_key_def len_def)
  have f: "length (enc_str ECDHESA256KW) \<le> 6 * length ECDHESA256KW + 2" "length (enc_str A256GCM) \<le> 6 * length A256GCM + 2"
    "length (enc_str kid) \<le> 6 * length kid + 2" "length (enc_str (ecfg_typ cfg)) \<le> 6 * length (ecfg_typ cfg) + 2"
    "length (enc_str (ecfg_cty cfg)) \<le> 6 * length (ecfg_cty cfg) + 2" "length (enc_str []) \<le> 6 * length ([] :: string) + 2"
    by (rule length_enc_str)+
  have "length ?hj \<le> 6000"
    using length_enc_struct [of "jwe_header_fields h' b"] f b(2) assms(4-6)
    by (simp add: jwe_header_fields_def h'_def h_def zero_jwe_header_def)
  then have "length ?t \<le> 200000"
    using length_join_dot [of "[Encode ?hj, Encode ek, Encode iv, Encode (take (length ?s - 16) ?s), Encode (drop (length ?s - 16) ?s)]"]
      length_Encode [of ?hj] length_Encode [of ek] length_Encode [of iv] length_Encode [of "take (length ?s - 16) ?s"]
      length_Encode [of "drop (length ?s - 16) ?s"] lek iv(2) ls assms(3)
    by simp
  then show thesis using that [OF e] by (simp add: len_def maxTokenBytes_def)
qed

section \<open>Signing succeeds\<close>

lemma account_read_back:
  assumes "date_in_range (t + minutes 5)"
  obtains p ms where "marshal_account (account_of t) = Inr p" "decodeObject dec_members p = Inr ms"
    "decodeObject dec_claims p = Inr (claims_read (acc_Registered (account_of t)))" "length p \<le> 10000"
    "decodeObject (dec_struct account_field zero_account) p =
      Inr \<lparr>acc_Registered = claims_read (acc_Registered (account_of t)), AccountID = ''acct-9'', Tier = ''gold''\<rparr>"
proof -
  let ?rc = "acc_Registered (account_of t)" and ?ex = "[(''account_id'', ''acct-9''), (''tier'', ''gold'')]"
  have u: "list_all valid_utf8 [''https://issuer.example'', ''account-api'', ''account_id'', ''acct-9'', ''tier'', ''gold'', []]" by code_simp
  have rc: "claims_emittable ?rc" using assms u by (simp add: claims_emittable_def account_of_def zero_claims_def)
  have c: "Confirmation ?rc = None" by (simp add: account_of_def zero_claims_def)
  obtain p ms where p: "marshal_claims ?rc (str_fields ?ex) = Inr p" "decodeObject dec_members p = Inr ms"
      "decodeObject dec_claims p = Inr (claims_read ?rc)"
      "decodeObject (dec_struct account_field zero_account) p =
        dec_fields account_field (zero_account\<lparr>acc_Registered := claims_read ?rc\<rparr>) (str_members ?ex)"
      "length p \<le> 300 + 6 * (length (Issuer ?rc) + length (Subject ?rc) + length (ID ?rc)) + length (Audience_MarshalJSON (Audience ?rc))
         + sum_list (map (\<lambda>(n, s). 6 * length n + 6 * length s + 6) ?ex)"
    by (rule account.string_payload [OF rc c, of ?ex]) (use u in \<open>auto simp: registered_names_def\<close>)
  have "length p \<le> 10000"
    using p(5) length_single_audience [of "''account-api''"] by (simp add: account_of_def zero_claims_def)
  with that p(1-4) show thesis
    by (simp add: marshal_account_def str_fields_def str_members_def account_of_def account_field_def set_str_def zero_account_def)
qed

lemma ed25519_token_accepted:
  assumes "ed25519_pair c priv pub" "len pub = 32" "len priv = 64" "length kid \<le> 1000" "list_all isASCII kid"
    "decodeObject dec_members p = Inr ms" "length p \<le> 10000" "pc_allowedAlgs cfg = [Ed25519]" "pc_verifierProvider cfg = None"
    "decodeObject dec_claims p = Inr rc" "claims_valid u p rc (sign_header (Ed25519Signer priv kid) []) cfg"
  obtains token where "Sign c (Inr p) (Some (Ed25519Signer priv kid)) [] = Inr token" "length token \<le> 70000" "validateNestedJWS token = None"
    "parseVerified c u token (Some (static_Lookup (StaticKeyProvider (FromEd25519PublicKey pub [kid])))) cfg =
      Inr (sign_header (Ed25519Signer priv kid) [], p)"
proof -
  let ?s = "Ed25519Signer priv kid"
  let ?h = "sign_header ?s []" and ?hj = "marshal_header (sign_header ?s [])"
  let ?sig = "ed25519_sign c priv (signing_input ?hj p)"
  let ?t = "token_of ?hj p ?sig"
  have sig: "len ?sig = 64" using assms(1) by (simp add: ed25519_pair_def)
  have n: "\<not> is_none Ed25519" by code_simp
  have "list_all valid_utf8 [Ed25519, ''JWT'', []]" by code_simp
  then have h: "header_valid_utf8 ?h"
    using assms(5) by (simp add: header_valid_utf8_def sign_header_def apply_options_def DefaultType_def zero_header_def valid_utf8_ASCII)
  have t: "Sign c (Inr p) (Some ?s) [] = Inr ?t" using n assms(6) by (simp add: Sign_Inr ed25519Signer_Sign_def)
  have l: "length ?t \<le> 70000"
    using length_token_of [of ?hj p ?sig] length_sign_header [of ?s] assms(4,7) sig by (simp add: len_def)
  then have m: "len ?t \<le> maxTokenBytes" by (simp add: maxTokenBytes_def len_def)
  have "NewSigningPair pub priv kid = Inr (?s, static_Lookup (StaticKeyProvider (FromEd25519PublicKey pub [kid])))"
    using assms(3) by (simp add: NewSigningPair_def NewEd25519Signer_def FirstString_def)
  note p = ed25519_sign_parse [OF assms(1,2) this t m h assms(8-11)]
  have "validateNestedJWS ?t = None"
    using m n sig assms(6) decode_marshal_header(1) [OF h] by (simp add: validateNestedJWS_def split3_token)
  with that t l p show thesis by blast
qed

section \<open>Both layers\<close>

lemma demo_token_decrypts:
  assumes "nested_laws P" "generated P k" "length inner \<le> 70000" "validateNestedJWS inner = None"
    "parseVerified (jc P) u inner (Some keys) (apply_options applyParse (snd jwe_roundtrip_policies) (default_config t)) = Inr (h, p)"
    "decodeObject decode_claims p = Inr x"
  obtains jwe e' where
    "EncryptNestedJWT P inner (Some (generated_encrypter P k ''enc-1'')) [Some (WithJWEType ''account+jwt'')] e = (Inr jwe, e')"
    "DecryptNestedJWT P u decode_claims t jwe (Some z) (Some (generated_decrypter P k ''enc-1'')) (Some keys)
       (fst jwe_roundtrip_policies) (snd jwe_roundtrip_policies) = (None, Some x)"
proof -
  let ?en = "generated_encrypter P k ''enc-1''" and ?d = "generated_decrypter P k ''enc-1''"
  let ?opts = "[Some (WithJWEType ''account+jwt'')]"
  note r = generated_recipient [OF assms(1,2), of "''enc-1''"]
  have o: "(apply_options applyEncrypt ?opts empty_encrypt_config)\<lparr>ecfg_cty := ''JWT''\<rparr> = \<lparr>ecfg_typ = ''account+jwt'', ecfg_cty = ''JWT''\<rparr>"
    "encrypt_cfg ?opts = \<lparr>ecfg_typ = ''account+jwt'', ecfg_cty = []\<rparr>"
    by (simp_all add: apply_options_def encrypt_cfg_def)
  obtain jwe e' where jwe: "encryptJWE P inner ?en \<lparr>ecfg_typ = ''account+jwt'', ecfg_cty = ''JWT''\<rparr> e = (Inr jwe, e')" "len jwe \<le> maxTokenBytes"
    by (rule generated_encrypts [OF assms(1-3), of "''enc-1''" "\<lparr>ecfg_typ = ''account+jwt'', ecfg_cty = ''JWT''\<rparr>"]) simp_all
  have enc: "EncryptNestedJWT P inner (Some ?en) ?opts e = (Inr jwe, e')"
    using assms(4) jwe(1) unfolding EncryptNestedJWT_def Let_def o by simp
  have "DecryptNestedJWT P u decode_claims t jwe (Some z) (Some ?d) (Some keys) (fst jwe_roundtrip_policies) (snd jwe_roundtrip_policies)
      = (None, Some x)"
  proof (rule nested_token_decrypts [OF r(3) _ enc jwe(2) _ _ _ refl _ _ _ assms(5,6)])
    show "gcm_laws P" using assms(1) by (simp add: nested_laws_def)
    have u: "list_all valid_utf8 [''enc-1'', ''account+jwt'']" by code_simp
    then show "valid_utf8 (enc_kid ?en)" "valid_utf8 (ecfg_typ (encrypt_cfg ?opts))" by (simp_all add: generated_encrypter_def o)
    show "decrypter_KeyID ?d \<in> {[], enc_kid ?en} \<or> enc_kid ?en = []"
      by (simp add: decrypter_KeyID_def generated_decrypter_def generated_encrypter_def)
    let ?c = "apply_options applyParse (fst jwe_roundtrip_policies) (default_config t)"
    have c: "pc_allowedKeyAlgs ?c = [ECDHESA256KW]" "pc_allowedContentAlgs ?c = [A256GCM]" "pc_requiredType ?c = ''account+jwt''"
      by (simp_all add: jwe_roundtrip_policies_def apply_options_def default_config_def)
    have n: "\<not> is_none ECDHESA256KW" "\<not> is_none A256GCM" by code_simp+
    show "enc_alg ?en \<in> set (withoutNone (pc_allowedKeyAlgs ?c))" "enc_enc ?en \<in> set (withoutNone (pc_allowedContentAlgs ?c))"
      using n by (simp_all add: c withoutNone_set generated_encrypter_def)
    show "pc_requiredType ?c = [] \<or> typeMatches u (ecfg_typ (encrypt_cfg ?opts)) (pc_requiredType ?c)"
      by (simp add: c o typeMatches_def)
  qed
  with that enc show thesis by blast
qed

section \<open>Properties\<close>

text \<open>
  C12: the nested-token demonstration works.  With Ed25519 keys that belong together, P-256, AES,
  GCM and SHA-256 that keep their laws, and clock readings in range, \<^verbatim>\<open>jwe_roundtrip\<close> never fails: it
  prints the compact token and then the account and the tier it signed, read back through both
  layers under the policies for key and content algorithms, type, issuer and audience.
\<close>

theorem jwe_roundtrip_demo:
  assumes "nested_laws P"
    "\<And>e. \<exists>pub priv e'. gen e = (Inr (pub, priv), e') \<and> len pub = 32 \<and> len priv = 64 \<and> ed25519_pair (jc P) priv pub"
    "date_in_range (t1 + minutes 5)" "t2 + 15260 \<le> t1 + minutes 5"
  shows "\<exists>token. main_jwe_roundtrip P u gen t1 t2 e =
    ([''nested compact JWE: '' @ token @ line_end, ''decrypted: account=acct-9 tier=gold'' @ line_end], None)"
proof -
  let ?rc = "acc_Registered (account_of t1)"
  obtain k e1 where k: "ec_GenerateKey P (Some P256) e = (Inr k, e1)"
    using assms(1) unfolding nested_laws_def p256_laws_def by blast
  then have g: "generated P k" by (auto simp: generated_def)
  obtain pub priv e2 where ed: "gen e1 = (Inr (pub, priv), e2)" "len pub = 32" "len priv = 64" "ed25519_pair (jc P) priv pub"
    using assms(2) by blast
  obtain p ms where p: "marshal_account (account_of t1) = Inr p" "decodeObject dec_members p = Inr ms"
      "decodeObject dec_claims p = Inr (claims_read ?rc)" "length p \<le> 10000"
      "decodeObject (dec_struct account_field zero_account) p = Inr \<lparr>acc_Registered = claims_read ?rc, AccountID = ''acct-9'', Tier = ''gold''\<rparr>"
    by (rule account_read_back [OF assms(3)])
  define cfg where "cfg = apply_options applyParse (snd jwe_roundtrip_policies) (default_config t2)"
  have cfg: "pc_allowedAlgs cfg = [Ed25519]" "pc_issuer cfg = ''https://issuer.example''" "pc_audience cfg = ''account-api''"
    "pc_now cfg = t2" "pc_leeway cfg = 0" "pc_requiredType cfg = []" "pc_requiredClaims cfg = []" "pc_verifierProvider cfg = None"
    by (simp_all add: cfg_def jwe_roundtrip_policies_def apply_options_def default_config_def)
  have v: "claims_valid u p (claims_read ?rc) h cfg" for h
    using not_yet_expired [OF assms(3,4)]
    by (simp add: cfg claims_valid_def time_valid_def audience_valid_def Has_def claims_read_def account_of_def zero_claims_def time_add_def)
  obtain inner where inner: "Sign (jc P) (Inr p) (Some (Ed25519Signer priv ''sig-1'')) [] = Inr inner" "length inner \<le> 70000"
      "validateNestedJWS inner = None"
      "parseVerified (jc P) u inner (Some (static_Lookup (StaticKeyProvider (FromEd25519PublicKey pub [''sig-1''])))) cfg =
        Inr (sign_header (Ed25519Signer priv ''sig-1'') [], p)"
    by (rule ed25519_token_accepted [where kid = "''sig-1''", OF ed(4,2,3) _ _ p(2,4) cfg(1) cfg(8) p(3) v]) (simp_all add: isASCII_def)
  let ?keys = "static_Lookup (StaticKeyProvider (FromEd25519PublicKey pub [''sig-1'']))"
  obtain jwe e3 where "EncryptNestedJWT P inner (Some (generated_encrypter P k ''enc-1'')) [Some (WithJWEType ''account+jwt'')] e2 = (Inr jwe, e3)"
      "DecryptNestedJWT P u (dec_struct account_field zero_account) t2 jwe (Some zero_account) (Some (generated_decrypter P k ''enc-1''))
        (Some ?keys) (fst jwe_roundtrip_policies) (snd jwe_roundtrip_policies)
       = (None, Some \<lparr>acc_Registered = claims_read ?rc, AccountID = ''acct-9'', Tier = ''gold''\<rparr>)"
    by (rule demo_token_decrypts [OF assms(1) g inner(2,3) inner(4) [unfolded cfg_def] p(5)])
  moreover have "NewEd25519Signer priv [''sig-1''] = Inr (Ed25519Signer priv ''sig-1'')"
    using ed(3) by (simp add: NewEd25519Signer_def FirstString_def)
  ultimately show ?thesis
    using k ed(1) p(1) inner(1) generated_recipient(1,2) [OF assms(1) g, of "''enc-1''"] by (simp add: main_jwe_roundtrip_def Let_def)
qed

definition sample_point :: bytes where "sample_point = [chr 4] @ replicate 64 CHR ''p''"

definition sample_p256_key :: ecdsa_private_key where
  "sample_p256_key = \<lparr>ec_Public = \<lparr>ec_Curve = Some P256, ec_X = Some 1, ec_Y = Some 1\<rparr>, ec_D = Some 1\<rparr>"

definition sample_nested :: jwe_crypto where
  "sample_nested = sample_jwe\<lparr>jc := sample_crypto\<lparr>hash_sum := \<lambda>h m. replicate 32 CHR ''h'', ec_public_bytes := \<lambda>cv x y. Some sample_point,
      ec_scalar_public := \<lambda>cv d. Some sample_point, ec_parse_uncompressed := \<lambda>cv b. Some (1, 1)\<rparr>,
     ec_GenerateKey := \<lambda>cv e. (Inr sample_p256_key, e), ecdh_shared := \<lambda>cv d b. Inr ''z''\<rparr>"

lemma sample_nested_laws: "nested_laws sample_nested"
proof -
  let ?c = "jc sample_nested" and ?q = "ec_Public sample_p256_key"
  have g: "generated sample_nested k \<longleftrightarrow> k = sample_p256_key" for k by (auto simp: generated_def sample_nested_def)
  have "sample_point = [chr 4] @ replicate 32 CHR ''p'' @ replicate 32 CHR ''p''"
    by (simp add: sample_point_def flip: replicate_add)
  then have "ec_encoded ?c ?q"
    unfolding ec_encoded_def
    by (intro exI [of _ P256] exI [of _ 1] exI [of _ "replicate 32 CHR ''p''"])
      (simp add: sample_nested_def sample_p256_key_def curveName_def coord_size_def len_def)
  moreover have "priv_ECDH ?c sample_p256_key = Some (P256, 1, sample_point)" "pub_ECDH ?c ?q = Some sample_point"
    by (simp_all add: priv_ECDH_def pub_ECDH_def sample_nested_def sample_p256_key_def)
  moreover have "ecdhZ sample_nested sample_p256_key ?q = Inr ''z''"
    by (simp add: ecdhZ_def calculation(2,3)) (simp add: sample_nested_def)
  moreover have "ec_GenerateKey sample_nested (Some P256) e = (Inr sample_p256_key, e)" for e by (simp add: sample_nested_def)
  moreover have "ec_Curve ?q = Some P256" by (simp add: sample_p256_key_def)
  ultimately have "p256_laws sample_nested" unfolding p256_laws_def g by auto
  moreover have "gcm_laws sample_nested" using sample_gcm_laws by (simp add: gcm_laws_def sample_nested_def)
  moreover have "aes_laws (jc_aes sample_nested)" using sample_aes_laws by (simp add: sample_nested_def sample_jwe_def)
  moreover have "len (hash_sum ?c SHA256 m) = 32" for m by (simp add: sample_nested_def len_def)
  ultimately show ?thesis by (simp add: nested_laws_def)
qed

theorem jwe_roundtrip_demo_witness:
  "snd (main_jwe_roundtrip sample_nested id (\<lambda>e. (Inr (replicate 32 CHR ''q'', replicate 64 CHR ''p''), e)) 0 1 (\<lambda>_. CHR ''r'')) = None"
proof -
  have "ed25519_pair (jc sample_nested) (replicate 64 CHR ''p'') (replicate 32 CHR ''q'')"
    by (simp add: ed25519_pair_def sample_nested_def sample_crypto_def len_def)
  then have "\<exists>token. main_jwe_roundtrip sample_nested id (\<lambda>e. (Inr (replicate 32 CHR ''q'', replicate 64 CHR ''p''), e)) 0 1 (\<lambda>_. CHR ''r'') =
      ([''nested compact JWE: '' @ token @ line_end, ''decrypted: account=acct-9 tier=gold'' @ line_end], None)"
    by (intro jwe_roundtrip_demo [OF sample_nested_laws])
      (auto simp: len_def minutes_def date_in_range_def minNumericDate_def maxNumericDate_def)
  then show ?thesis by auto
qed

end
