(* ===== verification/KeySetJSON.thy ===== *)
theory KeySetJSON
  imports Payload
begin

text \<open>
  Publishing a key set: \<^verbatim>\<open>json.Marshal\<close> of a \<^verbatim>\<open>KeySet\<close> and \<^verbatim>\<open>ParseKeySet\<close> (\<^verbatim>\<open>keyset.go\<close>).  Shown: a
  set of at most 128 publishable keys is always emitted, within the document limit, and both
  parsers give the very set back, index included, the permissive one without a diagnostic
  when it understands every key.
\<close>

section \<open>Publishable keys\<close>

text \<open>A valid public key whose JWK is within the limits of the parser.\<close>

definition publishable :: "crypto \<Rightarrow> key \<Rightarrow> bool" where
  "publishable c k \<longleftrightarrow> Kty k \<noteq> [] \<and> Kty k \<noteq> KeyTypeOct \<and> k_k k = [] \<and> key_valid_utf8 k \<and> validateRepresentation c k = None
     \<and> list_all (\<lambda>b. len b \<le> MaxJWKMaterialBytes) [k_n k, k_e k, k_x k, k_y k]
     \<and> len (enc_struct (jwk_fields (key_to_jwk k))) \<le> MaxJWKJSONBytes"

lemma publishable_emitted:
  assumes "publishable c k"
  shows "MarshalJSON k = Inr (enc_struct (jwk_fields (key_to_jwk k)))"
    "reads_as 2 (enc_struct (jwk_fields (key_to_jwk k))) (JObj (struct_members (jwk_values (key_to_jwk k))))"
    "ParseKey c (enc_struct (jwk_fields (key_to_jwk k))) = Inr k"
proof -
  have v: "key_valid_utf8 k" using assms by (simp add: publishable_def)
  show m: "MarshalJSON k = Inr (enc_struct (jwk_fields (key_to_jwk k)))" using assms by (simp add: publishable_def MarshalJSON_def)
  show "reads_as 2 (enc_struct (jwk_fields (key_to_jwk k))) (JObj (struct_members (jwk_values (key_to_jwk k))))"
    by (rule jwk_reads_as [OF key_to_jwk_valid [OF v]])
  have "k\<lparr>k_k := []\<rparr> = k" using assms by (cases k) (simp add: publishable_def)
  moreover have "checkCanonical k = None"
    using assms by (auto simp: publishable_def validateRepresentation_def split: option.splits)
  ultimately have "UnmarshalJSON (enc_struct (jwk_fields (key_to_jwk k))) = Inr k"
    using UnmarshalJSON_MarshalJSON_eq [OF m key_to_jwk_valid [OF v]] by (simp add: jwk_to_key_to_jwk)
  then show "ParseKey c (enc_struct (jwk_fields (key_to_jwk k))) = Inr k"
    using assms by (simp add: ParseKey_def publishable_def)
qed

text \<open>The material members of an emitted key stay within the limit.\<close>

definition short_material :: "string list \<Rightarrow> bool" where
  "short_material m \<longleftrightarrow> length m = 5 \<and> list_all (\<lambda>e. len e \<le> maxJWKMaterialEncoded) m"

lemma dec_material:
  "list_all (\<lambda>(n, raw, v). n \<in> {''n'', ''e'', ''x'', ''y'', ''k''} \<longrightarrow> (\<exists>s. v = JStr s \<and> len s \<le> maxJWKMaterialEncoded)) ms \<Longrightarrow>
   short_material m \<Longrightarrow> \<exists>m'. dec_fields material_field m ms = Inr m' \<and> short_material m'"
proof (induction ms arbitrary: m)
  case (Cons x ms)
  obtain n raw v where x: "x = (n, raw, v)" by (cases x)
  have u: "short_material (m[i := s])" if "len s \<le> maxJWKMaterialEncoded" for i s
  proof -
    have "\<forall>e \<in> insert s (set m). len e \<le> maxJWKMaterialEncoded" using Cons.prems(2) that by (simp add: short_material_def list_all_iff)
    with set_update_subset_insert [of m i s] have "\<forall>e \<in> set (m[i := s]). len e \<le> maxJWKMaterialEncoded" by blast
    then show ?thesis using Cons.prems(2) by (simp add: short_material_def list_all_iff)
  qed
  obtain m1 where m1: "material_field m n raw v = Inr m1" "short_material m1"
  proof (cases "n \<in> {''n'', ''e'', ''x'', ''y'', ''k''}")
    case True
    moreover have "n \<in> {''n'', ''e'', ''x'', ''y'', ''k''} \<longrightarrow> (\<exists>s. v = JStr s \<and> len s \<le> maxJWKMaterialEncoded)"
      using Cons.prems(1) unfolding x list.pred_inject(2) prod.case by (rule conjunct1)
    ultimately obtain s where s: "v = JStr s" "len s \<le> maxJWKMaterialEncoded" by blast
    have "\<exists>i. material_field m n raw v = Inr (m[i := s])"
      using True by (simp add: s(1) material_field_def set_str_def) blast
    with u [OF s(2)] show thesis using that by blast
  next
    case False
    with that Cons.prems(2) show thesis by (simp add: material_field_def)
  qed
  obtain m' where "dec_fields material_field m1 ms = Inr m'" "short_material m'"
    using Cons.IH [OF _ m1(2)] Cons.prems(1) by auto
  with m1(1) show ?case by (simp add: x)
qed simp

lemma len_Encode_material: "len b \<le> MaxJWKMaterialBytes \<Longrightarrow> len (Encode b) \<le> maxJWKMaterialEncoded"
  unfolding Encode_def b64_encode_len by (simp add: MaxJWKMaterialBytes_def maxJWKMaterialEncoded_def)

lemma jwk_material:
  assumes "publishable c k"
  shows "list_all (\<lambda>(n, raw, v). n \<in> {''n'', ''e'', ''x'', ''y'', ''k''} \<longrightarrow> (\<exists>s. v = JStr s \<and> len s \<le> maxJWKMaterialEncoded))
    (struct_members (jwk_values (key_to_jwk k)))"
proof -
  have "j_K (key_to_jwk k) = []" by (simp add: key_to_jwk_def Let_def zero_jwk_def)
  moreover have "len ([] :: string) \<le> maxJWKMaterialEncoded" by (simp add: maxJWKMaterialEncoded_def MaxJWKMaterialBytes_def)
  ultimately show ?thesis
    using assms len_Encode_material [of "k_n k"] len_Encode_material [of "k_e k"] len_Encode_material [of "k_x k"] len_Encode_material [of "k_y k"]
    by (simp add: jwk_values_def publishable_def key_to_jwk_fields)
qed

lemma parse_publishable:
  assumes "publishable c k"
  shows "parseBoundedJWK c (enc_struct (jwk_fields (key_to_jwk k))) = Inr k"
proof -
  let ?raw = "enc_struct (jwk_fields (key_to_jwk k))"
  note e = publishable_emitted [OF assms]
  have "short_material [[], [], [], [], []]" by (simp add: short_material_def maxJWKMaterialEncoded_def MaxJWKMaterialBytes_def)
  then obtain m where m: "dec_fields material_field [[], [], [], [], []] (struct_members (jwk_values (key_to_jwk k))) = Inr m" "short_material m"
    using dec_material [OF jwk_material [OF assms]] by blast
  have "decodeObject (dec_struct material_field [[], [], [], [], []]) ?raw = Inr m"
    using decodeObject_reads_as [OF e(2) _ enc_struct_hd, of "dec_struct material_field [[], [], [], [], []]"] m(1)
    by (simp add: max_depth_def)
  moreover have "\<not> list_ex (\<lambda>encoded. len encoded > maxJWKMaterialEncoded) m"
    using m(2) by (auto simp: short_material_def list_all_iff list_ex_iff)
  moreover have "len ?raw \<le> MaxJWKJSONBytes" using assms by (simp add: publishable_def)
  ultimately show ?thesis using e(3) by (simp add: parseBoundedJWK_def)
qed

section \<open>The document\<close>

definition jwks_document :: "key list \<Rightarrow> bytes" where
  "jwks_document ks = enc_struct [(''keys'', False, enc_array (map (\<lambda>k. enc_struct (jwk_fields (key_to_jwk k))) ks))]"

lemma keyset_emitted: "list_all (publishable c) (ks_keys s) \<Longrightarrow> KeySet_MarshalJSON s = Inr (jwks_document (ks_keys s))"
proof -
  have "traverse MarshalJSON ks = Inr (map (\<lambda>k. enc_struct (jwk_fields (key_to_jwk k))) ks)" if "list_all (publishable c) ks" for ks
    using that by (induction ks) (auto simp: publishable_emitted(1))
  moreover assume "list_all (publishable c) (ks_keys s)"
  moreover have "map Clone (ks_keys s) = ks_keys s" by (simp add: map_idI)
  ultimately show ?thesis by (simp add: KeySet_MarshalJSON_def Keys_def jwks_document_def)
qed

lemma document_length:
  assumes "list_all (publishable c) ks" "len ks \<le> MaxKeySetKeys"
  shows "len (jwks_document ks) \<le> MaxKeySetJSONBytes"
proof -
  let ?raws = "map (\<lambda>k. enc_struct (jwk_fields (key_to_jwk k))) ks"
  have "sum_list (map (\<lambda>r. length r + 1) ?raws) \<le> length ks * 65537"
    using assms(1) by (induction ks) (auto simp: publishable_def MaxJWKJSONBytes_def len_def)
  moreover have "length (join_with '','' ?raws) \<le> sum_list (map (\<lambda>r. length r + 1) ?raws)" by (rule length_join_with)
  moreover have "length ks * 65537 \<le> 128 * 65537" using assms(2) by (simp add: MaxKeySetKeys_def len_def)
  ultimately have "length (enc_array ?raws) \<le> 128 * 65537 + 2" by (simp add: enc_array_def)
  then have "length (jwks_document ks) \<le> 128 * 65537 + 100"
    using length_enc_struct [of "[(''keys'', False, enc_array ?raws)]"] by (simp add: jwks_document_def)
  then show ?thesis by (simp add: MaxKeySetJSONBytes_def MaxKeySetKeys_def MaxJWKJSONBytes_def len_def)
qed

lemma document_keys:
  assumes "list_all (publishable c) ks"
  shows "decodeObject (dec_struct doc_field None) (jwks_document ks) = Inr (Some (map (\<lambda>k. enc_struct (jwk_fields (key_to_jwk k))) ks))"
proof -
  let ?raws = "map (\<lambda>k. enc_struct (jwk_fields (key_to_jwk k))) ks"
  let ?vs = "map (\<lambda>k. JObj (struct_members (jwk_values (key_to_jwk k)))) ks"
  have "list_all2 (reads_as 2) ?raws ?vs"
    using assms by (induction ks) (auto simp: publishable_emitted(2))
  then have a: "reads_as 3 (enc_array ?raws) (JArr (zip ?raws ?vs))" using reads_as_array [of 2 ?raws ?vs] by simp
  have "reads_as (3 + 1) (enc_struct (map (\<lambda>(n, om, raw, v). (n, om, raw)) [(''keys'', False, enc_array ?raws, JArr (zip ?raws ?vs))]))
      (JObj (struct_members [(''keys'', False, enc_array ?raws, JArr (zip ?raws ?vs))]))"
    by (rule reads_as_struct) (use a in \<open>auto simp: isASCII_def intro: valid_utf8_ASCII\<close>)
  then have r: "reads_as 4 (jwks_document ks) (JObj [(''keys'', enc_array ?raws, JArr (zip ?raws ?vs))])" by (simp add: jwks_document_def)
  have "hd (jwks_document ks) = CHR ''{''" by (simp add: jwks_document_def enc_struct_hd)
  from decodeObject_reads_as [OF r _ this, of "dec_struct doc_field None"] show ?thesis
    by (simp add: max_depth_def doc_field_def)
qed

lemma parse_loop_publishable:
  assumes "list_all (publishable c) ks" "permissive \<Longrightarrow> list_all understandsJWK ks"
  shows "parse_members_loop c permissive i (map (\<lambda>k. enc_struct (jwk_fields (key_to_jwk k))) ks) s ds = Inr (fold Add ks s, ds)"
  using assms by (induction ks arbitrary: i s) (auto simp: parse_publishable)

lemma keyset_determined:
  assumes "ks_inv s" "ks_inv s'" "ks_keys s = ks_keys s'"
  shows "s = s'"
proof -
  have "ks_byKID s = ks_byKID s'" using assms by (auto simp: ks_inv_def fun_eq_iff)
  with assms(3) show ?thesis by (cases s; cases s') simp
qed

lemma parse_published:
  assumes "ks_inv s" "len (ks_keys s) \<le> MaxKeySetKeys" "list_all (publishable c) (ks_keys s)"
    "permissive \<Longrightarrow> list_all understandsJWK (ks_keys s)"
  shows "parseKeySet c (jwks_document (ks_keys s)) permissive = Inr (s, [])"
proof -
  have "fold Add (ks_keys s) (NewKeySet []) = NewKeySet (ks_keys s)" by (simp add: NewKeySet_def)
  moreover have "NewKeySet (ks_keys s) = s"
    by (rule keyset_determined) (use assms(1) NewKeySet_refines(1) NewKeySet_keys in \<open>auto simp: ks_inv_def\<close>)
  ultimately show ?thesis
    using document_length [OF assms(3,2)] document_keys [OF assms(3)] parse_loop_publishable [OF assms(3,4)] assms(2)
    by (simp add: parseKeySet_def len_def)
qed

section \<open>Properties\<close>

text \<open>
  C34: a published key set is read back as it is.  For every key set that a history of operations
  can produce, with at most 128 publishable keys, \<^verbatim>\<open>MarshalJSON\<close> succeeds and \<^verbatim>\<open>ParseKeySet\<close>
  gives the same set, keys in the same order with the same index; so does the permissive
  parser, without diagnostics, when every key is of a type and curve it understands.
\<close>

theorem keyset_json_roundtrip:
  assumes "ks_inv s" "len (ks_keys s) \<le> MaxKeySetKeys" "list_all (publishable c) (ks_keys s)"
  shows "\<exists>p. KeySet_MarshalJSON s = Inr p \<and> ParseKeySet c p = Inr s
    \<and> (list_all understandsJWK (ks_keys s) \<longrightarrow> ParseKeySetPermissive c p = Inr (s, []))"
  using keyset_emitted [OF assms(3)] parse_published [OF assms, of False] parse_published [OF assms, of True]
  by (auto simp: ParseKeySet_def ParseKeySetPermissive_def)

theorem keyset_json_roundtrip_witness:
  "\<exists>p. KeySet_MarshalJSON (NewKeySet [sample_okp_key]) = Inr p \<and> ParseKeySet sample_crypto p = Inr (NewKeySet [sample_okp_key])"
proof -
  have "publishable sample_crypto sample_okp_key" by code_simp
  moreover have "ks_keys (NewKeySet [sample_okp_key]) = [sample_okp_key]" using NewKeySet_keys [of "[sample_okp_key]"] by simp
  ultimately show ?thesis
    using keyset_json_roundtrip [OF NewKeySet_refines(1), of "[sample_okp_key]" sample_crypto] by (auto simp: MaxKeySetKeys_def len_def)
qed

end
