(* ===== verification/IDTokenJSON.thy ===== *)
theory IDTokenJSON
  imports Payload
begin

text \<open>
  What \<^verbatim>\<open>json.Marshal\<close> makes of ID-token claims (\<^verbatim>\<open>idtoken.go\<close>): the registered claims, the
  OpenID Connect standard claims and the claims of the ID token itself, in this order and
  without the empty ones.  Shown: an issued ID token is read back as it was, but for the
  rounding of dates, and the profile and flow checks give the same verdict on both.
\<close>

section \<open>Fields that may be left out\<close>

definition enc_bool :: "bool option \<Rightarrow> string" where
  "enc_bool b = (case b of None \<Rightarrow> ''null'' | Some True \<Rightarrow> ''true'' | Some False \<Rightarrow> ''false'')"

definition opt_str :: "string \<Rightarrow> string \<Rightarrow> string \<times> bool \<times> string" where
  "opt_str n s = (n, s = [], enc_str s)"

definition opt_strs :: "string \<Rightarrow> string list \<Rightarrow> string \<times> bool \<times> string" where
  "opt_strs n ss = (n, ss = [], enc_array (map enc_str ss))"

definition opt_date :: "string \<Rightarrow> time option \<Rightarrow> string \<times> bool \<times> string" where
  "opt_date n d = (n, d = None, enc_date d)"

definition opt_bool :: "string \<Rightarrow> bool option \<Rightarrow> string \<times> bool \<times> string" where
  "opt_bool n b = (n, b = None, enc_bool b)"

section \<open>The emitted fields\<close>

definition address_fields :: "address \<Rightarrow> (string \<times> bool \<times> string) list" where
  "address_fields a =
     [opt_str ''formatted'' (Formatted a), opt_str ''street_address'' (StreetAddress a), opt_str ''locality'' (Locality a),
      opt_str ''region'' (Region a), opt_str ''postal_code'' (PostalCode a), opt_str ''country'' (Country a)]"

definition enc_address :: "address option \<Rightarrow> string" where
  "enc_address a = (case a of None \<Rightarrow> ''null'' | Some x \<Rightarrow> enc_struct (address_fields x))"

definition standard_fields :: "standard_claims \<Rightarrow> (string \<times> bool \<times> string) list" where
  "standard_fields s =
     [opt_str ''name'' (Name s), opt_str ''given_name'' (GivenName s), opt_str ''family_name'' (FamilyName s),
      opt_str ''middle_name'' (MiddleName s), opt_str ''nickname'' (Nickname s), opt_str ''preferred_username'' (PreferredUsername s),
      opt_str ''profile'' (Profile s), opt_str ''picture'' (Picture s), opt_str ''website'' (Website s), opt_str ''email'' (Email s),
      opt_bool ''email_verified'' (EmailVerified s), opt_str ''gender'' (Gender s), opt_str ''birthdate'' (Birthdate s),
      opt_str ''zoneinfo'' (ZoneInfo s), opt_str ''locale'' (Locale s), opt_str ''phone_number'' (PhoneNumber s),
      opt_bool ''phone_number_verified'' (PhoneNumberVerified s), (''address'', Address s = None, enc_address (Address s)),
      opt_date ''updated_at'' (UpdatedAt s), opt_str ''nonce'' (Nonce s)]"

definition id_token_fields :: "id_token_claims \<Rightarrow> (string \<times> bool \<times> string) list" where
  "id_token_fields t =
     [opt_str ''azp'' (AuthorizedParty t), opt_str ''at_hash'' (AccessTokenHash t), opt_str ''c_hash'' (CodeHash t),
      opt_date ''auth_time'' (id_AuthTime t), opt_str ''acr'' (id_ACR t), opt_strs ''amr'' (id_AMR t)]"

text \<open>A struct that embeds the ID-token claims adds its own fields at the end.\<close>

definition marshal_id_token :: "id_token_claims \<Rightarrow> (string \<times> bool \<times> string) list \<Rightarrow> bytes result" where
  "marshal_id_token t extra =
     marshal_claims (id_Registered t) (standard_fields (id_Standard t) @ id_token_fields t @ extra)"

section \<open>Decoding an optional field\<close>

text \<open>The emitted fields with the value each is read as.\<close>

definition val_str :: "string \<Rightarrow> string \<Rightarrow> string \<times> bool \<times> string \<times> json" where
  "val_str n s = (n, s = [], enc_str s, JStr s)"

definition val_strs :: "string \<Rightarrow> string list \<Rightarrow> string \<times> bool \<times> string \<times> json" where
  "val_strs n ss = (n, ss = [], enc_array (map enc_str ss), JArr (map (\<lambda>s. (enc_str s, JStr s)) ss))"

definition val_date :: "string \<Rightarrow> time option \<Rightarrow> string \<times> bool \<times> string \<times> json" where
  "val_date n d = (n, d = None, enc_date d, JNum (enc_date d))"

definition val_bool :: "string \<Rightarrow> bool option \<Rightarrow> string \<times> bool \<times> string \<times> json" where
  "val_bool n b = (n, b = None, enc_bool b, JBool (b = Some True))"

definition drop_value :: "string \<times> bool \<times> string \<times> json \<Rightarrow> string \<times> bool \<times> string" where
  "drop_value = (\<lambda>(n, om, raw, v). (n, om, raw))"

lemma drop_value_simps [simp]:
  "drop_value (val_str n s) = opt_str n s" "drop_value (val_strs n ss) = opt_strs n ss" "drop_value (val_date n d) = opt_date n d"
  "drop_value (val_bool n b) = opt_bool n b" "drop_value (n, om, raw, v) = (n, om, raw)"
  by (simp_all add: drop_value_def val_str_def val_strs_def val_date_def val_bool_def opt_str_def opt_strs_def opt_date_def opt_bool_def)

lemma val_name [simp]:
  "fst (val_str n s) = n" "fst (val_strs n ss) = n" "fst (val_date n d) = n" "fst (val_bool n b) = n"
  by (simp_all add: val_str_def val_strs_def val_date_def val_bool_def)

text \<open>A value is read as it was emitted.\<close>

definition value_ok :: "int \<Rightarrow> string \<times> bool \<times> string \<times> json \<Rightarrow> bool" where
  "value_ok k = (\<lambda>(n, om, raw, v). valid_utf8 n \<and> (\<not> om \<longrightarrow> reads_as k raw v))"

lemma reads_as_bool: "reads_as 0 ''true'' (JBool True)" "reads_as 0 ''false'' (JBool False)"
proof -
  have "parse_value strict f d (''true'' @ t) = Some (JBool True, t)" "parse_value strict f d (''false'' @ t) = Some (JBool False, t)"
    if "0 < f" for strict f d t
    using that by (cases f; simp add: parse_value.simps parse_lit_def has_prefix_def isDigit_def)+
  moreover have "\<not> is_ws CHR ''t''" "\<not> is_ws CHR ''f''" by code_simp+
  ultimately show "reads_as 0 ''true'' (JBool True)" "reads_as 0 ''false'' (JBool False)"
    by (simp_all add: reads_as_def)
qed

lemma value_okI:
  assumes "1 \<le> k" "valid_utf8 n"
  shows "valid_utf8 s \<Longrightarrow> value_ok k (val_str n s)" "list_all valid_utf8 ss \<Longrightarrow> value_ok k (val_strs n ss)"
    "value_ok k (val_date n d)" "value_ok k (val_bool n b)"
proof -
  show "valid_utf8 s \<Longrightarrow> value_ok k (val_str n s)" using assms by (auto simp: value_ok_def val_str_def intro: reads_as_mono [OF reads_as_str])
  show "list_all valid_utf8 ss \<Longrightarrow> value_ok k (val_strs n ss)"
    using assms by (auto simp: value_ok_def val_strs_def list_all_iff intro!: reads_as_mono [OF reads_as_strings])
  show "value_ok k (val_date n d)"
    using assms reads_as_mono [OF NumericDate_reads_as, of k] by (cases d) (auto simp: value_ok_def val_date_def enc_date_def)
  show "value_ok k (val_bool n b)"
    using assms reads_as_mono [OF reads_as_bool(1), of k] reads_as_mono [OF reads_as_bool(2), of k]
    by (cases b) (auto simp: value_ok_def val_bool_def enc_bool_def split: bool.splits)
qed

lemma values_read_as:
  assumes "list_all (value_ok k) vs" "distinct (map fst vs)" "0 \<le> k"
  shows "reads_as (k + 1) (enc_struct (map drop_value vs)) (JObj (struct_members vs))"
  unfolding drop_value_def by (rule reads_as_struct) (use assms in \<open>auto simp: value_ok_def list_all_iff\<close>)

text \<open>
  A field that a decoder stores with the update \<open>U\<close>: decoding the optional field into a record
  that does not have it yet is that update, whether the field was left out or not.
\<close>

definition stores :: "('r \<Rightarrow> string \<Rightarrow> string \<Rightarrow> json \<Rightarrow> 'r result) \<Rightarrow> (string \<times> bool \<times> string \<times> json) \<Rightarrow> ('r \<Rightarrow> bool) \<Rightarrow> ('r \<Rightarrow> 'r) \<Rightarrow> bool" where
  "stores f e unset U \<longleftrightarrow> (\<forall>r fs. unset r \<longrightarrow> dec_fields f r (struct_members (e # fs)) = dec_fields f (U r) (struct_members fs))"

lemma stores_str:
  assumes "\<And>r raw v. f r n raw v = set_str (\<lambda>x. U x r) v" "\<And>r. unset r \<Longrightarrow> U [] r = r"
  shows "stores f (val_str n s) unset (U s)"
  using assms by (auto simp: stores_def val_str_def set_str_def)

lemma stores_strs:
  assumes "\<And>r raw v. f r n raw v = set_strs (\<lambda>x. U x r) v" "\<And>r. unset r \<Longrightarrow> U [] r = r"
  shows "stores f (val_strs n ss) unset (U ss)"
  using assms by (auto simp: stores_def val_strs_def set_strs_def dec_strings_emitted simp del: dec_strings.simps)

lemma stores_date:
  assumes "\<And>r raw v. f r n raw v = set_res (\<lambda>x. U x r) (dec_date raw v)" "\<And>r. unset r \<Longrightarrow> U None r = r" "pred_option date_in_range d"
  shows "stores f (val_date n d) unset (U (map_option date_read d))"
  using assms by (cases d) (auto simp: stores_def val_date_def set_res_def enc_date_def dec_date_emitted)

lemma Bool_literals: "Bool_UnmarshalJSON ''true'' = Inr True" "Bool_UnmarshalJSON ''false'' = Inr False"
  by code_simp+

lemma stores_bool:
  assumes "\<And>r raw v. f r n raw v = set_res (\<lambda>x. U x r) (dec_pointer (\<lambda>raw v. Bool_UnmarshalJSON raw) raw v)"
    "\<And>r. unset r \<Longrightarrow> U None r = r"
  shows "stores f (val_bool n b) unset (U b)"
proof (cases b)
  case (Some x)
  then show ?thesis using assms(1)
    by (cases x) (simp_all add: stores_def val_bool_def set_res_def dec_pointer_def enc_bool_def Bool_literals)
qed (use assms(2) in \<open>simp add: stores_def val_bool_def\<close>)

section \<open>The claims of an ID token\<close>

definition address_values :: "address \<Rightarrow> (string \<times> bool \<times> string \<times> json) list" where
  "address_values a =
     [val_str ''formatted'' (Formatted a), val_str ''street_address'' (StreetAddress a), val_str ''locality'' (Locality a),
      val_str ''region'' (Region a), val_str ''postal_code'' (PostalCode a), val_str ''country'' (Country a)]"

definition val_address :: "address option \<Rightarrow> string \<times> bool \<times> string \<times> json" where
  "val_address a = (''address'', a = None, enc_address a, JObj (case a of None \<Rightarrow> [] | Some x \<Rightarrow> struct_members (address_values x)))"

definition standard_values :: "standard_claims \<Rightarrow> (string \<times> bool \<times> string \<times> json) list" where
  "standard_values s =
     [val_str ''name'' (Name s), val_str ''given_name'' (GivenName s), val_str ''family_name'' (FamilyName s),
      val_str ''middle_name'' (MiddleName s), val_str ''nickname'' (Nickname s), val_str ''preferred_username'' (PreferredUsername s),
      val_str ''profile'' (Profile s), val_str ''picture'' (Picture s), val_str ''website'' (Website s), val_str ''email'' (Email s),
      val_bool ''email_verified'' (EmailVerified s), val_str ''gender'' (Gender s), val_str ''birthdate'' (Birthdate s),
      val_str ''zoneinfo'' (ZoneInfo s), val_str ''locale'' (Locale s), val_str ''phone_number'' (PhoneNumber s),
      val_bool ''phone_number_verified'' (PhoneNumberVerified s), val_address (Address s),
      val_date ''updated_at'' (UpdatedAt s), val_str ''nonce'' (Nonce s)]"

definition id_token_values :: "id_token_claims \<Rightarrow> (string \<times> bool \<times> string \<times> json) list" where
  "id_token_values t =
     [val_str ''azp'' (AuthorizedParty t), val_str ''at_hash'' (AccessTokenHash t), val_str ''c_hash'' (CodeHash t),
      val_date ''auth_time'' (id_AuthTime t), val_str ''acr'' (id_ACR t), val_strs ''amr'' (id_AMR t)]"

lemma values_fields:
  "map drop_value (address_values a) = address_fields a" "map drop_value (standard_values s) = standard_fields s"
  "map drop_value (id_token_values t) = id_token_fields t"
  by (simp_all add: address_values_def address_fields_def standard_values_def standard_fields_def id_token_values_def id_token_fields_def val_address_def)

text \<open>Strings of valid UTF-8 and dates in range.\<close>

definition address_ok :: "address \<Rightarrow> bool" where
  "address_ok a \<longleftrightarrow> list_all valid_utf8 [Formatted a, StreetAddress a, Locality a, Region a, PostalCode a, Country a]"

definition standard_ok :: "standard_claims \<Rightarrow> bool" where
  "standard_ok s \<longleftrightarrow>
     list_all valid_utf8 [Name s, GivenName s, FamilyName s, MiddleName s, Nickname s, PreferredUsername s, Profile s, Picture s,
       Website s, Email s, Gender s, Birthdate s, ZoneInfo s, Locale s, PhoneNumber s, Nonce s]
     \<and> pred_option address_ok (Address s) \<and> pred_option date_in_range (UpdatedAt s)"

definition id_token_ok :: "id_token_claims \<Rightarrow> bool" where
  "id_token_ok t \<longleftrightarrow> claims_emittable (id_Registered t) \<and> standard_ok (id_Standard t)
     \<and> list_all valid_utf8 [AuthorizedParty t, AccessTokenHash t, CodeHash t, id_ACR t] \<and> list_all valid_utf8 (id_AMR t)
     \<and> pred_option date_in_range (id_AuthTime t)"

text \<open>The address decodes to itself.\<close>

lemma stores_address_fields:
  "stores address_field (val_str ''formatted'' s) (\<lambda>r. Formatted r = []) (\<lambda>r. r\<lparr>Formatted := s\<rparr>)"
  "stores address_field (val_str ''street_address'' s) (\<lambda>r. StreetAddress r = []) (\<lambda>r. r\<lparr>StreetAddress := s\<rparr>)"
  "stores address_field (val_str ''locality'' s) (\<lambda>r. Locality r = []) (\<lambda>r. r\<lparr>Locality := s\<rparr>)"
  "stores address_field (val_str ''region'' s) (\<lambda>r. Region r = []) (\<lambda>r. r\<lparr>Region := s\<rparr>)"
  "stores address_field (val_str ''postal_code'' s) (\<lambda>r. PostalCode r = []) (\<lambda>r. r\<lparr>PostalCode := s\<rparr>)"
  "stores address_field (val_str ''country'' s) (\<lambda>r. Country r = []) (\<lambda>r. r\<lparr>Country := s\<rparr>)"
  by (rule stores_str; simp add: address_field_def)+

lemma address_read_back:
  assumes "address_ok a"
  shows "reads_as 3 (enc_struct (address_fields a)) (JObj (struct_members (address_values a)))"
    "dec_fields address_field zero_address (struct_members (address_values a)) = Inr a"
proof -
  have u: "list_all valid_utf8 [''formatted'', ''street_address'', ''locality'', ''region'', ''postal_code'', ''country'']" by code_simp
  have "list_all (value_ok 2) (address_values a)"
    using assms u by (simp add: address_values_def address_ok_def value_okI)
  moreover have "distinct (map fst (address_values a))" by (simp add: address_values_def)
  ultimately show "reads_as 3 (enc_struct (address_fields a)) (JObj (struct_members (address_values a)))"
    using values_read_as [of 2 "address_values a"] unfolding values_fields by simp
  have "dec_fields address_field zero_address (struct_members (address_values a)) =
      Inr \<lparr>Formatted = Formatted a, StreetAddress = StreetAddress a, Locality = Locality a, Region = Region a,
        PostalCode = PostalCode a, Country = Country a\<rparr>"
    by (simp add: address_values_def zero_address_def stores_address_fields [unfolded stores_def, rule_format] del: struct_members.simps(2))
  then show "dec_fields address_field zero_address (struct_members (address_values a)) = Inr a" by simp
qed

text \<open>The standard claims decode to themselves.\<close>

lemma stores_standard_fields:
  "stores standard_field (val_str ''name'' s) (\<lambda>r. Name r = []) (\<lambda>r. r\<lparr>Name := s\<rparr>)"
  "stores standard_field (val_str ''given_name'' s) (\<lambda>r. GivenName r = []) (\<lambda>r. r\<lparr>GivenName := s\<rparr>)"
  "stores standard_field (val_str ''family_name'' s) (\<lambda>r. FamilyName r = []) (\<lambda>r. r\<lparr>FamilyName := s\<rparr>)"
  "stores standard_field (val_str ''middle_name'' s) (\<lambda>r. MiddleName r = []) (\<lambda>r. r\<lparr>MiddleName := s\<rparr>)"
  "stores standard_field (val_str ''nickname'' s) (\<lambda>r. Nickname r = []) (\<lambda>r. r\<lparr>Nickname := s\<rparr>)"
  "stores standard_field (val_str ''preferred_username'' s) (\<lambda>r. PreferredUsername r = []) (\<lambda>r. r\<lparr>PreferredUsername := s\<rparr>)"
  "stores standard_field (val_str ''profile'' s) (\<lambda>r. Profile r = []) (\<lambda>r. r\<lparr>Profile := s\<rparr>)"
  "stores standard_field (val_str ''picture'' s) (\<lambda>r. Picture r = []) (\<lambda>r. r\<lparr>Picture := s\<rparr>)"
  "stores standard_field (val_str ''website'' s) (\<lambda>r. Website r = []) (\<lambda>r. r\<lparr>Website := s\<rparr>)"
  "stores standard_field (val_str ''email'' s) (\<lambda>r. Email r = []) (\<lambda>r. r\<lparr>Email := s\<rparr>)"
  "stores standard_field (val_str ''gender'' s) (\<lambda>r. Gender r = []) (\<lambda>r. r\<lparr>Gender := s\<rparr>)"
  "stores standard_field (val_str ''birthdate'' s) (\<lambda>r. Birthdate r = []) (\<lambda>r. r\<lparr>Birthdate := s\<rparr>)"
  "stores standard_field (val_str ''zoneinfo'' s) (\<lambda>r. ZoneInfo r = []) (\<lambda>r. r\<lparr>ZoneInfo := s\<rparr>)"
  "stores standard_field (val_str ''locale'' s) (\<lambda>r. Locale r = []) (\<lambda>r. r\<lparr>Locale := s\<rparr>)"
  "stores standard_field (val_str ''phone_number'' s) (\<lambda>r. PhoneNumber r = []) (\<lambda>r. r\<lparr>PhoneNumber := s\<rparr>)"
  "stores standard_field (val_str ''nonce'' s) (\<lambda>r. Nonce r = []) (\<lambda>r. r\<lparr>Nonce := s\<rparr>)"
  by (rule stores_str; simp add: standard_field_def)+

lemma stores_standard_others:
  "stores standard_field (val_bool ''email_verified'' b) (\<lambda>r. EmailVerified r = None) (\<lambda>r. r\<lparr>EmailVerified := b\<rparr>)"
  "stores standard_field (val_bool ''phone_number_verified'' b) (\<lambda>r. PhoneNumberVerified r = None) (\<lambda>r. r\<lparr>PhoneNumberVerified := b\<rparr>)"
  "pred_option date_in_range d \<Longrightarrow>
    stores standard_field (val_date ''updated_at'' d) (\<lambda>r. UpdatedAt r = None) (\<lambda>r. r\<lparr>UpdatedAt := map_option date_read d\<rparr>)"
  "pred_option address_ok a \<Longrightarrow> stores standard_field (val_address a) (\<lambda>r. Address r = None) (\<lambda>r. r\<lparr>Address := a\<rparr>)"
proof -
  show "stores standard_field (val_bool ''email_verified'' b) (\<lambda>r. EmailVerified r = None) (\<lambda>r. r\<lparr>EmailVerified := b\<rparr>)"
    "stores standard_field (val_bool ''phone_number_verified'' b) (\<lambda>r. PhoneNumberVerified r = None) (\<lambda>r. r\<lparr>PhoneNumberVerified := b\<rparr>)"
    by (rule stores_bool; simp add: standard_field_def)+
  show "stores standard_field (val_date ''updated_at'' d) (\<lambda>r. UpdatedAt r = None) (\<lambda>r. r\<lparr>UpdatedAt := map_option date_read d\<rparr>)"
    if "pred_option date_in_range d"
    using that by (intro stores_date [where U = "\<lambda>x r. r\<lparr>UpdatedAt := x\<rparr>"]) (simp_all add: standard_field_def)
  show "stores standard_field (val_address a) (\<lambda>r. Address r = None) (\<lambda>r. r\<lparr>Address := a\<rparr>)" if "pred_option address_ok a"
  proof (cases a)
    case None
    have u: "r\<lparr>Address := None\<rparr> = r" if "Address r = None" for r :: standard_claims using that by (cases r) simp
    show ?thesis unfolding stores_def
    proof (intro allI impI)
      fix r :: standard_claims and fs assume "Address r = None"
      from u [OF this] None show "dec_fields standard_field r (struct_members (val_address a # fs)) =
          dec_fields standard_field (r\<lparr>Address := a\<rparr>) (struct_members fs)"
        by (simp add: val_address_def)
    qed
  next
    case (Some x)
    with that address_read_back(2) [of x] show ?thesis
      by (simp add: stores_def val_address_def standard_field_def set_res_def dec_pointer_def)
  qed
qed

definition standard_read :: "standard_claims \<Rightarrow> standard_claims" where
  "standard_read s = s\<lparr>UpdatedAt := map_option date_read (UpdatedAt s)\<rparr>"

lemma standard_read_back:
  assumes "standard_ok s"
  shows "list_all (value_ok 3) (standard_values s)" "map fst (standard_values s) = standard_names"
    "dec_fields standard_field zero_standard (struct_members (standard_values s)) = Inr (standard_read s)"
proof -
  show n: "map fst (standard_values s) = standard_names" by (simp add: standard_values_def standard_names_def val_address_def)
  have u: "list_all valid_utf8 standard_names" by code_simp
  have "value_ok 3 (val_address (Address s))"
    using assms address_read_back(1) by (cases "Address s") (auto simp: value_ok_def val_address_def enc_address_def standard_ok_def isASCII_def intro!: valid_utf8_ASCII)
  then show "list_all (value_ok 3) (standard_values s)"
    using assms u by (simp add: standard_values_def standard_ok_def standard_names_def value_okI)
  have "pred_option address_ok (Address s)" "pred_option date_in_range (UpdatedAt s)" using assms by (simp_all add: standard_ok_def)
  note st = stores_standard_fields [unfolded stores_def, rule_format] stores_standard_others(1,2) [unfolded stores_def, rule_format]
    stores_standard_others(3) [OF this(2), unfolded stores_def, rule_format] stores_standard_others(4) [OF this(1), unfolded stores_def, rule_format]
  have "dec_fields standard_field zero_standard (struct_members (standard_values s)) = Inr \<lparr>
      Name = Name s, GivenName = GivenName s, FamilyName = FamilyName s, MiddleName = MiddleName s, Nickname =
      Nickname s, PreferredUsername = PreferredUsername s, Profile = Profile s, Picture = Picture s, Website =
      Website s, Email = Email s, EmailVerified = EmailVerified s, Gender = Gender s, Birthdate = Birthdate s,
      ZoneInfo = ZoneInfo s, Locale = Locale s, PhoneNumber = PhoneNumber s, PhoneNumberVerified =
      PhoneNumberVerified s, Address = Address s, UpdatedAt = map_option date_read (UpdatedAt s), Nonce = Nonce s\<rparr>"
    by (simp add: standard_values_def zero_standard_def st del: struct_members.simps(2))
  then show "dec_fields standard_field zero_standard (struct_members (standard_values s)) = Inr (standard_read s)"
    by (simp add: standard_read_def)
qed

text \<open>The fields of the ID token itself.\<close>

lemma stores_id_token_fields:
  "stores id_token_field (val_str ''azp'' s) (\<lambda>r. AuthorizedParty r = []) (\<lambda>r. r\<lparr>AuthorizedParty := s\<rparr>)"
  "stores id_token_field (val_str ''at_hash'' s) (\<lambda>r. AccessTokenHash r = []) (\<lambda>r. r\<lparr>AccessTokenHash := s\<rparr>)"
  "stores id_token_field (val_str ''c_hash'' s) (\<lambda>r. CodeHash r = []) (\<lambda>r. r\<lparr>CodeHash := s\<rparr>)"
  "stores id_token_field (val_str ''acr'' s) (\<lambda>r. id_ACR r = []) (\<lambda>r. r\<lparr>id_ACR := s\<rparr>)"
  "stores id_token_field (val_strs ''amr'' ss) (\<lambda>r. id_AMR r = []) (\<lambda>r. r\<lparr>id_AMR := ss\<rparr>)"
  by (rule stores_str stores_strs; simp add: id_token_field_def)+

lemma stores_auth_time:
  "pred_option date_in_range d \<Longrightarrow>
    stores id_token_field (val_date ''auth_time'' d) (\<lambda>r. id_AuthTime r = None) (\<lambda>r. r\<lparr>id_AuthTime := map_option date_read d\<rparr>)"
  by (intro stores_date [where U = "\<lambda>x r. r\<lparr>id_AuthTime := x\<rparr>"]) (simp_all add: id_token_field_def)

text \<open>The embedded registered and standard claims.\<close>

lemma name_sets_disjoint:
  "set [''azp'', ''at_hash'', ''c_hash'', ''auth_time'', ''acr'', ''amr''] \<inter> set (standard_names @ registered_names) = {}"
  "set standard_names \<inter> set registered_names = {}"
  by (simp_all add: standard_names_def registered_names_def)

lemma id_token_field_embedded:
  assumes "n \<notin> set [''azp'', ''at_hash'', ''c_hash'', ''auth_time'', ''acr'', ''amr'']"
  shows "id_token_field r n raw v =
     (if n \<in> set registered_names then embedded claims_field (id_Registered r) (\<lambda>x. r\<lparr>id_Registered := x\<rparr>) n raw v
      else embedded standard_field (id_Standard r) (\<lambda>x. r\<lparr>id_Standard := x\<rparr>) n raw v)"
  using assms unfolding id_token_field_def by auto

interpretation idp: embeds_part id_token_field standard_field id_Standard "\<lambda>x r. r\<lparr>id_Standard := x\<rparr>" standard_names
proof
  fix n r raw v assume n: "n \<in> set standard_names"
  with name_sets_disjoint have "n \<notin> set [''azp'', ''at_hash'', ''c_hash'', ''auth_time'', ''acr'', ''amr'']" "n \<notin> set registered_names"
    unfolding set_append by blast+
  then show "id_token_field r n raw v = embedded standard_field (id_Standard r) (\<lambda>x. r\<lparr>id_Standard := x\<rparr>) n raw v"
    using id_token_field_embedded by (simp del: list.set)
qed simp_all

interpretation idf: embeds_first id_token_field id_Registered zero_id_token "\<lambda>x r. r\<lparr>id_Registered := x\<rparr>"
proof
  fix n r raw v assume n: "n \<in> set registered_names"
  with name_sets_disjoint have "n \<notin> set [''azp'', ''at_hash'', ''c_hash'', ''auth_time'', ''acr'', ''amr'']"
    unfolding set_append by blast
  with n show "id_token_field r n raw v = embedded claims_field (id_Registered r) (\<lambda>x. r\<lparr>id_Registered := x\<rparr>) n raw v"
    using id_token_field_embedded by (simp del: list.set)
qed simp_all

section \<open>Reading back\<close>

definition id_token_names :: "string list" where
  "id_token_names = registered_names @ standard_names @ [''azp'', ''at_hash'', ''c_hash'', ''auth_time'', ''acr'', ''amr'']"

definition id_token_read :: "id_token_claims \<Rightarrow> id_token_claims" where
  "id_token_read t = t\<lparr>id_Registered := claims_read (id_Registered t), id_Standard := standard_read (id_Standard t),
     id_AuthTime := map_option date_read (id_AuthTime t)\<rparr>"

lemma id_token_own_read_back:
  assumes "id_token_ok t"
  shows "list_all (value_ok 3) (id_token_values t)"
    "map fst (id_token_values t) = [''azp'', ''at_hash'', ''c_hash'', ''auth_time'', ''acr'', ''amr'']"
    "dec_fields id_token_field (zero_id_token\<lparr>id_Registered := rc, id_Standard := st\<rparr>) (struct_members (id_token_values t)) =
      Inr ((id_token_read t)\<lparr>id_Registered := rc, id_Standard := st\<rparr>)"
proof -
  have u: "list_all valid_utf8 [''azp'', ''at_hash'', ''c_hash'', ''auth_time'', ''acr'', ''amr'']" by code_simp
  show "list_all (value_ok 3) (id_token_values t)"
    using assms u by (simp add: id_token_values_def id_token_ok_def value_okI)
  show "map fst (id_token_values t) = [''azp'', ''at_hash'', ''c_hash'', ''auth_time'', ''acr'', ''amr'']"
    by (simp add: id_token_values_def)
  have d: "pred_option date_in_range (id_AuthTime t)" using assms by (simp add: id_token_ok_def)
  have "dec_fields id_token_field (zero_id_token\<lparr>id_Registered := rc, id_Standard := st\<rparr>) (struct_members (id_token_values t)) =
      Inr \<lparr>id_Registered = rc, id_Standard = st, AuthorizedParty = AuthorizedParty t, AccessTokenHash = AccessTokenHash t,
        CodeHash = CodeHash t, id_AuthTime = map_option date_read (id_AuthTime t), id_ACR = id_ACR t, id_AMR = id_AMR t\<rparr>"
    by (simp add: id_token_values_def zero_id_token_def stores_id_token_fields [unfolded stores_def, rule_format]
        stores_auth_time [OF d, unfolded stores_def, rule_format] del: struct_members.simps(2))
  then show "dec_fields id_token_field (zero_id_token\<lparr>id_Registered := rc, id_Standard := st\<rparr>) (struct_members (id_token_values t)) =
      Inr ((id_token_read t)\<lparr>id_Registered := rc, id_Standard := st\<rparr>)"
    by (simp add: id_token_read_def)
qed

text \<open>The emitted members, those of a surrounding struct at the end.\<close>

lemma marshal_id_token_read_back:
  assumes "id_token_ok t" "list_all (value_ok 3) ex" "distinct (map fst ex)" "set (map fst ex) \<inter> set id_token_names = {}"
  obtains p vs where "marshal_id_token t (map drop_value ex) = Inr p" "hd p = CHR ''{''"
    "reads_as 4 p (JObj (vs @ struct_members ex))" "fst ` set vs \<subseteq> set id_token_names"
    "dec_fields id_token_field zero_id_token vs = Inr (id_token_read t)"
    "dec_fields claims_field zero_claims (vs @ struct_members ex) = Inr (claims_read (id_Registered t))"
    "\<forall>fs n raw. registered_fields (id_Registered t) = Inr fs \<longrightarrow> (n, False, raw) \<in> set fs \<longrightarrow>
      (\<exists>v. map_of (vs @ struct_members ex) n = Some (raw, v))"
proof -
  let ?rc = "claims_read (id_Registered t)" and ?s = "standard_values (id_Standard t)" and ?t = "id_token_values t"
  have ok: "claims_emittable (id_Registered t)" "standard_ok (id_Standard t)" using assms(1) by (simp_all add: id_token_ok_def)
  note s = standard_read_back [OF ok(2)] and o' = id_token_own_read_back [OF assms(1)]
  have all: "list_all (value_ok 3) (?s @ ?t @ ex)" using s(1) o'(1) assms(2) by simp
  have names: "map fst (?s @ ?t @ ex) = standard_names @ [''azp'', ''at_hash'', ''c_hash'', ''auth_time'', ''acr'', ''amr''] @ map fst ex"
    unfolding map_append s(2) o'(2) by (rule refl)
  have "distinct standard_names" "distinct [''azp'', ''at_hash'', ''c_hash'', ''auth_time'', ''acr'', ''amr'']"
    by (simp_all add: standard_names_def)
  then have d: "distinct (map fst (?s @ ?t @ ex))"
    unfolding names distinct_append using name_sets_disjoint assms(3,4) unfolding id_token_names_def set_append by blast
  have r: "set registered_names \<inter> set (map fst (?s @ ?t @ ex)) = {}"
    unfolding names using name_sets_disjoint assms(4) unfolding id_token_names_def set_append by blast
  have e: "valid_utf8 n \<and> n \<notin> set registered_names \<and> (\<not> om \<longrightarrow> reads_as 3 raw v)" if "(n, om, raw, v) \<in> set (?s @ ?t @ ex)" for n om raw v
  proof -
    have "n \<in> set (map fst (?s @ ?t @ ex))" using that by force
    then have "n \<notin> set registered_names" using r by blast
    moreover have "value_ok 3 (n, om, raw, v)" using all that unfolding list_all_iff by blast
    ultimately show ?thesis by (simp add: value_ok_def)
  qed
  obtain p vs where p: "marshal_claims (id_Registered t) (map (\<lambda>(n, om, raw, v). (n, om, raw)) (?s @ ?t @ ex)) = Inr p" "hd p = CHR ''{''"
      "reads_as 4 p (JObj (vs @ struct_members (?s @ ?t @ ex)))" "fst ` set vs \<subseteq> set registered_names"
      "dec_fields claims_field zero_claims vs = Inr ?rc"
      "\<forall>fs n raw. registered_fields (id_Registered t) = Inr fs \<longrightarrow> (n, False, raw) \<in> set fs \<longrightarrow> (\<exists>v. map_of vs n = Some (raw, v))"
    by (rule marshal_claims_members [OF ok(1) d e])
  have m: "marshal_id_token t (map drop_value ex) = Inr p"
    using p(1) unfolding drop_value_def [symmetric] map_append values_fields by (simp add: marshal_id_token_def)
  let ?vs = "vs @ struct_members ?s @ struct_members ?t"
  have sub: "fst ` set (struct_members ?s) \<subseteq> set standard_names"
      "fst ` set (struct_members ?t) \<subseteq> set [''azp'', ''at_hash'', ''c_hash'', ''auth_time'', ''acr'', ''amr'']"
    using struct_members_names [of ?s] struct_members_names [of ?t] s(2) o'(2) by (metis set_map)+
  have n: "fst ` set ?vs \<subseteq> set id_token_names"
    unfolding set_append image_Un id_token_names_def using p(4) sub by blast
  have 1: "dec_fields id_token_field zero_id_token vs = Inr (zero_id_token\<lparr>id_Registered := ?rc\<rparr>)"
    by (rule idf.dec_fields_own [OF p(4)]) (use p(5) in \<open>simp add: zero_id_token_def\<close>)
  have 2: "dec_fields id_token_field (zero_id_token\<lparr>id_Registered := ?rc\<rparr>) (struct_members ?s) =
      Inr (zero_id_token\<lparr>id_Registered := ?rc, id_Standard := standard_read (id_Standard t)\<rparr>)"
    by (rule idp.dec_fields_own [OF sub(1)]) (use s(3) in \<open>simp add: zero_id_token_def\<close>)
  have "(id_token_read t)\<lparr>id_Registered := ?rc, id_Standard := standard_read (id_Standard t)\<rparr> = id_token_read t"
    by (simp add: id_token_read_def)
  then have dec: "dec_fields id_token_field zero_id_token ?vs = Inr (id_token_read t)"
    using o'(3) [where rc = ?rc and st = "standard_read (id_Standard t)"] by (simp add: dec_fields_append 1 2)
  have "fst ` set (struct_members (?s @ ?t @ ex)) \<subseteq> set (map fst (?s @ ?t @ ex))"
    unfolding set_map by (rule struct_members_names)
  with r have "fst ` set (struct_members (?s @ ?t @ ex)) \<inter> set registered_names = {}" by blast
  then have "dec_fields claims_field ?rc (struct_members (?s @ ?t @ ex)) = Inr ?rc" by (rule dec_fields_skip)
  then have "dec_fields claims_field zero_claims (?vs @ struct_members ex) = Inr ?rc"
    using p(5) by (simp add: dec_fields_append struct_members_append)
  moreover have "\<forall>fs n raw. registered_fields (id_Registered t) = Inr fs \<longrightarrow> (n, False, raw) \<in> set fs \<longrightarrow>
      (\<exists>v. map_of (?vs @ struct_members ex) n = Some (raw, v))"
    using p(6) unfolding append_assoc map_of_append map_add_def by (metis option.simps(5))
  ultimately show thesis using that [OF m p(2) _ n dec] p(3) by (simp add: struct_members_append)
qed

section \<open>Properties\<close>

text \<open>The checks of the profile and of the flow do not look at the instants.\<close>

lemma id_token_read_checks:
  "ValidateIDTokenClaims q (id_token_read t) = ValidateIDTokenClaims q t"
  "ValidateIDTokenForContext c q (id_token_read t) v = ValidateIDTokenForContext c q t v"
proof -
  have m: "id_missing (id_token_read t) = id_missing t"
    by (cases "ExpiresAt (id_Registered t)"; cases "IssuedAt (id_Registered t)")
      (simp_all add: id_missing_def id_token_read_def claims_read_def)
  have a: "check_azp q (id_token_read t) = check_azp q t" by (simp add: check_azp_def id_token_read_def claims_read_def)
  have f: "Issuer (id_Registered (id_token_read t)) = Issuer (id_Registered t)" "Subject (id_Registered (id_token_read t)) = Subject (id_Registered t)"
    "Audience (id_Registered (id_token_read t)) = Audience (id_Registered t)" "AuthorizedParty (id_token_read t) = AuthorizedParty t"
    "AccessTokenHash (id_token_read t) = AccessTokenHash t" "CodeHash (id_token_read t) = CodeHash t" "id_AMR (id_token_read t) = id_AMR t"
    "Nonce (id_Standard (id_token_read t)) = Nonce (id_Standard t)"
    by (simp_all add: id_token_read_def claims_read_def standard_read_def)
  show c: "ValidateIDTokenClaims q (id_token_read t) = ValidateIDTokenClaims q t"
    unfolding ValidateIDTokenClaims_def m a f by (rule refl)
  show "ValidateIDTokenForContext c q (id_token_read t) v = ValidateIDTokenForContext c q t v"
    unfolding ValidateIDTokenForContext_def c f by (rule refl)
qed

text \<open>
  C27: ID-token claims survive issuing.  \<^verbatim>\<open>json.Marshal\<close> of claims whose strings are valid UTF-8 and
  whose dates are in range succeeds; decoding the payload gives the same claims, address,
  flags and confirmation key included, but for dates rounded as \<open>date_read\<close> says; what
  \<^verbatim>\<open>Parse\<close> validates are their registered claims; and the profile and flow checks give the verdict
  they give on the issued claims.
\<close>

theorem id_token_claims_roundtrip:
  assumes "id_token_ok t"
  shows "\<exists>p. marshal_id_token t [] = Inr p \<and> decodeObject (dec_struct id_token_field zero_id_token) p = Inr (id_token_read t)
    \<and> decodeObject dec_claims p = Inr (claims_read (id_Registered t))
    \<and> ValidateIDTokenForContext c q (id_token_read t) v = ValidateIDTokenForContext c q t v"
proof -
  obtain p vs where p: "marshal_id_token t (map drop_value []) = Inr p" "hd p = CHR ''{''" "reads_as 4 p (JObj (vs @ struct_members []))"
      "dec_fields id_token_field zero_id_token vs = Inr (id_token_read t)"
      "dec_fields claims_field zero_claims (vs @ struct_members []) = Inr (claims_read (id_Registered t))"
    by (rule marshal_id_token_read_back [OF assms, of "[]"]) (simp, simp, simp, blast)
  from p(1) have m: "marshal_id_token t [] = Inr p" by (simp only: list.map)
  note d = decodeObject_reads_as [OF p(3) _ p(2)]
  show ?thesis
    by (rule exI [of _ p])
      (use m d [of "dec_struct id_token_field zero_id_token"] d [of dec_claims] p(4,5) in
        \<open>simp add: max_depth_def dec_claims_def id_token_read_checks\<close>)
qed

definition sample_issued :: id_token_claims where
  "sample_issued = zero_id_token\<lparr>id_Registered := zero_claims\<lparr>Issuer := ''i'', Subject := ''s'', Audience := Some [''c''],
      ExpiresAt := Some (1800000000 * second), IssuedAt := Some (1700000000 * second)\<rparr>,
    id_Standard := zero_standard\<lparr>Name := ''n'', EmailVerified := Some True,
      Address := Some (zero_address\<lparr>Locality := ''l''\<rparr>), Nonce := ''x''\<rparr>, id_AMR := [''pwd'', ''otp'']\<rparr>"

theorem id_token_claims_roundtrip_witness:
  "\<exists>p. marshal_id_token sample_issued [] = Inr p
    \<and> decodeObject (dec_struct id_token_field zero_id_token) p = Inr sample_issued"
proof -
  have "list_all valid_utf8 [''i'', ''s'', ''c'', ''n'', ''l'', ''x'', ''pwd'', ''otp'', []]" by code_simp
  moreover have "date_in_range (1800000000 * second)" "date_in_range (1700000000 * second)" by code_simp+
  moreover have "date_read (1800000000 * second) = 1800000000 * second" "date_read (1700000000 * second) = 1700000000 * second"
    by (rule date_read_seconds; code_simp)+
  ultimately show ?thesis
    using id_token_claims_roundtrip [of sample_issued]
    by (simp add: sample_issued_def id_token_ok_def claims_emittable_def standard_ok_def address_ok_def zero_id_token_def
        zero_claims_def zero_standard_def zero_address_def id_token_read_def claims_read_def standard_read_def) blast
qed

end
