(* ===== verification/IDTokenExample.thy ===== *)
theory IDTokenExample
  imports NestedExample KeySetJSON IDTokenJSON
begin

text \<open>
  The program \<^verbatim>\<open>examples/verify_idtoken\<close>: a provider signs an ID token with ES256 and publishes
  its key in a JWK Set, a relying party parses the set, verifies the token and checks the
  claims of the profile and of the flow.  Shown: with a P-256 key that signs, and a clock
  within range, the program runs to its end and prints what was issued.
\<close>

section \<open>The program\<close>

record google_token =
  gt_IDToken :: id_token_claims
  gt_HostedDomain :: string

definition zero_google_token :: google_token where
  "zero_google_token = \<lparr>gt_IDToken = zero_id_token, gt_HostedDomain = []\<rparr>"

definition google_token_field :: "google_token \<Rightarrow> string \<Rightarrow> string \<Rightarrow> json \<Rightarrow> google_token result" where
  "google_token_field r n raw v =
     (if n = ''hd'' then set_str (\<lambda>x. r\<lparr>gt_HostedDomain := x\<rparr>) v
      else embedded id_token_field (gt_IDToken r) (\<lambda>x. r\<lparr>gt_IDToken := x\<rparr>) n raw v)"

definition marshal_google_token :: "google_token \<Rightarrow> bytes result" where
  "marshal_google_token t = marshal_id_token (gt_IDToken t) [opt_str ''hd'' (gt_HostedDomain t)]"

definition issued_id_token :: "time \<Rightarrow> time \<Rightarrow> id_token_claims" where
  "issued_id_token t1 t2 = zero_id_token\<lparr>
     id_Registered := zero_claims\<lparr>Issuer := ''https://accounts.google.com'', Subject := ''110169484474386276334'',
       Audience := Some [''1234567890.apps.googleusercontent.com''], ExpiresAt := Some (t1 + minutes 60), IssuedAt := Some t2\<rparr>,
     id_Standard := zero_standard\<lparr>Email := ''jsmith@example.com'', EmailVerified := Some True,
       Name := ''John Smith'', Nonce := ''nonce-from-session''\<rparr>\<rparr>"

definition verify_idtoken_options :: "parse_option option list" where
  "verify_idtoken_options =
     [Some (WithAllowedAlgorithms [ES256, RS256]), Some (WithIssuer ''https://accounts.google.com''),
      Some (WithAudience ''1234567890.apps.googleusercontent.com''),
      Some (WithRequiredClaims [''iss'', ''sub'', ''aud'', ''exp'', ''iat''])]"

definition verify_idtoken_context :: id_token_context where
  "verify_idtoken_context = \<lparr>ctx_ClientID = ''1234567890.apps.googleusercontent.com'', TrustedAudiences = [],
     ExpectedNonce = ''nonce-from-session'', RequireNonce = True, AccessToken = [], AuthorizationCode = [],
     SigningAlgorithm = ES256\<rparr>"

text \<open>\<open>gen\<close> is \<^verbatim>\<open>ecdsa.GenerateKey\<close> on P-256; the error of \<^verbatim>\<open>json.Marshal\<close> of the key set is ignored.\<close>

definition main_verify_idtoken :: "crypto \<Rightarrow> (string \<Rightarrow> string) \<Rightarrow> (string \<Rightarrow> go_url option) \<Rightarrow>
    (entropy \<Rightarrow> ecdsa_private_key result \<times> entropy) \<Rightarrow> time \<Rightarrow> time \<Rightarrow> time \<Rightarrow> entropy \<Rightarrow> program_run" where
  "main_verify_idtoken c uni_lower parse_url gen t1 t2 t3 e =
     (case gen e of
        (Inl err, _) \<Rightarrow> ([], Some err)
      | (Inr priv, _) \<Rightarrow>
     (case NewECDSASigner c ES256 (Some priv) [''2024-06''] of
        Inl err \<Rightarrow> ([], Some err)
      | Inr signer \<Rightarrow>
     (case Sign c (marshal_google_token \<lparr>gt_IDToken = issued_id_token t1 t2, gt_HostedDomain = ''example.com''\<rparr>) (Some signer) [] of
        Inl err \<Rightarrow> ([], Some err)
      | Inr idToken \<Rightarrow>
          let jwks = (case KeySet_MarshalJSON (NewKeySet [FromECDSAPublicKey c (Some (ec_Public priv)) [''2024-06'']]) of
                        Inl _ \<Rightarrow> [] | Inr b \<Rightarrow> b)
          in (case ParseKeySet c jwks of
                Inl err \<Rightarrow> ([], Some err)
              | Inr keys \<Rightarrow>
                  (case Parse c uni_lower (dec_struct google_token_field zero_google_token) t3 idToken (Some zero_google_token)
                          (Some (KeySet_Lookup keys)) verify_idtoken_options of
                     (Some err, _) \<Rightarrow> ([], Some err)
                   | (None, claims) \<Rightarrow>
                  (case ValidateIDTokenForContext c parse_url (gt_IDToken (the claims)) verify_idtoken_context of
                     Some err \<Rightarrow> ([], Some err)
                   | None \<Rightarrow>
                       ([''verified ID token: sub='' @ Subject (id_Registered (gt_IDToken (the claims)))
                         @ '' email='' @ Email (id_Standard (gt_IDToken (the claims)))
                         @ '' hd='' @ gt_HostedDomain (the claims) @ line_end], None)))))))"

section \<open>An ES256 key\<close>

text \<open>
  What \<^verbatim>\<open>crypto/ecdsa\<close> promises of a generated P-256 key: its public half is encoded and belongs
  to its scalar, it signs every digest with two values of at most 32 bytes, and what it
  signs verifies.
\<close>

definition es256_key :: "crypto \<Rightarrow> ecdsa_private_key \<Rightarrow> bool" where
  "es256_key c k \<longleftrightarrow> ec_encoded c (ec_Public k) \<and> ec_Curve (ec_Public k) = Some P256
     \<and> validateECDSAPrivateKey c (Some k) P256 = None \<and> ecdsa_pair c k (ec_Public k) SHA256
     \<and> (\<forall>d. \<exists>der r s. ecdsa_sign c k SHA256 d = Inr der \<and> asn1_signature c der = Some (Some r, Some s, [])
          \<and> r < 256 ^ 32 \<and> s < 256 ^ 32)"

lemma fill_bytes_short: "0 \<le> r \<Longrightarrow> r < 256 ^ k \<Longrightarrow> \<exists>b. fill_bytes r (int k) = Some b \<and> length b = k"
proof -
  assume r: "0 \<le> r" "r < 256 ^ k"
  then have "len (be_bytes \<bar>r\<bar>) \<le> int k" using be_bytes_length [of r k] by (simp add: len_def)
  then obtain b where b: "fill_bytes r (int k) = Some b" by (simp add: fill_bytes_def)
  with fill_bytes_be_int [OF r(1) b] show ?thesis by (simp add: len_def)
qed

lemma es256_signs:
  assumes "es256_key c k"
  shows "\<exists>sig. ecdsaSigner_Sign c k SHA256 32 m = Inr sig \<and> length sig = 64"
proof -
  obtain der r s where d: "ecdsa_sign c k SHA256 (HashSum c SHA256 m) = Inr der" "asn1_signature c der = Some (Some r, Some s, [])"
      "r < 256 ^ 32" "s < 256 ^ 32"
    using assms unfolding es256_key_def by blast
  have "0 \<le> r" "0 \<le> s" using assms d(1,2) unfolding es256_key_def ecdsa_pair_def by blast+
  with d(3,4) obtain br bs where "fill_bytes r 32 = Some br" "length br = 32" "fill_bytes s 32 = Some bs" "length bs = 32"
    using fill_bytes_short [of r 32] fill_bytes_short [of s 32] by auto
  with d(1,2) show ?thesis by (simp add: ecdsaSigner_Sign_def len_def)
qed

lemma es256_signer:
  "es256_key c k \<Longrightarrow> NewECDSASigner c ES256 (Some k) [kid] = Inr (EcdsaSigner ES256 k kid SHA256 32)"
  by (simp add: NewECDSASigner_def ECDSAParams_def es256_key_def)

lemma es256_published:
  assumes "es256_key c k" "list_all isASCII kid" "length kid \<le> 1000"
  defines "pk \<equiv> FromECDSAPublicKey c (Some (ec_Public k)) [kid]"
  shows "publishable c pk" "Kid pk = kid" "permitsVerify pk ES256 = None"
    "key_gives c pk ES256 (EcdsaVerifier ES256 (ec_Public k) kid SHA256 32)"
    "card (compatible_ids c pk [ES256, RS256]) \<le> 1"
proof -
  have q: "ec_encoded c (ec_Public k)" "ec_Curve (ec_Public k) = Some P256" using assms(1) by (simp_all add: es256_key_def)
  have u: "valid_utf8 (FirstString [kid])" using assms(2) by (simp add: FirstString_def valid_utf8_ASCII)
  obtain bx by' where pk: "pk = zero_key\<lparr>Kty := KeyTypeEC, Kid := kid, k_crv := ''P-256'', k_x := bx, k_y := by'\<rparr>"
      "length bx = 32" "length by' = 32" "length (enc_struct (jwk_fields (key_to_jwk pk))) \<le> 2500 + 6 * length kid"
    unfolding pk_def by (rule ec_jwk [OF q, of kid])
  note p = FromECDSAPublicKey_encoded [OF q(1) u, folded pk_def]
  have f: "Kty pk = KeyTypeEC" "Kid pk = kid" "k_k pk = []" "k_n pk = []" "k_e pk = []" "k_x pk = bx" "k_y pk = by'" "k_crv pk = ''P-256''"
    by (simp_all add: pk(1) zero_key_def)
  have "checkCanonical pk = None" "key_valid_utf8 pk" using p(2) by (simp_all add: epk_servable_def)
  moreover have "validateRepresentation c pk = None" using calculation(1) p(1) by (simp add: validateRepresentation_def f)
  moreover have "len (enc_struct (jwk_fields (key_to_jwk pk))) \<le> MaxJWKJSONBytes"
    using pk(4) assms(3) by (simp add: MaxJWKJSONBytes_def len_def)
  ultimately show "publishable c pk" using pk(2,3) by (simp add: publishable_def f MaxJWKMaterialBytes_def len_def)
  show "Kid pk = kid" by (rule f)
  show perm: "permitsVerify pk ES256 = None" by (simp add: permitsVerify_None pk(1) zero_key_def)
  have "ec_PublicKey c pk = Inr (ec_Public k)" using p(1) by (cases "ec_PublicKey c pk") (simp_all add: PublicKey_def f)
  moreover have "validateECDSAPublicKey c (Some (ec_Public k)) P256 = None"
    using assms(1) unfolding es256_key_def validateECDSAPrivateKey_def validateECDSAPublicKey_def
    by (auto split: option.splits if_splits)
  ultimately have "key_gives c pk ES256 (EcdsaVerifier ES256 (ec_Public k) (Kid pk) SHA256 32)"
    by (intro gives_ecdsa) (simp_all add: f FamilyOf_def ECDSAParams_def)
  then show "key_gives c pk ES256 (EcdsaVerifier ES256 (ec_Public k) kid SHA256 32)" by (simp only: f)
  have "\<not> usable c pk RS256" by (auto simp: usable_def verifierForAlg_Inr f FamilyOf_def elim!: key_givesE)
  then show "card (compatible_ids c pk [ES256, RS256]) \<le> 1" by (simp add: compatible_ids_Cons) (simp add: compatible_ids_def)
qed

section \<open>The payload\<close>

interpretation google_token: embeds_part google_token_field id_token_field gt_IDToken "\<lambda>x r. r\<lparr>gt_IDToken := x\<rparr>" id_token_names
proof
  fix n r raw v assume "n \<in> set id_token_names"
  moreover have "''hd'' \<notin> set id_token_names" by code_simp
  ultimately show "google_token_field r n raw v = embedded id_token_field (gt_IDToken r) (\<lambda>x. r\<lparr>gt_IDToken := x\<rparr>) n raw v"
    by (auto simp: google_token_field_def)
qed simp_all

lemma literal_present: "map_of ms n = Some (raw, v) \<Longrightarrow> trim_space raw \<noteq> ''null'' \<Longrightarrow> claim_present ms n"
  by (auto simp: claim_present_def)

lemma enc_str_literal: "trim_space (enc_str s) \<noteq> ''null''"
proof -
  have "trim_space (enc_str s) = enc_str s" by (rule trim_space_quoted) (simp_all add: enc_str_def graphic_def)
  then show ?thesis by (simp add: enc_str_def)
qed

lemma issued_fields:
  "registered_fields (id_Registered (issued_id_token t1 t2)) = Inr
    [(''iss'', False, enc_str ''https://accounts.google.com''), (''sub'', False, enc_str ''110169484474386276334''),
     (''aud'', False, enc_str ''1234567890.apps.googleusercontent.com''), (''exp'', False, NumericDate_MarshalJSON (t1 + minutes 60)),
     (''nbf'', True, ''null''), (''iat'', False, NumericDate_MarshalJSON t2), (''jti'', True, enc_str []), (''cnf'', True, ''null'')]"
  by (simp add: registered_fields_def issued_id_token_def zero_id_token_def zero_claims_def Audience_MarshalJSON_def enc_date_def len_def)

lemma google_read_back:
  assumes "date_in_range (t1 + minutes 60)" "date_in_range t2"
  obtains p ms where "marshal_google_token \<lparr>gt_IDToken = issued_id_token t1 t2, gt_HostedDomain = ''example.com''\<rparr> = Inr p"
    "decodeObject dec_members p = Inr ms" "list_all (claim_present ms) [''iss'', ''sub'', ''aud'', ''exp'', ''iat'']"
    "decodeObject dec_claims p = Inr (claims_read (id_Registered (issued_id_token t1 t2)))" "length p \<le> 10000"
    "decodeObject (dec_struct google_token_field zero_google_token) p =
      Inr \<lparr>gt_IDToken = id_token_read (issued_id_token t1 t2), gt_HostedDomain = ''example.com''\<rparr>"
proof -
  let ?t = "issued_id_token t1 t2" and ?ex = "[val_str ''hd'' ''example.com'']"
  have u: "list_all valid_utf8 [''https://accounts.google.com'', ''110169484474386276334'', ''1234567890.apps.googleusercontent.com'',
      ''jsmith@example.com'', ''John Smith'', ''nonce-from-session'', ''hd'', ''example.com'', []]" by code_simp
  have ok: "id_token_ok ?t" using assms u
    by (simp add: id_token_ok_def issued_id_token_def claims_emittable_def standard_ok_def zero_id_token_def zero_claims_def zero_standard_def)
  have ex: "list_all (value_ok 3) ?ex" "distinct (map fst ?ex)" using u by (simp_all add: value_okI)
  have n: "set (map fst ?ex) \<inter> set id_token_names = {}" unfolding list.map val_name by code_simp
  obtain p vs where p: "marshal_id_token ?t (map drop_value ?ex) = Inr p" "hd p = CHR ''{''"
      "reads_as 4 p (JObj (vs @ struct_members ?ex))" "fst ` set vs \<subseteq> set id_token_names"
      "dec_fields id_token_field zero_id_token vs = Inr (id_token_read ?t)"
      "dec_fields claims_field zero_claims (vs @ struct_members ?ex) = Inr (claims_read (id_Registered ?t))"
      "\<forall>fs n raw. registered_fields (id_Registered ?t) = Inr fs \<longrightarrow> (n, False, raw) \<in> set fs \<longrightarrow>
        (\<exists>v. map_of (vs @ struct_members ?ex) n = Some (raw, v))"
    by (rule marshal_id_token_read_back [OF ok ex n])
  let ?ms = "vs @ struct_members ?ex"
  note d = decodeObject_reads_as [OF p(3) _ p(2)]
  have m: "marshal_google_token \<lparr>gt_IDToken = ?t, gt_HostedDomain = ''example.com''\<rparr> = Inr p"
    using p(1) by (simp add: marshal_google_token_def)
  have "claim_present ?ms n" if "(n, False, raw) \<in> set fs" "registered_fields (id_Registered ?t) = Inr fs" "trim_space raw \<noteq> ''null''" for n raw fs
    using p(7) that literal_present by blast
  note present = this [OF _ issued_fields]
  have "claim_present ?ms ''iss''" "claim_present ?ms ''sub''" "claim_present ?ms ''aud''"
    by (rule present [OF _ enc_str_literal]; simp)+
  moreover have "claim_present ?ms ''exp''" by (rule present [of _ "NumericDate_MarshalJSON (t1 + minutes 60)"]) (simp_all add: NumericDate_literal)
  moreover have "claim_present ?ms ''iat''" by (rule present [of _ "NumericDate_MarshalJSON t2"]) (simp_all add: NumericDate_literal)
  ultimately have "list_all (claim_present ?ms) [''iss'', ''sub'', ''aud'', ''exp'', ''iat'']" by simp
  moreover have "decodeObject dec_members p = Inr ?ms" using d [of dec_members] by (simp add: max_depth_def)
  moreover have "decodeObject dec_claims p = Inr (claims_read (id_Registered ?t))"
    using d [of dec_claims] p(6) by (simp add: max_depth_def dec_claims_def)
  moreover have "decodeObject (dec_struct google_token_field zero_google_token) p =
      Inr \<lparr>gt_IDToken = id_token_read ?t, gt_HostedDomain = ''example.com''\<rparr>"
    using d [of "dec_struct google_token_field zero_google_token"] google_token.dec_fields_own [OF p(4), of zero_google_token] p(5)
    by (simp add: max_depth_def dec_fields_append zero_google_token_def google_token_field_def set_str_def val_str_def)
  moreover have "length p \<le> 10000"
  proof -
    let ?e = "standard_fields (id_Standard ?t) @ id_token_fields ?t @ map drop_value ?ex"
    have "length (enc_str ''jsmith@example.com'') \<le> 6 * length ''jsmith@example.com'' + 2"
      "length (enc_str ''John Smith'') \<le> 6 * length ''John Smith'' + 2"
      "length (enc_str ''nonce-from-session'') \<le> 6 * length ''nonce-from-session'' + 2"
      "length (enc_str ''example.com'') \<le> 6 * length ''example.com'' + 2" "length (enc_str []) \<le> 6 * length ([] :: string) + 2"
      by (rule length_enc_str)+
    then have "sum_list (map (\<lambda>(n, om, raw). 6 * length n + length raw + 4) ?e) \<le> 4000"
      by (simp add: standard_fields_def id_token_fields_def issued_id_token_def zero_id_token_def zero_standard_def
          opt_str_def opt_strs_def opt_date_def opt_bool_def enc_bool_def enc_date_def enc_address_def enc_array_def)
    moreover have "marshal_claims (id_Registered ?t) ?e = Inr p" using p(1) unfolding marshal_id_token_def .
    moreover have "claims_emittable (id_Registered ?t)" using ok by (simp add: id_token_ok_def)
    ultimately show ?thesis
      using length_marshal_claims [of "id_Registered ?t" ?e p] length_single_audience [of "''1234567890.apps.googleusercontent.com''"]
      by (simp add: issued_id_token_def zero_id_token_def zero_claims_def)
  qed
  ultimately show thesis using that m by blast
qed

section \<open>The verdict\<close>

lemma issued_token_passes:
  assumes "parse_url ''https://accounts.google.com'' = Some url" "u_Scheme url \<noteq> []"
  shows "ValidateIDTokenForContext c parse_url (issued_id_token t1 t2) verify_idtoken_context = None"
proof -
  have "ValidateStringOrURI parse_url ''https://accounts.google.com'' = None"
  proof -
    have "index_byte ''https://accounts.google.com'' CHR '':'' = 5" by code_simp
    moreover have "isAlpha (''https://accounts.google.com'' ! 0)" "list_all scheme_char (take 4 (drop 1 ''https://accounts.google.com''))"
      "uri_chars ''https://accounts.google.com''" by code_simp+
    ultimately show ?thesis using assms by (simp add: ValidateStringOrURI_def)
  qed
  moreover have "index_byte ''110169484474386276334'' CHR '':'' < 0" "index_byte ''1234567890.apps.googleusercontent.com'' CHR '':'' < 0"
    by code_simp+
  then have "ValidateStringOrURI parse_url ''110169484474386276334'' = None"
    "ValidateStringOrURI parse_url ''1234567890.apps.googleusercontent.com'' = None"
    unfolding ValidateStringOrURI_def Let_def by (simp_all only: if_True)
  ultimately show ?thesis
    by (simp add: ValidateIDTokenForContext_def ValidateIDTokenClaims_def id_missing_def check_azp_def issued_id_token_def
        verify_idtoken_context_def audience_values_def zero_id_token_def zero_claims_def zero_standard_def Has_def
        validateOIDCHash_def len_def)
qed

section \<open>Publishing, signing and verifying\<close>

lemma published_set:
  assumes "es256_key c k" "list_all isASCII kid" "length kid \<le> 1000" "kid \<noteq> []"
  defines "pk \<equiv> FromECDSAPublicKey c (Some (ec_Public k)) [kid]"
  shows "KeySet_MarshalJSON (NewKeySet [pk]) = Inr (jwks_document [pk])"
    "ParseKeySet c (jwks_document [pk]) = Inr (NewKeySet [pk])" "KeySet_Lookup (NewKeySet [pk]) kid = Inr (Some pk)"
proof -
  note pub = es256_published [OF assms(1-3), folded pk_def]
  have keys: "ks_keys (NewKeySet [pk]) = [pk]" by (rule NewKeySet_keys) simp
  show "KeySet_MarshalJSON (NewKeySet [pk]) = Inr (jwks_document [pk])"
    using keyset_emitted [of c "NewKeySet [pk]"] pub(1) by (simp add: keys)
  show "ParseKeySet c (jwks_document [pk]) = Inr (NewKeySet [pk])"
    using parse_published [OF NewKeySet_refines(1), of "[pk]" c False] pub(1)
    by (simp add: keys ParseKeySet_def MaxKeySetKeys_def len_def)
  have "distinct_kids [pk]" using pub(2) assms(4) by (simp add: distinct_kids_def)
  then show "KeySet_Lookup (NewKeySet [pk]) kid = Inr (Some pk)" using pub(2) assms(4) by (simp add: KeySet_resolve resolve_def)
qed

text \<open>A token signed with ES256, under a policy that also allows RS256, with the published set.\<close>

lemma es256_token_accepted:
  assumes "es256_key c k" "list_all isASCII kid" "length kid \<le> 1000" "kid \<noteq> []"
    "decodeObject dec_members p = Inr ms" "length p \<le> 10000" "pc_allowedAlgs cfg = [ES256, RS256]" "pc_verifierProvider cfg = None"
    "decodeObject dec_claims p = Inr rc" "\<And>h. claims_valid u p rc h cfg"
  obtains token h where "Sign c (Inr p) (Some (EcdsaSigner ES256 k kid SHA256 32)) [] = Inr token"
    "parseVerified c u token (Some (KeySet_Lookup (NewKeySet [FromECDSAPublicKey c (Some (ec_Public k)) [kid]]))) cfg = Inr (h, p)"
proof -
  define s pk where "s = EcdsaSigner ES256 k kid SHA256 32" and "pk = FromECDSAPublicKey c (Some (ec_Public k)) [kid]"
  let ?v = "EcdsaVerifier ES256 (ec_Public k) kid SHA256 32" and ?keys = "Some (KeySet_Lookup (NewKeySet [pk]))"
  note pub = es256_published [OF assms(1-3), folded pk_def] and look = published_set(3) [OF assms(1-4), folded pk_def]
  have n: "\<not> is_none ES256" "withoutNone [ES256, RS256] = [ES256, RS256]" by code_simp+
  have f: "signer_Algorithm s = ES256" "signer_KeyID s = kid" by (simp_all add: s_def)
  have "\<exists>sig. signer_Sign c s m = Inr sig \<and> length sig \<le> 10000" for m
    using es256_signs [OF assms(1), of m] by (auto simp: s_def)
  moreover have "list_all valid_utf8 [ES256, ''JWT'', []]" by code_simp
  then have "header_valid_utf8 (sign_header s [])"
    using assms(2) by (simp add: s_def header_valid_utf8_def sign_header_def apply_options_def DefaultType_def zero_header_def valid_utf8_ASCII)
  moreover have "verifier_for c ?keys cfg (sign_header s []) ?v"
    using look pub(3-5) by (simp add: verifier_for_def assms(7,8) f n(2))
  moreover have "verifier_Verify c ?v input sig = None" if "signer_Sign c s input = Inr sig" for input sig
    using that ecdsa_sign_verify [of c k "ec_Public k" SHA256 32 input sig] assms(1) by (simp add: s_def es256_key_def)
  ultimately obtain token where "Sign c (Inr p) (Some s) [] = Inr token" "parseVerified c u token ?keys cfg = Inr (sign_header s [], p)"
    using signed_token_accepted [of s c p ms cfg ?keys ?v, OF _ _ assms(5,6) _ _ _ _ _ _ assms(9,10)] n(1) assms(3)
    by (simp add: f assms(7)) blast
  with that show thesis unfolding s_def pk_def by blast
qed

section \<open>Properties\<close>

text \<open>
  C13: the relying party of \<^verbatim>\<open>verify_idtoken\<close> accepts the token of the provider.  With a
  generated P-256 key as \<^verbatim>\<open>crypto/ecdsa\<close> promises, a URL parser that gives the issuer its scheme,
  and clock readings in the range of a NumericDate, of which the last is more than the
  rounding before the expiry, the program ends without an error: the published set is parsed
  to the set it was, its key is found by the key id and used for ES256, all required claims are
  present, the flow checks pass on the claims read back, and what is printed is what was issued.
\<close>

theorem verify_idtoken_demo:
  assumes "\<And>e. \<exists>k e'. gen e = (Inr k, e') \<and> es256_key c k"
    "\<exists>url. parse_url ''https://accounts.google.com'' = Some url \<and> u_Scheme url \<noteq> []"
    "date_in_range (t1 + minutes 60)" "date_in_range t2" "t3 + 15260 \<le> t1 + minutes 60"
  shows "main_verify_idtoken c u parse_url gen t1 t2 t3 e =
    ([''verified ID token: sub=110169484474386276334 email=jsmith@example.com hd=example.com'' @ line_end], None)"
proof -
  let ?t = "issued_id_token t1 t2"
  obtain k e' where k: "gen e = (Inr k, e')" "es256_key c k" using assms(1) by blast
  define cfg where "cfg = apply_options applyParse verify_idtoken_options (default_config t3)"
  have kid: "list_all isASCII ''2024-06''" "length ''2024-06'' \<le> 1000" "''2024-06'' \<noteq> []" by code_simp+
  obtain p ms where p: "marshal_google_token \<lparr>gt_IDToken = ?t, gt_HostedDomain = ''example.com''\<rparr> = Inr p"
      "decodeObject dec_members p = Inr ms" "list_all (claim_present ms) [''iss'', ''sub'', ''aud'', ''exp'', ''iat'']"
      "decodeObject dec_claims p = Inr (claims_read (id_Registered ?t))" "length p \<le> 10000"
      "decodeObject (dec_struct google_token_field zero_google_token) p = Inr \<lparr>gt_IDToken = id_token_read ?t, gt_HostedDomain = ''example.com''\<rparr>"
    by (rule google_read_back [OF assms(3,4)])
  have cfg: "pc_allowedAlgs cfg = [ES256, RS256]" "pc_issuer cfg = ''https://accounts.google.com''"
    "pc_audience cfg = ''1234567890.apps.googleusercontent.com''" "pc_now cfg = t3" "pc_leeway cfg = 0" "pc_requiredType cfg = []"
    "pc_requiredClaims cfg = [''iss'', ''sub'', ''aud'', ''exp'', ''iat'']" "pc_verifierProvider cfg = None"
    by (simp_all add: cfg_def verify_idtoken_options_def apply_options_def default_config_def)
  have valid: "claims_valid u p (claims_read (id_Registered ?t)) h cfg" for h
    using not_yet_expired [OF assms(3,5)] p(2,3)
    by (simp add: cfg claims_valid_def time_valid_def audience_valid_def Has_def claims_read_def issued_id_token_def zero_id_token_def
        zero_claims_def time_add_def)
  let ?pk = "FromECDSAPublicKey c (Some (ec_Public k)) [''2024-06'']"
  obtain token h where token: "Sign c (Inr p) (Some (EcdsaSigner ES256 k ''2024-06'' SHA256 32)) [] = Inr token"
      "parseVerified c u token (Some (KeySet_Lookup (NewKeySet [?pk]))) cfg = Inr (h, p)"
    by (rule es256_token_accepted [OF k(2) kid p(2,5) cfg(1,8) p(4) valid])
  obtain url where "parse_url ''https://accounts.google.com'' = Some url" "u_Scheme url \<noteq> []" using assms(2) by blast
  then have v: "ValidateIDTokenForContext c parse_url (id_token_read ?t) verify_idtoken_context = None"
    unfolding id_token_read_checks by (rule issued_token_passes)
  have "Subject (id_Registered (id_token_read ?t)) = ''110169484474386276334''" "Email (id_Standard (id_token_read ?t)) = ''jsmith@example.com''"
    by (simp_all add: id_token_read_def claims_read_def standard_read_def issued_id_token_def zero_id_token_def zero_claims_def zero_standard_def)
  moreover have "Parse c u (dec_struct google_token_field zero_google_token) t3 token (Some zero_google_token)
      (Some (KeySet_Lookup (NewKeySet [?pk]))) verify_idtoken_options
    = (None, Some \<lparr>gt_IDToken = id_token_read ?t, gt_HostedDomain = ''example.com''\<rparr>)"
    using token(2) p(6) by (simp add: Parse_def decodeFreshObject_def flip: cfg_def)
  ultimately show ?thesis
    using k(1) es256_signer [OF k(2), of "''2024-06''"] p(1) token(1) published_set(1,2) [OF k(2) kid] v
    by (simp add: main_verify_idtoken_def)
qed

definition sample_es256 :: crypto where
  "sample_es256 = sample_crypto\<lparr>ec_public_bytes := \<lambda>cv x y. Some sample_point, ec_scalar_public := \<lambda>cv d. Some sample_point,
     ec_parse_uncompressed := \<lambda>cv b. Some (1, 1), ecdsa_sign := \<lambda>k h d. Inr [], asn1_signature := \<lambda>b. Some (Some 1, Some 1, []),
     ecdsa_verify := \<lambda>k d r s. True\<rparr>"

definition issuer_url :: go_url where
  "issuer_url = \<lparr>u_Scheme = ''https'', u_Host = ''accounts.google.com'', u_Hostname = ''accounts.google.com'', u_User = False,
     u_RawQuery = [], u_ForceQuery = False, u_Fragment = []\<rparr>"

theorem verify_idtoken_demo_witness:
  "snd (main_verify_idtoken sample_es256 id (\<lambda>_. Some issuer_url) (\<lambda>e. (Inr sample_p256_key, e)) 0 0 1 (\<lambda>_. CHR ''r''))
    = None"
proof -
  have "sample_point = [chr 4] @ replicate 32 CHR ''p'' @ replicate 32 CHR ''p''"
    by (simp add: sample_point_def flip: replicate_add)
  then have "ec_encoded sample_es256 (ec_Public sample_p256_key)"
    unfolding ec_encoded_def
    by (intro exI [of _ P256] exI [of _ 1] exI [of _ "replicate 32 CHR ''p''"])
      (simp add: sample_es256_def sample_p256_key_def curveName_def coord_size_def len_def)
  then have "es256_key sample_es256 sample_p256_key"
    by (simp add: es256_key_def validateECDSAPrivateKey_def ecdsa_pair_def) (simp add: sample_es256_def sample_p256_key_def)
  then show ?thesis
    by (subst verify_idtoken_demo) (simp_all add: issuer_url_def minutes_def date_in_range_def minNumericDate_def maxNumericDate_def)
qed

end
