(* ===== verification/Spec2Isabelle.thy ===== *)
theory Spec2Isabelle
  imports HTTPAuth Jwttest JWEProofs KeyFetch CMW Keyparse Rotation WatchDiff IDTokenExample
begin

text \<open>
  \<^bold>\<open>A verified model of the Go library \<^verbatim>\<open>jwt\<close>\<close>

  The library signs, verifies, encrypts and decrypts JSON Web Tokens.  Its parts, and the
  theories that model them (file and function names are those under \<^verbatim>\<open>src/\<close>; definitions keep
  the names of the code, methods carry their type in front, for instance \<open>KeySet_Lookup\<close>):

  \<^item> \<open>JWT_Prelude\<close>: bytes, errors as lists of sentinels (\<^verbatim>\<open>errors.go\<close>), the functions of
    \<^verbatim>\<open>strings\<close> and \<^verbatim>\<open>math/big\<close> that the code calls, association lists for Go maps.
  \<^item> \<open>B64\<close> (\<^verbatim>\<open>internal/b64\<close>): the base64url codec.  Encoding and strict decoding are inverse
    both ways.
  \<^item> \<open>JSON\<close>, \<open>StrictJSON\<close> (\<^verbatim>\<open>strictjson.go\<close>): one parser for the texts of \<^verbatim>\<open>encoding/json/v2\<close>
    (strict) and \<^verbatim>\<open>encoding/json\<close> (lenient), the encoder of \<^verbatim>\<open>encoding/json\<close>, \<^verbatim>\<open>decodeObject\<close> and
    the \<^verbatim>\<open>crit\<close> check.  What is emitted is read back.
  \<^item> \<open>Alg\<close> (\<^verbatim>\<open>internal/alg\<close>, \<^verbatim>\<open>alg.go\<close>): JWS algorithms, signers and verifiers.
  \<^item> \<open>Key\<close>, \<open>Thumbprint\<close> (\<^verbatim>\<open>key.go\<close>, \<^verbatim>\<open>thumbprint.go\<close>): JSON Web Keys, their checks, the choice of
    a verifier for an algorithm, thumbprints.
  \<^item> \<open>Keyparse\<close> (\<^verbatim>\<open>internal/keyparse\<close>): key files; the OpenSSH reader down to the bytes.
  \<^item> \<open>Claims\<close> (\<^verbatim>\<open>claims.go\<close>, \<^verbatim>\<open>header.go\<close>): registered claims, numeric dates, headers.
  \<^item> \<open>ClaimsJSON\<close>: what \<^verbatim>\<open>json.Marshal\<close> makes of the claims, and that they are read back.
  \<^item> \<open>KeySet\<close> (\<^verbatim>\<open>keyset.go\<close>, \<^verbatim>\<open>keyprovider.go\<close>): key sets and providers, the interface
    \<open>key_provider\<close> they share.
  \<^item> \<open>KeySetJSON\<close>: key sets that can be published, and that both parsers read them back.
  \<^item> \<open>JWT\<close> (\<^verbatim>\<open>jwt.go\<close>): \<^verbatim>\<open>Sign\<close>, \<^verbatim>\<open>Parse\<close>, the claim rules.
  \<^item> \<open>HTTPAuth\<close> (\<^verbatim>\<open>httpauth.go\<close>): bearer credentials, the middleware, challenges.
  \<^item> \<open>GoHeap\<close>, \<open>Revoke\<close> (\<^verbatim>\<open>container/heap\<close>, \<^verbatim>\<open>revoke.go\<close>): the revocation store with its expiry
    heap, the interface \<open>revocations\<close>.
  \<^item> \<open>IDToken\<close> (\<^verbatim>\<open>atclaims.go\<close>, \<^verbatim>\<open>idtoken.go\<close>): the access-token and ID-token profiles, the
    interface \<open>embeds_registered\<close> of types that embed the registered claims.
  \<^item> \<open>Payload\<close>, \<open>IDTokenJSON\<close>: payloads of claims structs with embedded parts, the interfaces
    \<open>embeds_part\<close> and \<open>embeds_first\<close>, how long emitted texts and tokens are; what is emitted of
    ID-token claims, and that it is read back.
  \<^item> \<open>AESKW\<close>, \<open>JWE\<close>, \<open>JWEProofs\<close> (\<^verbatim>\<open>jwe*.go\<close>): key wrap, the four key-management modes behind the
    interface \<open>key_management\<close>, compact JWE, encrypted claims, nested tokens.
  \<^item> \<open>HTTPFetch\<close>, \<open>KeyFetch\<close> (\<^verbatim>\<open>keyfetch.go\<close>): URL policy, capped downloads, cache control,
    discovery; the caching fetcher as a state machine of its critical sections.
  \<^item> \<open>CMW\<close> (\<^verbatim>\<open>cmw.go\<close>): conceptual message wrappers, plain and signed.
  \<^item> \<open>Opaque\<close> (\<^verbatim>\<open>opaque.go\<close>, \<^verbatim>\<open>rotation.go\<close>): opaque tokens and token families.
  \<^item> \<open>Rotation\<close> (\<^verbatim>\<open>examples/refresh_rotation\<close>): the rotator that puts them and a revocation store
    together, over the interface \<open>revocations\<close>, as an inductive relation of its runs.
  \<^item> \<open>Examples\<close>, \<open>NestedExample\<close>, \<open>IDTokenExample\<close> (\<^verbatim>\<open>examples/*\<close>): the other example programs as
    whole runs with their output.  They compose the library end to end: emitted claims, the
    size limit, signatures, key sets, both layers of a nested token, the middleware, the
    claim rules and the profile checks.
  \<^item> \<open>Jwttest\<close> (\<^verbatim>\<open>jwttest\<close>): the conformance suites, passed by every provider and store.
  \<^item> \<open>GoMap\<close>, \<open>LaxJSON\<close>: string-keyed Go maps in key order, and typed decoding and
    \<^verbatim>\<open>MarshalIndent\<close> of \<^verbatim>\<open>encoding/json\<close>.
  \<^item> \<open>ParseIP\<close>, \<open>MediaType\<close>: \<^verbatim>\<open>net.ParseIP\<close>, with the notations it reads, and \<^verbatim>\<open>mime.ParseMediaType\<close>.
  \<^item> \<open>Watch\<close>, \<open>WatchProofs\<close>, \<open>WatchDiff\<close> (\<^verbatim>\<open>.github/standards\<close>): the command that watches the
    standards the library implements.  Its goroutines are steps that commute (the interface
    \<open>commuting_steps\<close>), so that a snapshot does not depend on their order; an outage is never
    reported as a change; an accepted baseline is final.

  This theory adds what spans them: a request signed by a key of a fetched document reaches
  the handler, and an outage of the key server is answered as unavailability.

  \<^bold>\<open>How the code is modelled\<close>

  A fallible function returns a sum whose left side is the error; a method that writes through a
  pointer returns the new value beside its result; options are lists with \<open>None\<close> for nil
  ones; time is an integer number of nanoseconds with Go's zero time singled out, durations
  are 64-bit where they can overflow; a mutex-protected operation is one transition of the
  state record, and the interleavings of callers are an inductive relation (\<open>fetch_run\<close>,
  \<open>fetch_log\<close>, \<open>reachable_store\<close>).  Random bytes are read from a stream that is passed along.

  Recursion is structural or has a termination proof.  The JSON parser takes fuel, and
  \<open>parse_fuel\<close> shows that twice the length of the input is enough, so fuel never decides.
  \<^verbatim>\<open>http.Client.Do\<close> may follow redirects for ever when the caller's policy lets it; it is a
  partial function, and \<open>default_client_terminates\<close> shows that the default client returns
  within ten requests.  Message wrappers are nested at most 16 deep, the bound of the code.

  \<^bold>\<open>What is shown\<close>

  Each codec and format has its round trip (base64url, JWK, JWS, AES key wrap, JWE, nested
  tokens, message wrappers); each checking function the exact set of inputs it accepts
  (tokens, claims, profiles, OpenSSH blobs); each store and cache an invariant over all
  histories and a refinement of a plain map or list; errors the class they belong to.  The
  interfaces are locales, interpreted by every implementation the code has.

  \<^bold>\<open>What is a parameter\<close>

  The primitives of \<^verbatim>\<open>crypto/*\<close> (records \<open>crypto\<close>, \<open>aes\<close>, \<open>jwe_crypto\<close>, \<open>keyparse_env\<close>), of which a
  theorem assumes only what its named hypotheses say (\<open>ed25519_pair\<close>, \<open>aes_laws\<close>, \<open>gcm_laws\<close>,
  \<open>oaep_pair\<close>, \<open>ecdh_pair\<close>, \<open>nested_laws\<close>, \<open>es256_key\<close>); the Unicode tables behind \<^verbatim>\<open>strings.ToLower\<close> and
  \<^verbatim>\<open>unicode.IsPrint\<close>; \<^verbatim>\<open>url.Parse\<close>, which differs between releases of Go, the tree
  \<^verbatim>\<open>encoding/xml\<close> reads and the wording of \<^verbatim>\<open>encoding/json\<close> errors (\<open>watch_env\<close>); the network and
  the files; claims types and callbacks that the caller supplies.

  \<^bold>\<open>What is not modelled\<close>

  Message texts of errors (but those of the watcher, which its report prints), memory layout and
  timing (constant-time comparison is equality), the scheduling below critical sections, the
  \<^verbatim>\<open>testing\<close> harness, and \<^verbatim>\<open>u.String()\<close> followed by a second parse of the URL in \<^verbatim>\<open>getCapped\<close>.
\<close>

section \<open>From a signature to the handler\<close>

text \<open>
  C8: a request signed by a key of the fetched document is served.  Take any reachable state of a
  fetcher, and a lookup that its stored document answers while fresh, or one that waited for the
  fetch that returned the document, whatever its cache directives.  Let the document hold a key
  under the id of the signer (or be its only key, when the signer has no id) which permits and
  gives a verifier for the signer's algorithm that accepts what the signer signs, and which
  names its algorithm or fits one allowed algorithm only.  Then a request whose bearer
  credential is a token of that signer, within the size limit and with a header of valid
  UTF-8, reaches the handler with the signed payload, if the algorithm is allowed, no verifier
  provider is configured and the payload satisfies the configured claim rules.
\<close>

theorem signed_request_reaches_handler:
  assumes "document_lookup N fcfg doc lookup"
    "k \<in> set (ks_keys doc)" "signer_KeyID s = Kid k \<and> signer_KeyID s \<noteq> [] \<or> signer_KeyID s = [] \<and> ks_keys doc = [k]"
    "permitsVerify k (signer_Algorithm s) = None" "key_gives c k (signer_Algorithm s) v"
    "\<And>input sig. signer_Sign c s input = Inr sig \<Longrightarrow> verifier_Verify c v input sig = None"
    "Sign c (Inr p) (Some s) opts = Inr token" "len token \<le> maxTokenBytes" "header_valid_utf8 (sign_header s opts)"
    "cfg = apply_options applyParse popts (default_config wall)"
    "signer_Algorithm s \<in> set (pc_allowedAlgs cfg)"
    "Alg k \<noteq> [] \<or> card (compatible_ids c k (withoutNone (pc_allowedAlgs cfg))) \<le> 1" "pc_verifierProvider cfg = None"
    "decodeObject dec_claims p = Inr rc" "claims_valid u p rc (sign_header s opts) cfg"
  shows "Middleware c u is_print wall (Some lookup) popts [''Bearer '' @ token] = ([], Next p)"
proof -
  have "lookup (signer_KeyID s) = Inr (Some k)"
    by (rule document_lookup_hit(2) [OF assms(1) document_key_found [OF document_lookup_hit(1) [OF assms(1)] assms(2,3)]])
  then have v: "verifier_for c (Some lookup) cfg (sign_header s opts) v"
    using assms(4,5,12,13) by (simp add: verifier_for_def)
  have "parseVerified c u token (Some lookup) cfg = Inr (sign_header s opts, p)"
    by (rule sign_parse [OF assms(7-9,11) v assms(6,14,15)])
  moreover obtain sig where "token = token_of (marshal_header (sign_header s opts)) p sig" using assms(7) by (auto simp: Sign_Inr)
  ultimately show ?thesis using BearerToken_token by (simp add: Middleware_def Let_def assms(10))
qed

text \<open>A document with the public key of an Ed25519 signer, read while it is fresh.\<close>

definition sample_ed_document :: bytes where
  "sample_ed_document = enc_struct [(''keys'', False, enc_array [enc_struct [(''kty'', False, enc_str ''OKP''), (''kid'', False, enc_str ''k1''),
     (''crv'', False, enc_str ''Ed25519''), (''x'', False, enc_str (Encode (replicate 32 CHR ''q'')))]])]"

definition sample_ed_key :: key where
  "sample_ed_key = FromEd25519PublicKey (replicate 32 CHR ''q'') [''k1'']"

lemma sample_ed_document_lookup:
  "\<exists>doc. document_lookup sample_net sample_fetch_config doc
       (fetcher_Lookup sample_fetch_config 7 7 7 (Inl [ErrKeyFetch]) (sample_fetcher_at doc))
     \<and> ks_keys doc = [sample_ed_key]"
proof -
  have "case ParseKeySet sample_crypto sample_ed_document of Inl _ \<Rightarrow> False | Inr doc \<Rightarrow> ks_keys doc = [sample_ed_key]"
    by code_simp
  then obtain doc where d: "ParseKeySet sample_crypto sample_ed_document = Inr doc" "ks_keys doc = [sample_ed_key]"
    by (auto split: sum.splits)
  have fetched: "fetch_outcome sample_net sample_fetch_config (Inr (doc, zero_cache))"
    by (rule sample_fetch_document [OF d(1), of 1]) code_simp+
  have "fetch_log sample_net sample_fetch_config [] (snd (NewKeyFetcher ''u'' []))"
    by (rule fetch_log.log_start [of "''u''" "[]"]) (simp add: sample_fetch_config_def)
  from fetch_log.log_refresh [OF this surjective_pairing, of 5]
  have hist: "fetch_log sample_net sample_fetch_config [(6, Inr (doc, zero_cache))] (sample_fetcher_at doc)"
    unfolding sample_fetcher_at_def
    by (rule fetch_log.log_finish [OF _ _ fetched]) (simp add: Refresh_enter_def startFlightLocked_def NewKeyFetcher_def)
  have "stored_document [(6, Inr (doc, zero_cache))] = Some (6, doc, zero_cache)" by (simp add: zero_cache_def)
  moreover have "cacheAge 7 6 < freshness sample_fetch_config zero_cache" by code_simp
  ultimately show ?thesis using document_lookup.cached [OF hist] d(2) by blast
qed

theorem signed_request_reaches_handler_witness:
  "\<exists>doc. ks_keys doc = [sample_ed_key]
     \<and> Middleware sample_crypto id (\<lambda>_. True) 0
         (Some (fetcher_Lookup sample_fetch_config 7 7 7 (Inl [ErrKeyFetch]) (sample_fetcher_at doc)))
         [Some (WithAllowedAlgorithms [Ed25519])] [''Bearer '' @ sample_ed_token] = ([], Next ''{}'')"
proof -
  let ?s = "Ed25519Signer (replicate 64 CHR ''p'') ''k1''"
  let ?v = "Ed25519Verifier Ed25519 (replicate 32 CHR ''q'') (Kid sample_ed_key)"
  obtain doc where d: "document_lookup sample_net sample_fetch_config doc
      (fetcher_Lookup sample_fetch_config 7 7 7 (Inl [ErrKeyFetch]) (sample_fetcher_at doc))" "ks_keys doc = [sample_ed_key]"
    using sample_ed_document_lookup by blast
  have k: "Kty sample_ed_key = KeyTypeOKP" "Kid sample_ed_key = ''k1''" "okp_PublicKey sample_ed_key = Inr (replicate 32 CHR ''q'')"
      "permitsVerify sample_ed_key Ed25519 = None"
    by (simp_all add: sample_ed_key_def FromEd25519PublicKey_def FirstString_def zero_key_def permitsVerify_None okp_PublicKey_def len_def)
  have "Middleware sample_crypto id (\<lambda>_. True) 0
         (Some (fetcher_Lookup sample_fetch_config 7 7 7 (Inl [ErrKeyFetch]) (sample_fetcher_at doc)))
         [Some (WithAllowedAlgorithms [Ed25519])] [''Bearer '' @ sample_ed_token] = ([], Next ''{}'')"
  proof (rule signed_request_reaches_handler [OF d(1), where s = ?s and v = ?v and k = sample_ed_key and rc = zero_claims, OF _ _ _ _ _ _ _ _ refl])
    show "key_gives sample_crypto sample_ed_key (signer_Algorithm ?s) ?v"
      unfolding signer_Algorithm.simps by (rule gives_ed25519) (use k in \<open>simp_all add: FamilyOf_def\<close>)
    show "verifier_Verify sample_crypto ?v input sig = None" if "signer_Sign sample_crypto ?s input = Inr sig" for input sig
      using that by (auto simp: sign_verify_defs sample_crypto_def len_def)
    show "Sign sample_crypto (Inr ''{}'') (Some ?s) [] = Inr sample_ed_token" by code_simp
    show "len sample_ed_token \<le> maxTokenBytes" by code_simp
    show "header_valid_utf8 (sign_header ?s [])" by code_simp
    show "decodeObject dec_claims ''{}'' = Inr zero_claims" by code_simp
  qed (use k d(2) compatible_ids_single in \<open>simp_all add: apply_options_def default_config_def claims_valid_def time_valid_def
      audience_valid_def zero_claims_def len_def\<close>)
  with d(2) show ?thesis by blast
qed

text \<open>
  C9: an outage of the key server is never blamed on the token.  In every reachable state of a
  fetcher, when the lookup for a well-formed request fails because no usable document can
  be had, the middleware answers 503 without a challenge, and the handler does not run.
\<close>

theorem key_outage_answers_503:
  assumes "fetch_run N fcfg attempts f" "fetch_outcome N fcfg r"
    "BearerToken hdrs = Some token" "cfg = apply_options applyParse opts (default_config wall)"
    "pc_verifierProvider cfg = None" "parse_header token (withoutNone (pc_allowedAlgs cfg)) = Inr (h, input, payload, sig)"
    "fetcher_Lookup fcfg t0 t1 t2 r f (h_KeyID h) = Inl e"
  shows "snd (Middleware c u is_print wall (Some (fetcher_Lookup fcfg t0 t1 t2 r f)) opts hdrs)
     = Answer \<lparr>rsp_status = 503, rsp_challenge = None, rsp_body = ''Service Unavailable'' @ [chr 10]\<rparr>"
proof -
  have e: "errors_is e ErrKeyFetch" by (rule fetcher_Lookup_error [OF assms(1,2,7)])
  have ne: "withoutNone (pc_allowedAlgs cfg) \<noteq> []"
    using assms(6) by (auto simp: parse_header_Inr header_accepted_def)
  have "parseVerified c u token (Some (fetcher_Lookup fcfg t0 t1 t2 r f)) cfg = Inl (wrap ErrKeyProvider e)"
    using assms(5-7) ne by (simp add: parseVerified_def Let_def resolve_verifier_def)
  moreover have "classifyAuthError (Some (wrap ErrKeyProvider e)) = (503, [], [])" using e by (simp add: classifyAuthError_def)
  ultimately show ?thesis
    by (simp add: Middleware_def assms(3) assms(4) [symmetric] Let_def WriteChallenge_def writeStatus_def StatusText_def)
qed

theorem key_outage_answers_503_witness:
  "\<exists>r. fetch_outcome sample_net sample_fetch_config r
     \<and> snd (Middleware sample_crypto id (\<lambda>_. True) 0 (Some (fetcher_Lookup sample_fetch_config 5 6 7 r (snd (NewKeyFetcher ''u'' []))))
         [Some (WithAllowedAlgorithms [HS256])] [''Bearer '' @ sample_hmac_token])
       = Answer \<lparr>rsp_status = 503, rsp_challenge = None, rsp_body = ''Service Unavailable'' @ [chr 10]\<rparr>"
proof -
  let ?cfg = "apply_options applyParse [Some (WithAllowedAlgorithms [HS256])] (default_config 0)"
  have check: "validateURL sample_net (Some sample_url) (Some (selectURLPolicy sample_net [None])) = None" by code_simp
  have "fetchJWKS sample_net (\<lambda>_ _. Failed []) (safeHTTPClient sample_net None [None]) ''u'' defaultMaxJWKSBytes 100 None
      = Some ([sample_url], Inl [ErrKeyFetch])"
    using check by (simp add: fetchJWKS_def getCapped_def client_Do.simps sample_net_def wrap_def)
  then have o: "fetch_outcome sample_net sample_fetch_config (Inl [ErrKeyFetch])"
    unfolding fetch_outcome_def sample_fetch_config_def NewKeyFetcher_def by fastforce
  have run: "fetch_run sample_net sample_fetch_config [] (snd (NewKeyFetcher ''u'' []))"
    by (rule fetch_run.start [of "''u''" "[]"]) (simp add: sample_fetch_config_def)
  have b: "BearerToken [''Bearer '' @ sample_hmac_token] = Some sample_hmac_token" by code_simp
  have "case parse_header sample_hmac_token [HS256] of Inl _ \<Rightarrow> False | Inr _ \<Rightarrow> True" by code_simp
  then obtain h input payload sig where p: "parse_header sample_hmac_token [HS256] = Inr (h, input, payload, sig)"
    by (auto split: sum.splits)
  have cfg: "pc_verifierProvider ?cfg = None" "withoutNone (pc_allowedAlgs ?cfg) = [HS256]" by code_simp+
  have l: "fetcher_Lookup sample_fetch_config 5 6 7 (Inl [ErrKeyFetch]) (snd (NewKeyFetcher ''u'' [])) (h_KeyID h) = Inl [ErrKeyFetch]"
    by (simp add: fetcher_Lookup_def Lookup_enter_def NewKeyFetcher_def mayAttemptAt_def startFlightLocked_def flight_finish_def
        Lookup_resume_def fallbackLocked_def lookupOrErr_def Let_def)
  show ?thesis
    using key_outage_answers_503 [OF run o b refl cfg(1) _ l, where u = id and c = sample_crypto and is_print = "\<lambda>_. True"] p o
    unfolding cfg(2) by blast
qed

end
